(* ===== verification/Prelude.thy ===== *)
theory Prelude
  imports Complex_Main "HOL-Library.Word" "HOL-Library.State_Monad" "HOL-Library.Monad_Syntax"
begin

text \<open>
  What every component shares: the type of Go errors, checked slices (an out-of-range slice
  expression of the source is a run-time panic, here the value None), and a small calculus of
  frame and invariant rules for code written in the state monad.
\<close>

section \<open>Types\<close>

type_synonym bytes = string

text \<open>
  A Go error value. \<open>ErrNotFound\<close> is \<open>sql.ErrNoRows\<close> (store/store.go names it so);
  \<open>PgError\<close> carries the SQLSTATE of a failure the database reports; \<open>Msg\<close> is
  \<open>errors.New\<close> or \<open>fmt.Errorf\<close> without arguments; \<open>Fmt\<close> is \<open>fmt.Errorf\<close> with its format and its
  arguments, kept unformatted; \<open>Wrap\<close> is \<open>fmt.Errorf\<close> with \<open>%w\<close>.
\<close>

datatype goerr =
    ErrNotFound
  | PgError string
  | Msg string
  | Fmt string "string list"
  | Wrap string goerr

text \<open>\<open>errors.Is(err, target)\<close> follows the wrapping chain; \<open>err == target\<close> does not.\<close>

fun errors_Is :: "goerr \<Rightarrow> goerr \<Rightarrow> bool" where
  "errors_Is (Wrap m e) t = (Wrap m e = t \<or> errors_Is e t)"
| "errors_Is e t = (e = t)"

text \<open>\<open>errors.As(err, &pgErr)\<close>: the SQLSTATE of the first database error of the chain.\<close>

fun errors_As_pg :: "goerr \<Rightarrow> string option" where
  "errors_As_pg (PgError c) = Some c"
| "errors_As_pg (Wrap m e) = errors_As_pg e"
| "errors_As_pg ErrNotFound = None"
| "errors_As_pg (Msg m) = None"
| "errors_As_pg (Fmt f as) = None"

type_synonym 'a result = "goerr + 'a"

text \<open>\<open>xs[lo:hi]\<close>: None where Go panics.\<close>

definition slice :: "'a list \<Rightarrow> nat \<Rightarrow> nat \<Rightarrow> 'a list option" where
  "slice xs lo hi = (if lo \<le> hi \<and> hi \<le> length xs then Some (take (hi - lo) (drop lo xs)) else None)"

lemma slice_Some [simp]: "lo \<le> hi \<Longrightarrow> hi \<le> length xs \<Longrightarrow> slice xs lo hi = Some (take (hi - lo) (drop lo xs))"
  by (simp add: slice_def)

lemma slice_length: "slice xs lo hi = Some ys \<Longrightarrow> length ys = hi - lo"
  by (auto simp: slice_def split: if_splits)

lemma slice_append_left [simp]: "hi \<le> length xs \<Longrightarrow> slice (xs @ ys) lo hi = slice xs lo hi"
  by (auto simp: slice_def)

section \<open>Frame and invariant rules\<close>

named_theorems keeps_intros \<open>introduction rules that decompose a frame goal along a monadic program\<close>
named_theorems inv_intros \<open>introduction rules that decompose an invariant goal along a monadic program\<close>

abbreviation ret :: "'a \<Rightarrow> ('s, 'a) state" where
  "ret \<equiv> State_Monad.return"

text \<open>\<open>keeps f m\<close>: running \<open>m\<close> never changes what the observer \<open>f\<close> sees of the state.\<close>

definition keeps :: "('s \<Rightarrow> 'b) \<Rightarrow> ('s, 'a) state \<Rightarrow> bool" where
  "keeps f m \<longleftrightarrow> (\<forall>s. f (snd (run_state m s)) = f s)"

text \<open>\<open>preserves P m\<close>: running \<open>m\<close> takes states where \<open>P\<close> holds to states where it holds.\<close>

definition preserves :: "('s \<Rightarrow> bool) \<Rightarrow> ('s, 'a) state \<Rightarrow> bool" where
  "preserves P m \<longleftrightarrow> (\<forall>s. P s \<longrightarrow> P (snd (run_state m s)))"

lemma keepsD: "keeps f m \<Longrightarrow> f (snd (run_state m s)) = f s"
  by (simp add: keeps_def)

lemma keepsD_eq: "keeps f m \<Longrightarrow> run_state m s = (a, s') \<Longrightarrow> f s' = f s"
  using keepsD [of f m s] by simp

lemma preservesD: "preserves P m \<Longrightarrow> P s \<Longrightarrow> P (snd (run_state m s))"
  by (simp add: preserves_def)

lemma preservesD_eq: "preserves P m \<Longrightarrow> P s \<Longrightarrow> run_state m s = (a, s') \<Longrightarrow> P s'"
  using preservesD [of P m s] by simp

lemma keeps_return [keeps_intros]: "keeps f (ret x)"
  by (simp add: keeps_def)

lemma keeps_get [keeps_intros]: "keeps f State_Monad.get"
  by (simp add: keeps_def)

lemma keeps_bind [keeps_intros]:
  "keeps f m \<Longrightarrow> (\<And>x. keeps f (k x)) \<Longrightarrow> keeps f (State_Monad.bind m k)"
  by (simp add: keeps_def split: prod.split) (metis snd_conv)

lemma keeps_if [keeps_intros]:
  "(b \<Longrightarrow> keeps f m) \<Longrightarrow> (\<not> b \<Longrightarrow> keeps f n) \<Longrightarrow> keeps f (if b then m else n)"
  by simp

lemma keeps_case_sum [keeps_intros]:
  "(\<And>e. r = Inl e \<Longrightarrow> keeps f (m e)) \<Longrightarrow> (\<And>x. r = Inr x \<Longrightarrow> keeps f (n x)) \<Longrightarrow>
    keeps f (case r of Inl e \<Rightarrow> m e | Inr x \<Rightarrow> n x)"
  by (cases r) auto

lemma keeps_case_option [keeps_intros]:
  "(r = None \<Longrightarrow> keeps f m) \<Longrightarrow> (\<And>x. r = Some x \<Longrightarrow> keeps f (n x)) \<Longrightarrow>
    keeps f (case r of None \<Rightarrow> m | Some x \<Rightarrow> n x)"
  by (cases r) auto

lemma keeps_case_prod [keeps_intros]:
  "(\<And>x y. r = (x, y) \<Longrightarrow> keeps f (m x y)) \<Longrightarrow> keeps f (case r of (x, y) \<Rightarrow> m x y)"
  by (cases r) auto

lemma keeps_case_list [keeps_intros]:
  "(r = [] \<Longrightarrow> keeps f m) \<Longrightarrow> (\<And>x xs. r = x # xs \<Longrightarrow> keeps f (n x xs)) \<Longrightarrow>
    keeps f (case r of [] \<Rightarrow> m | x # xs \<Rightarrow> n x xs)"
  by (cases r) auto

lemma keeps_Let [keeps_intros]: "keeps f (m x) \<Longrightarrow> keeps f (let y = x in m y)"
  by simp

lemma preserves_return [inv_intros]: "preserves P (ret x)"
  by (simp add: preserves_def)

lemma preserves_get [inv_intros]: "preserves P State_Monad.get"
  by (simp add: preserves_def)

lemma preserves_bind [inv_intros]:
  "preserves P m \<Longrightarrow> (\<And>x. preserves P (k x)) \<Longrightarrow> preserves P (State_Monad.bind m k)"
  by (simp add: preserves_def split: prod.split) (metis snd_conv)

lemma preserves_if [inv_intros]:
  "(b \<Longrightarrow> preserves P m) \<Longrightarrow> (\<not> b \<Longrightarrow> preserves P n) \<Longrightarrow> preserves P (if b then m else n)"
  by simp

lemma preserves_case_sum [inv_intros]:
  "(\<And>e. r = Inl e \<Longrightarrow> preserves P (m e)) \<Longrightarrow> (\<And>x. r = Inr x \<Longrightarrow> preserves P (n x)) \<Longrightarrow>
    preserves P (case r of Inl e \<Rightarrow> m e | Inr x \<Rightarrow> n x)"
  by (cases r) auto

lemma preserves_case_option [inv_intros]:
  "(r = None \<Longrightarrow> preserves P m) \<Longrightarrow> (\<And>x. r = Some x \<Longrightarrow> preserves P (n x)) \<Longrightarrow>
    preserves P (case r of None \<Rightarrow> m | Some x \<Rightarrow> n x)"
  by (cases r) auto

lemma preserves_case_prod [inv_intros]:
  "(\<And>x y. r = (x, y) \<Longrightarrow> preserves P (m x y)) \<Longrightarrow> preserves P (case r of (x, y) \<Rightarrow> m x y)"
  by (cases r) auto

lemma preserves_case_list [inv_intros]:
  "(r = [] \<Longrightarrow> preserves P m) \<Longrightarrow> (\<And>x xs. r = x # xs \<Longrightarrow> preserves P (n x xs)) \<Longrightarrow>
    preserves P (case r of [] \<Rightarrow> m | x # xs \<Rightarrow> n x xs)"
  by (cases r) auto

lemma preserves_Let [inv_intros]: "preserves P (m x) \<Longrightarrow> preserves P (let y = x in m y)"
  by simp

lemma preserves_conj: "preserves P m \<Longrightarrow> preserves Q m \<Longrightarrow> preserves (\<lambda>s. P s \<and> Q s) m"
  by (simp add: preserves_def)

lemma keeps_imp_preserves: "keeps f m \<Longrightarrow> preserves (\<lambda>s. P (f s)) m"
  by (simp add: keeps_def preserves_def)

section \<open>Lists\<close>

lemma find_append: "List.find P (xs @ ys) = (case List.find P xs of Some x \<Rightarrow> Some x | None \<Rightarrow> List.find P ys)"
  by (induction xs) auto

lemma find_SomeD: "List.find P xs = Some x \<Longrightarrow> P x \<and> x \<in> set xs"
  by (induction xs) (auto split: if_splits)

lemma find_None_iff_ball: "List.find P xs = None \<longleftrightarrow> (\<forall>x \<in> set xs. \<not> P x)"
  by (induction xs) auto

lemma find_unique:
  "x \<in> set xs \<Longrightarrow> P x \<Longrightarrow> (\<And>y. y \<in> set xs \<Longrightarrow> P y \<Longrightarrow> y = x) \<Longrightarrow> List.find P xs = Some x"
proof (induction xs)
  case Nil
  then show ?case by simp
next
  case (Cons a xs)
  show ?case
  proof (cases "P a")
    case True
    with Cons.prems(3) [of a] show ?thesis by simp
  next
    case False
    with Cons.prems(1,2) have "x \<in> set xs" by auto
    moreover have "y = x" if "y \<in> set xs" and "P y" for y
      using Cons.prems(3) [of y] that by simp
    ultimately have "List.find P xs = Some x" by (rule Cons.IH [OF _ Cons.prems(2)])
    with False show ?thesis by simp
  qed
qed

lemma find_cong: "(\<And>x. x \<in> set xs \<Longrightarrow> P x = Q x) \<Longrightarrow> List.find P xs = List.find Q xs"
  by (induction xs) auto

end
