(* ===== verification/GoText.thy ===== *)
theory GoText
  imports Prelude
begin

text \<open>
  The part of Go's string handling the program uses, over byte strings: decimal formatting and
  \<open>strconv\<close> parsing, UTF-8 decoding and encoding as in \<open>unicode/utf8\<close>, and the functions of
  package \<open>strings\<close>. A Go string is a sequence of bytes; a \<open>for range\<close> loop over it visits
  runes, an invalid byte being visited as U+FFFD of width 1.
\<close>

section \<open>Bytes and ASCII\<close>

abbreviation byte :: "char \<Rightarrow> nat" where
  "byte c \<equiv> of_char c"

lemma byte_lt_256 [simp]: "byte c < 256"
  by simp

lemma byte_eq_iff: "byte a = byte b \<longleftrightarrow> a = b"
  by simp

definition is_digit :: "char \<Rightarrow> bool" where
  "is_digit c \<longleftrightarrow> 48 \<le> byte c \<and> byte c \<le> 57"

definition digit_val :: "char \<Rightarrow> nat" where
  "digit_val c = byte c - 48"

definition digit_char :: "nat \<Rightarrow> char" where
  "digit_char d = ''0123456789'' ! d"

lemma less_10_cases: "d < 10 \<Longrightarrow> d = 0 \<or> d = 1 \<or> d = 2 \<or> d = 3 \<or> d = 4 \<or> d = 5 \<or> d = 6 \<or> d = 7 \<or> d = 8 \<or> d = (9::nat)"
  by arith

lemma is_digit_digit_char [simp]: "d < 10 \<Longrightarrow> is_digit (digit_char d)"
  by (drule less_10_cases) (auto simp: digit_char_def is_digit_def)

lemma digit_val_digit_char [simp]: "d < 10 \<Longrightarrow> digit_val (digit_char d) = d"
  by (drule less_10_cases) (auto simp: digit_char_def digit_val_def)

section \<open>Decimal numbers\<close>

text \<open>\<open>%d\<close> of a non-negative integer.\<close>

fun itoa :: "nat \<Rightarrow> string" where
  "itoa n = (if n < 10 then [digit_char n] else itoa (n div 10) @ [digit_char (n mod 10)])"

declare itoa.simps [simp del]

definition itoa_int :: "int \<Rightarrow> string" where
  "itoa_int i = (if i < 0 then CHR ''-'' # itoa (nat (- i)) else itoa (nat i))"

definition digits_val :: "string \<Rightarrow> nat" where
  "digits_val s = foldl (\<lambda>n c. n * 10 + digit_val c) 0 s"

lemma digits_val_snoc [simp]: "digits_val (s @ [c]) = digits_val s * 10 + digit_val c"
  by (simp add: digits_val_def)

lemma digits_val_Nil [simp]: "digits_val [] = 0"
  by (simp add: digits_val_def)

lemma itoa_digits: "c \<in> set (itoa n) \<Longrightarrow> is_digit c"
proof (induction n rule: itoa.induct)
  case (1 n)
  show ?case
  proof (cases "n < 10")
    case True
    with "1.prems" show ?thesis by (simp add: itoa.simps [of n])
  next
    case False
    with "1.prems" have "c \<in> set (itoa (n div 10)) \<or> c = digit_char (n mod 10)"
      by (simp add: itoa.simps [of n]) blast
    with "1.IH" [OF False] show ?thesis by auto
  qed
qed

lemma itoa_not_Nil [simp]: "itoa n \<noteq> []"
  by (subst itoa.simps) simp

lemma digits_val_itoa [simp]: "digits_val (itoa n) = n"
proof (induction n rule: itoa.induct)
  case (1 n)
  show ?case
  proof (cases "n < 10")
    case True
    then show ?thesis by (simp add: itoa.simps [of n] digits_val_def)
  next
    case False
    with "1.IH" [OF False] show ?thesis by (simp add: itoa.simps [of n])
  qed
qed

lemma itoa_inject [simp]: "itoa m = itoa n \<longleftrightarrow> m = n"
  by (metis digits_val_itoa)

text \<open>
  \<open>strconv.ParseInt(s, 10, 64)\<close> and \<open>strconv.Atoi\<close> (an \<open>int\<close> is 64 bits here): an optional
  sign, at least one digit, no other byte, a value in range. None is the error return.
\<close>

definition parse_uint :: "string \<Rightarrow> nat option" where
  "parse_uint s = (if s \<noteq> [] \<and> list_all is_digit s then Some (digits_val s) else None)"

definition ParseInt64 :: "string \<Rightarrow> int option" where
  "ParseInt64 s =
     (case s of
        [] \<Rightarrow> None
      | c # t \<Rightarrow>
          (if c = CHR ''-'' then
             (case parse_uint t of None \<Rightarrow> None
              | Some n \<Rightarrow> if n \<le> 2 ^ 63 then Some (- int n) else None)
           else
             (case parse_uint (if c = CHR ''+'' then t else s) of None \<Rightarrow> None
              | Some n \<Rightarrow> if n < 2 ^ 63 then Some (int n) else None)))"

abbreviation Atoi :: "string \<Rightarrow> int option" where
  "Atoi \<equiv> ParseInt64"

lemma parse_uint_itoa [simp]: "parse_uint (itoa n) = Some n"
  by (simp add: parse_uint_def list_all_iff) (blast intro: itoa_digits)

lemma itoa_head: "itoa n = c # t \<Longrightarrow> c \<noteq> CHR ''-'' \<and> c \<noteq> CHR ''+''"
  using itoa_digits [of c n] by (auto simp: is_digit_def)

lemma ParseInt64_itoa_int:
  assumes "- (2 ^ 63) \<le> i" and "i < 2 ^ 63"
  shows "ParseInt64 (itoa_int i) = Some i"
proof (cases "i < 0")
  case True
  then have "nat (- i) \<le> 2 ^ 63" using assms(1) by simp
  with True show ?thesis by (simp add: ParseInt64_def itoa_int_def)
next
  case False
  obtain c t where ct: "itoa (nat i) = c # t" by (cases "itoa (nat i)") auto
  have p: "parse_uint (c # t) = Some (nat i)" using parse_uint_itoa [of "nat i"] ct by simp
  have "nat i < 2 ^ 63" using assms(2) False by simp
  with False ct p itoa_head [OF ct] show ?thesis by (simp add: ParseInt64_def itoa_int_def)
qed

lemma itoa_int_inject: "itoa_int i = itoa_int j \<longleftrightarrow> i = j"
proof -
  have m: "itoa n \<noteq> CHR ''-'' # t" for n t using itoa_head [of n] by blast
  show ?thesis
    using m [of "nat i"] m [of "nat j", symmetric]
    by (auto simp: itoa_int_def split: if_splits)
qed

text \<open>Lower-case hexadecimal, as \<open>hex.EncodeToString\<close> and \<open>%02x\<close> print a byte.\<close>

definition hex_digit :: "nat \<Rightarrow> char" where
  "hex_digit d = ''0123456789abcdef'' ! d"

definition hex_byte :: "char \<Rightarrow> string" where
  "hex_byte c = [hex_digit (byte c div 16), hex_digit (byte c mod 16)]"

definition hex_encode :: "bytes \<Rightarrow> string" where
  "hex_encode b = concat (map hex_byte b)"

lemma length_hex_encode [simp]: "length (hex_encode b) = 2 * length b"
  by (induction b) (auto simp: hex_encode_def hex_byte_def)

section \<open>UTF-8\<close>

definition RuneError :: nat where
  "RuneError = 65533"

definition is_cont :: "char \<Rightarrow> bool" where
  "is_cont c \<longleftrightarrow> 128 \<le> byte c \<and> byte c \<le> 191"

text \<open>
  \<open>utf8.DecodeRune\<close>: the first rune and its width. The second byte of a three- or four-byte
  sequence has a narrower range after E0, ED, F0 and F4 (no overlong form, no surrogate, no
  rune above 10FFFF).
\<close>

definition second_ok :: "nat \<Rightarrow> char \<Rightarrow> bool" where
  "second_ok x b \<longleftrightarrow>
     (if x = 224 then 160 else if x = 240 then 144 else 128) \<le> byte b \<and>
     byte b \<le> (if x = 237 then 159 else if x = 244 then 143 else 191)"

fun decode_rune :: "string \<Rightarrow> nat \<times> nat" where
  "decode_rune [] = (RuneError, 0)"
| "decode_rune (a # s) =
     (let x = byte a in
      if x < 128 then (x, 1)
      else if 194 \<le> x \<and> x \<le> 223 then
        (case s of
           b # _ \<Rightarrow> if is_cont b then ((x - 192) * 64 + (byte b - 128), 2) else (RuneError, 1)
         | _ \<Rightarrow> (RuneError, 1))
      else if 224 \<le> x \<and> x \<le> 239 then
        (case s of
           b # c # _ \<Rightarrow>
             if second_ok x b \<and> is_cont c
             then ((x - 224) * 4096 + (byte b - 128) * 64 + (byte c - 128), 3)
             else (RuneError, 1)
         | _ \<Rightarrow> (RuneError, 1))
      else if 240 \<le> x \<and> x \<le> 244 then
        (case s of
           b # c # d # _ \<Rightarrow>
             if second_ok x b \<and> is_cont c \<and> is_cont d
             then ((x - 240) * 262144 + (byte b - 128) * 4096 + (byte c - 128) * 64 + (byte d - 128), 4)
             else (RuneError, 1)
         | _ \<Rightarrow> (RuneError, 1))
      else (RuneError, 1))"

declare decode_rune.simps [simp del]

lemma decode_rune_size: "s \<noteq> [] \<Longrightarrow> 1 \<le> snd (decode_rune s) \<and> snd (decode_rune s) \<le> length s"
  by (cases s) (auto simp: decode_rune.simps Let_def split: list.splits)

lemma decode_rune_shorter: "s \<noteq> [] \<Longrightarrow> (r, n) = decode_rune s \<Longrightarrow> length s - n < length s"
  using decode_rune_size [of s] by (metis diff_less length_greater_0_conv less_le_trans less_numeral_extra(1) snd_conv)

text \<open>The chunks a \<open>for range\<close> loop visits: each rune with the bytes it was decoded from.\<close>

function rune_chunks :: "string \<Rightarrow> (nat \<times> string) list" where
  "rune_chunks s =
     (if s = [] then []
      else (case decode_rune s of (r, n) \<Rightarrow> (r, take n s) # rune_chunks (drop n s)))"
  by pat_completeness auto
termination
  by (relation "measure length") (auto dest: decode_rune_shorter)

declare rune_chunks.simps [simp del]

definition runes :: "string \<Rightarrow> nat list" where
  "runes s = map fst (rune_chunks s)"

definition valid_utf8 :: "string \<Rightarrow> bool" where
  "valid_utf8 s \<longleftrightarrow> list_all (\<lambda>(r, b). \<not> (r = RuneError \<and> length b = 1)) (rune_chunks s)"

lemma rune_chunks_Nil [simp]: "rune_chunks [] = []"
  by (simp add: rune_chunks.simps)

lemma rune_chunks_concat: "concat (map snd (rune_chunks s)) = s"
proof (induction s rule: rune_chunks.induct)
  case (1 s)
  show ?case
  proof (cases "s = []")
    case False
    obtain r n where rn: "decode_rune s = (r, n)" by (cases "decode_rune s")
    have "concat (map snd (rune_chunks (drop n s))) = drop n s"
      using "1.IH" [OF False] rn by simp
    with False rn show ?thesis by (simp add: rune_chunks.simps [of s])
  qed simp
qed

text \<open>
  \<open>utf8.AppendRune\<close> and \<open>strings.Builder.WriteRune\<close>: a surrogate or a value above 10FFFF is
  written as U+FFFD.
\<close>

definition encode_rune :: "nat \<Rightarrow> string" where
  "encode_rune r0 =
     (let r = (if 1114111 < r0 \<or> (55296 \<le> r0 \<and> r0 \<le> 57343) then RuneError else r0) in
      if r < 128 then [char_of r]
      else if r < 2048 then [char_of (192 + r div 64), char_of (128 + r mod 64)]
      else if r < 65536 then
        [char_of (224 + r div 4096), char_of (128 + r div 64 mod 64), char_of (128 + r mod 64)]
      else
        [char_of (240 + r div 262144), char_of (128 + r div 4096 mod 64),
         char_of (128 + r div 64 mod 64), char_of (128 + r mod 64)])"

lemma two_byte_arith:
  assumes "194 \<le> x" "x \<le> 223" "128 \<le> y" "y \<le> (191::nat)"
  shows "(x - 192) * 64 + (y - 128) < 2048" and "128 \<le> (x - 192) * 64 + (y - 128)"
    and "192 + ((x - 192) * 64 + (y - 128)) div 64 = x"
    and "128 + ((x - 192) * 64 + (y - 128)) mod 64 = y"
proof -
  define p q where "p = x - 192" and "q = y - 128"
  have x: "x = p + 192" and y: "y = q + 128" and b: "2 \<le> p" "p \<le> 31" "q < 64"
    using assms by (auto simp: p_def q_def)
  show "(x - 192) * 64 + (y - 128) < 2048" "128 \<le> (x - 192) * 64 + (y - 128)"
    "192 + ((x - 192) * 64 + (y - 128)) div 64 = x" "128 + ((x - 192) * 64 + (y - 128)) mod 64 = y"
    using b by (auto simp: x y)
qed

lemma three_byte_div:
  assumes "q < 64" "t < (64::nat)"
  shows "(p * 4096 + q * 64 + t) div 4096 = p"
    and "(p * 4096 + q * 64 + t) div 64 mod 64 = q"
    and "(p * 4096 + q * 64 + t) mod 64 = t"
proof -
  have e: "p * 4096 + q * 64 + t = (p * 64 + q) * 64 + t" by simp
  have d: "(p * 4096 + q * 64 + t) div 64 = p * 64 + q"
    using assms by (simp only: e) simp
  show "(p * 4096 + q * 64 + t) div 64 mod 64 = q" using assms by (simp only: d) simp
  show "(p * 4096 + q * 64 + t) mod 64 = t"
    using assms by (subst e, subst mod_mult_self3) simp
  have "(p * 4096 + q * 64 + t) div 4096 = (p * 4096 + q * 64 + t) div 64 div 64"
    by (simp add: div_mult2_eq [symmetric])
  also have "\<dots> = p" using assms by (simp add: d)
  finally show "(p * 4096 + q * 64 + t) div 4096 = p" .
qed

lemma four_byte_div:
  assumes "q < 64" "t < 64" "u < (64::nat)"
  shows "(p * 262144 + q * 4096 + t * 64 + u) div 262144 = p"
    and "(p * 262144 + q * 4096 + t * 64 + u) div 4096 mod 64 = q"
    and "(p * 262144 + q * 4096 + t * 64 + u) div 64 mod 64 = t"
    and "(p * 262144 + q * 4096 + t * 64 + u) mod 64 = u"
proof -
  have e: "p * 262144 + q * 4096 + t * 64 + u = (p * 64 + q) * 4096 + t * 64 + u" by simp
  note d = three_byte_div [OF assms(2,3), of "p * 64 + q"]
  have "(p * 64 + q) mod 64 = q" using assms by (subst mod_mult_self3) simp
  then show "(p * 262144 + q * 4096 + t * 64 + u) div 4096 mod 64 = q" by (simp only: e d)
  show "(p * 262144 + q * 4096 + t * 64 + u) div 64 mod 64 = t" by (simp only: e d)
  show "(p * 262144 + q * 4096 + t * 64 + u) mod 64 = u" by (simp only: e d)
  have "(p * 262144 + q * 4096 + t * 64 + u) div 262144 = (p * 262144 + q * 4096 + t * 64 + u) div 4096 div 64"
    by (simp add: div_mult2_eq [symmetric])
  also have "\<dots> = (p * 64 + q) div 64" by (simp only: e d)
  also have "\<dots> = p" using assms by simp
  finally show "(p * 262144 + q * 4096 + t * 64 + u) div 262144 = p" .
qed

lemma char_of_byte: "n = byte c \<Longrightarrow> char_of n = c"
  by simp

lemma encode_two:
  assumes "194 \<le> byte a" "byte a \<le> 223" "is_cont b"
  shows "encode_rune ((byte a - 192) * 64 + (byte b - 128)) = [a, b]"
proof -
  have b: "128 \<le> byte b" "byte b \<le> 191" using assms(3) by (auto simp: is_cont_def)
  note ar = two_byte_arith [OF assms(1,2) b]
  have c1: "char_of (192 + ((byte a - 192) * 64 + (byte b - 128)) div 64) = a" by (simp only: ar(3) char_of_char)
  have c2: "char_of (128 + ((byte a - 192) * 64 + (byte b - 128)) mod 64) = b" by (simp only: ar(4) char_of_char)
  show ?thesis using ar(1,2) c1 c2 unfolding encode_rune_def Let_def by simp
qed

lemma encode_three:
  assumes x: "224 \<le> byte a" "byte a \<le> 239" and b: "second_ok (byte a) b" and c: "is_cont c"
  shows "encode_rune ((byte a - 224) * 4096 + (byte b - 128) * 64 + (byte c - 128)) = [a, b, c]"
proof -
  define p q t where "p = byte a - 224" and "q = byte b - 128" and "t = byte c - 128"
  have cb: "128 \<le> byte b" "byte b \<le> 191" "128 \<le> byte c" "byte c \<le> 191"
    using b c by (auto simp: second_ok_def is_cont_def split: if_splits)
  have e: "byte a = 224 + p" "byte b = 128 + q" "byte c = 128 + t" and lt: "p < 16" "q < 64" "t < 64"
    using x cb by (auto simp: p_def q_def t_def)
  let ?r = "p * 4096 + q * 64 + t"
  note d = three_byte_div [OF lt(2,3), of p]
  have lo: "2048 \<le> ?r" and hi: "?r < 65536" and sur: "\<not> (55296 \<le> ?r \<and> ?r \<le> 57343)"
    using b x lt unfolding second_ok_def e by (auto split: if_splits)
  have "encode_rune ?r = [char_of (224 + p), char_of (128 + q), char_of (128 + t)]"
  proof -
    have "\<not> (1114111 < ?r \<or> (55296 \<le> ?r \<and> ?r \<le> 57343))" "\<not> ?r < 128" "\<not> ?r < 2048"
      using lo hi sur by linarith+
    then show ?thesis using hi by (simp only: encode_rune_def Let_def d if_False if_True)
  qed
  then show ?thesis by (simp only: p_def [symmetric] q_def [symmetric] t_def [symmetric] e [symmetric] char_of_char)
qed

lemma encode_four:
  assumes x: "240 \<le> byte a" "byte a \<le> 244" and b: "second_ok (byte a) b" and c: "is_cont c" "is_cont d"
  shows "encode_rune ((byte a - 240) * 262144 + (byte b - 128) * 4096 + (byte c - 128) * 64 + (byte d - 128)) = [a, b, c, d]"
proof -
  define p q t u where "p = byte a - 240" and "q = byte b - 128" and "t = byte c - 128" and "u = byte d - 128"
  have cb: "128 \<le> byte b" "byte b \<le> 191" "128 \<le> byte c" "byte c \<le> 191" "128 \<le> byte d" "byte d \<le> 191"
    using b c by (auto simp: second_ok_def is_cont_def split: if_splits)
  have e: "byte a = 240 + p" "byte b = 128 + q" "byte c = 128 + t" "byte d = 128 + u"
    and lt: "p \<le> 4" "q < 64" "t < 64" "u < 64"
    using x cb by (auto simp: p_def q_def t_def u_def)
  let ?r = "p * 262144 + q * 4096 + t * 64 + u"
  note dv = four_byte_div [OF lt(2,3,4), of p]
  have lo: "65536 \<le> ?r" and hi: "?r \<le> 1114111"
    using b x lt unfolding second_ok_def e by (auto split: if_splits)
  have "encode_rune ?r = [char_of (240 + p), char_of (128 + q), char_of (128 + t), char_of (128 + u)]"
  proof -
    have "\<not> (1114111 < ?r \<or> (55296 \<le> ?r \<and> ?r \<le> 57343))" "\<not> ?r < 128" "\<not> ?r < 2048" "\<not> ?r < 65536"
      using lo hi by linarith+
    then show ?thesis by (simp only: encode_rune_def Let_def dv if_False)
  qed
  then show ?thesis
    by (simp only: p_def [symmetric] q_def [symmetric] t_def [symmetric] u_def [symmetric] e [symmetric] char_of_char)
qed

text \<open>Writing a validly decoded rune back yields the bytes it was read from.\<close>

lemma encode_decode:
  assumes "s \<noteq> []" and "decode_rune s = (r, n)" and "\<not> (r = RuneError \<and> n = 1)"
  shows "encode_rune r = take n s"
proof -
  obtain a t where s: "s = a # t" using assms(1) by (cases s) auto
  have one: "encode_rune (byte a) = [a]" if "byte a < 128" using that by (simp add: encode_rune_def Let_def)
  show ?thesis using assms(2,3) unfolding s
    by (auto simp: decode_rune.simps Let_def encode_two encode_three encode_four one
        split: if_splits list.splits)
qed

lemma valid_utf8_reencode: "valid_utf8 s \<Longrightarrow> concat (map encode_rune (runes s)) = s"
proof (induction s rule: rune_chunks.induct)
  case (1 s)
  show ?case
  proof (cases "s = []")
    case True
    then show ?thesis by (simp add: runes_def)
  next
    case False
    obtain r n where rn: "decode_rune s = (r, n)" by (cases "decode_rune s")
    have ch: "rune_chunks s = (r, take n s) # rune_chunks (drop n s)"
      using False rn by (simp add: rune_chunks.simps [of s])
    have len: "1 \<le> n" "n \<le> length s" using decode_rune_size [OF False] rn by auto
    have v: "\<not> (r = RuneError \<and> n = 1)" "valid_utf8 (drop n s)"
      using "1.prems" len unfolding valid_utf8_def ch by (auto simp del: length_take simp: length_take [of n s] min_absorb2)
    have "concat (map encode_rune (runes (drop n s))) = drop n s"
      using "1.IH" [OF False] rn v(2) by simp
    with encode_decode [OF False rn v(1)] show ?thesis by (simp add: runes_def ch)
  qed
qed

section \<open>Package strings\<close>

definition HasPrefix :: "string \<Rightarrow> string \<Rightarrow> bool" where
  "HasPrefix s p \<longleftrightarrow> take (length p) s = p"

definition HasSuffix :: "string \<Rightarrow> string \<Rightarrow> bool" where
  "HasSuffix s p \<longleftrightarrow> length p \<le> length s \<and> drop (length s - length p) s = p"

definition TrimPrefix :: "string \<Rightarrow> string \<Rightarrow> string" where
  "TrimPrefix s p = (if HasPrefix s p then drop (length p) s else s)"

definition TrimSuffix :: "string \<Rightarrow> string \<Rightarrow> string" where
  "TrimSuffix s p = (if HasSuffix s p then take (length s - length p) s else s)"

definition TrimRight_char :: "char \<Rightarrow> string \<Rightarrow> string" where
  "TrimRight_char c s = rev (dropWhile (\<lambda>x. x = c) (rev s))"

definition Trim_char :: "char \<Rightarrow> string \<Rightarrow> string" where
  "Trim_char c s = TrimRight_char c (dropWhile (\<lambda>x. x = c) s)"

text \<open>\<open>strings.Split(s, sep)\<close> for a one-byte separator: never empty.\<close>

fun Split :: "char \<Rightarrow> string \<Rightarrow> string list" where
  "Split c [] = [[]]"
| "Split c (x # s) = (if x = c then [] # Split c s else (case Split c s of p # ps \<Rightarrow> (x # p) # ps | [] \<Rightarrow> [[x]]))"

fun Join :: "string \<Rightarrow> string list \<Rightarrow> string" where
  "Join sep [] = []"
| "Join sep [x] = x"
| "Join sep (x # y # ys) = x @ sep @ Join sep (y # ys)"

definition IndexByte :: "char \<Rightarrow> string \<Rightarrow> nat option" where
  "IndexByte c s = (if c \<in> set s then Some (length (takeWhile (\<lambda>x. x \<noteq> c) s)) else None)"

text \<open>The part of \<open>s\<close> after its last \<open>c\<close>, or \<open>s\<close> (the use made of \<open>strings.LastIndexByte\<close>).\<close>

definition after_last :: "char \<Rightarrow> string \<Rightarrow> string" where
  "after_last c s = rev (takeWhile (\<lambda>x. x \<noteq> c) (rev s))"

fun Contains :: "string \<Rightarrow> string \<Rightarrow> bool" where
  "Contains [] p = (p = [])"
| "Contains (x # s) p = (HasPrefix (x # s) p \<or> Contains s p)"

text \<open>\<open>unicode.IsSpace\<close> and \<open>strings.TrimSpace\<close>.\<close>

definition IsSpace :: "nat \<Rightarrow> bool" where
  "IsSpace r \<longleftrightarrow> r \<in> {9, 10, 11, 12, 13, 32, 133, 160, 5760, 8232, 8233, 8239, 8287, 12288} \<or> (8192 \<le> r \<and> r \<le> 8202)"

definition TrimSpace :: "string \<Rightarrow> string" where
  "TrimSpace s =
     concat (map snd (rev (dropWhile (\<lambda>(r, _). IsSpace r) (rev (dropWhile (\<lambda>(r, _). IsSpace r) (rune_chunks s))))))"

text \<open>
  The Unicode tables of the Go library beyond ASCII: case mapping and \<open>strconv.IsPrint\<close>. They are
  a parameter; no result below depends on which tables they are.
\<close>

record unicode =
  lowerTab :: "nat \<Rightarrow> nat"
  upperTab :: "nat \<Rightarrow> nat"
  printTab :: "nat \<Rightarrow> bool"

text \<open>\<open>strings.ToLower\<close> and \<open>strings.ToUpper\<close>, rune by rune.\<close>

definition lower_rune :: "unicode \<Rightarrow> nat \<Rightarrow> nat" where
  "lower_rune U r = (if r < 128 then (if 65 \<le> r \<and> r \<le> 90 then r + 32 else r) else lowerTab U r)"

definition upper_rune :: "unicode \<Rightarrow> nat \<Rightarrow> nat" where
  "upper_rune U r = (if r < 128 then (if 97 \<le> r \<and> r \<le> 122 then r - 32 else r) else upperTab U r)"

definition ToLower :: "unicode \<Rightarrow> string \<Rightarrow> string" where
  "ToLower U s = concat (map (\<lambda>r. encode_rune (lower_rune U r)) (runes s))"

definition ToUpper :: "unicode \<Rightarrow> string \<Rightarrow> string" where
  "ToUpper U s = concat (map (\<lambda>r. encode_rune (upper_rune U r)) (runes s))"

text \<open>\<open>strconv.Quote\<close>, the verb \<open>%q\<close>.\<close>

definition IsPrint :: "unicode \<Rightarrow> nat \<Rightarrow> bool" where
  "IsPrint U r = (if r < 128 then 32 \<le> r \<and> r < 127 else printTab U r)"

definition hex_digits :: "nat \<Rightarrow> nat \<Rightarrow> string" where
  "hex_digits n r = map (\<lambda>i. hex_digit (r div 16 ^ i mod 16)) (rev [0..<n])"

definition escape_rune :: "unicode \<Rightarrow> nat \<Rightarrow> string" where
  "escape_rune U r =
     (if r = 34 \<or> r = 92 then [CHR 0x5C, char_of r]
      else if IsPrint U r then encode_rune r
      else if 7 \<le> r \<and> r \<le> 13 then [CHR 0x5C, ''abtnvfr'' ! (r - 7)]
      else if r < 32 \<or> r = 127 then [CHR 0x5C, CHR ''x''] @ hex_digits 2 r
      else if r < 65536 then [CHR 0x5C, CHR ''u''] @ hex_digits 4 r
      else [CHR 0x5C, CHR ''U''] @ hex_digits 8 r)"

definition Quote :: "unicode \<Rightarrow> string \<Rightarrow> string" where
  "Quote U s =
     [CHR 0x22] @
     concat (map (\<lambda>(r, b). if r = RuneError \<and> length b = 1 then [CHR 0x5C, CHR ''x''] @ concat (map hex_byte b)
                           else escape_rune U r) (rune_chunks s)) @
     [CHR 0x22]"

text \<open>
  \<open>fmt.Sprintf\<close> with the verbs the program uses (\<open>%s\<close>, \<open>%d\<close>, \<open>%v\<close>, \<open>%q\<close>), numbers being
  passed as their decimal text, and the text of an error. A database error is represented by its
  SQLSTATE, so its text is that code.
\<close>

fun Sprintf :: "unicode \<Rightarrow> string \<Rightarrow> string list \<Rightarrow> string" where
  "Sprintf U [] as = []"
| "Sprintf U [c] as = [c]"
| "Sprintf U (c # v # f) as =
     (if c = CHR ''%'' then
        (case as of
           [] \<Rightarrow> ''%!'' @ v # ''(MISSING)'' @ Sprintf U f []
         | a # as' \<Rightarrow> (if v = CHR ''q'' then Quote U a else a) @ Sprintf U f as')
      else c # Sprintf U (v # f) as)"

fun errText :: "unicode \<Rightarrow> goerr \<Rightarrow> string" where
  "errText U ErrNotFound = ''sql: no rows in result set''"
| "errText U (PgError c) = c"
| "errText U (Msg m) = m"
| "errText U (Fmt f as) = Sprintf U f as"
| "errText U (Wrap m e) = m @ '': '' @ errText U e"

lemma Split_not_Nil [simp]: "Split c s \<noteq> []"
  by (induction s) (auto split: list.splits)

lemma Join_Split: "Join [c] (Split c s) = s"
proof (induction s)
  case Nil
  show ?case by simp
next
  case (Cons x s)
  obtain p ps where pp: "Split c s = p # ps" by (cases "Split c s") auto
  show ?case using Cons.IH pp by (cases ps) auto
qed

lemma Split_Join: "ls \<noteq> [] \<Longrightarrow> (\<And>l. l \<in> set ls \<Longrightarrow> c \<notin> set l) \<Longrightarrow> Split c (Join [c] ls) = ls"
proof (induction "[c]" ls rule: Join.induct)
  case 1
  then show ?case by simp
next
  case (2 x)
  have "c \<notin> set x" using "2.prems" by simp
  then show ?case by (induction x) (auto split: list.splits)
next
  case (3 x y ys)
  have IH: "Split c (Join [c] (y # ys)) = y # ys" using "3.hyps" "3.prems" by simp
  have "c \<notin> set x" using "3.prems" by simp
  then have "Split c (x @ [c] @ Join [c] (y # ys)) = x # Split c (Join [c] (y # ys))"
    by (induction x) auto
  with IH show ?case by simp
qed

lemma HasSuffix_append [simp]: "HasSuffix (s @ p) p"
  by (simp add: HasSuffix_def)

lemma HasSuffix_iff: "HasSuffix s p \<longleftrightarrow> (\<exists>t. s = t @ p)"
  unfolding HasSuffix_def
  by (metis HasSuffix_append HasSuffix_def append_take_drop_id)

lemma HasPrefix_iff: "HasPrefix s p \<longleftrightarrow> (\<exists>t. s = p @ t)"
  unfolding HasPrefix_def
  by (metis append_eq_conv_conj append_take_drop_id)

lemma HasPrefix_Nil [simp]: "HasPrefix s []"
  by (simp add: HasPrefix_def)

lemma HasSuffix_Nil [simp]: "HasSuffix s []"
  by (simp add: HasSuffix_def)

end
