(* ===== verification/Disasm.thy ===== *)
theory Disasm
  imports GoText
begin

text \<open>
  The bytecode decoder of the execution engine, server/internal/engine/disasm.go: the .fcb image
  header, the instruction table, the argument slices and their rendering for the user interface.
  Every slice expression of the source is a checked \<open>slice\<close>, so the outer option of
  \<open>disassemble\<close> is None exactly where the code would panic.
\<close>

section \<open>Little-endian fields\<close>

definition le16 :: "bytes \<Rightarrow> 16 word" where
  "le16 b = word_of_nat (byte (b ! 0) + 256 * byte (b ! 1))"

definition le32 :: "bytes \<Rightarrow> 32 word" where
  "le32 b = word_of_nat (byte (b ! 0) + 256 * byte (b ! 1) + 65536 * byte (b ! 2) + 16777216 * byte (b ! 3))"

definition put_le32 :: "32 word \<Rightarrow> bytes" where
  "put_le32 w = (let n = unat w in
     [char_of (n mod 256), char_of (n div 256 mod 256), char_of (n div 65536 mod 256), char_of (n div 16777216 mod 256)])"

lemma length_put_le32 [simp]: "length (put_le32 w) = 4"
  by (simp add: put_le32_def Let_def)

lemma base256_digits:
  "n < 4294967296 \<Longrightarrow>
    n mod 256 + 256 * (n div 256 mod 256) + 65536 * (n div 65536 mod 256) + 16777216 * (n div 16777216 mod 256) = (n::nat)"
proof -
  assume n: "n < 4294967296"
  define a b c where "a = n div 256" and "b = a div 256" and "c = b div 256"
  have d: "n div 65536 = b" "n div 16777216 = c"
    by (simp_all add: a_def b_def c_def div_mult2_eq [symmetric])
  have "c < 256" using n by (simp add: c_def b_def a_def div_mult2_eq [symmetric])
  then have c: "c mod 256 = c" by simp
  have "n = 256 * a + n mod 256" "a = 256 * b + a mod 256" "b = 256 * c + b mod 256"
    by (simp_all add: a_def b_def c_def)
  then have "n mod 256 + 256 * (a mod 256) + 65536 * (b mod 256) + 16777216 * c = n" by linarith
  then show ?thesis by (simp add: a_def [symmetric] d c)
qed

lemma le32_put_le32 [simp]: "le32 (put_le32 w @ rest) = w"
proof -
  have n: "unat w < 4294967296" using unsigned_less [of w] by simp
  have "le32 (put_le32 w @ rest) = word_of_nat (unat w mod 256 + 256 * (unat w div 256 mod 256) +
      65536 * (unat w div 65536 mod 256) + 16777216 * (unat w div 16777216 mod 256))"
    by (simp add: le32_def put_le32_def Let_def del: of_nat_add of_nat_mult)
  then show ?thesis by (simp only: base256_digits [OF n]) simp
qed

lemma le32_put_le32' [simp]: "le32 (put_le32 w) = w"
  using le32_put_le32 [of w "[]"] by simp

section \<open>Data\<close>

definition fcbMagic :: string where
  "fcbMagic = ''FCB1''"

definition fcbVersion :: nat where
  "fcbVersion = 1"

definition fcbHeaderSize :: nat where
  "fcbHeaderSize = 16"

definition fcbInstrSize :: nat where
  "fcbInstrSize = 9"

definition opcodeNames :: "nat \<Rightarrow> string option" where
  "opcodeNames = map_of [(1, ''EMIT''), (2, ''AWAIT''), (3, ''CALL''), (4, ''TRANSFORM''),
     (5, ''ROUTE''), (6, ''LOOP''), (7, ''STORE'')]"

definition isJumpOpcode :: "nat \<Rightarrow> bool" where
  "isJumpOpcode op \<longleftrightarrow> op = 5 \<or> op = 6"

record Instruction =
  Index :: nat
  Opcode :: string
  OpcodeHex :: string
  ArgOffset :: "32 word"
  ArgLength :: "32 word"
  Arg :: string
  Target :: "32 word option"

record Bytecode =
  Version :: nat
  InstructionCount :: nat
  ArgBlobSize :: nat
  SizeBytes :: nat
  Instructions :: "Instruction list"

datatype disasm_error =
    TruncatedHeader nat nat
  | BadMagic string string
  | UnsupportedVersion nat
  | TruncatedImage int nat

section \<open>Rendering an argument\<close>

text \<open>The head before the first NUL and the tail after it; with no NUL the tail is empty.\<close>

fun splitAtNUL :: "bytes \<Rightarrow> bytes \<times> bytes" where
  "splitAtNUL [] = ([], [])"
| "splitAtNUL (c # s) = (if byte c = 0 then ([], s) else (let (h, t) = splitAtNUL s in (c # h, t)))"

lemma splitAtNUL_tail_length: "splitAtNUL s = (h, t) \<Longrightarrow> length t \<le> length s"
  by (induction s arbitrary: h t) (auto split: if_splits prod.splits)

lemma splitAtNUL_shorter: "s \<noteq> [] \<Longrightarrow> splitAtNUL s = (h, t) \<Longrightarrow> length t < length s"
  by (cases s) (auto split: if_splits prod.splits dest: splitAtNUL_tail_length)

lemma splitAtNUL_two_shorter:
  "rest \<noteq> [] \<Longrightarrow> (k, rest1) = splitAtNUL rest \<Longrightarrow> (v, rest2) = splitAtNUL rest1 \<Longrightarrow> length rest2 < length rest"
  by (metis splitAtNUL_shorter splitAtNUL_tail_length le_less_trans)

function renderCallArgs :: "bytes \<Rightarrow> string \<Rightarrow> string" where
  "renderCallArgs rest out =
     (if rest = [] then out
      else (case splitAtNUL rest of (k, rest1) \<Rightarrow>
        if rest1 = [] \<and> k = [] then out
        else (case splitAtNUL rest1 of (v, rest2) \<Rightarrow> renderCallArgs rest2 (out @ '' '' @ k @ ''='' @ v))))"
  by pat_completeness auto
termination
  by (relation "measure (\<lambda>(rest, out). length rest)") (auto dest: splitAtNUL_two_shorter)

declare renderCallArgs.simps [simp del]

definition renderCallArg :: "bytes \<Rightarrow> string" where
  "renderCallArg payload = (case splitAtNUL payload of (name, rest) \<Rightarrow> renderCallArgs rest name)"

definition isPrintable :: "bytes \<Rightarrow> bool" where
  "isPrintable b \<longleftrightarrow> valid_utf8 b \<and> list_all (\<lambda>r. r = 9 \<or> r = 10 \<or> r = 13 \<or> \<not> (r < 32 \<or> r = 127)) (runes b)"

definition quote_rune :: "nat \<Rightarrow> string" where
  "quote_rune r =
     (if r = 34 then [CHR 0x5C, CHR 0x22]
      else if r = 92 then [CHR 0x5C, CHR 0x5C]
      else if r = 10 then [CHR 0x5C, CHR ''n'']
      else if r = 13 then [CHR 0x5C, CHR ''r'']
      else if r = 9 then [CHR 0x5C, CHR ''t'']
      else encode_rune r)"

definition quoteReadable :: "string \<Rightarrow> string" where
  "quoteReadable s = [CHR 0x22] @ concat (map quote_rune (runes s)) @ [CHR 0x22]"

section \<open>The decoder\<close>

text \<open>One iteration of the instruction loop. None is a panic.\<close>

definition decodeInstruction :: "bytes \<Rightarrow> bytes \<Rightarrow> 32 word \<Rightarrow> nat \<Rightarrow> Instruction option" where
  "decodeInstruction data argBlob argSize i = do {
     let off = fcbHeaderSize + i * fcbInstrSize;
     raw \<leftarrow> slice data off (off + fcbInstrSize);
     let op = byte (raw ! 0);
     offb \<leftarrow> slice raw 1 5;
     lenb \<leftarrow> slice raw 5 9;
     let argOffset = le32 offb;
     let argLength = le32 lenb;
     let name = (case opcodeNames op of Some n \<Rightarrow> n | None \<Rightarrow> ''UNKNOWN'');
     let ins = \<lparr>Index = i, Opcode = name, OpcodeHex = ''0x'' @ hex_byte (raw ! 0),
                ArgOffset = argOffset, ArgLength = argLength, Arg = [], Target = None\<rparr>;
     if (ucast argOffset + ucast argLength :: 64 word) > ucast argSize then
       Some (ins\<lparr>Arg := ''<out of bounds: offset '' @ itoa (unat argOffset) @ '' + length '' @
          itoa (unat argLength) @ '' exceeds blob size '' @ itoa (unat argSize) @ ''>''\<rparr>)
     else do {
       payload \<leftarrow> slice argBlob (unat argOffset) (unat (argOffset + argLength));
       if isJumpOpcode op \<and> argLength = 4 then
         Some (ins\<lparr>Target := Some (le32 payload), Arg := ''-> instruction '' @ itoa (unat (le32 payload))\<rparr>)
       else if argLength = 0 then Some ins
       else if op = 3 \<or> op = 4 then Some (ins\<lparr>Arg := renderCallArg payload\<rparr>)
       else if isPrintable payload then Some (ins\<lparr>Arg := quoteReadable payload\<rparr>)
       else Some (ins\<lparr>Arg := ''0x'' @ hex_encode payload\<rparr>)
     }
   }"

fun decodeInstructions :: "bytes \<Rightarrow> bytes \<Rightarrow> 32 word \<Rightarrow> nat list \<Rightarrow> Instruction list option" where
  "decodeInstructions data argBlob argSize [] = Some []"
| "decodeInstructions data argBlob argSize (i # is) = do {
     ins \<leftarrow> decodeInstruction data argBlob argSize i;
     rest \<leftarrow> decodeInstructions data argBlob argSize is;
     Some (ins # rest)
   }"

text \<open>The size the header declares, in \<open>int64\<close> arithmetic.\<close>

definition image_need :: "32 word \<Rightarrow> 32 word \<Rightarrow> 64 word" where
  "image_need instrCount argSize =
     word_of_nat fcbHeaderSize + ucast instrCount * word_of_nat fcbInstrSize + ucast argSize"

definition disassemble :: "bytes \<Rightarrow> (disasm_error + Bytecode) option" where
  "disassemble data =
     (if length data < fcbHeaderSize then Some (Inl (TruncatedHeader (length data) fcbHeaderSize))
      else do {
        magic \<leftarrow> slice data 0 4;
        if magic \<noteq> fcbMagic then Some (Inl (BadMagic magic fcbMagic))
        else do {
          vb \<leftarrow> slice data 4 6;
          let version = unat (le16 vb);
          if version \<noteq> fcbVersion then Some (Inl (UnsupportedVersion version))
          else do {
            cb \<leftarrow> slice data 8 12;
            ab \<leftarrow> slice data 12 16;
            let instrCount = le32 cb;
            let argSize = le32 ab;
            let need = image_need instrCount argSize;
            if sint need > int (length data)
            then Some (Inl (TruncatedImage (sint need) (length data)))
            else do {
              let argStart = fcbHeaderSize + unat instrCount * fcbInstrSize;
              argBlob \<leftarrow> slice data argStart (argStart + unat argSize);
              ins \<leftarrow> decodeInstructions data argBlob argSize [0..<unat instrCount];
              Some (Inr \<lparr>Version = version, InstructionCount = unat instrCount,
                ArgBlobSize = unat argSize, SizeBytes = length data, Instructions = ins\<rparr>)
            }
          }
        }
      })"

section \<open>Totality\<close>

text \<open>No wrap-around in the declared size: the signed 64-bit value is the mathematical one.\<close>

lemma sint_image_need: "sint (image_need c a) = 16 + 9 * int (unat c) + int (unat a)"
proof -
  have c: "unat c < 4294967296" and a: "unat a < 4294967296"
    using unsigned_less [of c] unsigned_less [of a] by simp_all
  have bnd: "int (16 + m * 9 + n) < 2 ^ 63" if "m < 4294967296" "n < 4294967296" for m n
    using that by simp
  have w: "word_of_nat (unat w) = (ucast w :: 64 word)" for w :: "32 word" by simp
  have "image_need c a = word_of_nat (16 + unat c * 9 + unat a)"
    by (simp add: image_need_def fcbHeaderSize_def fcbInstrSize_def w)
  then have "sint (image_need c a) = signed_take_bit 63 (int (16 + unat c * 9 + unat a))"
    by (simp only: signed_of_nat) simp
  also have "\<dots> = int (16 + unat c * 9 + unat a)"
    using bnd [OF c a] by (intro signed_take_bit_int_eq_self) simp_all
  finally show ?thesis by simp
qed

text \<open>The bounds test of an instruction, likewise in \<open>uint64\<close> without wrap-around.\<close>

lemma in_bounds_iff:
  fixes off len asz :: "32 word"
  shows "(ucast off + ucast len :: 64 word) > ucast asz \<longleftrightarrow> unat off + unat len > unat asz"
proof -
  have lt: "unat off < 4294967296" "unat len < 4294967296"
    using unsigned_less [of off] unsigned_less [of len] by simp_all
  have "unat (ucast off + ucast len :: 64 word) = unat off + unat len"
    using lt by (simp add: unat_word_ariths unsigned_ucast_eq take_bit_nat_eq_self)
  moreover have "unat (ucast asz :: 64 word) = unat asz"
    using unsigned_less [where 'a = nat, of asz] by (simp add: unsigned_ucast_eq take_bit_nat_eq_self)
  ultimately show ?thesis by (simp add: word_less_nat_alt)
qed

lemma unat_add_in_bounds:
  fixes off len asz :: "32 word"
  assumes "unat off + unat len \<le> unat asz"
  shows "unat (off + len) = unat off + unat len"
proof -
  have "unat asz < 4294967296" using unsigned_less [of asz] by simp
  with assms show ?thesis by (simp add: unat_word_ariths)
qed

text \<open>What one table entry shows, as a function of its decoded fields and the argument blob.\<close>

definition showInstruction :: "bytes \<Rightarrow> 32 word \<Rightarrow> nat \<Rightarrow> char \<Rightarrow> 32 word \<Rightarrow> 32 word \<Rightarrow> Instruction" where
  "showInstruction blob asz i opc off len =
     (let op = byte opc;
          payload = take (unat len) (drop (unat off) blob);
          jump = isJumpOpcode op \<and> len = 4;
          inb = unat off + unat len \<le> unat asz in
      \<lparr>Index = i, Opcode = (case opcodeNames op of Some n \<Rightarrow> n | None \<Rightarrow> ''UNKNOWN''),
       OpcodeHex = ''0x'' @ hex_byte opc, ArgOffset = off, ArgLength = len,
       Arg = (if \<not> inb then ''<out of bounds: offset '' @ itoa (unat off) @ '' + length '' @ itoa (unat len) @
                 '' exceeds blob size '' @ itoa (unat asz) @ ''>''
              else if jump then ''-> instruction '' @ itoa (unat (le32 payload))
              else if len = 0 then []
              else if op = 3 \<or> op = 4 then renderCallArg payload
              else if isPrintable payload then quoteReadable payload
              else ''0x'' @ hex_encode payload),
       Target = (if inb \<and> jump then Some (le32 payload) else None)\<rparr>)"

lemma decodeInstruction_eq:
  assumes "16 + (i + 1) * 9 \<le> length data" and "length blob = unat asz"
  shows "decodeInstruction data blob asz i =
    (let raw = take 9 (drop (16 + i * 9) data) in
     Some (showInstruction blob asz i (raw ! 0) (le32 (take 4 (drop 1 raw))) (le32 (take 4 (drop 5 raw)))))"
proof -
  define raw where "raw = take 9 (drop (16 + i * 9) data)"
  have len: "length raw = 9" using assms(1) by (simp add: raw_def)
  have raw: "slice data (16 + i * 9) (25 + i * 9) = Some raw"
    using assms(1) by (simp add: raw_def)
  define off lenw where o: "off = le32 (take 4 (drop 1 raw))" and l: "lenw = le32 (take 4 (drop 5 raw))"
  have sl: "slice raw 1 5 = Some (take 4 (drop 1 raw))" "slice raw 5 9 = Some (take 4 (drop 5 raw))"
    using len by simp_all
  show ?thesis
  proof (cases "unat off + unat lenw \<le> unat asz")
    case True
    have "slice blob (unat off) (unat (off + lenw)) = Some (take (unat lenw) (drop (unat off) blob))"
      using True assms(2) by (simp add: unat_add_in_bounds)
    with True show ?thesis
      by (simp add: decodeInstruction_def fcbHeaderSize_def fcbInstrSize_def raw sl in_bounds_iff
          showInstruction_def Let_def o [symmetric] l [symmetric] raw_def [symmetric] del: One_nat_def) (auto simp: isJumpOpcode_def)
  next
    case False
    then show ?thesis
      by (simp add: decodeInstruction_def fcbHeaderSize_def fcbInstrSize_def raw sl in_bounds_iff
          showInstruction_def Let_def o [symmetric] l [symmetric] raw_def [symmetric] del: One_nat_def)
  qed
qed

lemma decodeInstructions_eq:
  "(\<And>i. i \<in> set is \<Longrightarrow> decodeInstruction data blob asz i = Some (f i)) \<Longrightarrow>
    decodeInstructions data blob asz is = Some (map f is)"
  by (induction "is") simp_all


definition codeBytes :: "(char \<times> 32 word \<times> 32 word) list \<Rightarrow> bytes" where
  "codeBytes is = concat (map (\<lambda>(op, off, len). op # put_le32 off @ put_le32 len) is)"

text \<open>The image flowcode's bytecode writer produces for a table and a blob: the format comment of disasm.go.\<close>

definition image :: "(char \<times> 32 word \<times> 32 word) list \<Rightarrow> bytes \<Rightarrow> bytes" where
  "image is blob = fcbMagic @ [CHR 0x01, CHR 0x00, CHR 0x00, CHR 0x00] @
     put_le32 (word_of_nat (length is)) @ put_le32 (word_of_nat (length blob)) @ codeBytes is @ blob"

lemma length_codeBytes [simp]: "length (codeBytes is) = 9 * length is"
  by (induction "is") (auto simp: codeBytes_def)

lemma codeBytes_nth:
  "i < length is \<Longrightarrow> is ! i = (op, off, len) \<Longrightarrow>
    take 9 (drop (i * 9) (codeBytes is @ blob)) = op # put_le32 off @ put_le32 len"
proof (induction "is" arbitrary: i)
  case Nil
  then show ?case by simp
next
  case (Cons a "is")
  obtain op' off' len' where a: "a = (op', off', len')" by (cases a)
  have c: "codeBytes (a # is) = op' # (put_le32 off' @ put_le32 len') @ codeBytes is"
    by (simp add: codeBytes_def a)
  show ?case
  proof (cases i)
    case 0
    with Cons.prems a show ?thesis by (simp add: codeBytes_def)
  next
    case (Suc j)
    with Cons.prems have "j < length is" "is ! j = (op, off, len)" by auto
    note IH = Cons.IH [OF this]
    have "drop (i * 9) (codeBytes (a # is) @ blob) = drop (j * 9) (drop 9 (codeBytes (a # is) @ blob))"
      by (simp only: drop_drop) (simp add: Suc add.commute)
    also have "drop 9 (codeBytes (a # is) @ blob) = codeBytes is @ blob" by (simp add: c)
    finally show ?thesis using IH by simp
  qed
qed

text \<open>The header fields of any input that is long enough.\<close>

definition hdrCount :: "bytes \<Rightarrow> 32 word" where
  "hdrCount data = le32 (take 4 (drop 8 data))"

definition hdrArgSize :: "bytes \<Rightarrow> 32 word" where
  "hdrArgSize data = le32 (take 4 (drop 12 data))"

definition hdrVersion :: "bytes \<Rightarrow> nat" where
  "hdrVersion data = unat (le16 (take 2 (drop 4 data)))"

text \<open>The decoded table, as a function of the whole input.\<close>

definition tableOf :: "bytes \<Rightarrow> Instruction list" where
  "tableOf data =
     (let n = unat (hdrCount data); blob = take (unat (hdrArgSize data)) (drop (16 + n * 9) data) in
      map (\<lambda>i. let raw = take 9 (drop (16 + i * 9) data) in
        showInstruction blob (hdrArgSize data) i (raw ! 0) (le32 (take 4 (drop 1 raw))) (le32 (take 4 (drop 5 raw))))
        [0..<n])"

lemma disassemble_eq:
  "disassemble data = Some
    (if length data < 16 then Inl (TruncatedHeader (length data) 16)
     else if take 4 data \<noteq> fcbMagic then Inl (BadMagic (take 4 data) fcbMagic)
     else if hdrVersion data \<noteq> 1 then Inl (UnsupportedVersion (hdrVersion data))
     else if 16 + 9 * int (unat (hdrCount data)) + int (unat (hdrArgSize data)) > int (length data)
       then Inl (TruncatedImage (16 + 9 * int (unat (hdrCount data)) + int (unat (hdrArgSize data))) (length data))
     else Inr \<lparr>Version = 1, InstructionCount = unat (hdrCount data), ArgBlobSize = unat (hdrArgSize data),
       SizeBytes = length data, Instructions = tableOf data\<rparr>)"
proof (cases "length data < 16")
  case True
  then show ?thesis by (simp add: disassemble_def fcbHeaderSize_def)
next
  case len: False
  let ?c = "hdrCount data" and ?a = "hdrArgSize data"
  have sl: "slice data 0 4 = Some (take 4 data)" "slice data 4 6 = Some (take 2 (drop 4 data))"
    "slice data 8 12 = Some (take 4 (drop 8 data))" "slice data 12 16 = Some (take 4 (drop 12 data))"
    using len by simp_all
  show ?thesis
  proof (cases "16 + 9 * int (unat ?c) + int (unat ?a) > int (length data)")
    case True
    with len sl show ?thesis
      by (simp add: disassemble_def fcbHeaderSize_def fcbVersion_def sint_image_need Let_def
          hdrVersion_def hdrCount_def hdrArgSize_def)
  next
    case False
    define blob where "blob = take (unat ?a) (drop (16 + unat ?c * 9) data)"
    have fit: "16 + unat ?c * 9 + unat ?a \<le> length data"
      using False len by linarith
    have bl: "slice data (16 + unat ?c * 9) (16 + unat ?c * 9 + unat ?a) = Some blob" "length blob = unat ?a"
      using fit by (simp_all add: blob_def)
    have "decodeInstructions data blob ?a [0..<unat ?c] = Some (tableOf data)"
      unfolding tableOf_def Let_def blob_def [symmetric]
    proof (rule decodeInstructions_eq)
      fix i assume "i \<in> set [0..<unat ?c]"
      with fit have "16 + (i + 1) * 9 \<le> length data" by simp
      from decodeInstruction_eq [OF this bl(2)]
      show "decodeInstruction data blob ?a i = Some (showInstruction blob ?a i (take 9 (drop (16 + i * 9) data) ! 0)
          (le32 (take 4 (drop 1 (take 9 (drop (16 + i * 9) data))))) (le32 (take 4 (drop 5 (take 9 (drop (16 + i * 9) data))))))"
        by (simp only: Let_def)
    qed
    with False len sl bl(1) show ?thesis
      by (simp add: disassemble_def fcbHeaderSize_def fcbInstrSize_def fcbVersion_def sint_image_need Let_def
          hdrVersion_def hdrCount_def [symmetric] hdrArgSize_def [symmetric])
  qed
qed


lemma image_fields:
  assumes "length is < 2 ^ 32" and "length blob < 2 ^ 32"
  shows "length (image is blob) = 16 + 9 * length is + length blob"
    and "take 4 (image is blob) = fcbMagic" and "hdrVersion (image is blob) = 1"
    and "hdrCount (image is blob) = word_of_nat (length is)"
    and "hdrArgSize (image is blob) = word_of_nat (length blob)"
    and "drop 16 (image is blob) = codeBytes is @ blob"
  by (simp_all add: image_def hdrVersion_def hdrCount_def hdrArgSize_def fcbMagic_def le16_def)

lemma unat_of_nat32: "n < 2 ^ 32 \<Longrightarrow> unat (word_of_nat n :: 32 word) = n"
  by (simp add: unsigned_of_nat take_bit_nat_eq_self)

lemma tableOf_image:
  assumes "length is < 2 ^ 32" and "length blob < 2 ^ 32"
  shows "tableOf (image is blob) =
    map (\<lambda>i. case is ! i of (op, off, len) \<Rightarrow> showInstruction blob (word_of_nat (length blob)) i op off len) [0..<length is]"
proof -
  note f = image_fields [OF assms] and n = unat_of_nat32 [OF assms(1)] and m = unat_of_nat32 [OF assms(2)]
  have d: "drop (16 + k) (image is blob) = drop k (codeBytes is @ blob)" for k
    by (simp only: f(6) [symmetric] drop_drop add.commute)
  have b: "take (length blob) (drop (16 + length is * 9) (image is blob)) = blob"
    unfolding d by simp
  have r: "take 9 (drop (16 + i * 9) (image is blob)) = op # put_le32 off @ put_le32 len"
    if "i < length is" "is ! i = (op, off, len)" for i op off len
    unfolding d by (rule codeBytes_nth [OF that])
  show ?thesis
    unfolding tableOf_def f(4,5) n m b Let_def
    by (rule map_cong [OF refl]) (auto simp: r simp del: take_drop nth_take split: prod.split)
qed

section \<open>Quoting\<close>

text \<open>The reader of the quoted form: what \<open>quoteReadable\<close> is meant to be readable back from.\<close>

fun unquote :: "string \<Rightarrow> string" where
  "unquote (a # b # s) =
     (if a = CHR 0x5C then
        (if b = CHR ''n'' then CHR 0x0A else if b = CHR ''r'' then CHR 0x0D else if b = CHR ''t'' then CHR 0x09 else b) # unquote s
      else a # unquote (b # s))"
| "unquote s = s"

lemma unquote_plain: "CHR 0x5C \<notin> set s \<Longrightarrow> unquote (s @ t) = s @ unquote t"
proof (induction s)
  case (Cons a s)
  then show ?case by (cases "s @ t") auto
qed simp

lemma encode_rune_high: "128 \<le> r \<Longrightarrow> c \<in> set (encode_rune r) \<Longrightarrow> 128 \<le> byte c"
proof -
  have k: "128 \<le> byte (char_of n :: char)" if "128 \<le> n" "n < 256" for n :: nat
    using that by simp
  have m: "128 + q mod 64 < (256::nat)" for q using mod_less_divisor [of 64 q] by linarith
  assume "128 \<le> r" and c: "c \<in> set (encode_rune r)"
  define r' where "r' = (if 1114111 < r \<or> (55296 \<le> r \<and> r \<le> 57343) then RuneError else r)"
  have b: "128 \<le> r'" "r' \<le> 1114111" using \<open>128 \<le> r\<close> by (auto simp: r'_def RuneError_def)
  have e: "encode_rune r = (if r' < 2048 then [char_of (192 + r' div 64), char_of (128 + r' mod 64)]
      else if r' < 65536 then
        [char_of (224 + r' div 4096), char_of (128 + r' div 64 mod 64), char_of (128 + r' mod 64)]
      else
        [char_of (240 + r' div 262144), char_of (128 + r' div 4096 mod 64),
         char_of (128 + r' div 64 mod 64), char_of (128 + r' mod 64)])"
    using b by (simp add: encode_rune_def Let_def r'_def [symmetric])
  have h: "r' < 2048 \<Longrightarrow> 192 + r' div 64 < 256" "r' < 65536 \<Longrightarrow> 224 + r' div 4096 < 256"
    "240 + r' div 262144 < 256"
    using less_mult_imp_div_less [of r' 32 64] less_mult_imp_div_less [of r' 16 4096]
      less_mult_imp_div_less [of r' 16 262144] b by auto
  obtain n :: nat where "c = char_of n" "128 \<le> n" "n < 256"
    using c unfolding e using h m [of r'] m [of "r' div 64"] m [of "r' div 4096"]
    by (auto split: if_splits intro: that)
  then show ?thesis using k by simp
qed

lemma encode_rune_no_backslash: "r \<noteq> 92 \<Longrightarrow> CHR 0x5C \<notin> set (encode_rune r)"
proof
  assume r: "r \<noteq> 92" and c: "CHR 0x5C \<in> set (encode_rune r)"
  show False
  proof (cases "128 \<le> r")
    case True
    from encode_rune_high [OF this c] show False by simp
  next
    case False
    then have "CHR 0x5C = (char_of r :: char)" using c by (simp add: encode_rune_def Let_def)
    then have "byte (CHR 0x5C) = byte (char_of r)" by simp
    with False r show False by simp
  qed
qed

lemma unquote_quote_rune: "unquote (quote_rune r @ t) = encode_rune r @ unquote t"
proof -
  have s: "encode_rune 34 = [CHR 0x22]" "encode_rune 92 = [CHR 0x5C]" "encode_rune 10 = [CHR 0x0A]"
    "encode_rune 13 = [CHR 0x0D]" "encode_rune 9 = [CHR 0x09]"
    by (simp_all add: encode_rune_def char_of_byte)
  show ?thesis
    using unquote_plain [OF encode_rune_no_backslash] by (simp add: quote_rune_def s)
qed

lemma unquote_quote_runes: "unquote (concat (map quote_rune rs) @ t) = concat (map encode_rune rs) @ unquote t"
  by (induction rs) (simp_all add: unquote_quote_rune)


lemma quote_rune_one_line: "CHR 0x0A \<notin> set (quote_rune r)"
proof -
  have "byte (CHR 0x0A) \<noteq> byte (char_of r :: char)" if "r < 128" "r \<noteq> 10" using that by simp
  then have "CHR 0x0A \<noteq> (char_of r :: char)" if "r < 128" "r \<noteq> 10" using that by metis
  then have "CHR 0x0A \<notin> set (encode_rune r)" if "r \<noteq> 10"
    using that encode_rune_high [of r "CHR 0x0A"]
    by (cases "r < 128") (auto simp: encode_rune_def Let_def)
  then show ?thesis by (simp add: quote_rune_def)
qed

section \<open>Call arguments\<close>

text \<open>The argument blob of a CALL or TRANSFORM: the name, then each key and value, all NUL-terminated.\<close>

definition callBlob :: "string \<Rightarrow> (string \<times> string) list \<Rightarrow> bytes" where
  "callBlob name kvs = name @ [CHR 0x00] @ concat (map (\<lambda>(k, v). k @ [CHR 0x00] @ v @ [CHR 0x00]) kvs)"

definition nul_free :: "string \<Rightarrow> bool" where
  "nul_free s \<longleftrightarrow> CHR 0x00 \<notin> set s"

lemma byte_zero_iff: "byte c = 0 \<longleftrightarrow> c = CHR 0x00"
  using byte_eq_iff [of c "CHR 0x00"] by simp

lemma splitAtNUL_sep: "nul_free s \<Longrightarrow> splitAtNUL (s @ CHR 0x00 # t) = (s, t)"
  by (induction s) (auto simp: nul_free_def byte_zero_iff)

lemma splitAtNUL_plain: "nul_free s \<Longrightarrow> splitAtNUL s = (s, [])"
  by (induction s) (auto simp: nul_free_def byte_zero_iff)

lemma renderCallArgs_pairs:
  "list_all (\<lambda>(k, v). nul_free k \<and> nul_free v) kvs \<Longrightarrow>
    renderCallArgs (concat (map (\<lambda>(k, v). k @ [CHR 0x00] @ v @ [CHR 0x00]) kvs)) out =
    out @ concat (map (\<lambda>(k, v). '' '' @ k @ ''='' @ v) kvs)"
proof (induction kvs arbitrary: out)
  case Nil
  then show ?case by (simp add: renderCallArgs.simps)
next
  case (Cons p kvs)
  obtain k v where p: "p = (k, v)" by (cases p)
  define rest where "rest = concat (map (\<lambda>(k, v). k @ [CHR 0x00] @ v @ [CHR 0x00]) kvs)"
  have "splitAtNUL (k @ CHR 0x00 # v @ CHR 0x00 # rest) = (k, v @ CHR 0x00 # rest)"
    and "splitAtNUL (v @ CHR 0x00 # rest) = (v, rest)"
    using Cons.prems p by (auto intro: splitAtNUL_sep)
  then have "renderCallArgs (k @ CHR 0x00 # v @ CHR 0x00 # rest) out = renderCallArgs rest (out @ '' '' @ k @ ''='' @ v)"
    by (subst renderCallArgs.simps) simp
  with Cons show ?case by (simp add: p rest_def)
qed

section \<open>Properties\<close>

text \<open>
  C22: the decoder never panics, whatever bytes it is given, and it accepts exactly the inputs
  with a full header, the magic FCB1, version 1 and at least as many bytes as the header
  declares (16 + 9 * instructions + arguments, computed with no wrap-around).
\<close>

theorem disassemble_safe:
  "disassemble data \<noteq> None \<and>
   ((\<exists>bc. disassemble data = Some (Inr bc)) \<longleftrightarrow>
     16 \<le> length data \<and> take 4 data = fcbMagic \<and> hdrVersion data = 1 \<and>
     16 + 9 * unat (hdrCount data) + unat (hdrArgSize data) \<le> length data)"
proof -
  have "16 + 9 * int (unat c) + int (unat a) > int n \<longleftrightarrow> \<not> 16 + 9 * unat c + unat a \<le> n" for c a :: "32 word" and n
    by linarith
  then show ?thesis by (simp only: disassemble_eq) (auto simp del: of_nat_unat)
qed

text \<open>
  C23: round trip with the image format. The image of an instruction table and an argument blob
  decodes to that table: the same number of instructions, in order, each with its opcode name,
  offset and length and the argument its slice of the blob shows.
\<close>

theorem disassemble_image:
  assumes "length is < 2 ^ 32" and "length blob < 2 ^ 32"
  shows "disassemble (image is blob) = Some (Inr
    \<lparr>Version = 1, InstructionCount = length is, ArgBlobSize = length blob,
     SizeBytes = 16 + 9 * length is + length blob,
     Instructions = map (\<lambda>i. case is ! i of (op, off, len) \<Rightarrow>
        showInstruction blob (word_of_nat (length blob)) i op off len) [0..<length is]\<rparr>)"
proof -
  have "\<not> int n < 16 + 9 * int l + int b" if "n = 16 + 9 * l + b" for n l b using that by simp
  with image_fields [OF assms] tableOf_image [OF assms] unat_of_nat32 [OF assms(1)] unat_of_nat32 [OF assms(2)]
  show ?thesis by (simp only: disassemble_eq) simp
qed

theorem disassemble_image_witness:
  "\<exists>bc. disassemble (image [(CHR 0x01, 0, 2), (CHR 0x05, 2, 4)] [CHR ''h'', CHR ''i'', CHR 0x01, CHR 0x00, CHR 0x00, CHR 0x00]) = Some (Inr bc)
     \<and> map Opcode (Instructions bc) = [''EMIT'', ''ROUTE'']"
  using disassemble_image [of "[(CHR 0x01, 0, 2), (CHR 0x05, 2, 4)]" "[CHR ''h'', CHR ''i'', CHR 0x01, CHR 0x00, CHR 0x00, CHR 0x00]"]
  by (simp add: showInstruction_def opcodeNames_def Let_def upt_rec)

text \<open>
  a jump target is shown exactly for a ROUTE or LOOP instruction whose four argument bytes
  lie inside the blob; the arguments of every other entry are rendered as text, and the entries
  are numbered in order.
\<close>

theorem disassemble_targets:
  assumes "disassemble data = Some (Inr bc)" and "i < InstructionCount bc"
  shows "length (Instructions bc) = InstructionCount bc \<and> Index (Instructions bc ! i) = i \<and>
    (Target (Instructions bc ! i) \<noteq> None \<longleftrightarrow>
       isJumpOpcode (byte (data ! (16 + 9 * i))) \<and> ArgLength (Instructions bc ! i) = 4 \<and>
       unat (ArgOffset (Instructions bc ! i)) + 4 \<le> ArgBlobSize bc)"
proof -
  from assms(1) have bc: "InstructionCount bc = unat (hdrCount data)" "ArgBlobSize bc = unat (hdrArgSize data)"
    "Instructions bc = tableOf data" and fit: "16 + 9 * unat (hdrCount data) \<le> length data"
    by (auto simp: disassemble_eq simp del: of_nat_unat split: if_splits)
  have i: "i < unat (hdrCount data)" using assms(2) bc by simp
  then have "take 9 (drop (16 + i * 9) data) ! 0 = data ! (16 + 9 * i)"
    using fit by (simp add: mult.commute)
  with i show ?thesis
    unfolding bc by (auto simp: tableOf_def showInstruction_def Let_def simp del: take_drop nth_take)
qed

theorem disassemble_targets_witness:
  "\<exists>bc. disassemble (image [(CHR 0x06, 0, 4)] [CHR 0x00, CHR 0x00, CHR 0x00, CHR 0x00]) = Some (Inr bc)
     \<and> Target (Instructions bc ! 0) \<noteq> None"
proof -
  let ?d = "image [(CHR 0x06, 0, 4)] [CHR 0x00, CHR 0x00, CHR 0x00, CHR 0x00]"
  obtain bc where bc: "disassemble ?d = Some (Inr bc)" "InstructionCount bc = 1" "ArgBlobSize bc = 4"
     "ArgLength (Instructions bc ! 0) = 4" "ArgOffset (Instructions bc ! 0) = 0"
    by (simp add: disassemble_eq image_fields [simplified] tableOf_image [simplified] showInstruction_def Let_def)
  have "isJumpOpcode (byte (?d ! 16))"
    by (simp add: image_def fcbMagic_def codeBytes_def isJumpOpcode_def put_le32_def Let_def)
  with disassemble_targets [OF bc(1), of 0] bc show ?thesis by auto
qed

text \<open>
  quoting for display loses nothing. A printable payload is shown between quotes, on one
  line, and removing the quotes and the backslash escapes gives the payload back byte for byte.
\<close>

theorem quoteReadable_roundtrip:
  assumes "isPrintable s"
  shows "unquote (butlast (tl (quoteReadable s))) = s \<and> hd (quoteReadable s) = CHR 0x22 \<and>
    last (quoteReadable s) = CHR 0x22 \<and> CHR 0x0A \<notin> set (quoteReadable s)"
proof -
  have "valid_utf8 s" using assms by (simp add: isPrintable_def)
  from valid_utf8_reencode [OF this] show ?thesis
    using unquote_quote_runes [of "runes s" "[]"] quote_rune_one_line by (auto simp: quoteReadable_def butlast_append)
qed

theorem quoteReadable_roundtrip_witness:
  "unquote (butlast (tl (quoteReadable [CHR ''a'', CHR 0x22, CHR 0x0A]))) = [CHR ''a'', CHR 0x22, CHR 0x0A]"
  using quoteReadable_roundtrip [of "[CHR ''a'', CHR 0x22, CHR 0x0A]"]
  by (simp add: isPrintable_def valid_utf8_def runes_def rune_chunks.simps decode_rune.simps RuneError_def)

text \<open>
  a CALL argument is rendered as the callee and its parameters in order, for any number of
  NUL-free parameters (empty keys and values included); a bare name with no NUL is shown as is.
\<close>

theorem renderCallArg_pairs:
  assumes "nul_free name" and "list_all (\<lambda>(k, v). nul_free k \<and> nul_free v) kvs"
  shows "renderCallArg (callBlob name kvs) = name @ concat (map (\<lambda>(k, v). '' '' @ k @ ''='' @ v) kvs) \<and>
    renderCallArg name = name"
proof -
  have s: "splitAtNUL (callBlob name kvs) = (name, concat (map (\<lambda>(k, v). k @ [CHR 0x00] @ v @ [CHR 0x00]) kvs))"
    using splitAtNUL_sep [OF assms(1)] by (simp add: callBlob_def)
  show ?thesis
    using renderCallArgs_pairs [OF assms(2), of name]
    by (simp add: renderCallArg_def s splitAtNUL_plain [OF assms(1)] renderCallArgs.simps [of "[]"])
qed

theorem renderCallArg_pairs_witness:
  "renderCallArg (callBlob ''send'' [(''to'', ''a@b''), ([], [])]) = ''send to=a@b =''"
  using renderCallArg_pairs [of "''send''" "[(''to'', ''a@b''), ([], [])]"] by (simp add: nul_free_def)

end
