(* ===== verification/Schedule.thy ===== *)
theory Schedule
  imports GoText
begin

text \<open>
  Next-run computation, server/internal/scheduler/schedule.go. A \<open>time.Time\<close> is the integer
  number of nanoseconds since the epoch in UTC (the package works in UTC only), a
  \<open>time.Duration\<close> is a signed 64-bit integer, so the product of a number of seconds and
  \<open>time.Second\<close> wraps around. A UTC day is 86400 seconds, as in package time (no leap seconds).
  The textual timestamps are represented by the second they denote: RFC 3339 text of UTC times
  of the years 0 to 9999 has a fixed width and sorts as the seconds do.
\<close>

type_synonym time = int

definition nsPerSecond :: int where
  "nsPerSecond = 1000000000"

definition nsPerDay :: int where
  "nsPerDay = 86400 * nsPerSecond"

text \<open>\<open>time.Duration(n) * time.Second\<close>.\<close>

definition seconds :: "int \<Rightarrow> int" where
  "seconds n = sint (word_of_int n * word_of_int nsPerSecond :: 64 word)"

lemma seconds_eq: "- 9223372036 \<le> n \<Longrightarrow> n \<le> 9223372036 \<Longrightarrow> seconds n = n * nsPerSecond"
proof -
  assume n: "- 9223372036 \<le> n" "n \<le> 9223372036"
  have "seconds n = sint (word_of_int (n * nsPerSecond) :: 64 word)" by (simp add: seconds_def)
  also have "\<dots> = signed_take_bit 63 (n * nsPerSecond)" by (simp only: signed_of_int) simp
  also have "\<dots> = n * nsPerSecond"
    using n by (intro signed_take_bit_int_eq_self) (simp_all add: nsPerSecond_def)
  finally show ?thesis .
qed

section \<open>Times of day\<close>

text \<open>
  \<open>time.Parse("15:04", s)\<close>: the hour takes one or two digits, the minute exactly two, both are
  range-checked, and nothing may follow.
\<close>

definition getHour :: "string \<Rightarrow> (nat \<times> string) option" where
  "getHour s =
     (case s of
        a # b # t \<Rightarrow>
          if \<not> is_digit a then None
          else if is_digit b then Some (digit_val a * 10 + digit_val b, t)
          else Some (digit_val a, b # t)
      | [a] \<Rightarrow> if is_digit a then Some (digit_val a, []) else None
      | [] \<Rightarrow> None)"

definition parseHHMM :: "string \<Rightarrow> (nat \<times> nat) result" where
  "parseHHMM s =
     (let bad = Inl (Wrap ''daily_time_utc must be HH:MM'' (Fmt ''parsing time'' [s])) in
      case getHour s of
        None \<Rightarrow> bad
      | Some (hour, t) \<Rightarrow>
          (if hour \<ge> 24 then bad
           else (case t of
                   [c, x, y] \<Rightarrow>
                     if c = CHR '':'' \<and> is_digit x \<and> is_digit y then
                       (let minute = digit_val x * 10 + digit_val y in
                        if minute \<ge> 60 then bad else Inr (hour, minute))
                     else bad
                 | _ \<Rightarrow> bad)))"

section \<open>NextRun and AdvancePastNow\<close>

definition NextRun :: "time \<Rightarrow> string \<Rightarrow> int \<Rightarrow> string \<Rightarrow> time result" where
  "NextRun now scheduleType intervalSeconds dailyTimeUTC =
     (if scheduleType = ''interval'' then
        (if intervalSeconds \<le> 0 then Inl (Msg ''interval schedule needs a positive interval_seconds'')
         else Inr (now + seconds intervalSeconds))
      else if scheduleType = ''daily'' then
        (case parseHHMM dailyTimeUTC of
           Inl err \<Rightarrow> Inl err
         | Inr (hour, minute) \<Rightarrow>
             (let nxt = (now div nsPerDay) * nsPerDay + (int hour * 3600 + int minute * 60) * nsPerSecond in
              Inr (if \<not> nxt > now then nxt + nsPerDay else nxt)))
      else Inl (Fmt ''unknown schedule type %q'' [scheduleType]))"

text \<open>The loop of \<open>AdvancePastNow\<close>; not returning is None.\<close>

partial_function (option) stepPast :: "time \<Rightarrow> time \<Rightarrow> int \<Rightarrow> time option" where
  "stepPast nxt now step = (if \<not> nxt > now then stepPast (nxt + step) now step else Some nxt)"

definition AdvancePastNow :: "time \<Rightarrow> time \<Rightarrow> string \<Rightarrow> int \<Rightarrow> string \<Rightarrow> time result option" where
  "AdvancePastNow previousRunAt now scheduleType intervalSeconds dailyTimeUTC =
     (if scheduleType \<noteq> ''interval'' then Some (NextRun now scheduleType intervalSeconds dailyTimeUTC)
      else if intervalSeconds \<le> 0 then Some (Inl (Msg ''interval schedule needs a positive interval_seconds''))
      else map_option Inr (stepPast previousRunAt now (seconds intervalSeconds)))"

section \<open>Timestamps\<close>

type_synonym stamp = int

definition FormatTime :: "time \<Rightarrow> stamp" where
  "FormatTime t = t div nsPerSecond"

definition ParseTime :: "stamp \<Rightarrow> time result" where
  "ParseTime s = Inr (s * nsPerSecond)"

section \<open>Lemmas\<close>

lemma stepPast_done: "now < nxt \<Longrightarrow> stepPast nxt now step = Some nxt"
  by (subst stepPast.simps) simp

lemma stepPast_step: "nxt \<le> now \<Longrightarrow> stepPast nxt now step = stepPast (nxt + step) now step"
  by (subst stepPast.simps) simp

text \<open>The loop returns the first member of the progression that lies after \<open>now\<close>.\<close>

definition firstAfter :: "time \<Rightarrow> time \<Rightarrow> int \<Rightarrow> time" where
  "firstAfter prev now step = (if now < prev then prev else prev + ((now - prev) div step + 1) * step)"

lemma stepPast_eq:
  assumes "0 < step"
  shows "stepPast nxt now step = Some (firstAfter nxt now step)"
proof (induction "nat (now + 1 - nxt)" arbitrary: nxt rule: less_induct)
  case less
  show ?case
  proof (cases "now < nxt")
    case True
    then show ?thesis by (simp add: stepPast_done firstAfter_def)
  next
    case False
    then have IH: "stepPast (nxt + step) now step = Some (firstAfter (nxt + step) now step)"
      using less assms by auto
    have "firstAfter (nxt + step) now step = firstAfter nxt now step"
    proof (cases "now < nxt + step")
      case True
      with False have "(now - nxt) div step = 0" by (intro div_pos_pos_trivial) auto
      with True False show ?thesis by (simp add: firstAfter_def)
    next
      case nl: False
      have "(now - nxt) div step = (now - (nxt + step)) div step + 1"
        using div_add_self2 [of step "now - (nxt + step)"] assms by simp
      with nl False show ?thesis by (simp add: firstAfter_def algebra_simps)
    qed
    with False IH show ?thesis by (simp add: stepPast_step)
  qed
qed

text \<open>With a zero step the loop never returns.\<close>

lemma stepPast_stuck: "nxt \<le> now \<Longrightarrow> stepPast nxt now 0 = None"
proof -
  have "s = 0 \<longrightarrow> w < n" if "stepPast n w s = Some r" for n w s r
    by (rule stepPast.raw_induct [where P = "\<lambda>n w s r. s = 0 \<longrightarrow> w < n", OF _ that]) (auto split: if_splits)
  then show "nxt \<le> now \<Longrightarrow> stepPast nxt now 0 = None"
    by (cases "stepPast nxt now 0") force+
qed

lemma firstAfter_props:
  assumes "0 < step"
  shows "now < firstAfter prev now step" "firstAfter prev now step \<le> max prev (now + step)"
    "(firstAfter prev now step - prev) mod step = 0"
proof -
  have m: "(now - prev) mod step < step" "0 \<le> (now - prev) mod step" using assms by simp_all
  have e: "now - prev = (now - prev) div step * step + (now - prev) mod step" by simp
  have "now < prev + ((now - prev) div step * step + step)" "prev + (now - prev) div step * step \<le> now"
    using m e by linarith+
  then show "now < firstAfter prev now step" "firstAfter prev now step \<le> max prev (now + step)"
    by (auto simp: firstAfter_def distrib_right)
  show "(firstAfter prev now step - prev) mod step = 0" by (simp add: firstAfter_def)
qed

lemma firstAfter_least:
  assumes "0 < step" and "k \<ge> 0" and "now < prev + k * step"
  shows "firstAfter prev now step \<le> prev + k * step"
proof (cases "now < prev")
  case True
  with assms show ?thesis by (simp add: firstAfter_def)
next
  case False
  have "(now - prev) div step < k"
  proof (rule ccontr)
    assume "\<not> (now - prev) div step < k"
    then have "k * step \<le> (now - prev) div step * step" using assms(1) by (intro mult_right_mono) auto
    also have "\<dots> \<le> now - prev"
      using div_mult_mod_eq [of "now - prev" step] pos_mod_sign [OF assms(1), of "now - prev"] by linarith
    finally show False using assms(3) by simp
  qed
  then have "((now - prev) div step + 1) * step \<le> k * step" using assms(1) by (intro mult_right_mono) auto
  with False show ?thesis by (simp add: firstAfter_def)
qed


lemma digit_char_digit_val [simp]: "is_digit c \<Longrightarrow> digit_char (digit_val c) = c"
proof -
  assume "is_digit c"
  then have "byte c = 48 \<or> byte c = 49 \<or> byte c = 50 \<or> byte c = 51 \<or> byte c = 52 \<or> byte c = 53 \<or>
      byte c = 54 \<or> byte c = 55 \<or> byte c = 56 \<or> byte c = 57"
    unfolding is_digit_def by arith
  then show ?thesis
    using byte_eq_iff [of c "CHR ''0''"] byte_eq_iff [of c "CHR ''1''"] byte_eq_iff [of c "CHR ''2''"]
      byte_eq_iff [of c "CHR ''3''"] byte_eq_iff [of c "CHR ''4''"] byte_eq_iff [of c "CHR ''5''"]
      byte_eq_iff [of c "CHR ''6''"] byte_eq_iff [of c "CHR ''7''"] byte_eq_iff [of c "CHR ''8''"]
      byte_eq_iff [of c "CHR ''9''"]
    by (elim disjE) (simp_all add: digit_val_def digit_char_def)
qed

lemma digit_val_less [simp]: "is_digit c \<Longrightarrow> digit_val c < 10"
  by (simp add: is_digit_def digit_val_def) arith

definition HHMM :: "nat \<Rightarrow> nat \<Rightarrow> string" where
  "HHMM h m = [digit_char (h div 10), digit_char (h mod 10), CHR '':'', digit_char (m div 10), digit_char (m mod 10)]"

lemma colon_not_digit [simp]: "\<not> is_digit CHR '':''"
  by (simp add: is_digit_def)

lemma parseHHMM_HHMM: "h < 24 \<Longrightarrow> m < 60 \<Longrightarrow> parseHHMM (HHMM h m) = Inr (h, m)"
  by (simp add: parseHHMM_def getHour_def HHMM_def Let_def mult.commute)

lemma parseHHMM_short: "h < 10 \<Longrightarrow> m < 60 \<Longrightarrow> parseHHMM (tl (HHMM h m)) = Inr (h, m)"
  by (simp add: parseHHMM_def getHour_def HHMM_def Let_def mult.commute)

lemma getHour_sound:
  "getHour s = Some (h, t) \<Longrightarrow>
    s = [digit_char (h div 10), digit_char (h mod 10)] @ t \<or> h < 10 \<and> s = digit_char h # t"
  by (auto simp: getHour_def split: list.splits if_splits)

lemma parseHHMM_sound:
  "parseHHMM s = Inr (h, m) \<Longrightarrow> h < 24 \<and> m < 60 \<and> (s = HHMM h m \<or> h < 10 \<and> s = tl (HHMM h m))"
proof -
  assume "parseHHMM s = Inr (h, m)"
  then obtain x y where gh: "getHour s = Some (h, [CHR '':'', x, y])" "h < 24"
    and xy: "is_digit x" "is_digit y" "m = digit_val x * 10 + digit_val y" "m < 60"
    by (auto simp: parseHHMM_def Let_def split: option.splits prod.splits if_splits list.splits)
  have "x = digit_char (m div 10)" "y = digit_char (m mod 10)"
    using xy(1,2,3) by simp_all
  with getHour_sound [OF gh(1)] gh(2) xy(4) show ?thesis by (auto simp: HHMM_def)
qed

section \<open>Properties\<close>

text \<open>
  the daily time text. Exactly the texts \<open>HH:MM\<close> and \<open>H:MM\<close> of a valid time of day are
  accepted, and each is read as that hour and minute.
\<close>

theorem parseHHMM_exact:
  "parseHHMM s = Inr (h, m) \<longleftrightarrow> h < 24 \<and> m < 60 \<and> (s = HHMM h m \<or> h < 10 \<and> s = tl (HHMM h m))"
  using parseHHMM_sound parseHHMM_HHMM parseHHMM_short by blast

text \<open>
  C35: \<open>NextRun\<close> for a daily trigger is the next occurrence of that time of day: it lies strictly
  after now, at most a day later, at the requested time of day, and no earlier instant after now
  is at that time of day.
\<close>

theorem NextRun_daily:
  assumes "parseHHMM s = Inr (h, m)"
  shows "\<exists>r. NextRun now ''daily'' n s = Inr r \<and> now < r \<and> r \<le> now + nsPerDay \<and>
    r mod nsPerDay = (int h * 3600 + int m * 60) * nsPerSecond \<and>
    (\<forall>t. now < t \<and> t < r \<longrightarrow> t mod nsPerDay \<noteq> (int h * 3600 + int m * 60) * nsPerSecond)"
proof -
  define d where "d = (int h * 3600 + int m * 60) * nsPerSecond"
  define D where "D = now div nsPerDay"
  have hm: "h < 24" "m < 60" using parseHHMM_sound [OF assms] by auto
  then have d: "0 \<le> d" "d < nsPerDay" by (auto simp: d_def nsPerDay_def nsPerSecond_def)
  have D: "D * nsPerDay \<le> now" "now < D * nsPerDay + nsPerDay"
    using div_mult_mod_eq [of now nsPerDay] pos_mod_bound [of nsPerDay now] pos_mod_sign [of nsPerDay now]
    by (simp_all add: D_def nsPerDay_def nsPerSecond_def)
  define r where "r = (if \<not> D * nsPerDay + d > now then D * nsPerDay + d + nsPerDay else D * nsPerDay + d)"
  have "NextRun now ''daily'' n s = Inr r"
    by (simp add: NextRun_def assms r_def d_def [symmetric] D_def [symmetric] Let_def)
  moreover have "now < r" "r \<le> now + nsPerDay" using D d by (auto simp: r_def)
  moreover have "r mod nsPerDay = d" using d by (simp add: r_def)
  moreover have "t mod nsPerDay \<noteq> d" if t: "now < t" "t < r" for t
  proof
    assume "t mod nsPerDay = d"
    then have e: "t = t div nsPerDay * nsPerDay + d" using div_mult_mod_eq [of t nsPerDay] by simp
    define q where "q = t div nsPerDay"
    have N: "nsPerDay = 86400000000000" by (simp add: nsPerDay_def nsPerSecond_def)
    have t': "t = q * 86400000000000 + d" using e by (simp add: q_def N)
    note f = D [unfolded N] d [unfolded N] t t'
    consider "q \<le> D - 1" | "q = D" | "D + 1 \<le> q" by linarith
    then show False
    proof cases
      case 1 then show False using f by linarith
    next
      case 2 then show False using f by (simp add: r_def N split: if_splits)
    next
      case 3 then show False using f unfolding r_def N by (simp split: if_splits)
    qed
  qed
  ultimately show ?thesis unfolding d_def [symmetric] by blast
qed

theorem NextRun_daily_witness:
  "\<exists>r. NextRun 0 ''daily'' 0 ''09:30'' = Inr r \<and> 0 < r \<and> r \<le> nsPerDay \<and> r mod nsPerDay = 34200 * nsPerSecond"
proof -
  have "parseHHMM (HHMM 9 30) = Inr (9, 30)" by (rule parseHHMM_HHMM) simp_all
  then have "parseHHMM ''09:30'' = Inr (9, 30)" by (simp add: HHMM_def digit_char_def)
  from NextRun_daily [OF this, of 0 0] show ?thesis by auto
qed

text \<open>
  C25: \<open>AdvancePastNow\<close> returns for every interval the database can hold (a positive INTEGER), and
  its result is the first instant after now on the trigger's own grid: missed runs are skipped,
  the phase is kept, and a trigger that is not late keeps its time.
\<close>

theorem AdvancePastNow_interval:
  assumes "0 < n" and "n < 2 ^ 31"
  shows "\<exists>r. AdvancePastNow prev now ''interval'' n s = Some (Inr r) \<and> now < r \<and>
    r \<le> max prev (now + n * nsPerSecond) \<and> prev \<le> r \<and> (r - prev) mod (n * nsPerSecond) = 0 \<and>
    (\<forall>k \<ge> 0. now < prev + k * (n * nsPerSecond) \<longrightarrow> r \<le> prev + k * (n * nsPerSecond))"
proof -
  define step where "step = n * nsPerSecond"
  have st: "seconds n = step" using assms by (simp add: seconds_eq step_def)
  have pos: "0 < step" using assms by (simp add: step_def nsPerSecond_def)
  have ge: "prev \<le> firstAfter prev now step" using pos by (auto simp: firstAfter_def pos_imp_zdiv_nonneg_iff)
  have "AdvancePastNow prev now ''interval'' n s = Some (Inr (firstAfter prev now step))"
    using assms st stepPast_eq [OF pos] by (simp add: AdvancePastNow_def)
  moreover have "\<forall>k \<ge> 0. now < prev + k * step \<longrightarrow> firstAfter prev now step \<le> prev + k * step"
    using firstAfter_least [OF pos] by blast
  ultimately show ?thesis
    using firstAfter_props [OF pos, where prev = prev and now = now] ge
    by (intro exI [of _ "firstAfter prev now step"]) (simp add: step_def)
qed

theorem AdvancePastNow_interval_witness:
  "\<exists>r. AdvancePastNow 0 (601 * nsPerSecond) ''interval'' 300 [] = Some (Inr r) \<and> r mod (300 * nsPerSecond) = 0"
  using AdvancePastNow_interval [of 300 0 "601 * nsPerSecond" "[]"] by auto

text \<open>
  the bound on the interval is needed. For 2^55 seconds the duration wraps around to zero and
  the loop of a late trigger never ends; the database's 32-bit column is what rules this out.
\<close>

theorem AdvancePastNow_wraps:
  assumes "prev \<le> now"
  shows "AdvancePastNow prev now ''interval'' (2 ^ 55) s = None"
proof -
  have "(word_of_int (2 ^ 55) * word_of_int nsPerSecond :: 64 word) = word_of_int (2 ^ 55 * nsPerSecond)" by simp
  also have "\<dots> = 0" by (simp add: nsPerSecond_def)
  finally have "seconds (2 ^ 55) = 0" unfolding seconds_def by simp
  with stepPast_stuck [OF assms] show ?thesis by (simp add: AdvancePastNow_def)
qed

theorem AdvancePastNow_wraps_witness: "AdvancePastNow 0 5 ''interval'' (2 ^ 55) [] = None"
  using AdvancePastNow_wraps [of 0 5 "[]"] by simp

end
