(* ===== verification/Limiter.thy ===== *)
theory Limiter
  imports GoText
begin

text \<open>
  The interface of a limiter with one entry per key, and the theorem its clients rely on: the
  answers one key gets depend on that key's own requests only, however requests of other keys
  are interleaved. The token bucket of ratelimit.go and the quota windows of apps.go both
  implement it.
\<close>

fun serve :: "('k \<Rightarrow> 'a \<Rightarrow> 's \<Rightarrow> 'r \<times> 's) \<Rightarrow> 's \<Rightarrow> ('k \<times> 'a) list \<Rightarrow> ('k \<times> 'r) list" where
  "serve step s [] = []"
| "serve step s ((k, a) # rs) = (case step k a s of (r, s') \<Rightarrow> (k, r) # serve step s' rs)"

definition answersTo :: "'k \<Rightarrow> ('k \<times> 'r) list \<Rightarrow> 'r list" where
  "answersTo k rs = map snd (filter (\<lambda>p. fst p = k) rs)"

locale keyed_limiter =
  fixes step :: "'k \<Rightarrow> 'a \<Rightarrow> 's \<Rightarrow> 'r \<times> 's"
    and view :: "'s \<Rightarrow> 'k \<Rightarrow> 'v"
  assumes frame: "k' \<noteq> k \<Longrightarrow> view (snd (step k a s)) k' = view s k'"
    and local_answer: "view s k = view t k \<Longrightarrow> fst (step k a s) = fst (step k a t)"
    and local_state: "view s k = view t k \<Longrightarrow> view (snd (step k a s)) k = view (snd (step k a t)) k"
begin

lemma isolation_views:
  "view s k = view t k \<Longrightarrow>
    answersTo k (serve step s rs) = map snd (serve step t (filter (\<lambda>p. fst p = k) rs))"
proof (induction rs arbitrary: s t)
  case Nil
  show ?case by (simp add: answersTo_def)
next
  case (Cons p rs)
  obtain k' a where p: "p = (k', a)" by (cases p)
  obtain r s' where s': "step k' a s = (r, s')" by (cases "step k' a s")
  show ?case
  proof (cases "k' = k")
    case True
    obtain r2 t' where t': "step k a t = (r2, t')" by (cases "step k a t")
    have "r = r2" "view s' k = view t' k"
      using local_answer [OF Cons.prems, of a] local_state [OF Cons.prems, of a] s' t' True by auto
    with Cons.IH [of s' t'] show ?thesis by (simp add: p s' [unfolded True] t' True answersTo_def)
  next
    case False
    then have "view s' k = view s k" using frame [of k k' a s] s' by simp
    with Cons.IH [of s' t] Cons.prems False show ?thesis by (simp add: p s' answersTo_def)
  qed
qed

theorem isolation: "answersTo k (serve step s rs) = map snd (serve step s (filter (\<lambda>p. fst p = k) rs))"
  by (rule isolation_views) simp

end

end
