(* ===== verification/RateLimit.thy ===== *)
theory RateLimit
  imports Limiter
begin

text \<open>
  The per-client token bucket in front of the run and deployment endpoints,
  server/ratelimit.go. Times are integers in nanoseconds; \<open>float64\<close> quantities are exact
  rationals (rounding is not modelled). Concurrency: every operation runs under the limiter's
  mutex, so a run is a sequence of operations.
\<close>

record bucket =
  tokens :: rat
  last :: int

record rateLimiter =
  buckets :: "string \<rightharpoonup> bucket"
  rate :: rat
  burst :: rat
  idle :: int

definition newRateLimiter :: "int \<Rightarrow> int \<Rightarrow> int \<Rightarrow> rateLimiter" where
  "newRateLimiter perMinute brst idl =
     \<lparr>buckets = Map.empty, rate = of_int perMinute / 60, burst = of_int brst, idle = idl\<rparr>"

definition second :: int where
  "second = 1000000000"

text \<open>The refill of an existing bucket, or the new bucket of a new key.\<close>

definition refill :: "rateLimiter \<Rightarrow> int \<Rightarrow> bucket option \<Rightarrow> bucket" where
  "refill rl now ob =
     (case ob of
        None \<Rightarrow> \<lparr>tokens = burst rl, last = now\<rparr>
      | Some b \<Rightarrow>
          (let t = tokens b + (of_int (now - last b) / of_int second) * rate rl in
           \<lparr>tokens = (if t > burst rl then burst rl else t), last = now\<rparr>))"

text \<open>\<open>allow\<close>: whether a token was available, the wait in nanoseconds, and the new state.\<close>

definition allow :: "string \<Rightarrow> int \<Rightarrow> rateLimiter \<Rightarrow> (bool \<times> int) \<times> rateLimiter" where
  "allow key now rl =
     (let b = refill rl now (buckets rl key) in
      if tokens b \<ge> 1 then
        ((True, 0), rl\<lparr>buckets := (buckets rl)(key \<mapsto> b\<lparr>tokens := tokens b - 1\<rparr>)\<rparr>)
      else
        (let wait = floor ((1 - tokens b) / rate rl * of_int second) + second in
         ((False, wait - wait mod second), rl\<lparr>buckets := (buckets rl)(key \<mapsto> b)\<rparr>)))"

definition sweep :: "int \<Rightarrow> rateLimiter \<Rightarrow> rateLimiter" where
  "sweep now rl =
     (let cutoff = now - idle rl in
      rl\<lparr>buckets := (\<lambda>k. case buckets rl k of
            Some b \<Rightarrow> if last b < cutoff then None else Some b
          | None \<Rightarrow> None)\<rparr>)"

section \<open>The client's key\<close>

text \<open>\<open>net.SplitHostPort\<close>: the host, or None for its error return.\<close>

definition SplitHost :: "string \<Rightarrow> string option" where
  "SplitHost hp =
     (if CHR '':'' \<notin> set hp then None
      else
        (let i = length hp - length (after_last CHR '':'' hp) - 1 in
         if hd hp = CHR ''['' then
           (case IndexByte CHR '']'' hp of
              None \<Rightarrow> None
            | Some e \<Rightarrow>
                if e + 1 \<noteq> i then None
                else if CHR ''['' \<in> set (drop 1 hp) \<or> CHR '']'' \<in> set (drop (e + 1) hp) then None
                else Some (take (e - 1) (drop 1 hp)))
         else if CHR '':'' \<in> set (take i hp) \<or> CHR ''['' \<in> set hp \<or> CHR '']'' \<in> set hp then None
         else Some (take i hp)))"

text \<open>The parts of the request the key is computed from: the peer address and the header.\<close>

definition clientKey :: "string \<Rightarrow> string \<Rightarrow> bool \<Rightarrow> string" where
  "clientKey remoteAddr xForwardedFor trustProxy =
     (let first = (if trustProxy \<and> xForwardedFor \<noteq> [] then TrimSpace (hd (Split CHR '','' xForwardedFor)) else []) in
      if first \<noteq> [] then first
      else (case SplitHost remoteAddr of None \<Rightarrow> remoteAddr | Some host \<Rightarrow> host))"

text \<open>The middleware: the handler runs, or the answer is 429 with \<open>Retry-After\<close> in seconds.\<close>

datatype 'r limited = Passed 'r | TooManyRequests int

definition middleware ::
  "bool \<Rightarrow> (string \<times> string) \<Rightarrow> int \<Rightarrow> (rateLimiter \<Rightarrow> 'r \<times> rateLimiter) \<Rightarrow> rateLimiter \<Rightarrow> 'r limited \<times> rateLimiter"
where
  "middleware trustProxy req now nxt rl =
     (case allow (clientKey (fst req) (snd req) trustProxy) now rl of
        ((True, _), rl1) \<Rightarrow> (case nxt rl1 of (r, rl2) \<Rightarrow> (Passed r, rl2))
      | ((False, retryAfter), rl1) \<Rightarrow> (TooManyRequests (retryAfter div second), rl1))"

section \<open>Isolation\<close>

lemma allow_frame [simp]:
  "rate (snd (allow k now rl)) = rate rl" "burst (snd (allow k now rl)) = burst rl" "idle (snd (allow k now rl)) = idle rl"
  by (simp_all add: allow_def Let_def)

lemma allow_other: "k' \<noteq> k \<Longrightarrow> buckets (snd (allow k now rl)) k' = buckets rl k'"
  by (simp add: allow_def Let_def)

definition limiterView :: "rateLimiter \<Rightarrow> string \<Rightarrow> bucket option \<times> rat \<times> rat" where
  "limiterView rl k = (buckets rl k, rate rl, burst rl)"

lemma refill_view: "limiterView s k = limiterView t k \<Longrightarrow> refill s now (buckets s k) = refill t now (buckets t k)"
  by (auto simp: limiterView_def refill_def Let_def split: option.split)

interpretation tb: keyed_limiter allow limiterView
proof
  fix k k' :: string and a s t
  show "k' \<noteq> k \<Longrightarrow> limiterView (snd (allow k a s)) k' = limiterView s k'"
    by (simp add: limiterView_def allow_other)
  assume v: "limiterView s k = limiterView t k"
  note r = refill_view [OF v, of a]
  from v have "rate s = rate t" by (simp add: limiterView_def)
  with r show "fst (allow k a s) = fst (allow k a t)" by (simp add: allow_def Let_def)
  from v r show "limiterView (snd (allow k a s)) k = limiterView (snd (allow k a t)) k"
    by (simp add: limiterView_def allow_def Let_def)
qed

section \<open>Invariant and bound\<close>

text \<open>Buckets never hold more than the burst, nor a negative amount, and were last touched by \<open>now\<close>.\<close>

definition limiter_ok :: "int \<Rightarrow> rateLimiter \<Rightarrow> bool" where
  "limiter_ok now rl \<longleftrightarrow> 0 \<le> rate rl \<and> 0 \<le> burst rl \<and>
     (\<forall>k b. buckets rl k = Some b \<longrightarrow> 0 \<le> tokens b \<and> tokens b \<le> burst rl \<and> last b \<le> now)"

lemma limiter_ok_new: "0 \<le> pm \<Longrightarrow> 0 \<le> b \<Longrightarrow> limiter_ok now (newRateLimiter pm b idl)"
  by (simp add: limiter_ok_def newRateLimiter_def)

lemma refill_ok:
  assumes "limiter_ok t rl" and "t \<le> now"
  shows "0 \<le> tokens (refill rl now (buckets rl k))" and "tokens (refill rl now (buckets rl k)) \<le> burst rl"
    and "last (refill rl now (buckets rl k)) = now"
proof -
  have "0 \<le> (of_int (now - last b) / of_int second) * rate rl" if "buckets rl k = Some b" for b
    using assms that by (fastforce simp: limiter_ok_def second_def intro!: mult_nonneg_nonneg divide_nonneg_nonneg)
  then show "0 \<le> tokens (refill rl now (buckets rl k))"
    using assms(1) by (fastforce simp: refill_def Let_def limiter_ok_def split: option.split)
  show "tokens (refill rl now (buckets rl k)) \<le> burst rl" "last (refill rl now (buckets rl k)) = now"
    by (auto simp: refill_def Let_def split: option.split)
qed

lemma allow_ok: "limiter_ok t rl \<Longrightarrow> t \<le> now \<Longrightarrow> limiter_ok now (snd (allow k now rl))"
proof -
  assume ok: "limiter_ok t rl" and t: "t \<le> now"
  note r = refill_ok [OF ok t, of k]
  have old: "buckets rl k' = Some b \<Longrightarrow> last b \<le> now" for k' b
    using ok t by (fastforce simp: limiter_ok_def)
  from r old ok show ?thesis by (auto simp: limiter_ok_def allow_def Let_def)
qed

lemma sweep_ok: "limiter_ok now rl \<Longrightarrow> limiter_ok now (sweep t rl)"
  by (auto simp: limiter_ok_def sweep_def Let_def split: option.splits if_splits)


section \<open>Runs of the limiter\<close>

text \<open>
  What happens to a limiter, in the order in which its mutex is taken: requests of all clients and
  the sweeps of the background loop, each with its time. Of interest are the times at which one key is
  granted a request.
\<close>

datatype limiterEvent = Ask string int | Clean int

primrec eventTime :: "limiterEvent \<Rightarrow> int" where
  "eventTime (Ask key t) = t"
| "eventTime (Clean t) = t"

primrec limiterStep :: "limiterEvent \<Rightarrow> rateLimiter \<Rightarrow> rateLimiter" where
  "limiterStep (Ask key t) rl = snd (allow key t rl)"
| "limiterStep (Clean t) rl = sweep t rl"

definition grantsAt :: "string \<Rightarrow> limiterEvent \<Rightarrow> rateLimiter \<Rightarrow> bool" where
  "grantsAt k ev rl \<longleftrightarrow> (case ev of Ask key t \<Rightarrow> key = k \<and> fst (fst (allow key t rl)) | Clean t \<Rightarrow> False)"

fun granted :: "string \<Rightarrow> rateLimiter \<Rightarrow> limiterEvent list \<Rightarrow> int list" where
  "granted k rl [] = []"
| "granted k rl (ev # evs) = (if grantsAt k ev rl then [eventTime ev] else []) @ granted k (limiterStep ev rl) evs"

lemma granted_times: "x \<in> set (granted k rl evs) \<Longrightarrow> x \<in> set (map eventTime evs)"
  by (induction k rl evs rule: granted.induct) (auto split: if_splits)

text \<open>
  The rate at which a key can earn grants: that of the refill or, when a sweep can drop a bucket that
  is not full, a whole burst per idle time.
\<close>

definition earning :: "rateLimiter \<Rightarrow> rat" where
  "earning rl = max (rate rl / of_int second) (burst rl / of_int (idle rl))"

text \<open>What a key can have at time \<open>t\<close> at most.\<close>

definition credit :: "rateLimiter \<Rightarrow> string \<Rightarrow> int \<Rightarrow> rat" where
  "credit rl k t = (case buckets rl k of None \<Rightarrow> burst rl | Some b \<Rightarrow> min (burst rl) (tokens b + earning rl * of_int (t - last b)))"

lemma earning_bounds:
  assumes "limiter_ok t rl" and "0 < idle rl"
  shows "rate rl / of_int second \<le> earning rl" "0 \<le> earning rl" "burst rl \<le> earning rl * of_int (idle rl)"
proof -
  show "rate rl / of_int second \<le> earning rl" by (simp add: earning_def)
  have "0 \<le> rate rl / of_int second" using assms(1) by (simp add: limiter_ok_def second_def)
  then show "0 \<le> earning rl" by (simp add: earning_def)
  have "burst rl / of_int (idle rl) \<le> earning rl" by (simp add: earning_def)
  then show "burst rl \<le> earning rl * of_int (idle rl)" using assms(2) by (simp add: pos_divide_le_eq)
qed

lemma limiterStep_frame [simp]:
  "rate (limiterStep ev rl) = rate rl" "burst (limiterStep ev rl) = burst rl" "idle (limiterStep ev rl) = idle rl"
  "earning (limiterStep ev rl) = earning rl"
proof -
  show "rate (limiterStep ev rl) = rate rl" "burst (limiterStep ev rl) = burst rl" "idle (limiterStep ev rl) = idle rl"
    by (cases ev; simp add: sweep_def)+
  then show "earning (limiterStep ev rl) = earning rl" by (simp add: earning_def)
qed

lemma limiterStep_ok: "limiter_ok t rl \<Longrightarrow> t \<le> eventTime ev \<Longrightarrow> limiter_ok (eventTime ev) (limiterStep ev rl)"
proof (cases ev)
  case (Clean h)
  assume "limiter_ok t rl" "t \<le> eventTime ev"
  then have "limiter_ok h rl" using Clean by (fastforce simp: limiter_ok_def)
  then show ?thesis using Clean by (simp add: sweep_ok)
qed (simp add: allow_ok)

lemma credit_later:
  assumes "limiter_ok t rl" and "0 < idle rl" and "t \<le> h"
  shows "credit rl k h \<le> credit rl k t + earning rl * of_int (h - t)"
proof (cases "buckets rl k")
  case None
  have "0 \<le> earning rl * of_int (h - t)" using earning_bounds(2) [OF assms(1,2)] assms(3) by (intro mult_nonneg_nonneg) auto
  with None show ?thesis by (simp add: credit_def)
next
  case (Some b)
  have s: "earning rl * of_int (t - last b) + earning rl * of_int (h - t) = earning rl * of_int (h - last b)"
    by (simp only: distrib_left [symmetric] of_int_add [symmetric]) simp
  have "0 \<le> earning rl * of_int (h - t)" using earning_bounds(2) [OF assms(1,2)] assms(3) by (intro mult_nonneg_nonneg) auto
  with Some s show ?thesis by (auto simp: credit_def min_def)
qed

text \<open>A step costs a grant its token and never raises the credit, a sweep included.\<close>

lemma credit_step:
  assumes ok: "limiter_ok t rl" and idle: "0 < idle rl" and t: "t \<le> eventTime ev"
  shows "(if grantsAt k ev rl then 1 else 0) + credit (limiterStep ev rl) k (eventTime ev) \<le> credit rl k (eventTime ev)"
proof (cases ev)
  case (Clean h)
  show ?thesis
  proof (cases "buckets rl k")
    case (Some b)
    show ?thesis
    proof (cases "last b < h - idle rl")
      case True
      have b: "0 \<le> tokens b" using ok Some by (simp add: limiter_ok_def)
      have "earning rl * of_int (idle rl) \<le> earning rl * of_int (h - last b)"
        using earning_bounds(2) [OF ok idle] True by (intro mult_left_mono) auto
      then have "burst rl \<le> tokens b + earning rl * of_int (h - last b)" using earning_bounds(3) [OF ok idle] b by linarith
      with Clean Some True show ?thesis by (simp add: credit_def grantsAt_def sweep_def)
    qed (use Clean Some in \<open>simp add: credit_def grantsAt_def sweep_def earning_def\<close>)
  qed (use Clean in \<open>simp add: credit_def grantsAt_def sweep_def\<close>)
next
  case (Ask key h)
  show ?thesis
  proof (cases "key = k")
    case False
    then show ?thesis using Ask by (simp add: credit_def grantsAt_def allow_other earning_def split: option.split)
  next
    case True
    define b where "b = refill rl h (buckets rl k)"
    have lb: "last b = h" using refill_ok(3) [OF ok] t Ask by (simp add: b_def)
    have full: "tokens b \<le> burst rl" using refill_ok(2) [OF ok] t Ask by (simp add: b_def)
    have "tokens b \<le> credit rl k h"
    proof (cases "buckets rl k")
      case (Some b0)
      have "last b0 \<le> t" using ok Some by (simp add: limiter_ok_def)
      then have "rate rl / of_int second * of_int (h - last b0) \<le> earning rl * of_int (h - last b0)"
        using earning_bounds(1) [OF ok idle] t Ask by (intro mult_right_mono) auto
      moreover have "tokens b \<le> tokens b0 + rate rl / of_int second * of_int (h - last b0)"
        using Some by (simp add: b_def refill_def Let_def mult.commute)
      ultimately show ?thesis using Some full by (simp add: credit_def)
    qed (simp add: b_def refill_def credit_def)
    moreover have "(if grantsAt k ev rl then 1 else 0) + credit (limiterStep ev rl) k h \<le> tokens b"
      using Ask True full lb by (auto simp: grantsAt_def credit_def allow_def Let_def b_def [symmetric])
    ultimately show ?thesis using Ask by simp
  qed
qed

lemma earned_nonneg: "limiter_ok t rl \<Longrightarrow> 0 < idle rl \<Longrightarrow> t \<le> c \<Longrightarrow> 0 \<le> earning rl * of_int (c - t)"
  by (intro mult_nonneg_nonneg earning_bounds(2)) auto

lemma credit_nonneg: "limiter_ok t rl \<Longrightarrow> 0 < idle rl \<Longrightarrow> t \<le> h \<Longrightarrow> 0 \<le> credit rl k h"
proof (cases "buckets rl k")
  case (Some b)
  assume a: "limiter_ok t rl" "0 < idle rl" "t \<le> h"
  have "last b \<le> h" using a(1,3) Some by (fastforce simp: limiter_ok_def)
  then have "0 \<le> earning rl * of_int (h - last b)" using earning_bounds(2) [OF a(1,2)] by simp
  with Some a show ?thesis by (auto simp: credit_def limiter_ok_def)
qed (simp add: credit_def limiter_ok_def)

text \<open>Nothing is granted before the first event.\<close>

lemma granted_before:
  assumes "sorted (map eventTime evs)" and "evs \<noteq> []" and "\<And>x. P x \<Longrightarrow> x < eventTime (hd evs)"
  shows "filter P (granted k rl evs) = []"
proof -
  have "\<not> P x" if "x \<in> set (granted k rl evs)" for x
  proof -
    have "x \<in> set (map eventTime evs)" by (rule granted_times [OF that])
    then have "eventTime (hd evs) \<le> x" using assms(1,2) by (cases evs) auto
    with assms(3) [of x] show ?thesis by auto
  qed
  then show ?thesis by (simp add: filter_empty_conv)
qed

lemma granted_credit:
  "limiter_ok t rl \<Longrightarrow> 0 < idle rl \<Longrightarrow> sorted (t # map eventTime evs) \<Longrightarrow> t \<le> c \<Longrightarrow>
    of_nat (length (filter (\<lambda>x. x \<le> c) (granted k rl evs))) \<le> credit rl k t + earning rl * of_int (c - t)"
proof (induction evs arbitrary: t rl)
  case Nil
  from credit_nonneg [OF Nil.prems(1,2) order_refl, of k] earned_nonneg [OF Nil.prems(1,2,4)] show ?case by simp
next
  case (Cons ev evs)
  define h where "h = eventTime ev"
  have th: "t \<le> h" and sh: "sorted (h # map eventTime evs)" using Cons.prems(3) by (auto simp: h_def)
  define rl' where "rl' = limiterStep ev rl"
  have ok: "limiter_ok h rl'" unfolding rl'_def h_def by (rule limiterStep_ok [OF Cons.prems(1)]) (use th in \<open>simp add: h_def\<close>)
  have idle: "0 < idle rl'" using Cons.prems(2) by (simp add: rl'_def)
  show ?case
  proof (cases "h \<le> c")
    case True
    have g: "of_nat (length (filter (\<lambda>x. x \<le> c) (granted k rl' evs))) \<le> credit rl' k h + earning rl * of_int (c - h)"
      using Cons.IH [OF ok idle sh True] by (simp add: rl'_def)
    have st: "(if grantsAt k ev rl then 1 else 0) + credit rl' k h \<le> credit rl k h"
      using credit_step [OF Cons.prems(1,2), of ev k] th by (simp add: rl'_def h_def)
    have later: "credit rl k h \<le> credit rl k t + earning rl * of_int (h - t)" by (rule credit_later [OF Cons.prems(1,2) th])
    have s: "earning rl * of_int (h - t) + earning rl * of_int (c - h) = earning rl * of_int (c - t)"
      by (simp only: distrib_left [symmetric] of_int_add [symmetric]) simp
    have "of_nat (length (filter (\<lambda>x. x \<le> c) (granted k rl (ev # evs)))) =
        (if grantsAt k ev rl then 1 else 0) + (of_nat (length (filter (\<lambda>x. x \<le> c) (granted k rl' evs))) :: rat)"
      using True by (simp add: rl'_def h_def)
    with g st later s show ?thesis by linarith
  next
    case False
    have "filter (\<lambda>x. x \<le> c) (granted k rl (ev # evs)) = []"
      by (rule granted_before) (use Cons.prems(3) False in \<open>simp_all add: h_def\<close>)
    with credit_nonneg [OF Cons.prems(1,2) order_refl, of k] earned_nonneg [OF Cons.prems(1,2,4)]
    show ?thesis by (simp del: granted.simps)
  qed
qed

lemma granted_window:
  "limiter_ok t rl \<Longrightarrow> 0 < idle rl \<Longrightarrow> sorted (t # map eventTime evs) \<Longrightarrow> a \<le> c \<Longrightarrow>
    of_nat (length (filter (\<lambda>x. a \<le> x \<and> x \<le> c) (granted k rl evs))) \<le> burst rl + earning rl * of_int (c - a)"
proof (induction evs arbitrary: t rl)
  case Nil
  have "0 \<le> earning rl * of_int (c - a)"
    using earning_bounds(2) [OF Nil.prems(1,2)] Nil.prems(4) by (intro mult_nonneg_nonneg) auto
  with Nil.prems(1) show ?case by (simp add: limiter_ok_def)
next
  case (Cons ev evs)
  define h where "h = eventTime ev"
  have th: "t \<le> h" and sh: "sorted (h # map eventTime evs)" using Cons.prems(3) by (auto simp: h_def)
  show ?case
  proof (cases "h < a")
    case True
    have "limiter_ok h (limiterStep ev rl)" using limiterStep_ok [OF Cons.prems(1), of ev] th by (simp add: h_def)
    from Cons.IH [OF this _ sh Cons.prems(4)] Cons.prems(2) True show ?thesis by (simp add: h_def)
  next
    case False
    have e: "0 \<le> earning rl" by (rule earning_bounds(2) [OF Cons.prems(1,2)])
    show ?thesis
    proof (cases "h \<le> c")
      case True
      have ok: "limiter_ok h rl" using Cons.prems(1) th by (fastforce simp: limiter_ok_def)
      have sub: "length (filter (\<lambda>x. a \<le> x \<and> x \<le> c) xs) \<le> length (filter (\<lambda>x. x \<le> c) xs)" for xs :: "int list"
        by (induction xs) auto
      have "of_nat (length (filter (\<lambda>x. x \<le> c) (granted k rl (ev # evs)))) \<le> credit rl k h + earning rl * of_int (c - h)"
        by (rule granted_credit [OF ok Cons.prems(2) _ True]) (use sh in \<open>simp add: h_def\<close>)
      moreover have "credit rl k h \<le> burst rl" by (simp add: credit_def split: option.split)
      moreover have "earning rl * of_int (c - h) \<le> earning rl * of_int (c - a)" using e False by (intro mult_left_mono) auto
      ultimately show ?thesis using sub [of "granted k rl (ev # evs)"] by (simp del: granted.simps)
    next
      case hc: False
      have "filter (\<lambda>x. a \<le> x \<and> x \<le> c) (granted k rl (ev # evs)) = []"
        by (rule granted_before) (use Cons.prems(3) hc in \<open>simp_all add: h_def\<close>)
      moreover have "0 \<le> earning rl * of_int (c - a)" using e Cons.prems(4) by (intro mult_nonneg_nonneg) auto
      ultimately show ?thesis using Cons.prems(1) by (simp add: limiter_ok_def del: granted.simps)
    qed
  qed
qed

section \<open>Properties\<close>

text \<open>
  clients do not affect each other. In any interleaving of requests, the answers a key gets
  are those it would get if only its own requests had been made.
\<close>

theorem allow_isolated:
  "answersTo k (serve allow rl rs) = map snd (serve allow rl (filter (\<lambda>p. fst p = k) rs))"
  by (rule tb.isolation)

text \<open>
  C26: the rate bound. Take any run of the limiter from any state it can be in: requests of any clients
  and sweeps of the background loop, interleaved at increasing times. In every window of the run, from
  \<open>a\<close> to \<open>c\<close>, one client is granted at most \<open>burst + rate * (c - a)\<close> requests when the idle time refills
  a whole burst. For a configuration in which it does not, the sweep hands out bursts of its own: then the
  bound holds with a burst per idle time in place of the rate.
\<close>

theorem allow_rate_bound:
  assumes "limiter_ok t rl" and "0 < idle rl" and "sorted (t # map eventTime evs)" and "a \<le> c"
  shows "of_nat (length (filter (\<lambda>x. a \<le> x \<and> x \<le> c) (granted k rl evs))) \<le>
      burst rl + max (rate rl / of_int second) (burst rl / of_int (idle rl)) * of_int (c - a) \<and>
    (burst rl \<le> rate rl * (of_int (idle rl) / of_int second) \<longrightarrow>
      of_nat (length (filter (\<lambda>x. a \<le> x \<and> x \<le> c) (granted k rl evs))) \<le> burst rl + rate rl * (of_int (c - a) / of_int second))"
proof -
  have "earning rl = rate rl / of_int second" if "burst rl \<le> rate rl * (of_int (idle rl) / of_int second)"
  proof -
    have "burst rl \<le> rate rl / of_int second * of_int (idle rl)" using that by simp
    then have "burst rl / of_int (idle rl) \<le> rate rl / of_int second" using assms(2) by (simp only: pos_divide_le_eq of_int_0_less_iff)
    then show ?thesis by (simp add: earning_def)
  qed
  with granted_window [OF assms, of k] show ?thesis by (auto simp: earning_def)
qed

text \<open>Four requests at once, a sweep, and one more a second later: two of the first and the last are granted.\<close>

theorem allow_rate_bound_witness:
  "granted ''a'' (newRateLimiter 60 2 60000000000)
      [Ask ''a'' 0, Ask ''b'' 0, Ask ''a'' 0, Ask ''a'' 0, Clean 500000000, Ask ''a'' 1000000000] = [0, 0, 1000000000] \<and>
   of_nat (length (filter (\<lambda>x. 0 \<le> x \<and> x \<le> 1000000000) (granted ''a'' (newRateLimiter 60 2 60000000000)
      [Ask ''a'' 0, Ask ''b'' 0, Ask ''a'' 0, Ask ''a'' 0, Clean 500000000, Ask ''a'' 1000000000]))) \<le> (2 + 1 * 1 :: rat)"
proof
  show "granted ''a'' (newRateLimiter 60 2 60000000000)
      [Ask ''a'' 0, Ask ''b'' 0, Ask ''a'' 0, Ask ''a'' 0, Clean 500000000, Ask ''a'' 1000000000] = [0, 0, 1000000000]"
    by (simp add: grantsAt_def allow_def refill_def sweep_def newRateLimiter_def second_def Let_def)
  show "of_nat (length (filter (\<lambda>x. 0 \<le> x \<and> x \<le> 1000000000) (granted ''a'' (newRateLimiter 60 2 60000000000)
      [Ask ''a'' 0, Ask ''b'' 0, Ask ''a'' 0, Ask ''a'' 0, Clean 500000000, Ask ''a'' 1000000000]))) \<le> (2 + 1 * 1 :: rat)"
    using allow_rate_bound [OF limiter_ok_new [of 60 2 0 60000000000], of
        "[Ask ''a'' 0, Ask ''b'' 0, Ask ''a'' 0, Ask ''a'' 0, Clean 500000000, Ask ''a'' 1000000000]" 0 1000000000 "''a''"]
    by (simp add: newRateLimiter_def second_def del: granted.simps)
qed

text \<open>
  \<open>Retry-After\<close> is enough. A client that is refused and comes back after the whole seconds
  it was told is granted the request (unless the burst is below one).
\<close>

theorem allow_retry_after:
  assumes "limiter_ok t rl" and "t \<le> now" and "0 < rate rl" and "1 \<le> burst rl"
    and "allow k now rl = ((False, w), rl')" and "now + w \<le> later"
  shows "w mod second = 0 \<and> 0 \<le> w \<and> fst (fst (allow k later rl'))"
proof -
  define b where "b = refill rl now (buckets rl k)"
  define y where "y = (1 - tokens b) / rate rl * of_int second"
  have low: "\<not> tokens b \<ge> 1" and w: "w = (floor y + second) - (floor y + second) mod second"
    and bk: "buckets rl' k = Some b" and rl': "rate rl' = rate rl" "burst rl' = burst rl"
    using assms(5) by (auto simp: allow_def Let_def b_def y_def split: if_splits)
  have y0: "0 < y" using low assms(3) by (simp add: y_def second_def)
  have lb: "last b = now" using refill_ok(3) [OF assms(1,2)] by (simp add: b_def)
  have "(floor y + second) mod second < second" "0 \<le> (floor y + second) mod second" by (simp_all add: second_def)
  then have fw: "floor y < w" using w by simp
  then have "y < of_int w" by (simp add: floor_less_iff)
  then have "y < of_int (later - now)" using assms(6) by (simp add: order_less_le_trans)
  then have "1 - tokens b < of_int (later - now) / of_int second * rate rl"
    using assms(3) by (simp add: y_def field_simps second_def)
  then have "1 \<le> tokens (refill rl' later (buckets rl' k))"
    using assms(4) by (simp add: refill_def bk rl' lb Let_def)
  then have "fst (fst (allow k later rl'))" by (simp add: allow_def Let_def)
  moreover have "0 \<le> w" using fw y0 by (simp add: order_trans [of 0 "floor y"])
  moreover have "w mod second = 0" using w by (simp add: mod_diff_right_eq)
  ultimately show ?thesis by blast
qed

theorem allow_retry_after_witness:
  "fst (fst (allow ''a'' 2000000000 (snd (allow ''a'' 0 (snd (allow ''a'' 0 (newRateLimiter 60 1 60000000000)))))))"
proof -
  let ?rl = "snd (allow ''a'' 0 (newRateLimiter 60 1 60000000000))"
  have "limiter_ok 0 ?rl" by (rule allow_ok [OF limiter_ok_new [where now = 0]]) simp_all
  moreover have "0 < rate ?rl" "1 \<le> burst ?rl" by (simp_all add: newRateLimiter_def)
  moreover have "allow ''a'' 0 ?rl = ((False, 2000000000), snd (allow ''a'' 0 ?rl))"
    by (simp add: allow_def refill_def newRateLimiter_def second_def)
  ultimately have "fst (fst (allow ''a'' 2000000000 (snd (allow ''a'' 0 ?rl))))"
    using allow_retry_after [of 0 ?rl 0 "''a''" 2000000000 "snd (allow ''a'' 0 ?rl)" 2000000000] by simp
  then show ?thesis .
qed

text \<open>
  sweeping is invisible when the idle time suffices to refill a whole bucket
  (\<open>burst \<le> rate * idle\<close>): every later request gets the same answer, and leaves the key's
  bucket in the same state, as if the sweep had not happened.
\<close>

theorem sweep_invisible:
  assumes "limiter_ok t rl" and "t \<le> now" and "now \<le> later"
    and "burst rl \<le> rate rl * (of_int (idle rl) / of_int second)"
  shows "fst (allow k later (sweep now rl)) = fst (allow k later rl) \<and>
    buckets (snd (allow k later (sweep now rl))) k = buckets (snd (allow k later rl)) k"
proof -
  have eq: "refill (sweep now rl) later (buckets (sweep now rl) k) = refill rl later (buckets rl k)"
  proof (cases "buckets rl k")
    case None
    then show ?thesis by (simp add: sweep_def refill_def)
  next
    case (Some b)
    show ?thesis
    proof (cases "last b < now - idle rl")
      case False
      with Some show ?thesis by (simp add: sweep_def refill_def Let_def)
    next
      case True
      have b: "0 \<le> tokens b" "0 \<le> rate rl" using assms(1) Some by (auto simp: limiter_ok_def)
      have "idle rl \<le> later - last b" using True assms(3) by simp
      then have "of_int (idle rl) / of_int second \<le> (of_int (later - last b) / of_int second :: rat)"
        by (intro divide_right_mono) (simp_all add: second_def)
      then have "rate rl * (of_int (idle rl) / of_int second) \<le> rate rl * (of_int (later - last b) / of_int second)"
        using b(2) by (rule mult_left_mono)
      then have "burst rl \<le> tokens b + of_int (later - last b) / of_int second * rate rl"
        using assms(4) b(1) by (simp add: mult.commute)
      with Some True show ?thesis by (auto simp: sweep_def refill_def Let_def)
    qed
  qed
  have r: "rate (sweep now rl) = rate rl" by (simp add: sweep_def)
  show ?thesis unfolding allow_def eq r Let_def by simp
qed

theorem sweep_invisible_witness:
  "fst (allow ''a'' 90000000000 (sweep 90000000000 (snd (allow ''a'' 0 (newRateLimiter 60 2 60000000000))))) =
   fst (allow ''a'' 90000000000 (snd (allow ''a'' 0 (newRateLimiter 60 2 60000000000))))"
proof -
  let ?rl = "snd (allow ''a'' 0 (newRateLimiter 60 2 60000000000))"
  have "limiter_ok 0 ?rl" by (rule allow_ok [OF limiter_ok_new [where now = 0]]) simp_all
  moreover have "burst ?rl \<le> rate ?rl * (of_int (idle ?rl) / of_int second)"
    by (simp add: newRateLimiter_def second_def)
  ultimately show ?thesis using sweep_invisible [of 0 ?rl 90000000000 90000000000 "''a''"] by simp
qed

text \<open>
  the comment on \<open>sweep\<close> (only fully refilled buckets are dropped) does not hold for every
  configuration. When the burst exceeds what the idle time refills, an empty bucket idle for just
  over that time is dropped and its key starts again with a full burst instead of the smaller
  amount it would have.
\<close>

theorem sweep_forgets:
  assumes "buckets rl k = Some \<lparr>tokens = 0, last = 0\<rparr>" and "now = idle rl + 1"
    and "rate rl * (of_int now / of_int second) < burst rl"
  shows "tokens (refill (sweep now rl) now (buckets (sweep now rl) k)) = burst rl \<and>
    tokens (refill rl now (buckets rl k)) < burst rl"
  using assms by (simp add: sweep_def refill_def Let_def mult.commute)

theorem sweep_forgets_witness:
  "\<exists>rl. rl = (newRateLimiter 1 20 600000000000)\<lparr>buckets := [''a'' \<mapsto> \<lparr>tokens = 0, last = 0\<rparr>]\<rparr> \<and>
     tokens (refill rl 600000000001 (buckets rl ''a'')) < 20 \<and>
     tokens (refill (sweep 600000000001 rl) 600000000001 (buckets (sweep 600000000001 rl) ''a'')) = 20"
  using sweep_forgets [of "(newRateLimiter 1 20 600000000000)\<lparr>buckets := [''a'' \<mapsto> \<lparr>tokens = 0, last = 0\<rparr>]\<rparr>" "''a''" 600000000001]
  by (simp add: newRateLimiter_def second_def)

text \<open>
  the key of a client. Without \<open>TRUST_PROXY\<close> all connections of one host share one bucket,
  whatever their port and whatever headers they send; with it, a non-blank first element of the
  forwarded header decides alone.
\<close>

theorem clientKey_host:
  assumes "CHR '':'' \<notin> set host" "CHR ''['' \<notin> set host" "CHR '']'' \<notin> set host" "host \<noteq> []"
    and "CHR '':'' \<notin> set port" "CHR ''['' \<notin> set port" "CHR '']'' \<notin> set port"
  shows "clientKey (host @ CHR '':'' # port) xff False = host \<and>
    (TrimSpace (hd (Split CHR '','' xff)) \<noteq> [] \<longrightarrow> xff \<noteq> [] \<longrightarrow>
       clientKey (host @ CHR '':'' # port) xff True = TrimSpace (hd (Split CHR '','' xff)))"
proof -
  have al: "after_last CHR '':'' (host @ CHR '':'' # port) = port"
    using assms(5) by (simp add: after_last_def takeWhile_append takeWhile_eq_all_conv [THEN iffD2])
  have "hd host \<noteq> CHR ''[''" using assms(2,4) hd_in_set by metis
  then have "SplitHost (host @ CHR '':'' # port) = Some host"
    using assms by (simp add: SplitHost_def al)
  then show ?thesis by (simp add: clientKey_def Let_def)
qed

theorem clientKey_host_witness: "clientKey ''10.0.0.7:51234'' ''1.2.3.4'' False = ''10.0.0.7''"
  using clientKey_host [of "''10.0.0.7''" "''51234''" "''1.2.3.4''"] by simp

end
