(* ===== verification/Quota.thy ===== *)
theory Quota
  imports Limiter
begin

text \<open>
  Per-user call quotas, \<open>allowQuota\<close> of server/internal/apps/apps.go: a sliding window of the
  grant times of the last minute for each user and app. The answer of the quota lookup
  (\<open>EffectiveQuota\<close> in the store) is an argument; the window map is the state guarded by the
  service's mutex. Times are nanoseconds.
\<close>

type_synonym windows = "string \<rightharpoonup> int list"

definition minute :: int where
  "minute = 60000000000"

text \<open>\<open>fmt.Sprintf("%d|%s", userID, app)\<close>.\<close>

definition quotaKey :: "int \<times> string \<Rightarrow> string" where
  "quotaKey k = itoa_int (fst k) @ ''|'' @ snd k"

definition window :: "windows \<Rightarrow> int \<times> string \<Rightarrow> int list" where
  "window ws k = (case ws (quotaKey k) of None \<Rightarrow> [] | Some ts \<Rightarrow> ts)"

definition allowQuota ::
  "int \<times> string \<Rightarrow> int \<times> (int \<times> bool) result \<Rightarrow> windows \<Rightarrow> goerr option \<times> windows" where
  "allowQuota k a ws =
     (case snd a of
        Inl err \<Rightarrow> (Some (Wrap ''quota lookup'' err), ws)
      | Inr (cap, enabled) \<Rightarrow>
          if \<not> enabled then (Some (Fmt ''%s app is disabled for this user'' [snd k]), ws)
          else
            (let kept = filter (\<lambda>t. fst a - t < minute) (window ws k) in
             if int (length kept) \<ge> cap
             then (Some (Fmt ''%s app rate limit exceeded (%d/min)'' [snd k, itoa_int cap]), ws(quotaKey k \<mapsto> kept))
             else (None, ws(quotaKey k \<mapsto> kept @ [fst a]))))"

section \<open>Keys\<close>

lemma bar_not_in_itoa_int: "CHR ''|'' \<notin> set (itoa_int i)"
  using itoa_digits [of "CHR ''|''"] by (auto simp: itoa_int_def is_digit_def)

lemma bar_split:
  "CHR ''|'' \<notin> set a \<Longrightarrow> CHR ''|'' \<notin> set b \<Longrightarrow> a @ CHR ''|'' # x = b @ CHR ''|'' # y \<Longrightarrow> a = b \<and> x = y"
proof (induction a arbitrary: b)
  case Nil
  then show ?case by (cases b) auto
next
  case (Cons c a)
  then show ?case by (cases b) auto
qed

lemma quotaKey_inject [simp]: "quotaKey k = quotaKey k' \<longleftrightarrow> k = k'"
proof
  assume "quotaKey k = quotaKey k'"
  then have "itoa_int (fst k) = itoa_int (fst k') \<and> snd k = snd k'"
    using bar_split [OF bar_not_in_itoa_int bar_not_in_itoa_int] by (simp add: quotaKey_def)
  then show "k = k'" by (simp add: itoa_int_inject prod_eq_iff)
qed simp

interpretation quota: keyed_limiter allowQuota window
proof
  fix k k' :: "int \<times> string" and a s t
  show "k' \<noteq> k \<Longrightarrow> window (snd (allowQuota k a s)) k' = window s k'"
    by (auto simp: window_def allowQuota_def Let_def split: sum.splits prod.splits)
  assume v: "window s k = window t k"
  show "fst (allowQuota k a s) = fst (allowQuota k a t)"
    by (simp add: allowQuota_def v Let_def split: sum.splits prod.splits)
  show "window (snd (allowQuota k a s)) k = window (snd (allowQuota k a t)) k"
    using v by (auto simp: window_def allowQuota_def Let_def split: sum.splits prod.splits)
qed

section \<open>The window is the recent history\<close>

type_synonym request = "(int \<times> string) \<times> (int \<times> (int \<times> bool) result)"

fun quotaRun :: "windows \<Rightarrow> request list \<Rightarrow> windows" where
  "quotaRun ws [] = ws"
| "quotaRun ws ((k, a) # rs) = quotaRun (snd (allowQuota k a ws)) rs"

text \<open>The times at which requests of key \<open>k\<close> were granted in a run.\<close>

fun grantTimes :: "int \<times> string \<Rightarrow> windows \<Rightarrow> request list \<Rightarrow> int list" where
  "grantTimes k ws [] = []"
| "grantTimes k ws ((k', a) # rs) =
     (if k' = k \<and> fst (allowQuota k' a ws) = None then [fst a] else []) @ grantTimes k (snd (allowQuota k' a ws)) rs"

definition requestTime :: "request \<Rightarrow> int" where
  "requestTime r = fst (snd r)"

text \<open>\<open>w\<close> agrees with the history \<open>H\<close> as far as any request from time \<open>t\<close> on can see.\<close>

definition recent :: "int \<Rightarrow> int list \<Rightarrow> int list \<Rightarrow> bool" where
  "recent t H w \<longleftrightarrow> (\<forall>t' \<ge> t. filter (\<lambda>x. t' - x < minute) w = filter (\<lambda>x. t' - x < minute) H)"

lemma recent_mono: "recent t H w \<Longrightarrow> t \<le> t' \<Longrightarrow> recent t' H w"
  by (auto simp: recent_def)

lemma recent_filter: "recent t H w \<Longrightarrow> t \<le> t' \<Longrightarrow> recent t' H (filter (\<lambda>x. t' - x < minute) w)"
proof -
  assume r: "recent t H w" and t: "t \<le> t'"
  have "filter (\<lambda>x. u - x < minute) (filter (\<lambda>x. t' - x < minute) w) = filter (\<lambda>x. u - x < minute) w" if "t' \<le> u" for u
    unfolding filter_filter by (rule filter_cong [OF refl]) (use that in auto)
  with r t show ?thesis by (simp add: recent_def del: filter_filter)
qed

lemma recent_append: "recent t H w \<Longrightarrow> recent t (H @ [x]) (w @ [x])"
  by (simp add: recent_def)

lemma window_step:
  "recent t H (window ws k) \<Longrightarrow> t \<le> fst a \<Longrightarrow>
    recent (fst a) (H @ (if k' = k \<and> fst (allowQuota k' a ws) = None then [fst a] else []))
      (window (snd (allowQuota k' a ws)) k)"
proof (cases "k' = k")
  case False
  assume "recent t H (window ws k)" "t \<le> fst a"
  with False show ?thesis using quota.frame [of k k' a ws] by (simp add: recent_mono)
next
  case True
  assume r: "recent t H (window ws k)" "t \<le> fst a"
  note f = recent_filter [OF r] and m = recent_mono [OF r]
  have w: "window (ws(quotaKey k \<mapsto> ts)) k = ts" for ts by (simp add: window_def)
  show ?thesis
    using True f m recent_append [OF f]
    by (auto simp: allowQuota_def Let_def w split: sum.splits prod.splits)
qed

lemma window_history:
  "recent t H (window ws k) \<Longrightarrow> sorted (t # map requestTime rs @ [t']) \<Longrightarrow>
    recent t' (H @ grantTimes k ws rs) (window (quotaRun ws rs) k)"
proof (induction rs arbitrary: t H ws)
  case Nil
  then show ?case by (simp add: recent_mono)
next
  case (Cons r rs)
  obtain k' a where r: "r = (k', a)" by (cases r)
  have "t \<le> fst a" using Cons.prems(2) r by (simp add: requestTime_def)
  note s = window_step [OF Cons.prems(1) this, of k']
  have "sorted (fst a # map requestTime rs @ [t'])" using Cons.prems(2) r by (simp add: requestTime_def [abs_def])
  from Cons.IH [OF s this] show ?case by (simp add: r)
qed

lemma grantTimes_append: "grantTimes k ws (rs @ qs) = grantTimes k ws rs @ grantTimes k (quotaRun ws rs) qs"
  by (induction k ws rs rule: grantTimes.induct) auto

lemma grantTimes_bounded: "sorted (map requestTime rs @ [t']) \<Longrightarrow> x \<in> set (grantTimes k ws rs) \<Longrightarrow> x \<le> t'"
  by (induction k ws rs rule: grantTimes.induct) (auto simp: requestTime_def sorted_append split: if_splits)


text \<open>
  Whatever the windows hold at the beginning of a run, a call is granted by the old entries and the
  grants of the run in the last minute together.
\<close>

lemma allowQuota_from:
  assumes "sorted (map requestTime rs @ [t])"
  shows "fst (allowQuota k (t, Inr (cap, True)) (quotaRun ws rs)) = None \<longleftrightarrow>
    int (length (filter (\<lambda>x. t - x < minute) (window ws k @ grantTimes k ws rs))) < cap"
proof -
  define t0 where "t0 = (if rs = [] then t else requestTime (hd rs))"
  have "recent t0 (window ws k) (window ws k)" by (simp add: recent_def)
  moreover have "sorted (t0 # map requestTime rs @ [t])"
    using assms by (cases rs) (auto simp: t0_def)
  ultimately have "recent t (window ws k @ grantTimes k ws rs) (window (quotaRun ws rs) k)"
    by (rule window_history)
  then have "filter (\<lambda>x. t - x < minute) (window (quotaRun ws rs) k) = filter (\<lambda>x. t - x < minute) (window ws k @ grantTimes k ws rs)"
    by (simp add: recent_def)
  then show ?thesis by (simp add: allowQuota_def Let_def)
qed

lemma allowQuota_exact:
  assumes "sorted (map requestTime rs @ [t])"
  shows "fst (allowQuota k (t, Inr (cap, True)) (quotaRun Map.empty rs)) = None \<longleftrightarrow>
    int (length (filter (\<lambda>x. t - x < minute) (grantTimes k Map.empty rs))) < cap"
  using allowQuota_from [OF assms, of k cap Map.empty] by (simp add: window_def)

lemma window_count_mono:
  assumes "a \<le> t" and "t < a + minute"
  shows "length (filter (\<lambda>x. a \<le> x \<and> x < a + minute) H) \<le> length (filter (\<lambda>x. t - x < minute) H)"
  using assms by (induction H) auto

text \<open>All requests of \<open>k\<close> come with a limit of at most \<open>L\<close> (the lookup may also fail or disable the app).\<close>

definition capped :: "int \<times> string \<Rightarrow> nat \<Rightarrow> request list \<Rightarrow> bool" where
  "capped k L rs \<longleftrightarrow> list_all (\<lambda>r. fst r = k \<longrightarrow> (case snd (snd r) of Inl _ \<Rightarrow> True | Inr q \<Rightarrow> fst q \<le> int L)) rs"

lemma quota_bound:
  assumes "sorted (map requestTime rs)" and "capped k L rs"
  shows "length (filter (\<lambda>x. a \<le> x \<and> x < a + minute) (grantTimes k ws rs)) \<le> L"
  using assms
proof (induction rs rule: rev_induct)
  case Nil
  then show ?case by simp
next
  case (snoc r rs)
  obtain k' t q where r: "r = (k', (t, q))" by (cases r) auto
  have sorted: "sorted (map requestTime rs @ [t])" using snoc.prems(1) r by (simp add: requestTime_def [abs_def])
  have IH: "length (filter (\<lambda>x. a \<le> x \<and> x < a + minute) (grantTimes k ws rs)) \<le> L"
    using snoc by (simp add: sorted_append capped_def)
  show ?case
  proof (cases "k' = k \<and> fst (allowQuota k' (t, q) (quotaRun ws rs)) = None \<and> a \<le> t \<and> t < a + minute")
    case False
    with IH show ?thesis by (auto simp: grantTimes_append r)
  next
    case True
    obtain cap where q: "q = Inr (cap, True)" "cap \<le> int L"
      using True snoc.prems(2) by (auto simp: r allowQuota_def capped_def split: sum.splits prod.splits if_splits)
    have "fst (allowQuota k (t, Inr (cap, True)) (quotaRun ws rs)) = None" using True q(1) by blast
    then have "int (length (filter (\<lambda>x. t - x < minute) (window ws k @ grantTimes k ws rs))) < cap"
      by (simp only: allowQuota_from [OF sorted])
    then have "int (length (filter (\<lambda>x. t - x < minute) (grantTimes k ws rs))) < cap" by simp
    with q(2) have "int (length (filter (\<lambda>x. t - x < minute) (grantTimes k ws rs))) < int L" by linarith
    with window_count_mono [of a t "grantTimes k ws rs"] True
    show ?thesis by (simp add: grantTimes_append r)
  qed
qed

section \<open>Properties\<close>

text \<open>
  users and apps do not consume each other's quota: in any interleaving, the answers to one
  user's calls of one app are those of that user's calls of that app alone.
\<close>

theorem allowQuota_isolated:
  "answersTo k (serve allowQuota ws rs) = map snd (serve allowQuota ws (filter (\<lambda>p. fst p = k) rs))"
  by (rule quota.isolation)

text \<open>
  the pruned window decides as the full history would. After any run at increasing times, a
  call of an enabled app is granted exactly when fewer than the limit were granted to that user
  and app during the last minute.
\<close>

theorem allowQuota_window:
  assumes "sorted (map requestTime rs @ [t])"
  shows "fst (allowQuota k (t, Inr (cap, True)) (quotaRun Map.empty rs)) = None \<longleftrightarrow>
    int (length (filter (\<lambda>x. t - x < minute) (grantTimes k Map.empty rs))) < cap"
  by (rule allowQuota_exact [OF assms])

theorem allowQuota_window_witness:
  "fst (allowQuota (7, ''mail'') (5, Inr (1, True)) (quotaRun Map.empty [((7, ''mail''), (0, Inr (1, True)))])) \<noteq> None"
  using allowQuota_window [of "[((7, ''mail''), (0, Inr (1, True)))]" 5 "(7, ''mail'')" 1]
  by (simp add: requestTime_def allowQuota_def minute_def window_def)

text \<open>
  the quota bound. Whatever other users do, in no half-open interval of one minute does a
  user get more than the limit of an app's calls.
\<close>

theorem allowQuota_bound:
  assumes "sorted (map requestTime rs)" and "capped k L rs"
  shows "length (filter (\<lambda>x. a \<le> x \<and> x < a + minute) (grantTimes k Map.empty rs)) \<le> L"
  by (rule quota_bound [OF assms])

theorem allowQuota_bound_witness:
  "length (filter (\<lambda>x. 0 \<le> x \<and> x < 0 + minute) (grantTimes (7, ''http'') Map.empty
     [((7, ''http''), (0, Inr (1, True))), ((8, ''http''), (1, Inr (5, True))), ((7, ''http''), (2, Inr (1, True)))])) \<le> 1"
  using allowQuota_bound [of "[((7, ''http''), (0, Inr (1, True))), ((8, ''http''), (1, Inr (5, True))), ((7, ''http''), (2, Inr (1, True)))]" "(7, ''http'')" 1 0]
  by (simp add: requestTime_def capped_def)

end
