(* ===== verification/AppLogs.thy ===== *)
theory AppLogs
  imports GoText
begin

text \<open>
  The operational log file of an app, server/internal/applogs/applogs.go. The file is its byte
  content (None when missing). \<open>encoding/json\<close> is a pair of parameters, \<open>marshal\<close> and
  \<open>unmarshal\<close>; what the file system does is an argument of each operation.
\<close>

record Entry =
  Time :: string
  Name :: string
  User :: string
  ProjectID :: int
  ExecID :: int
  Status :: string
  DurationMs :: int
  Request :: string
  Response :: string

definition trimAt :: int where
  "trimAt = 5000"

definition keepLines :: nat where
  "keepLines = 2500"

definition nl :: char where
  "nl = CHR 0x0A"

text \<open>The logger and its file.\<close>

record Logger =
  lineCount :: int
  disk :: "string option"

text \<open>
  How the file system behaves during one \<open>Append\<close>: a failed write may have written a prefix of
  the line; writing or renaming the temporary file may fail.
\<close>

record fsys =
  writeFails :: "nat option"
  trimFails :: bool

section \<open>File helpers\<close>

definition readLines :: "string option \<Rightarrow> string list" where
  "readLines f =
     (case f of
        None \<Rightarrow> []
      | Some raw \<Rightarrow> (let r = TrimRight_char nl raw in if r = [] then [] else Split nl r))"

definition countLines :: "string option \<Rightarrow> int" where
  "countLines f = int (length (readLines f))"

definition content :: "string option \<Rightarrow> string" where
  "content f = (case f of None \<Rightarrow> [] | Some raw \<Rightarrow> raw)"

text \<open>The file after the call, and whether it returned an error.\<close>

definition writeFileLine :: "fsys \<Rightarrow> string option \<Rightarrow> string \<Rightarrow> string option \<times> bool" where
  "writeFileLine fs f raw =
     (case writeFails fs of
        None \<Rightarrow> (Some (content f @ raw @ [nl]), False)
      | Some n \<Rightarrow> (if n = 0 then f else Some (content f @ take n (raw @ [nl])), True))"

section \<open>The logger\<close>

definition New :: "string option \<Rightarrow> Logger" where
  "New f = \<lparr>lineCount = countLines f, disk = f\<rparr>"

definition trim :: "fsys \<Rightarrow> Logger \<Rightarrow> Logger" where
  "trim fs l =
     (let lines = readLines (disk l);
          lines = (if length lines > keepLines then drop (length lines - keepLines) lines else lines)
      in if trimFails fs then l
         else l\<lparr>disk := Some (Join [nl] lines @ [nl]), lineCount := int (length lines)\<rparr>)"

definition Append :: "(Entry \<Rightarrow> string option) \<Rightarrow> string \<Rightarrow> fsys \<Rightarrow> Entry \<Rightarrow> Logger \<Rightarrow> Logger" where
  "Append marshal now fs e l =
     (let e = (if Time e = [] then e\<lparr>Time := now\<rparr> else e) in
      case marshal e of
        None \<Rightarrow> l
      | Some raw \<Rightarrow>
          (case writeFileLine fs (disk l) raw of
             (f, True) \<Rightarrow> l\<lparr>disk := f\<rparr>
           | (f, False) \<Rightarrow>
               (let l = l\<lparr>disk := f, lineCount := lineCount l + 1\<rparr> in
                if lineCount l > trimAt then trim fs l else l)))"

text \<open>The loop of \<open>Tail\<close> over the lines from the last to the first.\<close>

fun tailLines :: "(string \<Rightarrow> Entry option) \<Rightarrow> nat \<Rightarrow> string list \<Rightarrow> Entry list \<Rightarrow> Entry list" where
  "tailLines unmarshal n [] out = out"
| "tailLines unmarshal n (x # ls) out =
     (if length out < n then
        (let line = TrimSpace x in
         if line = [] then tailLines unmarshal n ls out
         else (case unmarshal line of
                 None \<Rightarrow> tailLines unmarshal n ls out
               | Some e \<Rightarrow> tailLines unmarshal n ls (out @ [e])))
      else out)"

definition Tail :: "(string \<Rightarrow> Entry option) \<Rightarrow> nat \<Rightarrow> string option \<Rightarrow> Entry list" where
  "Tail unmarshal n f =
     (case f of None \<Rightarrow> [] | Some raw \<Rightarrow> tailLines unmarshal n (rev (Split nl raw)) [])"

section \<open>Files of complete lines\<close>

definition fileOf :: "string list \<Rightarrow> string" where
  "fileOf ls = concat (map (\<lambda>l. l @ [nl]) ls)"

definition good_line :: "string \<Rightarrow> bool" where
  "good_line l \<longleftrightarrow> l \<noteq> [] \<and> nl \<notin> set l"

lemma fileOf_snoc [simp]: "fileOf (ls @ [l]) = fileOf ls @ l @ [nl]"
  by (simp add: fileOf_def)

lemma fileOf_Join: "ls \<noteq> [] \<Longrightarrow> fileOf ls = Join [nl] ls @ [nl]"
  by (induction "[nl]" ls rule: Join.induct) (auto simp: fileOf_def)

lemma Join_not_Nil: "ls \<noteq> [] \<Longrightarrow> list_all good_line ls \<Longrightarrow> Join [nl] ls \<noteq> [] \<and> List.last (Join [nl] ls) \<noteq> nl"
proof (induction "[nl]" ls rule: Join.induct)
  case (2 x)
  then show ?case by (auto simp: good_line_def dest: last_in_set)
next
  case (3 x y ys)
  then have "Join [nl] (y # ys) \<noteq> []" "List.last (Join [nl] (y # ys)) \<noteq> nl" by auto
  then show ?case by (simp add: last_append)
qed simp

lemma TrimRight_fileOf: "ls \<noteq> [] \<Longrightarrow> list_all good_line ls \<Longrightarrow> TrimRight_char nl (fileOf ls) = Join [nl] ls"
proof -
  assume ls: "ls \<noteq> []" "list_all good_line ls"
  obtain xs x where x: "Join [nl] ls = xs @ [x]" "x \<noteq> nl"
    using Join_not_Nil [OF ls] by (metis append_butlast_last_id)
  then show ?thesis by (simp add: fileOf_Join [OF ls(1)] TrimRight_char_def)
qed

lemma readLines_fileOf: "list_all good_line ls \<Longrightarrow> readLines (Some (fileOf ls)) = ls"
proof (cases "ls = []")
  case True
  then show ?thesis by (simp add: readLines_def fileOf_def TrimRight_char_def)
next
  case False
  assume g: "list_all good_line ls"
  have "Split nl (Join [nl] ls) = ls"
    by (rule Split_Join [OF False]) (use g in \<open>auto simp: list_all_iff good_line_def\<close>)
  with False g Join_not_Nil [OF False g] show ?thesis by (simp add: readLines_def TrimRight_fileOf)
qed

text \<open>The file holds exactly the lines \<open>ls\<close>, and the count is right.\<close>

definition holds_lines :: "Logger \<Rightarrow> string list \<Rightarrow> bool" where
  "holds_lines l ls \<longleftrightarrow> list_all good_line ls \<and> content (disk l) = fileOf ls \<and> lineCount l = int (length ls)"

lemma readLines_content: "readLines (Some (content f)) = readLines f"
  by (cases f) (simp_all add: content_def readLines_def TrimRight_char_def)

lemma holds_readLines: "holds_lines l ls \<Longrightarrow> readLines (disk l) = ls"
  using readLines_content [of "disk l"] readLines_fileOf [of ls] by (simp add: holds_lines_def)

lemma holds_New: "list_all good_line ls \<Longrightarrow> holds_lines (New (Some (fileOf ls))) ls"
  by (simp add: holds_lines_def New_def content_def countLines_def readLines_fileOf)

lemma holds_New_missing: "holds_lines (New None) []"
  by (simp add: holds_lines_def New_def content_def countLines_def readLines_def fileOf_def)

text \<open>What an append of one more line does to the lines of the file.\<close>

definition rotate_lines :: "string list \<Rightarrow> string list" where
  "rotate_lines ls = (if int (length ls) > trimAt then drop (length ls - keepLines) ls else ls)"

definition stamped :: "string \<Rightarrow> Entry \<Rightarrow> Entry" where
  "stamped now e = (if Time e = [] then e\<lparr>Time := now\<rparr> else e)"

lemma Append_lines:
  assumes "holds_lines l ls" and "marshal (stamped now e) = Some raw" and "good_line raw"
    and "writeFails fs = None" and "\<not> trimFails fs"
  shows "holds_lines (Append marshal now fs e l) (rotate_lines (ls @ [raw]))"
proof -
  define l1 where "l1 = l\<lparr>disk := Some (content (disk l) @ raw @ [nl]), lineCount := lineCount l + 1\<rparr>"
  have h1: "holds_lines l1 (ls @ [raw])"
    using assms(1,3) by (simp add: holds_lines_def l1_def content_def)
  have ap: "Append marshal now fs e l = (if lineCount l1 > trimAt then trim fs l1 else l1)"
    using assms(2,4) by (simp add: Append_def writeFileLine_def stamped_def [symmetric] l1_def Let_def)
  show ?thesis
  proof (cases "lineCount l1 > trimAt")
    case False
    with h1 ap show ?thesis by (simp add: rotate_lines_def holds_lines_def)
  next
    case True
    define ks where "ks = drop (length (ls @ [raw]) - keepLines) (ls @ [raw])"
    have len: "length (ls @ [raw]) > keepLines"
      using True h1 by (simp add: holds_lines_def trimAt_def keepLines_def)
    have "list_all good_line ks" using h1 unfolding ks_def holds_lines_def by (metis append_take_drop_id list_all_append)
    moreover have "ks \<noteq> []" using len by (simp add: ks_def keepLines_def)
    moreover have "trim fs l1 = l1\<lparr>disk := Some (Join [nl] ks @ [nl]), lineCount := int (length ks)\<rparr>"
      using assms(5) len by (simp add: trim_def holds_readLines [OF h1] ks_def Let_def)
    ultimately have "holds_lines (trim fs l1) ks" by (simp add: holds_lines_def content_def fileOf_Join)
    with True h1 ap show ?thesis by (simp add: rotate_lines_def ks_def holds_lines_def)
  qed
qed

fun appendAll :: "(Entry \<Rightarrow> string option) \<Rightarrow> (string \<times> fsys \<times> Entry) list \<Rightarrow> Logger \<Rightarrow> Logger" where
  "appendAll marshal [] l = l"
| "appendAll marshal ((now, fs, e) # rs) l = appendAll marshal rs (Append marshal now fs e l)"

text \<open>An append whose entry can be encoded and whose file operations succeed.\<close>

definition appendable :: "(Entry \<Rightarrow> string option) \<Rightarrow> string \<times> fsys \<times> Entry \<Rightarrow> bool" where
  "appendable marshal r \<longleftrightarrow>
     (case r of (now, fs, e) \<Rightarrow>
        (case marshal (stamped now e) of None \<Rightarrow> False | Some raw \<Rightarrow> good_line raw) \<and>
        writeFails fs = None \<and> \<not> trimFails fs)"

definition lineOf :: "(Entry \<Rightarrow> string option) \<Rightarrow> string \<times> fsys \<times> Entry \<Rightarrow> string" where
  "lineOf marshal r = (case r of (now, fs, e) \<Rightarrow> the (marshal (stamped now e)))"

definition rotated :: "string list \<Rightarrow> string list \<Rightarrow> string list" where
  "rotated ls raws = foldl (\<lambda>ls x. rotate_lines (ls @ [x])) ls raws"

lemma appendAll_lines:
  "holds_lines l ls \<Longrightarrow> list_all (appendable marshal) rs \<Longrightarrow>
    holds_lines (appendAll marshal rs l) (rotated ls (map (lineOf marshal) rs))"
proof (induction marshal rs l arbitrary: ls rule: appendAll.induct)
  case (1 marshal l)
  then show ?case by (simp add: rotated_def)
next
  case (2 marshal now fs e rs l)
  obtain raw where raw: "marshal (stamped now e) = Some raw" "good_line raw" "writeFails fs = None" "\<not> trimFails fs"
    using "2.prems"(2) by (auto simp: appendable_def split: option.splits)
  have "holds_lines (Append marshal now fs e l) (rotate_lines (ls @ [raw]))"
    by (rule Append_lines [where marshal = marshal and now = now and e = e, OF "2.prems"(1) raw])
  from "2.IH" [OF this] "2.prems"(2) raw(1) show ?case by (simp add: rotated_def lineOf_def)
qed

lemma rotated_suffix:
  "int (length ls) \<le> trimAt \<Longrightarrow>
    (\<exists>old. ls @ raws = old @ rotated ls raws \<and> (old \<noteq> [] \<longrightarrow> keepLines \<le> length (rotated ls raws))) \<and>
    int (length (rotated ls raws)) \<le> trimAt"
proof (induction raws rule: rev_induct)
  case Nil
  then show ?case by (simp add: rotated_def)
next
  case (snoc x raws)
  define zs where "zs = rotated ls raws"
  obtain old where old: "ls @ raws = old @ zs" "old \<noteq> [] \<longrightarrow> keepLines \<le> length zs" and len: "int (length zs) \<le> trimAt"
    using snoc by (auto simp: zs_def)
  have r: "rotated ls (raws @ [x]) = rotate_lines (zs @ [x])" by (simp add: rotated_def zs_def)
  show ?case
  proof (cases "int (length (zs @ [x])) > trimAt")
    case False
    then have e: "rotate_lines (zs @ [x]) = zs @ [x]" by (simp add: rotate_lines_def)
    have "ls @ raws @ [x] = old @ zs @ [x]" using old(1) by (metis append.assoc)
    moreover have "old \<noteq> [] \<longrightarrow> keepLines \<le> length (zs @ [x])" using old(2) by auto
    ultimately show ?thesis using False unfolding r e by auto
  next
    case True
    define n where "n = length (zs @ [x]) - keepLines"
    have e: "rotate_lines (zs @ [x]) = drop n (zs @ [x])" using True by (simp add: rotate_lines_def n_def)
    have k: "length (drop n (zs @ [x])) = keepLines" using True by (simp add: n_def trimAt_def keepLines_def)
    have "ls @ raws @ [x] = (old @ take n (zs @ [x])) @ drop n (zs @ [x])"
      using old(1) by (metis append.assoc append_take_drop_id)
    moreover have "int (length (drop n (zs @ [x]))) \<le> trimAt" unfolding k by (simp add: keepLines_def trimAt_def)
    ultimately show ?thesis unfolding r e using k by (metis order_refl)
  qed
qed

section \<open>Reading back\<close>

lemma tailLines_all:
  "(\<And>x. x \<in> set xs \<Longrightarrow> TrimSpace x \<noteq> [] \<and> unmarshal (TrimSpace x) = Some (f x)) \<Longrightarrow>
    tailLines unmarshal n xs out = out @ take (n - length out) (map f xs)"
proof (induction xs arbitrary: out)
  case Nil
  then show ?case by simp
next
  case (Cons x xs)
  have x: "TrimSpace x \<noteq> []" "unmarshal (TrimSpace x) = Some (f x)" using Cons.prems [of x] by auto
  have IH: "tailLines unmarshal n xs o' = o' @ take (n - length o') (map f xs)" for o'
    using Cons.IH [of o'] Cons.prems by auto
  show ?case
  proof (cases "length out < n")
    case True
    then have "n - length out = Suc (n - Suc (length out))" by simp
    with True x IH [of "out @ [f x]"] show ?thesis by (simp add: take_Cons')
  qed simp
qed

lemma Split_fileOf: "list_all good_line ls \<Longrightarrow> Split nl (fileOf ls) = ls @ [[]]"
proof -
  assume g: "list_all good_line ls"
  have j: "Join [nl] (xs @ [[]]) = fileOf xs" for xs
  proof (induction xs)
    case Nil
    show ?case by (simp add: fileOf_def)
  next
    case (Cons a xs)
    obtain y ys where "xs @ [[]] = y # ys" by (cases "xs @ [[]]") auto
    with Cons.IH show ?case by (simp add: fileOf_def)
  qed
  have "Split nl (Join [nl] (ls @ [[]])) = ls @ [[]]"
    by (rule Split_Join) (use g in \<open>auto simp: list_all_iff good_line_def\<close>)
  then show ?thesis by (simp add: j)
qed


section \<open>Properties\<close>

text \<open>
  C34: the log is bounded and loses only its oldest lines. Starting from a file of at most 5000
  complete lines, after any appends that succeed the file holds exactly the newest lines, in
  order: at most 5000 of them, and at least 2500 if anything was dropped; and the line count the
  logger keeps in memory is the number of lines of the file.
\<close>

theorem Append_keeps_newest:
  assumes "list_all good_line ls" and "int (length ls) \<le> trimAt" and "list_all (appendable marshal) rs"
  shows "\<exists>old new. ls @ map (lineOf marshal) rs = old @ new \<and>
    content (disk (appendAll marshal rs (New (Some (fileOf ls))))) = fileOf new \<and>
    lineCount (appendAll marshal rs (New (Some (fileOf ls)))) = int (length new) \<and>
    int (length new) \<le> trimAt \<and> (old \<noteq> [] \<longrightarrow> keepLines \<le> length new)"
proof -
  define new where "new = rotated ls (map (lineOf marshal) rs)"
  have "holds_lines (appendAll marshal rs (New (Some (fileOf ls)))) new"
    unfolding new_def by (rule appendAll_lines [OF holds_New [OF assms(1)] assms(3)])
  moreover obtain old where "ls @ map (lineOf marshal) rs = old @ new" "old \<noteq> [] \<longrightarrow> keepLines \<le> length new"
    "int (length new) \<le> trimAt"
    using rotated_suffix [OF assms(2)] unfolding new_def by blast
  ultimately show ?thesis unfolding holds_lines_def by blast
qed

definition sampleEntry :: Entry where
  "sampleEntry = \<lparr>Time = ''t'', Name = ''Logger.log'', User = ''u'', ProjectID = 1, ExecID = 2,
     Status = ''logged'', DurationMs = 3, Request = [], Response = []\<rparr>"

definition sampleReq :: "string \<times> fsys \<times> Entry" where
  "sampleReq = (''t'', \<lparr>writeFails = None, trimFails = False\<rparr>, sampleEntry)"

theorem Append_keeps_newest_witness:
  "\<exists>new. content (disk (appendAll (\<lambda>e. Some ''e'') [sampleReq] (New (Some (fileOf [''a'']))))) = fileOf new \<and>
     int (length new) \<le> trimAt"
  using Append_keeps_newest [of "[''a'']" "\<lambda>e. Some ''e''" "[sampleReq]"]
  by (simp add: good_line_def nl_def trimAt_def appendable_def sampleReq_def) blast

text \<open>
  round trip through the log page. If \<open>unmarshal\<close> inverts \<open>marshal\<close> on the appended entries,
  then after appending up to 5000 of them to a missing file \<open>Tail\<close> returns the newest \<open>n\<close>, newest
  first, each with the time it was stamped with.
\<close>

theorem Tail_Append:
  assumes "length rs \<le> 5000" and "list_all (appendable marshal) rs"
    and "\<forall>r \<in> set rs. case r of (now, fs, e) \<Rightarrow>
      TrimSpace (lineOf marshal r) \<noteq> [] \<and> unmarshal (TrimSpace (lineOf marshal r)) = Some (stamped now e)"
  shows "Tail unmarshal n (disk (appendAll marshal rs (New None))) =
    take n (map (\<lambda>(now, fs, e). stamped now e) (rev rs))"
proof (cases "rs = []")
  case True
  then show ?thesis by (simp add: Tail_def New_def)
next
  case False
  define ls where "ls = map (lineOf marshal) rs"
  have h: "holds_lines (appendAll marshal rs (New None)) (rotated [] ls)"
    unfolding ls_def by (rule appendAll_lines [OF holds_New_missing assms(2)])
  have rot: "length xs \<le> 5000 \<Longrightarrow> rotated [] xs = xs" for xs
    by (induction xs rule: rev_induct) (simp_all add: rotated_def rotate_lines_def trimAt_def)
  have "rotated [] ls = ls" by (rule rot) (use assms(1) in \<open>simp add: ls_def\<close>)
  with h have g: "list_all good_line ls" and c: "content (disk (appendAll marshal rs (New None))) = fileOf ls"
    by (simp_all add: holds_lines_def)
  have ne: "fileOf ls \<noteq> []" using False by (cases rs) (auto simp: ls_def fileOf_def)
  then have f: "disk (appendAll marshal rs (New None)) = Some (fileOf ls)"
    using c by (auto simp: content_def split: option.splits)
  define dec where "dec x = the (unmarshal (TrimSpace x))" for x
  have d: "TrimSpace x \<noteq> [] \<and> unmarshal (TrimSpace x) = Some (dec x)" if "x \<in> set (rev ls)" for x
    using that assms(3) by (force simp: ls_def dec_def)
  have t: "TrimSpace [] = []" by (simp add: TrimSpace_def)
  have skip: "tailLines unmarshal n ([] # rev ls) [] = tailLines unmarshal n (rev ls) []"
    by (cases "rev ls") (simp_all add: t)
  have "Tail unmarshal n (Some (fileOf ls)) = take n (map dec (rev ls))"
    using tailLines_all [of "rev ls" unmarshal dec n "[]", OF d] skip by (simp add: Tail_def Split_fileOf [OF g])
  moreover have "map dec (rev ls) = map (\<lambda>(now, fs, e). stamped now e) (rev rs)"
    using assms(3) by (auto simp: ls_def rev_map dec_def)
  ultimately show ?thesis unfolding f by simp
qed

theorem Tail_Append_witness:
  "Tail (\<lambda>s. if s = ''e'' then Some sampleEntry else None) 5
     (disk (appendAll (\<lambda>e. if e = sampleEntry then Some ''e'' else None) [sampleReq] (New None))) = [sampleEntry]"
  using Tail_Append [of "[sampleReq]" "\<lambda>e. if e = sampleEntry then Some ''e'' else None"
      "\<lambda>s. if s = ''e'' then Some sampleEntry else None" 5]
  by (simp add: sampleReq_def appendable_def lineOf_def stamped_def sampleEntry_def good_line_def nl_def
      TrimSpace_def rune_chunks.simps decode_rune.simps IsSpace_def)

end
