(* ===== verification/Config.thy ===== *)
theory Config
  imports GoText
begin

text \<open>
  The admin-managed configuration, the types of server/internal/settings/settings.go: one record
  per settings group and the snapshot that holds them, with the defaults of the code.
\<close>

record Mail =
  MailEnabled :: bool
  MailFrom :: string

record HTTP =
  HTTPEnabled :: bool
  AllowedDomains :: "string list"
  TimeoutSeconds :: int
  ResponseCapBytes :: int

record LoggerGroup =
  LoggerEnabled :: bool

record Quotas =
  MailPerMinute :: int
  HTTPPerMinute :: int
  LoggerPerMinute :: int

record Run =
  RunTimeoutSeconds :: int
  MaxConcurrent :: int
  RatePerMinute :: int
  RateBurst :: int
  DeployRatePerMinute :: int
  DeployRateBurst :: int
  OutputCapBytes :: int

record Snapshot =
  MailCfg :: Mail
  HTTPCfg :: HTTP
  LoggerCfg :: LoggerGroup
  QuotasCfg :: Quotas
  RunCfg :: Run

definition defaults :: Snapshot where
  "defaults =
     \<lparr>MailCfg = \<lparr>MailEnabled = False, MailFrom = []\<rparr>,
      HTTPCfg = \<lparr>HTTPEnabled = True, AllowedDomains = [], TimeoutSeconds = 10, ResponseCapBytes = 65536\<rparr>,
      LoggerCfg = \<lparr>LoggerEnabled = False\<rparr>,
      QuotasCfg = \<lparr>MailPerMinute = 10, HTTPPerMinute = 30, LoggerPerMinute = 60\<rparr>,
      RunCfg = \<lparr>RunTimeoutSeconds = 5, MaxConcurrent = 4, RatePerMinute = 30, RateBurst = 10,
                DeployRatePerMinute = 60, DeployRateBurst = 20, OutputCapBytes = 65536\<rparr>\<rparr>"

text \<open>App families and the names of the settings groups.\<close>

definition AppMail :: string where "AppMail = ''mail''"
definition AppHTTP :: string where "AppHTTP = ''http''"
definition AppLogger :: string where "AppLogger = ''logger''"

definition QuotasKeyFor :: "string \<Rightarrow> Quotas \<Rightarrow> int" where
  "QuotasKeyFor app q =
     (if app = ''mail'' then MailPerMinute q
      else if app = ''http'' then HTTPPerMinute q
      else if app = ''logger'' then LoggerPerMinute q
      else 0)"

end
