(* ===== verification/Apps.thy ===== *)
theory Apps
  imports Config Quota AppLogs "HOL-Library.AList" "HOL-Library.Char_ord" "HOL-Library.List_Lexorder"
begin

text \<open>
  The app calls a running program can make, server/internal/apps/apps.go: the dispatch with its
  enable switches and quotas, the mail, fetch and log calls with every check they make before the
  outside world is touched, and the operational record of each call. Network services (the mail
  relay, the fetched site, Loki), URL parsing and the quota table are parameters of the model, in
  the record \<open>outside\<close>; what a call asks of them is returned as a list of effects, in order.
\<close>

section \<open>Data\<close>

record Actor =
  ActorUserID :: int
  ActorEmail :: string
  ActorProjectID :: int
  ActorExecID :: int

record Outcome =
  OutResult :: string
  OutStatus :: string
  OutApp :: string
  OutRecord :: bool
  OutRequest :: string
  OutResponse :: string

text \<open>The parameters of a call, in the order Go's map iteration happens to take.\<close>

type_synonym params = "(string \<times> string) list"

definition param :: "params \<Rightarrow> string \<Rightarrow> string" where
  "param ps k = (case map_of ps k of None \<Rightarrow> [] | Some v \<Rightarrow> v)"

datatype smtp_cmd = Dial string | MAIL string | RCPT string | DATA | Body string | CloseData | Quit

record http_request =
  Method :: string
  URL :: string
  ReqBody :: string
  Headers :: "(string \<times> string) list"
  Timeout :: int

record http_response =
  StatusCode :: int
  StatusText :: string
  Location :: string
  RespBody :: bytes

record loki_push =
  Labels :: "(string \<times> string) list"
  LineMessage :: string
  LineName :: string
  LineUser :: string

datatype effect = Smtp smtp_cmd | Fetch http_request | Push loki_push

record outside =
  clock :: int
  dateHeader :: string
  effectiveQuota :: "int \<Rightarrow> string \<Rightarrow> int \<Rightarrow> (int \<times> bool) result"
  relay :: "smtp_cmd \<Rightarrow> goerr option"
  parseURL :: "string \<Rightarrow> (string \<times> string) option"
  newRequest :: "string \<Rightarrow> string \<Rightarrow> goerr option"
  doHTTP :: "http_request \<Rightarrow> http_response result"
  resolveRef :: "string \<Rightarrow> string \<Rightarrow> string option"
  carriedHeaders :: "http_request list \<Rightarrow> string \<Rightarrow> (string \<times> string) list"
  doError :: "http_request list \<Rightarrow> goerr \<Rightarrow> goerr"
  lokiPost :: "loki_push \<Rightarrow> int result"

section \<open>Helpers\<close>

definition mailerAddr :: string where "mailerAddr = ''mailer:25''"

fun firstNonEmpty :: "string list \<Rightarrow> string" where
  "firstNonEmpty [] = []"
| "firstNonEmpty (v # vs) = (if v \<noteq> [] then v else firstNonEmpty vs)"

definition ellipsis :: string where
  "ellipsis = [CHR 0xE2, CHR 0x80, CHR 0xA6]"

definition emdash :: string where
  "emdash = [CHR 0xE2, CHR 0x80, CHR 0x94]"

definition clamp :: "string \<Rightarrow> nat \<Rightarrow> string" where
  "clamp s n = (if length s \<le> n then s else take n s @ ellipsis)"

definition summarizeRequest :: "unicode \<Rightarrow> params \<Rightarrow> bytes \<Rightarrow> string" where
  "summarizeRequest U ps token =
     (let keys = sort (map fst ps);
          b = Join '', '' (map (\<lambda>k. k @ ''='' @ Quote U (clamp (param ps k) 120)) keys);
          b = (if token \<noteq> [] then (if b \<noteq> [] then b @ '', '' else b) @ ''token='' @ Quote U (clamp token 120) else b)
      in clamp b 400)"

definition labelSafe :: "unicode \<Rightarrow> string \<Rightarrow> string" where
  "labelSafe U s =
     Trim_char CHR ''-''
       (concat (map (\<lambda>r. if 97 \<le> r \<and> r \<le> 122 \<or> 48 \<le> r \<and> r \<le> 57 \<or> r = 45 \<or> r = 95 \<or> r = 46
                         then encode_rune r else ''-'')
          (runes (ToLower U s))))"

section \<open>MailApp.sendEmail\<close>

definition crlf :: string where
  "crlf = [CHR 0x0D, CHR 0x0A]"

definition buildMailMessage :: "string \<Rightarrow> string \<Rightarrow> string \<Rightarrow> string \<Rightarrow> string \<Rightarrow> string" where
  "buildMailMessage date from to subject body =
     ''From: '' @ from @ crlf @
     ''To: '' @ to @ crlf @
     ''Subject: '' @ subject @ crlf @
     ''Date: '' @ date @ crlf @
     ''MIME-Version: 1.0'' @ crlf @
     ''Content-Type: text/plain; charset=UTF-8'' @ crlf @ crlf @
     body"

text \<open>
  One command of the SMTP client. \<open>net/smtp\<close> refuses an address with a line break before
  sending anything.
\<close>

definition smtpCmd :: "outside \<Rightarrow> smtp_cmd \<Rightarrow> effect list \<times> goerr option" where
  "smtpCmd out c =
     (case c of
        MAIL a \<Rightarrow> if CHR 0x0A \<in> set a \<or> CHR 0x0D \<in> set a then ([], Some (Msg ''smtp: A line must not contain CR or LF''))
                  else ([Smtp c], relay out c)
      | RCPT a \<Rightarrow> if CHR 0x0A \<in> set a \<or> CHR 0x0D \<in> set a then ([], Some (Msg ''smtp: A line must not contain CR or LF''))
                  else ([Smtp c], relay out c)
      | _ \<Rightarrow> ([Smtp c], relay out c))"

text \<open>The commands in order, each with the label its error is wrapped with.\<close>

fun smtpSession :: "outside \<Rightarrow> (smtp_cmd \<times> string) list \<Rightarrow> effect list \<times> goerr option" where
  "smtpSession out [] = ([], None)"
| "smtpSession out ((c, label) # cs) =
     (case smtpCmd out c of
        (es, Some err) \<Rightarrow> (es, Some (Wrap label err))
      | (es, None) \<Rightarrow> (case smtpSession out cs of (es', r) \<Rightarrow> (es @ es', r)))"

definition sendEmail :: "unicode \<Rightarrow> outside \<Rightarrow> Mail \<Rightarrow> params \<Rightarrow> bytes \<Rightarrow> effect list \<times> (string \<times> string) result" where
  "sendEmail U out cfg ps token =
     (let to = firstNonEmpty [param ps ''to'', token];
          subject = (if param ps ''subject'' = [] then ''(no subject)'' else param ps ''subject'');
          body = param ps ''body'';
          from = MailFrom cfg
      in if to = [] then ([], Inl (Msg ''`to` parameter or a token is required''))
         else if from = [] then ([], Inl (Msg (''sender (from) is not configured '' @ emdash @ '' set it in /admin/mail'')))
         else
           (let msg = buildMailMessage (dateHeader out) from to subject body in
            case smtpSession out
              [(Dial mailerAddr, ''relay dial '' @ mailerAddr), (MAIL from, ''relay MAIL''), (RCPT to, ''relay RCPT''),
               (DATA, ''relay DATA''), (Body msg, ''relay write''), (CloseData, ''relay close data''), (Quit, ''relay quit'')] of
              (es, Some err) \<Rightarrow> (es, Inl err)
            | (es, None) \<Rightarrow>
                (es, Inr (''sent to '' @ to, clamp (''from='' @ from @ '' subject='' @ Quote U subject) 200))))"

section \<open>UrlFetchApp.fetch\<close>

definition domainAllowed :: "unicode \<Rightarrow> string \<Rightarrow> string list \<Rightarrow> bool" where
  "domainAllowed U host allowed =
     (let h = ToLower U (TrimSuffix host ''.'') in
      list_ex (\<lambda>a0.
        let a = ToLower U (TrimSpace a0) in
        if a = [] then False
        else if a = ''*'' \<or> a = h \<or> HasPrefix a ''*.'' then HasSuffix h (TrimPrefix a ''*'')
        else h = a) allowed)"

definition header_byte :: "char \<Rightarrow> bool" where
  "header_byte c \<longleftrightarrow>
     (let n = byte c in 48 \<le> n \<and> n \<le> 57 \<or> 65 \<le> n \<and> n \<le> 90 \<or> 97 \<le> n \<and> n \<le> 122) \<or> c \<in> set ''!#$%&*+-.^_`|~'' \<or> c = CHR 0x27"

definition upper_byte :: "char \<Rightarrow> char" where
  "upper_byte c = (if 97 \<le> byte c \<and> byte c \<le> 122 then char_of (byte c - 32) else c)"

definition lower_byte :: "char \<Rightarrow> char" where
  "lower_byte c = (if 65 \<le> byte c \<and> byte c \<le> 90 then char_of (byte c + 32) else c)"

fun canonical_from :: "bool \<Rightarrow> string \<Rightarrow> string" where
  "canonical_from up [] = []"
| "canonical_from up (c # s) = (if up then upper_byte c else lower_byte c) # canonical_from (c = CHR ''-'') s"

text \<open>\<open>textproto.CanonicalMIMEHeaderKey\<close>: a key with a byte no header may have is left alone.\<close>

definition CanonicalMIMEHeaderKey :: "string \<Rightarrow> string" where
  "CanonicalMIMEHeaderKey s = (if list_all header_byte s then canonical_from True s else s)"

definition fetchHeaders :: "params \<Rightarrow> (string \<times> string) list" where
  "fetchHeaders ps =
     foldl (\<lambda>hs (k, v). if k = ''url'' \<or> k = ''method'' \<or> k = ''body'' then hs
                        else AList.update (CanonicalMIMEHeaderKey k) v hs) [] ps"

text \<open>The part after the response has arrived: the capped body, the status line, the summary.\<close>

definition readResponse :: "HTTP \<Rightarrow> string \<Rightarrow> string \<Rightarrow> http_response \<Rightarrow> string \<times> string \<times> string" where
  "readResponse cfg meth target resp =
     (let bytecap = nat (if ResponseCapBytes cfg \<le> 0 then 65536 else ResponseCapBytes cfg);
          buf0 = take (bytecap + 1) (RespBody resp);
          trunc = (length buf0 > bytecap);
          buf1 = (if trunc then take bytecap buf0 else buf0);
          st0 = itoa_int (StatusCode resp) @ '' '' @
                (case IndexByte CHR '' '' (StatusText resp) of
                   None \<Rightarrow> StatusText resp | Some i \<Rightarrow> drop (i + 1) (StatusText resp));
          st = (if trunc then st0 @ '' (body capped)'' else st0)
      in (buf1, st, clamp (meth @ '' '' @ target @ '' '' @ [CHR 0xE2, CHR 0x86, CHR 0x92] @ '' '' @ st) 300))"

text \<open>
  \<open>http.Client.Do\<close> with no \<open>CheckRedirect\<close>, as the service makes it: \<open>doHTTP\<close> is the answer to one
  request; an answer that redirects is followed, 301, 302 and 303 by a GET or HEAD without a body, 307
  and 308 by the same method and body, to the URL the \<open>Location\<close> header resolves to, as long as fewer
  than ten requests have been made. \<open>carriedHeaders\<close> are the headers net/http copies to the next
  request, and \<open>doError\<close> is its decoration of an error with the requests made.
\<close>

definition redirectBehavior :: "string \<Rightarrow> int \<Rightarrow> (string \<times> bool) option" where
  "redirectBehavior meth code =
     (if code = 301 \<or> code = 302 \<or> code = 303 then Some (if meth = ''GET'' \<or> meth = ''HEAD'' then meth else ''GET'', False)
      else if code = 307 \<or> code = 308 then Some (meth, True)
      else None)"

definition webURL :: "outside \<Rightarrow> string \<Rightarrow> bool" where
  "webURL out u \<longleftrightarrow> (case parseURL out u of None \<Rightarrow> False | Some (scheme, hostname) \<Rightarrow> scheme = ''http'' \<or> scheme = ''https'')"

fun clientDo :: "outside \<Rightarrow> nat \<Rightarrow> http_request list \<Rightarrow> http_request \<Rightarrow> effect list \<times> http_response result" where
  "clientDo out hops via req =
     (let failed = (\<lambda>err. ([Fetch req], Inl (doError out (via @ [req]) err))) in
      case doHTTP out req of
        Inl err \<Rightarrow> failed err
      | Inr resp \<Rightarrow>
          (case redirectBehavior (Method req) (StatusCode resp) of
             None \<Rightarrow> ([Fetch req], Inr resp)
           | Some (meth, keepBody) \<Rightarrow>
               if Location resp = [] then ([Fetch req], Inr resp)
               else
                 (case resolveRef out (URL req) (Location resp) of
                    None \<Rightarrow> failed (Fmt ''failed to parse Location header %q'' [Location resp])
                  | Some target \<Rightarrow>
                      (case hops of
                         0 \<Rightarrow> failed (Msg ''stopped after 10 redirects'')
                       | Suc left \<Rightarrow>
                           if \<not> webURL out target then failed (Msg ''unsupported protocol scheme'')
                           else
                             (case clientDo out left (via @ [req])
                                 \<lparr>Method = meth, URL = target, ReqBody = (if keepBody then ReqBody req else []),
                                  Headers = carriedHeaders out (via @ [req]) target, Timeout = Timeout req\<rparr> of
                                (es, r) \<Rightarrow> (Fetch req # es, r))))))"

declare clientDo.simps [simp del]

definition fetchURL :: "unicode \<Rightarrow> outside \<Rightarrow> HTTP \<Rightarrow> params \<Rightarrow> bytes \<Rightarrow> effect list \<times> (string \<times> string \<times> string) result" where
  "fetchURL U out cfg ps token =
     (let target = firstNonEmpty [param ps ''url'', token] in
      if target = [] then ([], Inl (Msg ''`url` parameter or a token is required''))
      else
        (case parseURL out target of
           None \<Rightarrow> ([], Inl (Msg ''url must be absolute http(s)''))
         | Some (scheme, hostname) \<Rightarrow>
             if scheme \<noteq> ''http'' \<and> scheme \<noteq> ''https'' then ([], Inl (Msg ''url must be absolute http(s)''))
             else if AllowedDomains cfg \<noteq> [] \<and> \<not> domainAllowed U hostname (AllowedDomains cfg)
             then ([], Inl (Fmt ''domain %q is not in the allowlist'' [hostname]))
             else
               (let meth = ToUpper U (firstNonEmpty [param ps ''method'', ''GET'']);
                    body = param ps ''body''
                in case newRequest out meth target of
                     Some err \<Rightarrow> ([], Inl err)
                   | None \<Rightarrow>
                       (let timeout = (if TimeoutSeconds cfg \<le> 0 then 10 else TimeoutSeconds cfg);
                            req = \<lparr>Method = meth, URL = target, ReqBody = body, Headers = fetchHeaders ps, Timeout = timeout\<rparr>
                        in case clientDo out 9 [] req of
                             (es, Inl err) \<Rightarrow> (es, Inl (Wrap ''fetch'' err))
                           | (es, Inr resp) \<Rightarrow> (es, Inr (readResponse cfg meth target resp))))))"

section \<open>Logger.log\<close>

text \<open>
  The push goes to the address of the bundled Loki, which is fixed in the code; \<open>lokiPost\<close> is the
  status that \<open>http.Client.Do\<close> returns for it. The Loki of the deployment does not redirect a push.
\<close>

definition pushLoki :: "unicode \<Rightarrow> outside \<Rightarrow> Actor \<Rightarrow> string \<Rightarrow> params \<Rightarrow> bytes \<Rightarrow> effect list \<times> (string \<times> string) result" where
  "pushLoki U out actor name ps token =
     (let m0 = firstNonEmpty [param ps ''message'', token];
          message = (if m0 = [] then ''(empty)'' else m0);
          p = \<lparr>Labels = [(''app'', name),
                         (''user'', labelSafe U (firstNonEmpty [ActorEmail actor, ''uid'' @ itoa_int (ActorUserID actor)])),
                         (''project'', itoa_int (ActorProjectID actor)),
                         (''exec'', itoa_int (ActorExecID actor))],
               LineMessage = message, LineName = name, LineUser = ActorEmail actor\<rparr>
      in case lokiPost out p of
           Inl err \<Rightarrow> ([Push p], Inl (Wrap ''loki push'' err))
         | Inr code \<Rightarrow>
             if code \<ge> 300 then ([Push p], Inl (Fmt ''loki push: HTTP %d'' [itoa_int code]))
             else ([Push p], Inr (''logged'', clamp message 200)))"

section \<open>Dispatch\<close>

text \<open>The state of the service: the quota windows and the log file of each app family.\<close>

record service =
  wins :: windows
  oplogs :: "string \<rightharpoonup> AppLogs.Logger"

text \<open>A quota check followed by the call proper: \<open>qerr\<close> breaks out of the switch case.\<close>

definition checked ::
  "outside \<Rightarrow> int \<Rightarrow> string \<Rightarrow> int \<Rightarrow> windows \<Rightarrow> effect list \<times> 'a result \<Rightarrow> (effect list \<times> 'a result) \<times> windows" where
  "checked out uid app def ws call =
     (case allowQuota (uid, app) (clock out, effectiveQuota out uid app def) ws of
        (Some qerr, ws') \<Rightarrow> (([], Inl qerr), ws')
      | (None, ws') \<Rightarrow> (call, ws'))"

text \<open>
  The switch: app family, whether the call is recorded, the effects, the result (token, status,
  response) or the error, and the quota windows afterwards.
\<close>

definition dispatch ::
  "unicode \<Rightarrow> outside \<Rightarrow> Snapshot \<Rightarrow> Actor \<Rightarrow> string \<Rightarrow> params \<Rightarrow> bytes \<Rightarrow> windows \<Rightarrow>
    string \<times> bool \<times> (effect list \<times> (string \<times> string \<times> string) result) \<times> windows" where
  "dispatch U out snap actor name ps token ws =
     (let uid = ActorUserID actor; q = QuotasCfg snap;
          plain = (\<lambda>r. (fst r, case snd r of Inl e \<Rightarrow> Inl e | Inr (status, response) \<Rightarrow> Inr ([], status, response))) in
      if name = ''MailApp.sendEmail'' then
        (if \<not> MailEnabled (MailCfg snap) then (AppMail, True, ([], Inl (Msg ''mail app is disabled by the administrator'')), ws)
         else (AppMail, True, checked out uid AppMail (MailPerMinute q) ws (plain (sendEmail U out (MailCfg snap) ps token))))
      else if name = ''MailApp.read'' then
        (AppMail, True, ([], Inl (Msg (''mail app read is not supported '' @ emdash @ '' the bundled relay is send-only''))), ws)
      else if name = ''UrlFetchApp.fetch'' then
        (if \<not> HTTPEnabled (HTTPCfg snap) then (AppHTTP, True, ([], Inl (Msg ''http app is disabled by the administrator'')), ws)
         else (AppHTTP, True, checked out uid AppHTTP (HTTPPerMinute q) ws (fetchURL U out (HTTPCfg snap) ps token)))
      else if name = ''Logger.log'' then
        (if \<not> LoggerEnabled (LoggerCfg snap) then (AppLogger, False, ([], Inl (Msg ''logger app is disabled by the administrator'')), ws)
         else (AppLogger, False, checked out uid AppLogger (LoggerPerMinute q) ws (plain (pushLoki U out actor name ps token))))
      else ([], False, ([], Inl (Fmt ''unknown app call %q'' [name])), ws))"

definition outcomeOf :: "unicode \<Rightarrow> string \<Rightarrow> bool \<Rightarrow> string \<Rightarrow> (string \<times> string \<times> string) result \<Rightarrow> Outcome" where
  "outcomeOf U app rec request r =
     (case r of
        Inl err \<Rightarrow> \<lparr>OutResult = [], OutStatus = ''error: '' @ errText U err, OutApp = app, OutRecord = rec,
                      OutRequest = request, OutResponse = []\<rparr>
      | Inr (result, status, response) \<Rightarrow>
          \<lparr>OutResult = result, OutStatus = status, OutApp = app, OutRecord = rec, OutRequest = request, OutResponse = response\<rparr>)"

text \<open>\<open>oplog\<close>: the line appended to the family's own file; nothing for an unknown call.\<close>

definition oplogEntry :: "int \<Rightarrow> Actor \<Rightarrow> string \<Rightarrow> Outcome \<Rightarrow> Entry" where
  "oplogEntry elapsed actor name out =
     \<lparr>Time = [], Name = name, User = firstNonEmpty [ActorEmail actor, ''uid'' @ itoa_int (ActorUserID actor)],
      ProjectID = ActorProjectID actor, ExecID = ActorExecID actor, Status = OutStatus out, DurationMs = elapsed,
      Request = (if OutApp out \<noteq> AppLogger then OutRequest out else []),
      Response = (if OutApp out \<noteq> AppLogger then OutResponse out else [])\<rparr>"

definition oplog ::
  "(Entry \<Rightarrow> string option) \<Rightarrow> string \<Rightarrow> fsys \<Rightarrow> int \<Rightarrow> Actor \<Rightarrow> string \<Rightarrow> Outcome \<Rightarrow>
    (string \<rightharpoonup> AppLogs.Logger) \<Rightarrow> (string \<rightharpoonup> AppLogs.Logger)" where
  "oplog marshal stamp fs elapsed actor name out logs =
     (case logs (OutApp out) of
        None \<Rightarrow> logs
      | Some lg \<Rightarrow> logs(OutApp out \<mapsto> Append marshal stamp fs (oplogEntry elapsed actor name out) lg))"

text \<open>The environment of one call beside the network: log encoding, clocks, file system.\<close>

record callenv =
  net :: outside
  marshal :: "Entry \<Rightarrow> string option"
  logStamp :: string
  logFs :: fsys
  callMs :: int

definition Call ::
  "unicode \<Rightarrow> callenv \<Rightarrow> Snapshot \<Rightarrow> Actor \<Rightarrow> string \<Rightarrow> params \<Rightarrow> bytes \<Rightarrow> service \<Rightarrow>
    (Outcome \<times> goerr option \<times> effect list) \<times> service" where
  "Call U env snap actor name ps token svc =
     (case dispatch U (net env) snap actor name ps token (wins svc) of
        (app, rec, (es, r), ws) \<Rightarrow>
          (let out = outcomeOf U app rec (summarizeRequest U ps token) r;
               svc' = svc\<lparr>wins := ws, oplogs := oplog (marshal env) (logStamp env) (logFs env) (callMs env) actor name out (oplogs svc)\<rparr>
           in ((out, (case r of Inl err \<Rightarrow> Some (Wrap name err) | Inr _ \<Rightarrow> None), es), svc')))"

section \<open>Lemmas\<close>

lemma checked_effects:
  "fst (fst (checked out uid app def ws call)) \<noteq> [] \<Longrightarrow>
    fst (allowQuota (uid, app) (clock out, effectiveQuota out uid app def) ws) = None"
  by (auto simp: checked_def split: prod.splits option.splits)

lemma checked_wins:
  "snd (checked out uid app def ws call) = snd (allowQuota (uid, app) (clock out, effectiveQuota out uid app def) ws)"
  by (auto simp: checked_def split: prod.splits option.splits)

lemmas family_names = AppMail_def AppHTTP_def AppLogger_def

text \<open>The quota request a call makes, if it gets that far.\<close>

definition quotaRequest :: "outside \<Rightarrow> Snapshot \<Rightarrow> Actor \<Rightarrow> string \<Rightarrow> request list" where
  "quotaRequest out snap actor name =
     (let ask = (\<lambda>app def. [((ActorUserID actor, app), (clock out, effectiveQuota out (ActorUserID actor) app def))]);
          q = QuotasCfg snap in
      if name = ''MailApp.sendEmail'' \<and> MailEnabled (MailCfg snap) then ask AppMail (MailPerMinute q)
      else if name = ''UrlFetchApp.fetch'' \<and> HTTPEnabled (HTTPCfg snap) then ask AppHTTP (HTTPPerMinute q)
      else if name = ''Logger.log'' \<and> LoggerEnabled (LoggerCfg snap) then ask AppLogger (LoggerPerMinute q)
      else [])"

lemma dispatch_wins:
  "snd (snd (snd (dispatch U out snap actor name ps token ws))) = quotaRun ws (quotaRequest out snap actor name)"
  by (simp add: dispatch_def quotaRequest_def Let_def checked_wins)

lemma dispatch_granted:
  "fst (fst (snd (snd (dispatch U out snap actor name ps token ws)))) \<noteq> [] \<Longrightarrow>
    grantTimes (ActorUserID actor, fst (dispatch U out snap actor name ps token ws)) ws
      (quotaRequest out snap actor name) = [clock out]"
  by (simp add: dispatch_def quotaRequest_def Let_def split: if_splits) (drule checked_effects, simp)+

lemma Call_eq:
  "Call U env snap actor name ps token svc =
    (let d = dispatch U (net env) snap actor name ps token (wins svc);
         out = outcomeOf U (fst d) (fst (snd d)) (summarizeRequest U ps token) (snd (fst (snd (snd d)))) in
     ((out, (case snd (fst (snd (snd d))) of Inl err \<Rightarrow> Some (Wrap name err) | Inr _ \<Rightarrow> None), fst (fst (snd (snd d)))),
      svc\<lparr>wins := snd (snd (snd d)),
          oplogs := oplog (marshal env) (logStamp env) (logFs env) (callMs env) actor name out (oplogs svc)\<rparr>))"
  by (simp add: Call_def Let_def split: prod.split)

lemma outcomeOf_app [simp]: "OutApp (outcomeOf U app rec request r) = app"
  by (simp add: outcomeOf_def split: sum.split prod.split)

section \<open>Runs of calls\<close>

record call =
  callEnv :: callenv
  callSnap :: Snapshot
  callActor :: Actor
  callName :: string
  callParams :: params
  callToken :: bytes

definition doCall :: "unicode \<Rightarrow> call \<Rightarrow> service \<Rightarrow> (Outcome \<times> goerr option \<times> effect list) \<times> service" where
  "doCall U c svc = Call U (callEnv c) (callSnap c) (callActor c) (callName c) (callParams c) (callToken c) svc"

definition callTime :: "call \<Rightarrow> int" where
  "callTime c = clock (net (callEnv c))"

definition callRequest :: "call \<Rightarrow> request list" where
  "callRequest c = quotaRequest (net (callEnv c)) (callSnap c) (callActor c) (callName c)"

text \<open>The times at which a user's calls of an app family reached the outside world.\<close>

fun effectTimes :: "unicode \<Rightarrow> int \<Rightarrow> string \<Rightarrow> call list \<Rightarrow> service \<Rightarrow> int list" where
  "effectTimes U uid app [] svc = []"
| "effectTimes U uid app (c # cs) svc =
     (case doCall U c svc of
        ((out, err, es), svc') \<Rightarrow>
          (if es \<noteq> [] \<and> ActorUserID (callActor c) = uid \<and> OutApp out = app then [callTime c] else []) @
          effectTimes U uid app cs svc')"

lemma doCall_wins: "wins (snd (doCall U c svc)) = quotaRun (wins svc) (callRequest c)"
  by (simp add: doCall_def Call_eq Let_def dispatch_wins callRequest_def)

lemma quotaRun_append: "quotaRun ws (rs @ qs) = quotaRun (quotaRun ws rs) qs"
  by (induction ws rs rule: quotaRun.induct) auto

lemma effectTimes_granted:
  "length (filter P (effectTimes U uid app cs svc)) \<le>
    length (filter P (grantTimes (uid, app) (wins svc) (concat (map callRequest cs))))"
proof (induction U uid app cs svc rule: effectTimes.induct)
  case (1 U uid app svc)
  show ?case by simp
next
  case (2 U uid app c cs svc)
  obtain out err es svc' where d: "doCall U c svc = ((out, err, es), svc')" by (cases "doCall U c svc") auto
  have w: "wins svc' = quotaRun (wins svc) (callRequest c)" using doCall_wins [of U c svc] d by simp
  have g: "grantTimes (uid, app) (wins svc) (callRequest c) = [callTime c]"
    if "es \<noteq> []" "ActorUserID (callActor c) = uid" "OutApp out = app"
    using that d dispatch_granted [of U "net (callEnv c)" "callSnap c" "callActor c" "callName c" "callParams c" "callToken c" "wins svc"]
    by (auto simp: doCall_def Call_eq Let_def callRequest_def callTime_def)
  show ?case
    using "2.IH" [OF d [symmetric] refl refl] g
    by (auto simp: d grantTimes_append w trans_le_add2)
qed


text \<open>All calls of the user in that family come with an effective limit of at most \<open>L\<close>.\<close>

definition limited :: "int \<Rightarrow> string \<Rightarrow> nat \<Rightarrow> call list \<Rightarrow> bool" where
  "limited uid app L cs \<longleftrightarrow> capped (uid, app) L (concat (map callRequest cs))"

lemma callRequest_times: "r \<in> set (callRequest c) \<Longrightarrow> requestTime r = callTime c"
  by (auto simp: callRequest_def quotaRequest_def Let_def requestTime_def callTime_def split: if_splits)

lemma callRequest_single: "callRequest c = [] \<or> (\<exists>r. callRequest c = [r] \<and> requestTime r = callTime c)"
proof (cases "callRequest c")
  case (Cons r rs)
  then have "rs = []" by (auto simp: callRequest_def quotaRequest_def Let_def split: if_splits)
  with Cons callRequest_times [of r c] show ?thesis by simp
qed simp

lemma sorted_requests: "sorted (map callTime cs) \<Longrightarrow> sorted (map requestTime (concat (map callRequest cs)))"
proof (induction cs)
  case (Cons c cs)
  define ts where "ts = map requestTime (concat (map callRequest cs))"
  have IH: "sorted ts" using Cons by (simp add: ts_def)
  have "callTime c \<le> t" if "t \<in> set ts" for t
  proof -
    have "t \<in> requestTime ` set (concat (map callRequest cs))" using that by (simp only: ts_def set_map)
    then obtain r where r: "t = requestTime r" "r \<in> set (concat (map callRequest cs))" by (rule imageE)
    then obtain c' where c': "c' \<in> set cs" "r \<in> set (callRequest c')" by auto
    with callRequest_times [OF c'(2)] Cons.prems r(1) show ?thesis by auto
  qed
  with IH callRequest_single [of c] show ?case by (auto simp: ts_def [symmetric] simp del: map_concat)
qed simp

text \<open>
  The requests a list of effects makes, and the relation of a request to the one that the answer to it
  redirects to.
\<close>

fun requestsIn :: "effect list \<Rightarrow> http_request list" where
  "requestsIn [] = []"
| "requestsIn (Fetch req # es) = req # requestsIn es"
| "requestsIn (_ # es) = requestsIn es"

lemma requestsIn_map [simp]: "requestsIn (map Fetch rs) = rs"
  by (induction rs) auto

lemma requestsIn_iff [simp]: "req \<in> set (requestsIn es) \<longleftrightarrow> Fetch req \<in> set es"
  by (induction es rule: requestsIn.induct) auto

definition redirects :: "outside \<Rightarrow> http_request \<Rightarrow> http_request \<Rightarrow> bool" where
  "redirects out req req' \<longleftrightarrow>
     (case doHTTP out req of
        Inl err \<Rightarrow> False
      | Inr resp \<Rightarrow> Location resp \<noteq> [] \<and> resolveRef out (URL req) (Location resp) = Some (URL req') \<and>
          redirectBehavior (Method req) (StatusCode resp) \<noteq> None \<and> webURL out (URL req'))"

lemma redirects_web: "redirects out req req' \<Longrightarrow> webURL out (URL req')"
  by (simp add: redirects_def split: sum.splits)

text \<open>One step: an error, the final answer, or the next request.\<close>

lemma clientDo_cases:
  obtains (failed) err where "clientDo out hops via req = ([Fetch req], Inl err)"
  | (answered) resp where "clientDo out hops via req = ([Fetch req], Inr resp)" "doHTTP out req = Inr resp"
  | (redirected) left req' es r where "hops = Suc left" "redirects out req req'" "clientDo out left (via @ [req]) req' = (es, r)"
      "clientDo out hops via req = (Fetch req # es, r)"
proof (cases "doHTTP out req")
  case (Inl err)
  then show thesis by (intro failed) (simp add: clientDo.simps [of out hops])
next
  case resp: (Inr resp)
  show thesis
  proof (cases "redirectBehavior (Method req) (StatusCode resp) = None \<or> Location resp = []")
    case True
    then show thesis using resp by (intro answered [OF _ resp]) (auto simp: clientDo.simps [of out hops] Let_def split: option.split)
  next
    case False
    then obtain meth keepBody where m: "redirectBehavior (Method req) (StatusCode resp) = Some (meth, keepBody)" "Location resp \<noteq> []" by auto
    show thesis
    proof (cases "resolveRef out (URL req) (Location resp)")
      case None
      then show thesis using resp m by (intro failed) (simp add: clientDo.simps [of out hops])
    next
      case (Some target)
      show thesis
      proof (cases "hops = 0 \<or> \<not> webURL out target")
        case True
        then show thesis using resp m Some by (cases hops) (intro failed, simp add: clientDo.simps [of out])+
      next
        case go: False
        then obtain left where left: "hops = Suc left" by (cases hops) auto
        define req' where "req' = \<lparr>Method = meth, URL = target, ReqBody = (if keepBody then ReqBody req else []),
          Headers = carriedHeaders out (via @ [req]) target, Timeout = Timeout req\<rparr>"
        obtain es r where e: "clientDo out left (via @ [req]) req' = (es, r)" by (cases "clientDo out left (via @ [req]) req'")
        have "redirects out req req'" using resp m Some go by (simp add: redirects_def req'_def)
        moreover have "clientDo out hops via req = (Fetch req # es, r)"
          using resp m Some go left e by (subst clientDo.simps) (simp add: req'_def)
        ultimately show thesis by (rule redirected [OF left _ e])
      qed
    qed
  qed
qed

lemma clientDo_trail:
  "clientDo out hops via req = (es, r) \<Longrightarrow>
    \<exists>rs. es = map Fetch (req # rs) \<and> successively (redirects out) (req # rs) \<and> length rs \<le> hops \<and>
      (\<forall>resp. r = Inr resp \<longrightarrow> doHTTP out (List.last (req # rs)) = Inr resp)"
proof (induction hops arbitrary: via req es r)
  case 0
  show ?case by (cases rule: clientDo_cases [of out 0 via req]) (use 0 in \<open>auto intro!: exI [of _ "[]"]\<close>)
next
  case (Suc hops)
  show ?case
  proof (cases rule: clientDo_cases [of out "Suc hops" via req])
    case (redirected left req' es' r')
    with Suc.prems have l: "left = hops" "es = Fetch req # es'" "r = r'" by simp_all
    from Suc.IH [OF redirected(3) [unfolded l(1)]] obtain rs where "es' = map Fetch (req' # rs)" "successively (redirects out) (req' # rs)"
      "length rs \<le> hops" "\<forall>resp. r' = Inr resp \<longrightarrow> doHTTP out (List.last (req' # rs)) = Inr resp" by blast
    with l redirected(2) show ?thesis by (intro exI [of _ "req' # rs"]) simp
  qed (use Suc.prems in \<open>auto intro!: exI [of _ "[]"]\<close>)
qed

text \<open>
  Every outcome of a fetch: refused before any request; or a first request to a checked host, the
  requests it was redirected to, and the answer to the last one.
\<close>

definition mayFetch :: "unicode \<Rightarrow> outside \<Rightarrow> HTTP \<Rightarrow> string \<Rightarrow> bool" where
  "mayFetch U out cfg u \<longleftrightarrow>
     (\<exists>scheme host. parseURL out u = Some (scheme, host) \<and> (scheme = ''http'' \<or> scheme = ''https'') \<and>
        (AllowedDomains cfg = [] \<or> domainAllowed U host (AllowedDomains cfg)))"

lemma fetchURL_cases:
  "(\<exists>err. fetchURL U out cfg ps token = ([], Inl err)) \<or>
   (\<exists>req. mayFetch U out cfg (URL req) \<and> 0 < Timeout req \<and>
     fetchURL U out cfg ps token =
       (case clientDo out 9 [] req of (es, Inl err) \<Rightarrow> (es, Inl (Wrap ''fetch'' err))
                     | (es, Inr resp) \<Rightarrow> (es, Inr (readResponse cfg (Method req) (URL req) resp))))"
proof -
  define target where "target = firstNonEmpty [param ps ''url'', token]"
  define meth where "meth = ToUpper U (firstNonEmpty [param ps ''method'', ''GET''])"
  define req where "req = \<lparr>Method = meth, URL = target, ReqBody = param ps ''body'', Headers = fetchHeaders ps,
    Timeout = (if TimeoutSeconds cfg \<le> 0 then 10 else TimeoutSeconds cfg)\<rparr>"
  note defs = fetchURL_def target_def [symmetric] meth_def [symmetric] req_def [symmetric] Let_def
  have r: "URL req = target" "Method req = meth" "0 < Timeout req" by (simp_all add: req_def)
  consider (none) "target = []"
    | (bad) "target \<noteq> []" "parseURL out target = None"
    | (url) scheme host where "target \<noteq> []" "parseURL out target = Some (scheme, host)"
    by (cases "parseURL out target") auto
  then show ?thesis
  proof cases
    case url
    consider "\<not> (scheme = ''http'' \<or> scheme = ''https'')"
      | "scheme = ''http'' \<or> scheme = ''https''" "\<not> (AllowedDomains cfg = [] \<or> domainAllowed U host (AllowedDomains cfg))"
      | err where "scheme = ''http'' \<or> scheme = ''https''" "AllowedDomains cfg = [] \<or> domainAllowed U host (AllowedDomains cfg)"
          "newRequest out meth target = Some err"
      | "scheme = ''http'' \<or> scheme = ''https''" "AllowedDomains cfg = [] \<or> domainAllowed U host (AllowedDomains cfg)"
          "newRequest out meth target = None"
      by (cases "newRequest out meth target") auto
    then show ?thesis
    proof cases
      case 4
      then have "\<not> (scheme \<noteq> ''http'' \<and> scheme \<noteq> ''https'')"
        "\<not> (AllowedDomains cfg \<noteq> [] \<and> \<not> domainAllowed U host (AllowedDomains cfg))" by blast+
      then have "fetchURL U out cfg ps token = (case clientDo out 9 [] req of (es, Inl err) \<Rightarrow> (es, Inl (Wrap ''fetch'' err))
          | (es, Inr resp) \<Rightarrow> (es, Inr (readResponse cfg meth target resp)))"
        using url 4(3) by (simp only: defs if_False option.case prod.case)
      moreover have "mayFetch U out cfg (URL req)" using url 4 r(1) by (simp add: mayFetch_def)
      ultimately show ?thesis using r(3) unfolding r(1,2) [symmetric] by blast
    qed (use url in \<open>(intro disjI1, simp add: defs del: firstNonEmpty.simps)+\<close>)
  qed (intro disjI1, simp add: defs del: firstNonEmpty.simps)+
qed

lemma fetch_trail:
  assumes "fetchURL U out cfg ps token = (es, r)"
  shows "es = [] \<and> (\<exists>err. r = Inl err) \<or>
    (\<exists>req rs. es = map Fetch (req # rs) \<and> mayFetch U out cfg (URL req) \<and> successively (redirects out) (req # rs) \<and> length rs \<le> 9 \<and>
      (\<forall>res. r = Inr res \<longrightarrow> (\<exists>resp. doHTTP out (List.last (req # rs)) = Inr resp \<and> res = readResponse cfg (Method req) (URL req) resp)))"
  using fetchURL_cases [of U out cfg ps token]
proof (elim disjE exE conjE)
  fix req
  assume l: "mayFetch U out cfg (URL req)" and f: "fetchURL U out cfg ps token =
       (case clientDo out 9 [] req of (es, Inl err) \<Rightarrow> (es, Inl (Wrap ''fetch'' err))
                     | (es, Inr resp) \<Rightarrow> (es, Inr (readResponse cfg (Method req) (URL req) resp)))"
  obtain es0 r0 where c: "clientDo out 9 [] req = (es0, r0)" by (cases "clientDo out 9 [] req")
  obtain rs where rs: "es0 = map Fetch (req # rs)" "successively (redirects out) (req # rs)" "length rs \<le> 9"
    "\<forall>resp. r0 = Inr resp \<longrightarrow> doHTTP out (List.last (req # rs)) = Inr resp"
    using clientDo_trail [OF c] by blast
  have "es = es0" and "\<forall>res. r = Inr res \<longrightarrow> (\<exists>resp. r0 = Inr resp \<and> res = readResponse cfg (Method req) (URL req) resp)"
    using f assms c by (cases r0; simp)+
  with rs l show ?thesis by (intro disjI2 exI [of _ req] exI [of _ rs]) blast
qed (use assms in simp)

lemma successively_web: "successively (redirects out) (req # rs) \<Longrightarrow> r \<in> set rs \<Longrightarrow> webURL out (URL r)"
  by (induction rs arbitrary: req) (auto dest: redirects_web)

text \<open>What is true of the requests of a fetch.\<close>

definition gatedRequests :: "unicode \<Rightarrow> outside \<Rightarrow> HTTP \<Rightarrow> http_request list \<Rightarrow> bool" where
  "gatedRequests U out cfg rs \<longleftrightarrow> length rs \<le> 10 \<and> (\<forall>r \<in> set rs. webURL out (URL r)) \<and>
     (rs \<noteq> [] \<longrightarrow> mayFetch U out cfg (URL (hd rs))) \<and> successively (redirects out) rs"

lemma mayFetch_web: "mayFetch U out cfg u \<Longrightarrow> webURL out u"
  by (auto simp: mayFetch_def webURL_def)

lemma fetch_effects: "gatedRequests U out cfg (requestsIn (fst (fetchURL U out cfg ps token)))"
proof (cases "fetchURL U out cfg ps token")
  case (Pair es r)
  from fetch_trail [OF Pair] show ?thesis
  proof (elim disjE exE conjE)
    fix req rs
    assume "es = map Fetch (req # rs)" "mayFetch U out cfg (URL req)" "successively (redirects out) (req # rs)" "length rs \<le> 9"
    with Pair successively_web [of out req rs] mayFetch_web [of U out cfg "URL req"] show ?thesis
      by (auto simp: gatedRequests_def simp del: list.map)
  qed (use Pair in \<open>simp add: gatedRequests_def\<close>)
qed

lemma readResponse_body:
  "fst (readResponse cfg meth target resp) =
    take (nat (if ResponseCapBytes cfg \<le> 0 then 65536 else ResponseCapBytes cfg)) (RespBody resp)"
proof -
  have "(if length (take (n + 1) xs) > n then take n (take (n + 1) xs) else take (n + 1) xs) = take n xs"
    for n and xs :: bytes by (simp add: min_def)
  then show ?thesis unfolding readResponse_def Let_def fst_conv .
qed

lemma fst_session_case:
  "fst (case x of (es, Some err) \<Rightarrow> (es, Inl err) | (es, None) \<Rightarrow> (es, Inr r)) = fst x"
  by (simp split: prod.split option.split)

lemma smtpSession_effects: "e \<in> set (fst (smtpSession out cs)) \<Longrightarrow> \<exists>c \<in> fst ` set cs. e = Smtp c"
  by (induction cs) (auto simp: smtpCmd_def split: smtp_cmd.splits option.splits prod.splits if_splits)

declare smtpSession.simps [simp del]

lemma sendEmail_effects:
  "e \<in> set (fst (sendEmail U out cfg ps token)) \<Longrightarrow> \<exists>c. e = Smtp c"
  unfolding sendEmail_def Let_def
  by (auto simp: fst_session_case split: if_splits dest!: smtpSession_effects)

lemma pushLoki_effects: "e \<in> set (fst (pushLoki U out actor name ps token)) \<Longrightarrow> \<exists>p. e = Push p"
  by (auto simp: pushLoki_def Let_def split: sum.splits if_splits)


lemma checked_subset: "e \<in> set (fst (fst (checked out uid app def ws call))) \<Longrightarrow> e \<in> set (fst call)"
  by (auto simp: checked_def split: prod.splits option.splits)

lemma fetchURL_only: "e \<in> set (fst (fetchURL U out cfg ps token)) \<Longrightarrow> \<exists>req. e = Fetch req"
  using fetch_trail [of U out cfg ps token] by (cases "fetchURL U out cfg ps token") (auto simp del: list.map)

lemma dispatch_effects:
  assumes "e \<in> set (fst (fst (snd (snd (dispatch U out snap actor name ps token ws)))))"
  shows "(name = ''MailApp.sendEmail'' \<and> MailEnabled (MailCfg snap) \<and> (\<exists>c. e = Smtp c)) \<or>
    (name = ''UrlFetchApp.fetch'' \<and> HTTPEnabled (HTTPCfg snap) \<and> (\<exists>req. e = Fetch req)) \<or>
    (name = ''Logger.log'' \<and> LoggerEnabled (LoggerCfg snap) \<and> (\<exists>p. e = Push p))"
  using assms by (auto simp: dispatch_def Let_def split: if_splits
      dest!: checked_subset sendEmail_effects pushLoki_effects fetchURL_only)

lemma requestsIn_none: "(\<And>req. Fetch req \<notin> set es) \<Longrightarrow> requestsIn es = []"
  by (induction es rule: requestsIn.induct) auto

lemma checked_list: "fst (fst (checked out uid app def ws call)) = [] \<or> fst (fst (checked out uid app def ws call)) = fst call"
  by (auto simp: checked_def split: prod.splits option.splits)

lemma dispatch_requests: "gatedRequests U out (HTTPCfg snap) (requestsIn (fst (fst (snd (snd (dispatch U out snap actor name ps token ws))))))"
proof (cases "name = ''UrlFetchApp.fetch'' \<and> HTTPEnabled (HTTPCfg snap)")
  case True
  have "gatedRequests U out (HTTPCfg snap) []" by (simp add: gatedRequests_def)
  then show ?thesis
    using True fetch_effects [of U out "HTTPCfg snap" ps token]
      checked_list [of out "ActorUserID actor" AppHTTP "HTTPPerMinute (QuotasCfg snap)" ws "fetchURL U out (HTTPCfg snap) ps token"]
    by (auto simp: dispatch_def Let_def)
next
  case False
  then have "requestsIn (fst (fst (snd (snd (dispatch U out snap actor name ps token ws))))) = []"
    by (intro requestsIn_none notI) (drule dispatch_effects, auto)
  then show ?thesis by (simp add: gatedRequests_def)
qed

text \<open>The limit of a family for users without an override.\<close>

definition defaultLimit :: "Quotas \<Rightarrow> string \<Rightarrow> int" where
  "defaultLimit q app = (if app = AppMail then MailPerMinute q else if app = AppHTTP then HTTPPerMinute q else LoggerPerMinute q)"

lemma dispatch_quota:
  "fst (fst (snd (snd (dispatch U out snap actor name ps token ws)))) \<noteq> [] \<Longrightarrow>
    (let app = fst (dispatch U out snap actor name ps token ws);
         k = (ActorUserID actor, app); a = (clock out, effectiveQuota out (ActorUserID actor) app (defaultLimit (QuotasCfg snap) app)) in
     app \<in> {AppMail, AppHTTP, AppLogger} \<and> fst (allowQuota k a ws) = None \<and>
     snd (snd (snd (dispatch U out snap actor name ps token ws))) = snd (allowQuota k a ws))"
  by (simp add: dispatch_def Let_def defaultLimit_def checked_wins split: if_splits)
    (drule checked_effects, simp add: family_names)+

section \<open>Properties\<close>

text \<open>
  C5: nothing reaches the outside world past a closed gate. Mail is sent only by
  \<open>MailApp.sendEmail\<close> while mail is enabled, a log line is pushed only by \<open>Logger.log\<close> while logging
  is enabled, and a request goes out only from \<open>UrlFetchApp.fetch\<close> while it is enabled; whenever a call
  touches the outside world at all, the quota check of its user and app family granted it just before,
  and the windows afterwards are those of that grant. The first request of a fetch goes over http or
  https to a host on the allowlist when there is one; every other one goes where the answer to the one
  before redirected, and there are at most ten. A call that fails yields neither a token nor a response.
\<close>

theorem Call_gated:
  assumes "Call U env snap actor name ps token svc = ((out, err, es), svc')"
  shows "(\<forall>c. Smtp c \<in> set es \<longrightarrow> name = ''MailApp.sendEmail'' \<and> MailEnabled (MailCfg snap)) \<and>
    (\<forall>p. Push p \<in> set es \<longrightarrow> name = ''Logger.log'' \<and> LoggerEnabled (LoggerCfg snap)) \<and>
    (\<forall>req. Fetch req \<in> set es \<longrightarrow> name = ''UrlFetchApp.fetch'' \<and> HTTPEnabled (HTTPCfg snap)) \<and>
    gatedRequests U (net env) (HTTPCfg snap) (requestsIn es) \<and>
    (es \<noteq> [] \<longrightarrow>
      (let k = (ActorUserID actor, OutApp out);
           a = (clock (net env), effectiveQuota (net env) (ActorUserID actor) (OutApp out) (defaultLimit (QuotasCfg snap) (OutApp out))) in
       OutApp out \<in> {AppMail, AppHTTP, AppLogger} \<and> allowQuota k a (wins svc) = (None, wins svc'))) \<and>
    (err \<noteq> None \<longrightarrow> OutResult out = [] \<and> OutResponse out = [])"
proof -
  define d where "d = dispatch U (net env) snap actor name ps token (wins svc)"
  have es: "es = fst (fst (snd (snd d)))" and app: "OutApp out = fst d" and w: "wins svc' = snd (snd (snd d))"
    and out: "err \<noteq> None \<longrightarrow> OutResult out = [] \<and> OutResponse out = []"
    using assms by (auto simp: Call_eq Let_def d_def outcomeOf_def split: sum.splits)
  note e = dispatch_effects [of _ U "net env" snap actor name ps token "wins svc", folded d_def es]
  have "Smtp c \<in> set es \<Longrightarrow> name = ''MailApp.sendEmail'' \<and> MailEnabled (MailCfg snap)" for c using e [of "Smtp c"] by blast
  moreover have "Push p \<in> set es \<Longrightarrow> name = ''Logger.log'' \<and> LoggerEnabled (LoggerCfg snap)" for p using e [of "Push p"] by blast
  moreover have "Fetch req \<in> set es \<Longrightarrow> name = ''UrlFetchApp.fetch'' \<and> HTTPEnabled (HTTPCfg snap)" for req
    using e [of "Fetch req"] by blast
  moreover have "gatedRequests U (net env) (HTTPCfg snap) (requestsIn es)"
    using dispatch_requests [of U "net env" snap actor name ps token "wins svc"] by (simp add: es d_def)
  moreover have "OutApp out \<in> {AppMail, AppHTTP, AppLogger} \<and>
      allowQuota (ActorUserID actor, OutApp out)
        (clock (net env), effectiveQuota (net env) (ActorUserID actor) (OutApp out) (defaultLimit (QuotasCfg snap) (OutApp out)))
        (wins svc) = (None, wins svc')" if "es \<noteq> []"
    using dispatch_quota [of U "net env" snap actor name ps token "wins svc", folded d_def] that
    by (auto simp: es [symmetric] app w Let_def prod_eq_iff)
  ultimately show ?thesis using out by (simp add: Let_def)
qed

text \<open>Concrete tables, network and state for the witnesses.\<close>

definition plainTables :: unicode where
  "plainTables = \<lparr>lowerTab = id, upperTab = id, printTab = (\<lambda>r. True)\<rparr>"

definition sampleNet :: outside where
  "sampleNet = \<lparr>clock = 0, dateHeader = ''d'', effectiveQuota = (\<lambda>uid app def. Inr (def, True)), relay = (\<lambda>c. None),
     parseURL = (\<lambda>u. Some (''http'', ''a'')), newRequest = (\<lambda>m u. None),
     doHTTP = (\<lambda>r. Inr \<lparr>StatusCode = 200, StatusText = ''200 OK'', Location = [], RespBody = ''hello''\<rparr>),
     resolveRef = (\<lambda>base loc. None), carriedHeaders = (\<lambda>reqs u. []), doError = (\<lambda>reqs e. e), lokiPost = (\<lambda>p. Inr 204)\<rparr>"

definition sampleEnv :: callenv where
  "sampleEnv = \<lparr>net = sampleNet, marshal = (\<lambda>e. Some ''e''), logStamp = ''t'', logFs = \<lparr>writeFails = None, trimFails = False\<rparr>, callMs = 1\<rparr>"

definition sampleActor :: Actor where
  "sampleActor = \<lparr>ActorUserID = 7, ActorEmail = ''a@b'', ActorProjectID = 1, ActorExecID = 0\<rparr>"

definition freshService :: service where
  "freshService = \<lparr>wins = Map.empty, oplogs = Map.empty\<rparr>"

lemma sample_texts:
  "ToLower plainTables ''a'' = ''a''" "ToLower plainTables ''b'' = ''b''" "TrimSpace ''a'' = ''a''" "ToUpper plainTables ''GET'' = ''GET''"
  by (simp_all add: ToLower_def ToUpper_def lower_rune_def upper_rune_def RuneError_def plainTables_def TrimSpace_def
      rune_chunks.simps decode_rune.simps IsSpace_def runes_def encode_rune_def Let_def char_of_eq_iff)

text \<open>A fetch from a listed host, whose answer redirects to another one.\<close>

definition movedNet :: outside where
  "movedNet = sampleNet\<lparr>parseURL := (\<lambda>u. Some (''http'', u)),
     doHTTP := (\<lambda>r. Inr \<lparr>StatusCode = (if URL r = ''a'' then 302 else 200), StatusText = ''200 OK'',
       Location = (if URL r = ''a'' then ''b'' else []), RespBody = ''hello''\<rparr>),
     resolveRef := (\<lambda>base loc. Some loc)\<rparr>"

definition onlyA :: Snapshot where
  "onlyA = defaults\<lparr>HTTPCfg := (HTTPCfg defaults)\<lparr>HTTPEnabled := True, AllowedDomains := [''a'']\<rparr>\<rparr>"

theorem Call_gated_witness:
  "\<exists>out err es svc'. Call plainTables (sampleEnv\<lparr>net := movedNet\<rparr>) onlyA sampleActor ''UrlFetchApp.fetch'' [] ''a'' freshService = ((out, err, es), svc') \<and>
     map URL (requestsIn es) = [''a'', ''b''] \<and> mayFetch plainTables movedNet (HTTPCfg onlyA) (URL (hd (requestsIn es))) \<and>
     successively (redirects movedNet) (requestsIn es) \<and> (\<exists>a. allowQuota (7, ''http'') a (wins freshService) = (None, wins svc'))"
proof -
  obtain out err es svc' where c:
    "Call plainTables (sampleEnv\<lparr>net := movedNet\<rparr>) onlyA sampleActor ''UrlFetchApp.fetch'' [] ''a'' freshService = ((out, err, es), svc')"
    by (cases "Call plainTables (sampleEnv\<lparr>net := movedNet\<rparr>) onlyA sampleActor ''UrlFetchApp.fetch'' [] ''a'' freshService") auto
  have "map URL (requestsIn es) = [''a'', ''b'']" "OutApp out = AppHTTP"
    using c by (auto simp: sample_texts Call_eq Let_def dispatch_def checked_def allowQuota_def window_def fetchURL_def clientDo.simps movedNet_def
        sampleNet_def sampleEnv_def sampleActor_def freshService_def onlyA_def defaults_def param_def domainAllowed_def TrimSuffix_def TrimPrefix_def HasPrefix_def HasSuffix_def
        redirectBehavior_def webURL_def family_names)
  moreover from this have "es \<noteq> []" by auto
  ultimately show ?thesis
    using Call_gated [OF c] c by (auto simp: gatedRequests_def sampleActor_def family_names Let_def)
qed

lemma quota_bounds_effects:
  assumes "sorted (map callTime cs)" and "limited uid app L cs"
  shows "length (filter (\<lambda>t. a \<le> t \<and> t < a + minute) (effectTimes U uid app cs svc)) \<le> L"
proof -
  let ?rs = "concat (map callRequest cs)"
  have "length (filter (\<lambda>t. a \<le> t \<and> t < a + minute) (effectTimes U uid app cs svc)) \<le>
      length (filter (\<lambda>t. a \<le> t \<and> t < a + minute) (grantTimes (uid, app) (wins svc) ?rs))"
    by (rule effectTimes_granted)
  also have "\<dots> \<le> L"
  proof -
    have c: "capped (uid, app) L ?rs" using assms(2) by (simp only: limited_def)
    show ?thesis by (rule quota_bound [OF sorted_requests [OF assms(1)] c])
  qed
  finally show ?thesis .
qed

text \<open>
  C6: quotas bound what a user's programs do. In any run of calls at increasing times, made by any
  mix of users and apps, no half-open minute sees more calls of one user in one app family reach
  the outside world than the largest limit in force for that user and family.
\<close>

theorem Call_quota_bound:
  assumes "sorted (map callTime cs)" and "limited uid app L cs" and "wins svc = Map.empty"
  shows "length (filter (\<lambda>t. a \<le> t \<and> t < a + minute) (effectTimes U uid app cs svc)) \<le> L"
  by (rule quota_bounds_effects [OF assms(1,2)])

definition sampleCalls :: "call list" where
  "sampleCalls = [\<lparr>callEnv = sampleEnv, callSnap = defaults, callActor = sampleActor, callName = ''UrlFetchApp.fetch'',
     callParams = [], callToken = ''http://a/''\<rparr>]"

theorem Call_quota_bound_witness:
  "length (filter (\<lambda>t. 0 \<le> t \<and> t < 0 + minute) (effectTimes plainTables 7 ''http'' sampleCalls freshService)) \<le> 30"
proof -
  have "limited 7 ''http'' 30 sampleCalls"
    by (simp add: limited_def sampleCalls_def callRequest_def quotaRequest_def capped_def sampleEnv_def sampleNet_def
        sampleActor_def defaults_def family_names)
  then show ?thesis
    using Call_quota_bound [of sampleCalls 7 "''http''" 30 freshService 0 plainTables]
    by (simp add: sampleCalls_def freshService_def)
qed

text \<open>
  a fetched body is capped. The token of a successful fetch is the longest prefix, within the
  configured cap (64 KiB if the setting is not positive), of the body of the answer to the last
  request it made, and the status says so when something was cut off.
\<close>

theorem fetch_capped:
  assumes "fetchURL U out cfg ps token = (es, Inr (result, status, response))"
  shows "\<exists>resp. requestsIn es \<noteq> [] \<and> doHTTP out (List.last (requestsIn es)) = Inr resp \<and>
    result = take (nat (if ResponseCapBytes cfg \<le> 0 then 65536 else ResponseCapBytes cfg)) (RespBody resp) \<and>
    (result \<noteq> RespBody resp \<longrightarrow> HasSuffix status '' (body capped)'')"
proof -
  obtain req rs resp where r: "es = map Fetch (req # rs)" "doHTTP out (List.last (req # rs)) = Inr resp"
    "(result, status, response) = readResponse cfg (Method req) (URL req) resp"
    using fetch_trail [OF assms] by auto
  define n where "n = nat (if ResponseCapBytes cfg \<le> 0 then 65536 else ResponseCapBytes cfg)"
  have b: "result = take n (RespBody resp)" using readResponse_body r(3) unfolding n_def by (metis fst_conv)
  have "HasSuffix status '' (body capped)''" if "result \<noteq> RespBody resp"
  proof -
    have "length (RespBody resp) > n" using that b by (cases "length (RespBody resp) > n") auto
    then have "length (take (n + 1) (RespBody resp)) > n" by simp
    then have "\<exists>st0. status = st0 @ '' (body capped)''"
      using r(3) unfolding readResponse_def Let_def n_def [symmetric] by (simp only: if_True prod.inject) blast
    then show ?thesis by auto
  qed
  moreover have "requestsIn es = req # rs" by (simp only: r(1) requestsIn_map)
  ultimately show ?thesis using r(2) b unfolding n_def by auto
qed

theorem fetch_capped_witness:
  "\<exists>es result status response. fetchURL plainTables sampleNet (HTTPCfg defaults) [] ''http://a/'' = (es, Inr (result, status, response)) \<and>
     length result \<le> 65536"
proof -
  obtain es result status response where f:
    "fetchURL plainTables sampleNet (HTTPCfg defaults) [] ''http://a/'' = (es, Inr (result, status, response))"
    by (cases "readResponse (HTTPCfg defaults) (ToUpper plainTables ''GET'') ''http://a/'' \<lparr>StatusCode = 200, StatusText = ''200 OK'', Location = [], RespBody = ''hello''\<rparr>")
      (simp add: fetchURL_def clientDo.simps redirectBehavior_def sampleNet_def defaults_def param_def Let_def)
  from fetch_capped [OF f] have "length result \<le> 65536" by (auto simp: defaults_def)
  with f show ?thesis by blast
qed

text \<open>
  a redirect leaves the allowlist. The client of the service follows redirects, and only the URL of the
  first request is checked: a listed host that redirects makes the server fetch from any other one.
\<close>

theorem redirect_leaves_allowlist:
  assumes "domainAllowed U ''a'' (AllowedDomains cfg)" and "\<not> domainAllowed U ''b'' (AllowedDomains cfg)" and "AllowedDomains cfg \<noteq> []"
    and "ToUpper U ''GET'' = ''GET''"
  shows "\<exists>r1 r2. fst (fetchURL U movedNet cfg [] ''a'') = [Fetch r1, Fetch r2] \<and> URL r2 = ''b'' \<and> \<not> mayFetch U movedNet cfg (URL r2)"
  using assms by (auto simp: fetchURL_def clientDo.simps movedNet_def sampleNet_def param_def mayFetch_def webURL_def redirectBehavior_def Let_def)

theorem redirect_leaves_allowlist_witness:
  "\<exists>r1 r2. fst (fetchURL plainTables movedNet (HTTPCfg onlyA) [] ''a'') = [Fetch r1, Fetch r2] \<and> \<not> mayFetch plainTables movedNet (HTTPCfg onlyA) (URL r2)"
proof -
  have "domainAllowed plainTables ''a'' (AllowedDomains (HTTPCfg onlyA))" "\<not> domainAllowed plainTables ''b'' (AllowedDomains (HTTPCfg onlyA))"
    "AllowedDomains (HTTPCfg onlyA) \<noteq> []" "ToUpper plainTables ''GET'' = ''GET''"
    by (simp_all add: sample_texts domainAllowed_def onlyA_def TrimSuffix_def TrimPrefix_def HasPrefix_def HasSuffix_def Let_def)
  from redirect_leaves_allowlist [OF this] show ?thesis by blast
qed

text \<open>
  a subject with a line break injects headers. Only the sender and the recipient are checked
  for line breaks; what follows one in the subject parameter is sent as header lines of its own.
\<close>

theorem sendEmail_header_injection:
  assumes "MailFrom cfg \<noteq> []" and "token \<noteq> []" and "\<forall>c. relay out c = None"
    and "CHR 0x0A \<notin> set (MailFrom cfg) \<union> set token" and "CHR 0x0D \<notin> set (MailFrom cfg) \<union> set token"
  shows "\<exists>post. Smtp (Body (''From: '' @ MailFrom cfg @ crlf @ ''To: '' @ token @ crlf @ ''Subject: '' @ s @ crlf @ bad @ crlf @ ''Date: '' @ post))
    \<in> set (fst (sendEmail U out cfg [(''subject'', s @ crlf @ bad)] token))"
proof -
  define post where "post = dateHeader out @ crlf @ ''MIME-Version: 1.0'' @ crlf @ ''Content-Type: text/plain; charset=UTF-8'' @ crlf @ crlf"
  have msg: "buildMailMessage (dateHeader out) (MailFrom cfg) token (s @ crlf @ bad) [] =
      ''From: '' @ MailFrom cfg @ crlf @ ''To: '' @ token @ crlf @ ''Subject: '' @ s @ crlf @ bad @ crlf @ ''Date: '' @ post"
    by (simp add: buildMailMessage_def post_def)
  have ne: "crlf \<noteq> []" by (simp add: crlf_def)
  have "Smtp (Body (buildMailMessage (dateHeader out) (MailFrom cfg) token (s @ crlf @ bad) [])) \<in>
      set (fst (sendEmail U out cfg [(''subject'', s @ crlf @ bad)] token))"
    using assms ne by (simp add: sendEmail_def param_def fst_session_case smtpSession.simps smtpCmd_def Let_def)
  then show ?thesis unfolding msg by blast
qed

theorem sendEmail_header_injection_witness:
  "\<exists>post. Smtp (Body (''From: '' @ ''f@x'' @ crlf @ ''To: '' @ ''t@y'' @ crlf @ ''Subject: '' @ ''hi'' @ crlf @ ''Bcc: v@z'' @ crlf @ ''Date: '' @ post))
    \<in> set (fst (sendEmail plainTables sampleNet \<lparr>MailEnabled = True, MailFrom = ''f@x''\<rparr> [(''subject'', ''hi'' @ crlf @ ''Bcc: v@z'')] ''t@y''))"
  using sendEmail_header_injection [of "\<lparr>MailEnabled = True, MailFrom = ''f@x''\<rparr>" "''t@y''" sampleNet "''hi''" "''Bcc: v@z''" plainTables]
  by (simp add: sampleNet_def)

text \<open>
  capping a text at a byte count can cut a rune in half. Text that is valid UTF-8 is turned
  into text that is not, which the UTF-8 database the call records go to refuses to store.
\<close>

theorem clamp_splits_rune:
  assumes "list_all (\<lambda>c. byte c < 128) p"
  shows "valid_utf8 (p @ [CHR 0xC3, CHR 0xA9]) \<and> \<not> valid_utf8 (clamp (p @ [CHR 0xC3, CHR 0xA9]) (length p + 1))"
proof -
  have ascii: "valid_utf8 (p @ t) = valid_utf8 t" for t
    using assms
    by (induction p) (auto simp: valid_utf8_def rune_chunks.simps [of "_ # _"] decode_rune.simps RuneError_def Let_def)
  have "valid_utf8 [CHR 0xC3, CHR 0xA9]"
    by (simp add: valid_utf8_def rune_chunks.simps decode_rune.simps is_cont_def RuneError_def)
  moreover have "\<not> valid_utf8 (CHR 0xC3 # ellipsis)"
    by (simp add: valid_utf8_def rune_chunks.simps [of "_ # _"] decode_rune.simps is_cont_def RuneError_def ellipsis_def)
  moreover have "clamp (p @ [CHR 0xC3, CHR 0xA9]) (length p + 1) = p @ CHR 0xC3 # ellipsis"
    by (simp add: clamp_def)
  ultimately show ?thesis by (simp only: ascii simp_thms)
qed

theorem clamp_splits_rune_witness: "\<not> valid_utf8 (clamp (''caf'' @ [CHR 0xC3, CHR 0xA9]) 4)"
  using clamp_splits_rune [of "''caf''"] by (simp add: numeral_eq_Suc)

end
