(* ===== verification/Codec.thy ===== *)
theory Codec
  imports GoText
begin

text \<open>
  The interface of a prefix-free byte format: a decoder that consumes exactly what the encoder of
  an admissible value wrote and leaves the rest of the stream.
\<close>

fun decodeN :: "(bytes \<Rightarrow> ('a \<times> bytes) option) \<Rightarrow> nat \<Rightarrow> bytes \<Rightarrow> ('a list \<times> bytes) option" where
  "decodeN dec 0 s = Some ([], s)"
| "decodeN dec (Suc n) s = do { (x, s1) \<leftarrow> dec s; (xs, s2) \<leftarrow> decodeN dec n s1; Some (x # xs, s2) }"

locale codec =
  fixes enc :: "'a \<Rightarrow> bytes"
    and dec :: "bytes \<Rightarrow> ('a \<times> bytes) option"
    and ok :: "'a \<Rightarrow> bool"
  assumes dec_enc: "ok x \<Longrightarrow> dec (enc x @ rest) = Some (x, rest)"
    and dec_shorter: "dec s = Some (x, t) \<Longrightarrow> length t < length s"
begin

lemma decodeN_enc: "list_all ok xs \<Longrightarrow> decodeN dec (length xs) (concat (map enc xs) @ rest) = Some (xs, rest)"
  by (induction xs) (simp_all add: dec_enc)

lemma decodeN_shorter: "decodeN dec n s = Some (xs, t) \<Longrightarrow> length t + n \<le> length s"
proof (induction n arbitrary: s xs)
  case (Suc n)
  then obtain x s1 ys where "dec s = Some (x, s1)" "decodeN dec n s1 = Some (ys, t)"
    by (auto simp: bind_eq_Some_conv)
  with Suc.IH [of s1 ys] dec_shorter [of s x s1] show ?case by simp
qed simp

lemma enc_inj: "ok x \<Longrightarrow> ok y \<Longrightarrow> enc x = enc y \<Longrightarrow> x = y"
  using dec_enc [of x "[]"] dec_enc [of y "[]"] by simp

end

end
