(* ===== verification/Bridge.thy ===== *)
theory Bridge
  imports Apps Disasm Codec
begin

text \<open>
  The unix-socket bridge of a run, server/internal/engine/bridge.go: the wire format, the loop
  that answers one connection, and the server over the connections of a run. A connection is the
  byte stream the runner sends until it closes; the frames written back are a list, one per
  \<open>Write\<close>. The environment of the \<open>i\<close>-th call of the run (settings snapshot, network, clocks) is
  given by a function of \<open>i\<close>.
\<close>

definition bridgeMaxCalls :: nat where
  "bridgeMaxCalls = 256"

record bridgeRequest =
  reqName :: string
  reqParams :: params
  reqToken :: bytes

section \<open>Wire format\<close>

definition readU32 :: "bytes \<Rightarrow> (32 word \<times> bytes) option" where
  "readU32 s = (if length s < 4 then None else Some (le32 (take 4 s), drop 4 s))"

definition readBridgeString :: "bytes \<Rightarrow> (bytes \<times> bytes) option" where
  "readBridgeString s = do {
     (n, s) \<leftarrow> readU32 s;
     if unat n > 1048576 then None
     else if length s < unat n then None
     else Some (take (unat n) s, drop (unat n) s)
   }"

definition readPair :: "bytes \<Rightarrow> ((string \<times> string) \<times> bytes) option" where
  "readPair s = do { (k, s) \<leftarrow> readBridgeString s; (v, s) \<leftarrow> readBridgeString s; Some ((k, v), s) }"

definition readBridgeRequest :: "bytes \<Rightarrow> (bridgeRequest \<times> bytes) option" where
  "readBridgeRequest s = do {
     (name, s) \<leftarrow> readBridgeString s;
     if length name = 0 \<or> length name > 128 then None
     else do {
       (n, s) \<leftarrow> readU32 s;
       if n > 64 then None
       else do {
         (kvs, s) \<leftarrow> decodeN readPair (unat n) s;
         (token, s) \<leftarrow> readBridgeString s;
         Some (\<lparr>reqName = name, reqParams = foldl (\<lambda>m (k, v). AList.update k v m) [] kvs, reqToken = token\<rparr>, s)
       }
     }
   }"

definition bridgeAppendString :: "bytes \<Rightarrow> string \<Rightarrow> bytes" where
  "bridgeAppendString b s = b @ put_le32 (word_of_nat (length s)) @ s"

definition writeBridgeResponse :: "bool \<Rightarrow> string \<Rightarrow> string \<Rightarrow> bytes" where
  "writeBridgeResponse ok status result =
     bridgeAppendString (bridgeAppendString [if ok then CHR 0x01 else CHR 0x00] status) result"

section \<open>Round trips\<close>

lemma readU32_put [simp]: "readU32 (put_le32 w @ s) = Some (w, s)"
  by (simp add: readU32_def)

lemma readU32_shorter: "readU32 s = Some (w, t) \<Longrightarrow> length t < length s"
  by (auto simp: readU32_def split: if_splits)

lemma readBridgeString_shorter: "readBridgeString s = Some (x, t) \<Longrightarrow> length t < length s"
  by (auto simp: readBridgeString_def bind_eq_Some_conv split: if_splits dest!: readU32_shorter)

definition frameable :: "string \<Rightarrow> bool" where
  "frameable s \<longleftrightarrow> length s \<le> 1048576"

lemma unat_len32: "n \<le> 1048576 \<Longrightarrow> unat (word_of_nat n :: 32 word) = n"
  by (rule unat_of_nat32) simp

interpretation str: codec "bridgeAppendString []" readBridgeString frameable
proof
  show "readBridgeString (bridgeAppendString [] x @ rest) = Some (x, rest)" if "frameable x" for x rest
    using that unat_len32 [of "length x"] by (simp add: readBridgeString_def bridgeAppendString_def frameable_def)
  show "length t < length s" if "readBridgeString s = Some (x, t)" for s x t
    using that by (rule readBridgeString_shorter)
qed

definition pairBytes :: "string \<times> string \<Rightarrow> bytes" where
  "pairBytes p = bridgeAppendString [] (fst p) @ bridgeAppendString [] (snd p)"

definition frameablePair :: "string \<times> string \<Rightarrow> bool" where
  "frameablePair p \<longleftrightarrow> frameable (fst p) \<and> frameable (snd p)"

interpretation pair: codec pairBytes readPair frameablePair
proof
  show "readPair (pairBytes x @ rest) = Some (x, rest)" if "frameablePair x" for x rest
    using that by (simp add: readPair_def pairBytes_def frameablePair_def str.dec_enc)
  show "length t < length s" if "readPair s = Some (x, t)" for s x t
    using that by (auto simp: readPair_def bind_eq_Some_conv dest!: readBridgeString_shorter)
qed

text \<open>The request frame of the format comment: what the runner sends.\<close>

definition requestBytes :: "bridgeRequest \<Rightarrow> bytes" where
  "requestBytes r =
     bridgeAppendString [] (reqName r) @ put_le32 (word_of_nat (length (reqParams r))) @
     concat (map pairBytes (reqParams r)) @ bridgeAppendString [] (reqToken r)"

definition sendable :: "bridgeRequest \<Rightarrow> bool" where
  "sendable r \<longleftrightarrow> 0 < length (reqName r) \<and> length (reqName r) \<le> 128 \<and> length (reqParams r) \<le> 64 \<and>
     distinct (map fst (reqParams r)) \<and> list_all frameablePair (reqParams r) \<and> frameable (reqToken r)"

lemma update_distinct:
  "distinct (map fst (m @ kvs)) \<Longrightarrow> foldl (\<lambda>m (k, v). AList.update k v m) m kvs = m @ kvs"
proof (induction kvs arbitrary: m)
  case (Cons p kvs)
  obtain k v where p: "p = (k, v)" by (cases p)
  have "k \<notin> fst ` set m" using Cons.prems p by auto
  then have "AList.update k v m = m @ [(k, v)]" by (induction m) auto
  with Cons p show ?case by simp
qed simp

interpretation request: codec requestBytes readBridgeRequest sendable
proof
  show "length t < length s" if rd: "readBridgeRequest s = Some (x, t)" for s x t
  proof -
    obtain name s1 n s2 kvs s3 token where "readBridgeString s = Some (name, s1)" "readU32 s1 = Some (n, s2)"
      "decodeN readPair (unat n) s2 = Some (kvs, s3)" "readBridgeString s3 = Some (token, t)"
      using rd by (auto simp: readBridgeRequest_def bind_eq_Some_conv split: if_splits)
    then show ?thesis
      using readBridgeString_shorter readU32_shorter pair.decodeN_shorter by (meson add_leD1 le_less_trans less_imp_le_nat)
  qed
  show "readBridgeRequest (requestBytes r @ rest) = Some (r, rest)" if s: "sendable r" for r rest
  proof -
    have n: "unat (word_of_nat (length (reqParams r)) :: 32 word) = length (reqParams r)"
      using s by (intro unat_of_nat32) (simp add: sendable_def)
    have le: "\<not> (word_of_nat (length (reqParams r)) :: 32 word) > 64"
      using s n by (simp add: word_less_nat_alt sendable_def)
    have f: "frameable (reqName r)" using s by (simp add: sendable_def frameable_def)
    have u: "foldl (\<lambda>m (k, v). AList.update k v m) [] (reqParams r) = reqParams r"
      using update_distinct [of "[]" "reqParams r"] s by (simp add: sendable_def)
    show ?thesis
      using s f le n u
      by (simp add: readBridgeRequest_def requestBytes_def str.dec_enc pair.decodeN_enc sendable_def)
  qed
qed

section \<open>Serving a connection\<close>

record AppCall =
  AcName :: string
  AcStatus :: string
  AcRequest :: string
  AcResponse :: string
  AcDurationMs :: int

text \<open>The part of a run the bridge changes: calls made so far, their transcript, the app service.\<close>

record bridge =
  callsMade :: nat
  appCalls :: "AppCall list"
  svc :: service

text \<open>The loop body after a request was read: the frame written back and the new state.\<close>

definition answer ::
  "unicode \<Rightarrow> (nat \<Rightarrow> Snapshot \<times> callenv) \<Rightarrow> Actor \<Rightarrow> bridgeRequest \<Rightarrow> bridge \<Rightarrow> bytes \<times> bridge" where
  "answer U envs actor req b =
     (case envs (callsMade b) of (snap, env) \<Rightarrow>
       (case Call U env snap actor (reqName req) (reqParams req) (reqToken req) (svc b) of
          ((outcome, err, es), svc') \<Rightarrow>
            (let ac = \<lparr>AcName = reqName req, AcStatus = OutStatus outcome, AcRequest = OutRequest outcome,
                       AcResponse = OutResponse outcome, AcDurationMs = callMs env\<rparr>;
                 frame = (if err \<noteq> None then writeBridgeResponse False (OutStatus outcome) []
                          else writeBridgeResponse True (OutStatus outcome) (OutResult outcome))
             in (frame, b\<lparr>callsMade := callsMade b + 1, appCalls := appCalls b @ [ac], svc := svc'\<rparr>))))"

definition tooManyCalls :: bytes where
  "tooManyCalls = writeBridgeResponse False ''error: too many app calls in one run'' []"

lemma readBridgeRequest_shorter: "readBridgeRequest s = Some (r, t) \<Longrightarrow> length t < length s"
  by (rule request.dec_shorter)

function connLoop ::
  "unicode \<Rightarrow> (nat \<Rightarrow> Snapshot \<times> callenv) \<Rightarrow> Actor \<Rightarrow> nat \<Rightarrow> bytes \<Rightarrow> bridge \<Rightarrow> bytes list \<times> bridge" where
  "connLoop U envs actor calls s b =
     (case readBridgeRequest s of
        None \<Rightarrow> ([], b)
      | Some (req, s') \<Rightarrow>
          (if calls + 1 > bridgeMaxCalls then ([tooManyCalls], b)
           else (case answer U envs actor req b of
                   (frame, b1) \<Rightarrow> (case connLoop U envs actor (calls + 1) s' b1 of (frames, b2) \<Rightarrow> (frame # frames, b2)))))"
  by pat_completeness auto
termination
  by (relation "measure (\<lambda>(U, envs, actor, calls, s, b). length s)") (auto dest: readBridgeRequest_shorter)

declare connLoop.simps [simp del]

definition handleBridgeConn ::
  "unicode \<Rightarrow> (nat \<Rightarrow> Snapshot \<times> callenv) \<Rightarrow> Actor \<Rightarrow> bytes \<Rightarrow> bridge \<Rightarrow> bytes list \<times> bridge" where
  "handleBridgeConn U envs actor s b = connLoop U envs actor 0 s b"

text \<open>The accept loop: one connection after the other until the listener is closed.\<close>

fun serveBridge ::
  "unicode \<Rightarrow> (nat \<Rightarrow> Snapshot \<times> callenv) \<Rightarrow> Actor \<Rightarrow> bytes list \<Rightarrow> bridge \<Rightarrow> bytes list list \<times> bridge" where
  "serveBridge U envs actor [] b = ([], b)"
| "serveBridge U envs actor (conn # conns) b =
     (case handleBridgeConn U envs actor conn b of
        (frames, b1) \<Rightarrow> (case serveBridge U envs actor conns b1 of (fs, b2) \<Rightarrow> (frames # fs, b2)))"

section \<open>What a connection does\<close>

text \<open>The requests a byte stream contains: frames up to the first malformed one.\<close>

function requestsOf :: "bytes \<Rightarrow> bridgeRequest list" where
  "requestsOf s = (case readBridgeRequest s of None \<Rightarrow> [] | Some (r, t) \<Rightarrow> r # requestsOf t)"
  by pat_completeness auto
termination
  by (relation "measure length") (auto dest: readBridgeRequest_shorter)

declare requestsOf.simps [simp del]

text \<open>Answering requests one by one: the specification of the loop.\<close>

fun answerAll ::
  "unicode \<Rightarrow> (nat \<Rightarrow> Snapshot \<times> callenv) \<Rightarrow> Actor \<Rightarrow> bridgeRequest list \<Rightarrow> bridge \<Rightarrow> bytes list \<times> bridge" where
  "answerAll U envs actor [] b = ([], b)"
| "answerAll U envs actor (r # rs) b =
     (case answer U envs actor r b of (f, b1) \<Rightarrow> (case answerAll U envs actor rs b1 of (fs, b2) \<Rightarrow> (f # fs, b2)))"

lemma connLoop_spec:
  "calls \<le> bridgeMaxCalls \<Longrightarrow>
    connLoop U envs actor calls s b =
      (case answerAll U envs actor (take (bridgeMaxCalls - calls) (requestsOf s)) b of
         (fs, b') \<Rightarrow> (fs @ (if length (requestsOf s) > bridgeMaxCalls - calls then [tooManyCalls] else []), b'))"
proof (induction U envs actor calls s b rule: connLoop.induct)
  case (1 U envs actor calls s b)
  show ?case
  proof (cases "readBridgeRequest s")
    case None
    then show ?thesis by (simp add: connLoop.simps [of _ _ _ _ s] requestsOf.simps [of s])
  next
    case (Some p)
    obtain req t where p: "p = (req, t)" by (cases p)
    have rq: "requestsOf s = req # requestsOf t" using Some p by (simp add: requestsOf.simps [of s])
    show ?thesis
    proof (cases "calls + 1 > bridgeMaxCalls")
      case True
      with Some p "1.prems" show ?thesis by (simp add: connLoop.simps [of _ _ _ _ s] rq)
    next
      case False
      obtain f b1 where a: "answer U envs actor req b = (f, b1)" by (cases "answer U envs actor req b")
      obtain n where n: "bridgeMaxCalls - calls = Suc n" "bridgeMaxCalls - (calls + 1) = n"
        using False by (metis Suc_diff_Suc Suc_eq_plus1 not_less Suc_le_eq)
      have IH: "connLoop U envs actor (calls + 1) t b1 =
        (case answerAll U envs actor (take n (requestsOf t)) b1 of
         (fs, b') \<Rightarrow> (fs @ (if length (requestsOf t) > n then [tooManyCalls] else []), b'))"
        using "1.IH" [OF Some p [symmetric] False a [symmetric]] False n(2) by simp
      show ?thesis
        using Some p False a IH n(1) by (simp add: connLoop.simps [of _ _ _ _ s] rq split: prod.split)
    qed
  qed
qed

lemma answer_appCalls:
  "\<exists>ac. AcName ac = reqName r \<and> appCalls (snd (answer U envs actor r b)) = appCalls b @ [ac]"
  by (simp add: answer_def Let_def split: prod.split)

lemma answerAll_appCalls:
  "\<exists>acs. appCalls (snd (answerAll U envs actor rs b)) = appCalls b @ acs \<and> map AcName acs = map reqName rs \<and>
    length (fst (answerAll U envs actor rs b)) = length rs"
proof (induction U envs actor rs b rule: answerAll.induct)
  case (1 U envs actor b)
  show ?case by simp
next
  case (2 U envs actor r rs b)
  obtain f b1 where a: "answer U envs actor r b = (f, b1)" by (cases "answer U envs actor r b")
  obtain acs where acs: "appCalls (snd (answerAll U envs actor rs b1)) = appCalls b1 @ acs" "map AcName acs = map reqName rs"
    "length (fst (answerAll U envs actor rs b1)) = length rs"
    using "2.IH" [OF a [symmetric]] by blast
  obtain ac where "AcName ac = reqName r" "appCalls b1 = appCalls b @ [ac]"
    using answer_appCalls [of r U envs actor b] a by auto
  with a acs show ?case by (auto split: prod.split intro!: exI [of _ "ac # acs"])
qed

lemma handleBridgeConn_spec:
  "handleBridgeConn U envs actor s b =
    (case answerAll U envs actor (take 256 (requestsOf s)) b of
       (fs, b') \<Rightarrow> (fs @ (if length (requestsOf s) > 256 then [tooManyCalls] else []), b'))"
  by (simp add: handleBridgeConn_def connLoop_spec bridgeMaxCalls_def)

lemma requestsOf_stream:
  "list_all sendable rs \<Longrightarrow> readBridgeRequest t = None \<Longrightarrow> requestsOf (concat (map requestBytes rs) @ t) = rs"
  by (induction rs) (simp_all add: requestsOf.simps request.dec_enc)

lemma handleBridgeConn_appCalls:
  "\<exists>acs. appCalls (snd (handleBridgeConn U envs actor s b)) = appCalls b @ acs \<and>
    map AcName acs = map reqName (take 256 (requestsOf s))"
  using answerAll_appCalls [of U envs actor "take 256 (requestsOf s)" b]
  by (auto simp: handleBridgeConn_spec split: prod.split)

section \<open>Properties\<close>

text \<open>
  the wire format round-trips. A request frame of an admissible request (a name of 1 to 128
  bytes, at most 64 parameters with distinct names, strings of at most 1 MiB) is read back as
  that request, whatever follows it in the stream, and leaves exactly what follows.
\<close>

theorem bridge_request_roundtrip:
  assumes "sendable r"
  shows "readBridgeRequest (requestBytes r @ rest) = Some (r, rest)"
  using assms by (rule request.dec_enc)

theorem bridge_request_roundtrip_witness:
  "readBridgeRequest (requestBytes \<lparr>reqName = ''Logger.log'', reqParams = [(''message'', ''hi'')], reqToken = []\<rparr> @ ''x'') =
     Some (\<lparr>reqName = ''Logger.log'', reqParams = [(''message'', ''hi'')], reqToken = []\<rparr>, ''x'')"
  using bridge_request_roundtrip [of "\<lparr>reqName = ''Logger.log'', reqParams = [(''message'', ''hi'')], reqToken = []\<rparr>" "''x''"]
  by (simp add: sendable_def frameablePair_def frameable_def)

text \<open>
  one connection. For a stream of request frames the server makes the first 256 calls, in
  order, answers each with one frame and adds each to the transcript; a 257th request is answered
  with an error and ends the connection.
\<close>

theorem handleBridgeConn_calls:
  assumes "list_all sendable rs" and "readBridgeRequest t = None"
  shows "(let (frames, b') = handleBridgeConn U envs actor (concat (map requestBytes rs) @ t) b in
    (\<exists>acs. appCalls b' = appCalls b @ acs \<and> map AcName acs = map reqName (take 256 rs)) \<and>
    length frames = min 257 (length rs) \<and> (256 < length rs \<longrightarrow> List.last frames = tooManyCalls))"
proof -
  note rs = requestsOf_stream [OF assms]
  show ?thesis
    using answerAll_appCalls [of U envs actor "take 256 rs" b]
    by (auto simp: handleBridgeConn_spec rs split: prod.split)
qed

theorem handleBridgeConn_calls_witness:
  "length (fst (handleBridgeConn plainTables (\<lambda>i. (defaults, sampleEnv)) sampleActor
     (concat (map requestBytes (replicate 300 \<lparr>reqName = ''Logger.log'', reqParams = [], reqToken = []\<rparr>)) @ [])
     \<lparr>callsMade = 0, appCalls = [], svc = freshService\<rparr>)) = 257"
  using handleBridgeConn_calls [of "replicate 300 \<lparr>reqName = ''Logger.log'', reqParams = [], reqToken = []\<rparr>" "[]" plainTables
      "\<lambda>i. (defaults, sampleEnv)" sampleActor "\<lparr>callsMade = 0, appCalls = [], svc = freshService\<rparr>"]
  by (simp add: sendable_def frameable_def list_all_length readBridgeRequest_def readBridgeString_def readU32_def
      case_prod_beta Let_def)

text \<open>
  the limit of 256 calls is per connection, not per run. The transcript of a run grows by up
  to 256 calls for every connection its process opens.
\<close>

theorem serveBridge_calls:
  "length (appCalls (snd (serveBridge U envs actor conns b))) =
    length (appCalls b) + sum_list (map (\<lambda>s. min 256 (length (requestsOf s))) conns)"
proof (induction U envs actor conns b rule: serveBridge.induct)
  case (1 U envs actor b)
  show ?case by simp
next
  case (2 U envs actor conn conns b)
  obtain fs b1 where h: "handleBridgeConn U envs actor conn b = (fs, b1)" by (cases "handleBridgeConn U envs actor conn b")
  obtain acs where "appCalls b1 = appCalls b @ acs" "map AcName acs = map reqName (take 256 (requestsOf conn))"
    using handleBridgeConn_appCalls [of U envs actor conn b] h by auto
  then have "length (appCalls b1) = length (appCalls b) + min 256 (length (requestsOf conn))"
    by (metis length_append length_map length_take min.commute)
  with h "2.IH" [OF h [symmetric]] show ?case by (simp add: case_prod_beta)
qed

end
