(* ===== verification/StageExec.thy ===== *)
theory StageExec
  imports GoText
begin

text \<open>
  Running one sandboxed binary, server/internal/engine/exec.go: the output buffer that keeps a
  prefix of what the child writes, and the classification of how the child ended. What the
  operating system does (the writes the child makes, how the process exits, whether the
  deadline passed) is an argument of \<open>runStage\<close>.
\<close>

section \<open>The capped buffer\<close>

record cappedBuffer =
  buf :: bytes
  limit :: int
  truncated :: bool

definition newCappedBuffer :: "int \<Rightarrow> cappedBuffer" where
  "newCappedBuffer cap = \<lparr>buf = [], limit = cap, truncated = False\<rparr>"

text \<open>\<open>Write\<close>: the count reported to the child and the new buffer.\<close>

definition Write :: "cappedBuffer \<Rightarrow> bytes \<Rightarrow> nat \<times> cappedBuffer" where
  "Write c p =
     (let remaining = limit c - int (length (buf c)) in
      if remaining \<le> 0 then (length p, c\<lparr>truncated := True\<rparr>)
      else if int (length p) > remaining
        then (length p, c\<lparr>buf := buf c @ take (nat remaining) p, truncated := True\<rparr>)
      else (length p, c\<lparr>buf := buf c @ p\<rparr>))"

fun WriteAll :: "cappedBuffer \<Rightarrow> bytes list \<Rightarrow> cappedBuffer" where
  "WriteAll c [] = c"
| "WriteAll c (p # ps) = WriteAll (snd (Write c p)) ps"

lemma Write_count [simp]: "fst (Write c p) = length p"
  by (simp add: Write_def Let_def)

lemma Write_limit [simp]: "limit (snd (Write c p)) = limit c"
  by (simp add: Write_def Let_def)

text \<open>The buffer holds the first \<open>limit\<close> bytes of what was written, and knows if it dropped any.\<close>

definition holds :: "cappedBuffer \<Rightarrow> bytes \<Rightarrow> bool" where
  "holds c out \<longleftrightarrow> buf c = take (nat (limit c)) out \<and> (truncated c \<longleftrightarrow> int (length out) > limit c) \<and> 0 \<le> limit c"

lemma holds_new: "0 \<le> cap \<Longrightarrow> holds (newCappedBuffer cap) []"
  by (simp add: holds_def newCappedBuffer_def)

lemma holds_Write: "holds c out \<Longrightarrow> p \<noteq> [] \<Longrightarrow> holds (snd (Write c p)) (out @ p)"
proof -
  assume h: "holds c out" and "p \<noteq> []"
  then have p: "0 < length p" by simp
  define n where "n = nat (limit c)"
  have n: "limit c = int n" using h by (simp add: holds_def n_def)
  from h p show ?thesis
    by (auto simp: holds_def Write_def Let_def n min_def of_nat_diff [symmetric] simp del: length_greater_0_conv of_nat_diff)
qed

lemma holds_WriteAll:
  "holds c out \<Longrightarrow> [] \<notin> set ps \<Longrightarrow> holds (WriteAll c ps) (out @ concat ps)"
proof (induction ps arbitrary: c out)
  case (Cons p ps)
  then have "holds (snd (Write c p)) (out @ p)" by (intro holds_Write) auto
  from Cons.IH [OF this] Cons.prems(2) show ?case by simp
qed simp

lemma WriteAll_limit [simp]: "limit (WriteAll c ps) = limit c"
  by (induction ps arbitrary: c) simp_all

section \<open>One stage\<close>

record StageResult =
  ExitCode :: int
  Stdout :: string
  Stderr :: string
  TimedOut :: bool
  DurationMs :: int
  Truncated :: bool
  Error :: string

text \<open>How \<open>cmd.Run\<close> returned: no error, an exit status (-1 for a signal), or another error.\<close>

datatype run_end = RunOK | ExitError int | OtherError string

text \<open>
  What the outside does during one stage: the writes to the two pipes, the end of the process,
  the elapsed time, and whether the context's deadline has passed when the process is gone.
\<close>

record process =
  outWrites :: "bytes list"
  errWrites :: "bytes list"
  ended :: run_end
  elapsedMs :: int
  deadlineExceeded :: bool

definition runStage :: "int \<Rightarrow> process \<Rightarrow> StageResult" where
  "runStage outputLimit p =
     (let stdout = WriteAll (newCappedBuffer outputLimit) (outWrites p);
          stderr = WriteAll (newCappedBuffer outputLimit) (errWrites p);
          res = \<lparr>ExitCode = 0, Stdout = buf stdout, Stderr = buf stderr, TimedOut = False,
                 DurationMs = elapsedMs p, Truncated = (truncated stdout \<or> truncated stderr), Error = []\<rparr>
      in if deadlineExceeded p then res\<lparr>TimedOut := True, ExitCode := -1\<rparr>
         else (case ended p of
                 ExitError code \<Rightarrow> res\<lparr>ExitCode := code\<rparr>
               | OtherError msg \<Rightarrow> res\<lparr>ExitCode := -1, Error := msg\<rparr>
               | RunOK \<Rightarrow> res\<lparr>ExitCode := 0\<rparr>))"

section \<open>Properties\<close>

text \<open>
  whatever a child writes, in whatever pieces, the server keeps exactly the first
  \<open>outputLimit\<close> bytes of each stream, sets the truncation mark exactly when something was
  dropped, and tells the child that every write succeeded in full.
\<close>

theorem cappedBuffer_prefix:
  assumes "0 \<le> cap" and "[] \<notin> set ps"
  shows "(let c = WriteAll (newCappedBuffer cap) ps in
     buf c = take (nat cap) (concat ps) \<and> int (length (buf c)) \<le> cap \<and>
     (truncated c \<longleftrightarrow> int (length (concat ps)) > cap) \<and>
     (\<forall>p. fst (Write c p) = length p))"
proof -
  have "holds (WriteAll (newCappedBuffer cap) ps) (concat ps)"
    using holds_WriteAll [OF holds_new [OF assms(1)] assms(2)] by simp
  moreover have "limit (WriteAll (newCappedBuffer cap) ps) = cap" by (simp add: newCappedBuffer_def)
  ultimately show ?thesis using assms(1) by (auto simp: holds_def Let_def)
qed

theorem cappedBuffer_prefix_witness:
  "buf (WriteAll (newCappedBuffer 3) [''ab'', ''cd'', ''e'']) = ''abc''"
  using cappedBuffer_prefix [of 3 "[''ab'', ''cd'', ''e'']"] by (simp add: Let_def)

text \<open>
  the outcome of a stage. A stage reports success (exit code 0, no timeout, no error) only
  when the process ran to completion with no error before the deadline; a passed deadline is
  always reported as a timeout with code -1, whatever the process returned; a process that could
  not be started is told apart from one that failed.
\<close>

theorem runStage_outcome:
  "(deadlineExceeded p \<longleftrightarrow> TimedOut (runStage cap p)) \<and>
   (deadlineExceeded p \<longrightarrow> ExitCode (runStage cap p) = -1 \<and> Error (runStage cap p) = []) \<and>
   (ExitCode (runStage cap p) = 0 \<longleftrightarrow> \<not> deadlineExceeded p \<and> (ended p = RunOK \<or> ended p = ExitError 0)) \<and>
   (Error (runStage cap p) \<noteq> [] \<longleftrightarrow> \<not> deadlineExceeded p \<and> (\<exists>m. m \<noteq> [] \<and> ended p = OtherError m))"
  by (cases "ended p") (auto simp: runStage_def Let_def)

theorem runStage_outcome_witness:
  "ExitCode (runStage 10 \<lparr>outWrites = [], errWrites = [], ended = RunOK, elapsedMs = 5, deadlineExceeded = True\<rparr>) = -1"
  using runStage_outcome [of "\<lparr>outWrites = [], errWrites = [], ended = RunOK, elapsedMs = 5, deadlineExceeded = True\<rparr>" 10]
  by simp

end
