(* ===== verification/Diagnostics.thy ===== *)
theory Diagnostics
  imports GoText
begin

text \<open>
  The compiler diagnostics shown in the editor, server/internal/engine/diagnostics.go. The
  regular expression is anchored and deterministic (a digit run is never followed by a digit,
  the literals are ASCII), so it is written as a straight-line matcher; \<open>.\<close> does not match a
  newline.
\<close>

record Diagnostic =
  Level :: string
  Line :: int
  Message :: string

text \<open>The text after the prefix, if the string has it.\<close>

definition after_prefix :: "string \<Rightarrow> string \<Rightarrow> string option" where
  "after_prefix p s = (if HasPrefix s p then Some (drop (length p) s) else None)"

lemma after_prefix_append [simp]: "after_prefix p (p @ s) = Some s"
  by (simp add: after_prefix_def HasPrefix_def)

lemma after_prefix_iff: "after_prefix p s = Some t \<longleftrightarrow> s = p @ t"
  by (auto simp: after_prefix_def HasPrefix_iff)

definition newline :: char where
  "newline = CHR 0x0A"

definition matchPosition :: "string \<Rightarrow> (string \<times> string) option" where
  "matchPosition s =
     (let ds = takeWhile is_digit s in
      if ds = [] then None
      else (case after_prefix '': '' (dropWhile is_digit s) of
              None \<Rightarrow> None
            | Some msg \<Rightarrow> if newline \<in> set msg then None else Some (ds, msg)))"

definition diagnosticRe :: "string \<Rightarrow> (string \<times> string \<times> string) option" where
  "diagnosticRe line =
     (case after_prefix ''error: line '' line of
        Some r \<Rightarrow> map_option (Pair ''error'') (matchPosition r)
      | None \<Rightarrow>
          (case after_prefix ''warning: line '' line of
             Some r \<Rightarrow> map_option (Pair ''warning'') (matchPosition r)
           | None \<Rightarrow> None))"

text \<open>One iteration of the loop: None where the source continues with the next line.\<close>

definition parseLine :: "string \<Rightarrow> Diagnostic option" where
  "parseLine line =
     (case diagnosticRe (TrimRight_char (CHR 0x0D) line) of
        None \<Rightarrow> None
      | Some (lvl, num, msg) \<Rightarrow>
          (case Atoi num of None \<Rightarrow> None | Some n \<Rightarrow> Some \<lparr>Level = lvl, Line = n, Message = msg\<rparr>))"

definition parseDiagnostics :: "string \<Rightarrow> Diagnostic list" where
  "parseDiagnostics stderr = List.map_filter parseLine (Split newline stderr)"

section \<open>The format fcc writes\<close>

definition renderDiagnostic :: "Diagnostic \<Rightarrow> string" where
  "renderDiagnostic d = Level d @ '': line '' @ itoa_int (Line d) @ '': '' @ Message d"

definition wfDiagnostic :: "Diagnostic \<Rightarrow> bool" where
  "wfDiagnostic d \<longleftrightarrow> (Level d = ''error'' \<or> Level d = ''warning'') \<and> 0 \<le> Line d \<and> Line d < 2 ^ 63 \<and>
     newline \<notin> set (Message d) \<and> (Message d = [] \<or> last (Message d) \<noteq> CHR 0x0D)"

lemma TrimRight_char_id: "s = [] \<or> last s \<noteq> c \<Longrightarrow> TrimRight_char c s = s"
proof (cases s rule: rev_cases)
  case (snoc t x)
  assume "s = [] \<or> last s \<noteq> c"
  with snoc show ?thesis by (simp add: TrimRight_char_def)
qed (simp add: TrimRight_char_def)

lemma TrimRight_char_snoc: "TrimRight_char c (s @ [c]) = TrimRight_char c s"
  by (simp add: TrimRight_char_def)

lemma matchPosition_itoa:
  "newline \<notin> set msg \<Longrightarrow> matchPosition (itoa n @ '': '' @ msg) = Some (itoa n, msg)"
proof -
  have nd: "\<not> is_digit CHR '':''" by (simp add: is_digit_def)
  have t: "takeWhile is_digit (itoa n @ CHR '':'' # x) = itoa n" for x
    using nd by (simp add: takeWhile_append2 itoa_digits)
  have d: "dropWhile is_digit (itoa n @ CHR '':'' # x) = CHR '':'' # x" for x
    using nd by (simp add: dropWhile_append2 itoa_digits)
  assume "newline \<notin> set msg"
  then show ?thesis
    using t [of "CHR '' '' # msg"] d [of "CHR '' '' # msg"] after_prefix_append [of "'': ''" msg]
    by (simp add: matchPosition_def)
qed

lemma ParseInt64_itoa: "n < 2 ^ 63 \<Longrightarrow> ParseInt64 (itoa n) = Some (int n)"
  using ParseInt64_itoa_int [of "int n"] by (simp add: itoa_int_def)

lemma renderDiagnostic_last:
  "wfDiagnostic d \<Longrightarrow> renderDiagnostic d \<noteq> [] \<and> last (renderDiagnostic d) \<noteq> CHR 0x0D"
  by (auto simp: renderDiagnostic_def wfDiagnostic_def last_append)

lemma diagnosticRe_error: "diagnosticRe (''error: line '' @ r) = map_option (Pair ''error'') (matchPosition r)"
  using after_prefix_append [of "''error: line ''" r] by (simp add: diagnosticRe_def del: append.simps)

lemma diagnosticRe_warning: "diagnosticRe (''warning: line '' @ r) = map_option (Pair ''warning'') (matchPosition r)"
  using after_prefix_append [of "''warning: line ''" r]
  by (simp add: diagnosticRe_def) (simp add: after_prefix_def HasPrefix_def)

lemma parseLine_render: "wfDiagnostic d \<Longrightarrow> parseLine (renderDiagnostic d) = Some d"
proof -
  assume wf: "wfDiagnostic d"
  define n where "n = nat (Line d)"
  have n: "Line d = int n" "n < 2 ^ 63" and msg: "newline \<notin> set (Message d)"
    using wf by (auto simp: wfDiagnostic_def n_def)
  have r: "renderDiagnostic d = Level d @ '': line '' @ itoa n @ '': '' @ Message d"
    by (simp add: renderDiagnostic_def n itoa_int_def)
  have "diagnosticRe (renderDiagnostic d) = Some (Level d, itoa n, Message d)"
    using wf diagnosticRe_error [of "itoa n @ '': '' @ Message d"] diagnosticRe_warning [of "itoa n @ '': '' @ Message d"]
      matchPosition_itoa [OF msg, of n]
    unfolding wfDiagnostic_def r by auto
  moreover have "TrimRight_char CHR 0x0D (renderDiagnostic d) = renderDiagnostic d"
    using renderDiagnostic_last [OF wf] by (intro TrimRight_char_id) simp
  ultimately show ?thesis
    using ParseInt64_itoa [OF n(2)] by (simp add: parseLine_def n(1) [symmetric])
qed

lemma parseLine_render_cr: "wfDiagnostic d \<Longrightarrow> parseLine (renderDiagnostic d @ [CHR 0x0D]) = Some d"
  using parseLine_render [of d] by (simp add: parseLine_def TrimRight_char_snoc)

lemma renderDiagnostic_one_line: "wfDiagnostic d \<Longrightarrow> newline \<notin> set (renderDiagnostic d)"
proof -
  assume wf: "wfDiagnostic d"
  have "newline \<notin> set (itoa n)" for n using itoa_digits [of newline n] by (auto simp: is_digit_def newline_def)
  with wf show ?thesis
    by (auto simp: renderDiagnostic_def wfDiagnostic_def itoa_int_def newline_def)
qed

lemma diagnosticRe_sound:
  "diagnosticRe line = Some (lvl, num, msg) \<Longrightarrow>
    (lvl = ''error'' \<or> lvl = ''warning'') \<and> line = lvl @ '': line '' @ num @ '': '' @ msg \<and>
    num \<noteq> [] \<and> list_all is_digit num \<and> newline \<notin> set msg"
proof -
  have mp: "matchPosition r = Some (ds, m) \<Longrightarrow>
    r = ds @ '': '' @ m \<and> ds \<noteq> [] \<and> list_all is_digit ds \<and> newline \<notin> set m" for r ds m
    using takeWhile_dropWhile_id [of is_digit r] set_takeWhileD [of _ is_digit r]
    by (auto simp: matchPosition_def Let_def list_all_iff after_prefix_iff split: if_splits option.splits)
      (metis takeWhile_dropWhile_id)
  assume "diagnosticRe line = Some (lvl, num, msg)"
  then show ?thesis
    by (auto simp: diagnosticRe_def after_prefix_iff split: option.splits dest!: mp)
qed

section \<open>Properties\<close>

text \<open>A line of stderr: a diagnostic in fcc's format, or other output the parser must skip.\<close>

fun showLine :: "Diagnostic + string \<Rightarrow> string" where
  "showLine (Inl d) = renderDiagnostic d"
| "showLine (Inr s) = s"

fun okLine :: "Diagnostic + string \<Rightarrow> bool" where
  "okLine (Inl d) = wfDiagnostic d"
| "okLine (Inr s) = (newline \<notin> set s \<and> parseLine s = None)"

fun lineDiags :: "(Diagnostic + string) list \<Rightarrow> Diagnostic list" where
  "lineDiags [] = []"
| "lineDiags (Inl d # ls) = d # lineDiags ls"
| "lineDiags (Inr s # ls) = lineDiags ls"

lemma okLine_newline: "okLine l \<Longrightarrow> newline \<notin> set (showLine l)"
  by (cases l) (auto dest: renderDiagnostic_one_line)

lemma map_filter_lines: "list_all okLine ls \<Longrightarrow> List.map_filter parseLine (map showLine ls) = lineDiags ls"
  by (induction ls rule: lineDiags.induct) (simp_all add: parseLine_render)

text \<open>
  every diagnostic fcc prints is reported, once, in order and with its own level, line and
  message, whatever unpositioned output is interleaved with it.
\<close>

theorem parseDiagnostics_report:
  assumes "ls \<noteq> []" and "list_all okLine ls"
  shows "parseDiagnostics (Join [newline] (map showLine ls)) = lineDiags ls"
proof -
  have "Split newline (Join [newline] (map showLine ls)) = map showLine ls"
  proof (rule Split_Join)
    show "map showLine ls \<noteq> []" using assms(1) by simp
    show "newline \<notin> set l" if "l \<in> set (map showLine ls)" for l
      using that assms(2) by (auto simp: list_all_iff dest: okLine_newline)
  qed
  with map_filter_lines [OF assms(2)] show ?thesis by (simp add: parseDiagnostics_def)
qed

theorem parseDiagnostics_report_witness:
  "parseDiagnostics (Join [newline] [renderDiagnostic \<lparr>Level = ''warning'', Line = 3, Message = ''unrecognized line''\<rparr>,
      ''compilation completed with 1 diagnostic(s)''])
    = [\<lparr>Level = ''warning'', Line = 3, Message = ''unrecognized line''\<rparr>]"
  using parseDiagnostics_report [of "[Inl \<lparr>Level = ''warning'', Line = 3, Message = ''unrecognized line''\<rparr>,
      Inr ''compilation completed with 1 diagnostic(s)'']"]
  by (simp add: wfDiagnostic_def newline_def parseLine_def diagnosticRe_def after_prefix_def HasPrefix_def
      TrimRight_char_def)

text \<open>
  nothing is invented. Each reported diagnostic is the parse of one line of stderr, which
  consists of that level, the position and that message (and possibly carriage returns).
\<close>

theorem parseDiagnostics_sound:
  assumes "d \<in> set (parseDiagnostics stderr)"
  shows "\<exists>line num cr. line \<in> set (Split newline stderr) \<and> line = Level d @ '': line '' @ num @ '': '' @ Message d @ cr \<and>
    set cr \<subseteq> {CHR 0x0D} \<and> Atoi num = Some (Line d) \<and> list_all is_digit num \<and> 0 \<le> Line d \<and>
    (Level d = ''error'' \<or> Level d = ''warning'')"
proof -
  have trim: "\<exists>cr. s = TrimRight_char c s @ cr \<and> set cr \<subseteq> {c}" for s c
  proof -
    have "s = TrimRight_char c s @ rev (takeWhile (\<lambda>x. x = c) (rev s))"
      by (metis TrimRight_char_def rev_append rev_rev_ident takeWhile_dropWhile_id)
    moreover have "set (rev (takeWhile (\<lambda>x. x = c) (rev s))) \<subseteq> {c}" by (auto dest: set_takeWhileD)
    ultimately show ?thesis by blast
  qed
  obtain line where line: "line \<in> set (Split newline stderr)" "parseLine line = Some d"
    using assms by (auto simp: parseDiagnostics_def map_filter_def)
  then obtain num where num: "diagnosticRe (TrimRight_char CHR 0x0D line) = Some (Level d, num, Message d)"
    "Atoi num = Some (Line d)"
    by (auto simp: parseLine_def split: option.splits)
  from diagnosticRe_sound [OF num(1)] have f:
    "Level d = ''error'' \<or> Level d = ''warning''" "TrimRight_char CHR 0x0D line = Level d @ '': line '' @ num @ '': '' @ Message d"
    "num \<noteq> []" "list_all is_digit num" by blast+
  have "0 \<le> Line d"
    using num(2) f(3,4) by (cases num) (auto simp: ParseInt64_def is_digit_def split: if_splits option.splits)
  with f num(2) line(1) trim [of line "CHR 0x0D"] show ?thesis by auto
qed

theorem parseDiagnostics_sound_witness:
  "\<exists>line num cr. line \<in> set (Split newline ''error: line 2: oops'') \<and>
     line = ''error'' @ '': line '' @ num @ '': '' @ ''oops'' @ cr \<and> Atoi num = Some 2"
proof -
  have "\<lparr>Level = ''error'', Line = 2, Message = ''oops''\<rparr> \<in> set (parseDiagnostics ''error: line 2: oops'')"
    by (simp add: parseDiagnostics_def parseLine_def newline_def diagnosticRe_def after_prefix_def HasPrefix_def
        matchPosition_def is_digit_def TrimRight_char_def ParseInt64_def parse_uint_def digits_val_def digit_val_def)
  from parseDiagnostics_sound [OF this] show ?thesis unfolding Diagnostic.select_convs by blast
qed

end
