(* ===== verification/Schema.thy ===== *)
theory Schema
  imports GoText Schedule "HOL-Library.Char_ord" "HOL-Library.List_Lexorder"
begin

text \<open>
  The PostgreSQL schema of server/internal/db/migrations and the statements the store issues
  against it. A table is the list of its rows in insertion order; an identity column is drawn
  from the table's own sequence, which a failed insert has already advanced (as PostgreSQL's
  does). Foreign keys act as declared: ON DELETE CASCADE, ON DELETE SET NULL, and NO ACTION for
  the references to versions, which fails the statement. Every statement may also fail for a
  reason outside the program (a lost connection, a cancelled context): the list \<open>faults\<close> scripts
  which do, one entry per statement, and a statement past its end succeeds.

  \<open>now_utc()\<close> is the text \<open>clk\<close>, the statement's transaction time. Texts are ordered by their
  bytes (ORDER BY on a text column; no claim depends on the collation), and rows that an ORDER BY
  leaves tied come in insertion order. PostgreSQL's refusal of a text that is not valid UTF-8 or
  has a NUL is one of the scripted faults.
\<close>

section \<open>Rows\<close>

record userRow =
  uId :: int
  uSubject :: string
  uEmail :: string
  uName :: string
  uPicture :: string
  uCreatedAt :: string
  uLastLoginAt :: "string option"

record workspaceRow =
  wId :: int
  wSlug :: string
  wName :: string
  wCreatedAt :: string

record memberRow =
  mWorkspace :: int
  mUser :: int
  mRole :: string

record projectRow =
  pId :: int
  pWorkspace :: int
  pCreatedBy :: "int option"
  pSlug :: string
  pName :: string
  pDescription :: string
  pCreatedAt :: string
  pUpdatedAt :: string

record fileRow =
  fId :: int
  fProject :: int
  fName :: string
  fContent :: string
  fPosition :: int
  fCreatedAt :: string
  fUpdatedAt :: string

record versionRow =
  vId :: int
  vProject :: int
  vNumber :: int
  vLabel :: string
  vCreatedAt :: string

record versionFileRow =
  vfVersion :: int
  vfName :: string
  vfContent :: string

record deploymentRow =
  dId :: int
  dProject :: int
  dFile :: int
  dSlug :: string
  dVersion :: "int option"
  dEnabled :: bool
  dCreatedAt :: string
  dUpdatedAt :: string

record triggerRow =
  tId :: int
  tProject :: int
  tFile :: int
  tVersion :: "int option"
  tScheduleType :: string
  tInterval :: "int option"
  tDailyTime :: "string option"
  tEnabled :: bool
  tNextRunAt :: stamp
  tLastRunAt :: "stamp option"
  tCreatedAt :: string
  tUpdatedAt :: string

record executionRow =
  eId :: int
  eProject :: int
  eFile :: "int option"
  eFileName :: string
  eVersion :: "int option"
  eSource :: string
  eDeployment :: "int option"
  eTrigger :: "int option"
  eActor :: "int option"
  eStartedAt :: stamp
  eFinishedAt :: "stamp option"
  eDurationMs :: "int option"
  eCompileExit :: "int option"
  eCompileStderr :: "string option"
  eRunExit :: "int option"
  eRunStderr :: "string option"
  eTimedOut :: bool
  eTruncated :: bool
  eError :: "string option"

record kvRow =
  kProject :: int
  kKey :: string
  kValue :: string
  kUpdatedAt :: string
  kSourceExecution :: "int option"

record shareRow =
  sProject :: int
  sUser :: int
  sRole :: string
  sGrantedBy :: "int option"

record settingRow =
  stKey :: string
  stValue :: string
  stUpdatedAt :: string
  stUpdatedBy :: "int option"

record appCallRow =
  acId :: int
  acExecution :: int
  acUser :: "int option"
  acApp :: string
  acName :: string
  acStatus :: string
  acRequest :: string
  acResponse :: string
  acDurationMs :: int
  acCreatedAt :: string

record quotaRow =
  qUser :: int
  qApp :: string
  qCallsPerMinute :: "int option"
  qEnabled :: bool

record adminRow =
  aId :: int
  aSubject :: "string option"
  aEmail :: string
  aName :: string
  aPicture :: string
  aCreatedAt :: string
  aLastLoginAt :: "string option"

text \<open>The identity sequences, each holding the last value drawn.\<close>

record sequences =
  seqUser :: int
  seqWorkspace :: int
  seqProject :: int
  seqFile :: int
  seqVersion :: int
  seqDeployment :: int
  seqTrigger :: int
  seqExecution :: int
  seqAppCall :: int
  seqAdmin :: int

record db =
  users :: "userRow list"
  workspaces :: "workspaceRow list"
  members :: "memberRow list"
  projects :: "projectRow list"
  files :: "fileRow list"
  versions :: "versionRow list"
  versionFiles :: "versionFileRow list"
  deployments :: "deploymentRow list"
  triggers :: "triggerRow list"
  executions :: "executionRow list"
  kvs :: "kvRow list"
  shares :: "shareRow list"
  settings :: "settingRow list"
  appCallRows :: "appCallRow list"
  quotas :: "quotaRow list"
  admins :: "adminRow list"
  seqs :: sequences
  clk :: string
  faults :: "goerr option list"

text \<open>What the database holds, the fault script left aside.\<close>

definition tables :: "db \<Rightarrow> db" where
  "tables s = s\<lparr>faults := []\<rparr>"

section \<open>Statements\<close>

type_synonym 'a stm = "(db, 'a result) state"

definition uniqueViolation :: goerr where
  "uniqueViolation = PgError ''23505''"

definition foreignKeyViolation :: goerr where
  "foreignKeyViolation = PgError ''23503''"

text \<open>One statement: the scripted fault, or the effect of \<open>f\<close>.\<close>

definition exec :: "(db \<Rightarrow> 'a result \<times> db) \<Rightarrow> 'a stm" where
  "exec f = State (\<lambda>s.
     case faults s of
       [] \<Rightarrow> f s
     | None # fs \<Rightarrow> f (s\<lparr>faults := fs\<rparr>)
     | Some e # fs \<Rightarrow> (Inl e, s\<lparr>faults := fs\<rparr>))"

text \<open>A statement that only reads.\<close>

definition query :: "(db \<Rightarrow> 'a result) \<Rightarrow> 'a stm" where
  "query f = exec (\<lambda>s. (f s, s))"

text \<open>An update or delete that cannot violate a constraint.\<close>

definition update :: "(db \<Rightarrow> db) \<Rightarrow> unit stm" where
  "update f = exec (\<lambda>s. (Inr (), f s))"

text \<open>A single-row lookup: the first match, or \<open>sql.ErrNoRows\<close>.\<close>

definition row :: "('r \<Rightarrow> bool) \<Rightarrow> 'r list \<Rightarrow> 'r result" where
  "row P xs = (case List.find P xs of None \<Rightarrow> Inl ErrNotFound | Some x \<Rightarrow> Inr x)"

definition wrap :: "string \<Rightarrow> 'a result \<Rightarrow> 'a result" where
  "wrap m r = (case r of Inl e \<Rightarrow> Inl (Wrap m e) | Inr x \<Rightarrow> Inr x)"

text \<open>Sequencing on success, the code's \<open>if err != nil { return ... }\<close>.\<close>

definition andThen :: "'a stm \<Rightarrow> ('a \<Rightarrow> 'b stm) \<Rightarrow> 'b stm" where
  "andThen m k = do { r \<leftarrow> m; case r of Inl e \<Rightarrow> ret (Inl e) | Inr x \<Rightarrow> k x }"

text \<open>The rewriting of an error by \<open>fmt.Errorf\<close>.\<close>

definition orWrap :: "string \<Rightarrow> 'a stm \<Rightarrow> 'a stm" where
  "orWrap msg m = do { r \<leftarrow> m; ret (wrap msg r) }"

text \<open>
  A transaction: \<open>BeginTx\<close>, the statements, \<open>Commit\<close>. Whatever fails, the tables are what they
  were at the beginning; the sequences keep the values drawn.
\<close>

definition transaction :: "'a stm \<Rightarrow> 'a stm" where
  "transaction m = State (\<lambda>s.
     case run_state (orWrap ''begin'' (query (\<lambda>_. Inr ()))) s of
       (Inl e, s0) \<Rightarrow> (Inl e, s0)
     | (Inr _, s0) \<Rightarrow>
         (case run_state (andThen m (\<lambda>x. andThen (orWrap ''commit'' (query (\<lambda>_. Inr ()))) (\<lambda>_. ret (Inr x)))) s0 of
            (Inr x, s1) \<Rightarrow> (Inr x, s1)
          | (Inl e, s1) \<Rightarrow> (Inl e, s0\<lparr>seqs := seqs s1, faults := faults s1\<rparr>)))"

section \<open>Referential actions\<close>

definition clearRef :: "(int \<Rightarrow> bool) \<Rightarrow> int option \<Rightarrow> int option" where
  "clearRef gone r = (case r of Some i \<Rightarrow> if gone i then None else Some i | None \<Rightarrow> None)"

definition dropDeployments :: "(deploymentRow \<Rightarrow> bool) \<Rightarrow> db \<Rightarrow> db" where
  "dropDeployments P s =
     (let gone = (\<lambda>i. \<exists>d \<in> set (deployments s). P d \<and> dId d = i) in
      s\<lparr>deployments := filter (\<lambda>d. \<not> P d) (deployments s),
        executions := map (\<lambda>e. e\<lparr>eDeployment := clearRef gone (eDeployment e)\<rparr>) (executions s)\<rparr>)"

definition dropTriggers :: "(triggerRow \<Rightarrow> bool) \<Rightarrow> db \<Rightarrow> db" where
  "dropTriggers P s =
     (let gone = (\<lambda>i. \<exists>t \<in> set (triggers s). P t \<and> tId t = i) in
      s\<lparr>triggers := filter (\<lambda>t. \<not> P t) (triggers s),
        executions := map (\<lambda>e. e\<lparr>eTrigger := clearRef gone (eTrigger e)\<rparr>) (executions s)\<rparr>)"

definition dropExecutions :: "(executionRow \<Rightarrow> bool) \<Rightarrow> db \<Rightarrow> db" where
  "dropExecutions P s =
     (let gone = (\<lambda>i. \<exists>e \<in> set (executions s). P e \<and> eId e = i) in
      s\<lparr>executions := filter (\<lambda>e. \<not> P e) (executions s),
        appCallRows := filter (\<lambda>c. \<not> gone (acExecution c)) (appCallRows s),
        kvs := map (\<lambda>k. k\<lparr>kSourceExecution := clearRef gone (kSourceExecution k)\<rparr>) (kvs s)\<rparr>)"

definition dropFiles :: "(fileRow \<Rightarrow> bool) \<Rightarrow> db \<Rightarrow> db" where
  "dropFiles P s =
     (let gone = (\<lambda>i. \<exists>f \<in> set (files s). P f \<and> fId f = i);
          s1 = dropTriggers (\<lambda>t. gone (tFile t)) (dropDeployments (\<lambda>d. gone (dFile d)) s) in
      s1\<lparr>files := filter (\<lambda>f. \<not> P f) (files s1),
         executions := map (\<lambda>e. e\<lparr>eFile := clearRef gone (eFile e)\<rparr>) (executions s1)\<rparr>)"

definition dropVersions :: "(versionRow \<Rightarrow> bool) \<Rightarrow> db \<Rightarrow> db" where
  "dropVersions P s =
     (let gone = (\<lambda>i. \<exists>v \<in> set (versions s). P v \<and> vId v = i) in
      s\<lparr>versions := filter (\<lambda>v. \<not> P v) (versions s),
        versionFiles := filter (\<lambda>f. \<not> gone (vfVersion f)) (versionFiles s)\<rparr>)"

definition dropProjects :: "(projectRow \<Rightarrow> bool) \<Rightarrow> db \<Rightarrow> db" where
  "dropProjects P s =
     (let gone = (\<lambda>i. \<exists>p \<in> set (projects s). P p \<and> pId p = i);
          s1 = dropVersions (\<lambda>v. gone (vProject v))
                 (dropExecutions (\<lambda>e. gone (eProject e))
                   (dropTriggers (\<lambda>t. gone (tProject t))
                     (dropDeployments (\<lambda>d. gone (dProject d))
                       (dropFiles (\<lambda>f. gone (fProject f)) s)))) in
      s1\<lparr>projects := filter (\<lambda>p. \<not> P p) (projects s1),
         kvs := filter (\<lambda>k. \<not> gone (kProject k)) (kvs s1),
         shares := filter (\<lambda>h. \<not> gone (sProject h)) (shares s1)\<rparr>)"

definition dropWorkspaces :: "(workspaceRow \<Rightarrow> bool) \<Rightarrow> db \<Rightarrow> db" where
  "dropWorkspaces P s =
     (let gone = (\<lambda>i. \<exists>w \<in> set (workspaces s). P w \<and> wId w = i);
          s1 = dropProjects (\<lambda>p. gone (pWorkspace p)) s in
      s1\<lparr>workspaces := filter (\<lambda>w. \<not> P w) (workspaces s1),
         members := filter (\<lambda>m. \<not> gone (mWorkspace m)) (members s1)\<rparr>)"

text \<open>The NO ACTION references, checked at the end of the statement.\<close>

definition hasVersion :: "db \<Rightarrow> int option \<Rightarrow> bool" where
  "hasVersion s r = (case r of None \<Rightarrow> True | Some i \<Rightarrow> list_ex (\<lambda>v. vId v = i) (versions s))"

definition versionRefsOK :: "db \<Rightarrow> bool" where
  "versionRefsOK s \<longleftrightarrow>
     list_all (\<lambda>d. hasVersion s (dVersion d)) (deployments s) \<and>
     list_all (\<lambda>t. hasVersion s (tVersion t)) (triggers s) \<and>
     list_all (\<lambda>e. hasVersion s (eVersion e)) (executions s)"

text \<open>A delete with its cascades; it is undone when a NO ACTION reference is left dangling.\<close>

definition checkedDelete :: "(db \<Rightarrow> db) \<Rightarrow> unit stm" where
  "checkedDelete f = exec (\<lambda>s. if versionRefsOK (f s) then (Inr (), f s) else (Inl foreignKeyViolation, s))"

text \<open>Whether a row with this id exists, for a foreign key of an insert.\<close>

definition hasId :: "('r \<Rightarrow> int) \<Rightarrow> 'r list \<Rightarrow> int \<Rightarrow> bool" where
  "hasId key xs i = list_ex (\<lambda>x. key x = i) xs"

definition hasRef :: "('r \<Rightarrow> int) \<Rightarrow> 'r list \<Rightarrow> int option \<Rightarrow> bool" where
  "hasRef key xs r = (case r of None \<Rightarrow> True | Some i \<Rightarrow> hasId key xs i)"

text \<open>A value that does not fit an INTEGER column is refused before the statement runs.\<close>

definition int4 :: "int \<Rightarrow> bool" where
  "int4 n \<longleftrightarrow> - (2 ^ 31) \<le> n \<and> n < 2 ^ 31"

definition fits :: "int option \<Rightarrow> bool" where
  "fits n = (case n of None \<Rightarrow> True | Some i \<Rightarrow> int4 i)"

definition outOfRange :: goerr where
  "outOfRange = Msg ''value does not fit the column''"

text \<open>Row updates, and the ORDER BY ... DESC of a list of rows.\<close>

definition alter :: "('r \<Rightarrow> bool) \<Rightarrow> ('r \<Rightarrow> 'r) \<Rightarrow> 'r list \<Rightarrow> 'r list" where
  "alter P f xs = map (\<lambda>x. if P x then f x else x) xs"

definition sort_desc :: "('r \<Rightarrow> 'k::linorder) \<Rightarrow> 'r list \<Rightarrow> 'r list" where
  "sort_desc key xs = rev (sort_key key (rev xs))"

text \<open>The rows a LEFT JOIN pairs a row with.\<close>

definition leftJoin :: "'r list \<Rightarrow> 'r option list" where
  "leftJoin xs = (if xs = [] then [None] else map Some xs)"

text \<open>\<open>isUniqueViolation\<close> of store.go.\<close>

definition isUniqueViolation :: "goerr \<Rightarrow> bool" where
  "isUniqueViolation e \<longleftrightarrow> errors_As_pg e = Some ''23505''"

text \<open>
  The retry loops of the store: at most \<open>n\<close> attempts of an insert, a unique violation starting the
  next one, any other error ending the loop with the message \<open>m\<close>.
\<close>

fun retryUnique :: "nat \<Rightarrow> nat \<Rightarrow> (nat \<Rightarrow> 'a stm) \<Rightarrow> string \<Rightarrow> goerr \<Rightarrow> 'a stm" where
  "retryUnique 0 attempt ins m giveUp = ret (Inl giveUp)"
| "retryUnique (Suc n) attempt ins m giveUp = do {
     r \<leftarrow> ins attempt;
     case r of
       Inr x \<Rightarrow> ret (Inr x)
     | Inl e \<Rightarrow> if isUniqueViolation e then retryUnique n (attempt + 1) ins m giveUp
               else ret (Inl (Wrap m e))
   }"

section \<open>Constraints\<close>

text \<open>
  The constraints the statements of the store rely on: primary keys drawn from a sequence, unique
  constraints, the foreign key of the version snapshots, and the range of the interval column. The
  other ones the schema declares (foreign keys, the unique indexes of the administrators, the checks of the
  roles, the ranges of the integer columns) are \<open>refdb\<close> and \<open>checkdb\<close> of theory References.
\<close>

definition keyed :: "('r \<Rightarrow> int) \<Rightarrow> int \<Rightarrow> 'r list \<Rightarrow> bool" where
  "keyed key hi xs \<longleftrightarrow> distinct (map key xs) \<and> (\<forall>x \<in> set xs. key x \<le> hi)"

definition uniq :: "('r \<Rightarrow> 'k) \<Rightarrow> 'r list \<Rightarrow> bool" where
  "uniq key xs \<longleftrightarrow> distinct (map key xs)"

definition wfdb :: "db \<Rightarrow> bool" where
  "wfdb s \<longleftrightarrow>
     keyed uId (seqUser (seqs s)) (users s) \<and> uniq uSubject (users s) \<and>
     keyed wId (seqWorkspace (seqs s)) (workspaces s) \<and> uniq wSlug (workspaces s) \<and>
     uniq (\<lambda>m. (mWorkspace m, mUser m)) (members s) \<and>
     keyed pId (seqProject (seqs s)) (projects s) \<and> uniq (\<lambda>p. (pWorkspace p, pSlug p)) (projects s) \<and>
     keyed fId (seqFile (seqs s)) (files s) \<and> uniq (\<lambda>f. (fProject f, fName f)) (files s) \<and>
     keyed vId (seqVersion (seqs s)) (versions s) \<and> uniq (\<lambda>v. (vProject v, vNumber v)) (versions s) \<and>
     keyed dId (seqDeployment (seqs s)) (deployments s) \<and> uniq dSlug (deployments s) \<and>
     keyed tId (seqTrigger (seqs s)) (triggers s) \<and>
     keyed eId (seqExecution (seqs s)) (executions s) \<and>
     uniq (\<lambda>k. (kProject k, kKey k)) (kvs s) \<and>
     uniq (\<lambda>h. (sProject h, sUser h)) (shares s) \<and>
     uniq stKey (settings s) \<and>
     keyed acId (seqAppCall (seqs s)) (appCallRows s) \<and>
     uniq (\<lambda>q. (qUser q, qApp q)) (quotas s) \<and>
     keyed aId (seqAdmin (seqs s)) (admins s) \<and>
     list_all (\<lambda>f. hasId vId (versions s) (vfVersion f)) (versionFiles s) \<and>
     list_all (\<lambda>t. fits (tInterval t)) (triggers s)"

named_theorems row_simps \<open>how row operations act on keys and constraints\<close>

lemma keyed_filter [row_simps]: "keyed key hi xs \<Longrightarrow> keyed key hi (filter P xs)"
  by (auto simp: keyed_def distinct_map_filter)

lemma uniq_filter [row_simps]: "uniq key xs \<Longrightarrow> uniq key (filter P xs)"
  by (simp add: uniq_def distinct_map_filter)

lemma map_alter: "(\<And>x. P x \<Longrightarrow> key (f x) = key x) \<Longrightarrow> map key (alter P f xs) = map key xs"
  by (auto simp: alter_def)

lemma uniq_alter [row_simps]: "(\<And>x. P x \<Longrightarrow> key (f x) = key x) \<Longrightarrow> uniq key (alter P f xs) = uniq key xs"
  by (simp only: uniq_def map_alter)

lemma keyed_map: "(\<And>x. key (f x) = key x) \<Longrightarrow> keyed key hi (map f xs) = keyed key hi xs"
  by (simp add: keyed_def comp_def)

lemma uniq_map: "(\<And>x. key (f x) = key x) \<Longrightarrow> uniq key (map f xs) = uniq key xs"
  by (simp add: uniq_def comp_def)

lemma keyed_alter [row_simps]: "(\<And>x. P x \<Longrightarrow> key (f x) = key x) \<Longrightarrow> keyed key hi (alter P f xs) = keyed key hi xs"
  unfolding alter_def by (rule keyed_map) simp

lemma keyed_snoc [row_simps]: "keyed key hi xs \<Longrightarrow> key x = hi + 1 \<Longrightarrow> keyed key (hi + 1) (xs @ [x])"
  by (force simp: keyed_def)

lemma keyed_later [row_simps]: "keyed key hi xs \<Longrightarrow> keyed key (hi + 1) xs"
  by (force simp: keyed_def)

lemma uniq_snoc [row_simps]: "uniq key xs \<Longrightarrow> \<not> list_ex (\<lambda>y. key y = key x) xs \<Longrightarrow> uniq key (xs @ [x])"
  by (auto simp: uniq_def list_ex_iff)

lemma hasId_snoc [row_simps]: "hasId key (xs @ [x]) i = (hasId key xs i \<or> key x = i)"
  by (simp add: hasId_def)

lemma fits_alter [row_simps]:
  "(\<And>t. tInterval (f t) = tInterval t) \<Longrightarrow> list_all (\<lambda>t. fits (tInterval t)) (alter P f xs) = list_all (\<lambda>t. fits (tInterval t)) xs"
  by (induction xs) (simp_all add: alter_def)

lemma fits_filter [row_simps]: "list_all Q xs \<Longrightarrow> list_all Q (filter P xs)"
  by (auto simp: list_all_iff)

lemma refs_snoc [row_simps]: "list_all (\<lambda>f. hasId key xs (g f)) fs \<Longrightarrow> list_all (\<lambda>f. hasId key xs (g f) \<or> b f) fs"
  by (auto simp: list_all_iff)

lemma refs_filter [row_simps]:
  "list_all (\<lambda>f. hasId key xs (g f)) fs \<Longrightarrow>
    list_all (\<lambda>f. hasId key (filter (\<lambda>x. \<not> P x) xs) (g f)) (filter (\<lambda>f. \<not> (\<exists>x \<in> set xs. P x \<and> key x = g f)) fs)"
  by (fastforce simp: list_all_iff hasId_def list_ex_iff)

lemma uniqD: "uniq key xs \<Longrightarrow> x \<in> set xs \<Longrightarrow> y \<in> set xs \<Longrightarrow> key x = key y \<Longrightarrow> x = y"
  by (auto simp: uniq_def distinct_map inj_on_def)

lemma keyed_uniq: "keyed key hi xs \<Longrightarrow> uniq key xs"
  by (simp add: keyed_def uniq_def)

lemma find_key: "uniq key xs \<Longrightarrow> x \<in> set xs \<Longrightarrow> List.find (\<lambda>y. key y = key x) xs = Some x"
  by (rule find_unique) (auto dest: uniqD)

lemma wfdb_keys:
  assumes "wfdb s"
  shows "uniq uId (users s)" "uniq uSubject (users s)" "uniq wId (workspaces s)" "uniq pId (projects s)"
    "uniq fId (files s)" "uniq (\<lambda>f. (fProject f, fName f)) (files s)" "uniq vId (versions s)" "uniq dId (deployments s)"
    "uniq tId (triggers s)" "uniq eId (executions s)" "uniq (\<lambda>k. (kProject k, kKey k)) (kvs s)" "uniq aId (admins s)"
  using assms unfolding wfdb_def by (blast intro: keyed_uniq)+

lemma set_alter: "set (alter P f xs) = {x \<in> set xs. \<not> P x} \<union> f ` {x \<in> set xs. P x}"
  by (auto simp: alter_def image_iff)

lemma set_sort_desc [simp]: "set (sort_desc key xs) = set xs"
  by (simp add: sort_desc_def)

lemma wfdb_faults [simp]: "wfdb (s\<lparr>faults := fs\<rparr>) = wfdb s"
  by (simp add: wfdb_def)

section \<open>Frame rules\<close>

text \<open>An observation of the database that does not look at the fault script.\<close>

definition ignores_faults :: "(db \<Rightarrow> 'b) \<Rightarrow> bool" where
  "ignores_faults f \<longleftrightarrow> (\<forall>s fs. f (s\<lparr>faults := fs\<rparr>) = f s)"

named_theorems observers \<open>observations that do not look at the fault script\<close>

lemma ignores_wfdb: "ignores_faults wfdb"
  by (simp add: ignores_faults_def)

lemma ignores_tables [observers]: "ignores_faults tables"
  by (simp add: ignores_faults_def tables_def)

lemma run_exec:
  "run_state (exec f) s =
    (case faults s of [] \<Rightarrow> f s | None # fs \<Rightarrow> f (s\<lparr>faults := fs\<rparr>) | Some e # fs \<Rightarrow> (Inl e, s\<lparr>faults := fs\<rparr>))"
  by (simp add: exec_def)

lemma keeps_exec:
  "ignores_faults g \<Longrightarrow> (\<And>s. g (snd (f s)) = g s) \<Longrightarrow> keeps g (exec f)"
  by (simp add: keeps_def run_exec ignores_faults_def split: list.split option.split)

lemma keeps_query [keeps_intros]: "ignores_faults g \<Longrightarrow> keeps g (query f)"
  unfolding query_def by (rule keeps_exec) simp_all

lemma keeps_update: "ignores_faults g \<Longrightarrow> (\<And>s. g (f s) = g s) \<Longrightarrow> keeps g (update f)"
  unfolding update_def by (rule keeps_exec) simp_all

lemma keeps_checkedDelete: "ignores_faults g \<Longrightarrow> (\<And>s. g (f s) = g s) \<Longrightarrow> keeps g (checkedDelete f)"
  unfolding checkedDelete_def by (rule keeps_exec) simp_all

lemma keeps_andThen [keeps_intros]: "keeps g m \<Longrightarrow> (\<And>x. keeps g (k x)) \<Longrightarrow> keeps g (andThen m k)"
  unfolding andThen_def by (intro keeps_bind keeps_case_sum keeps_return)

lemma keeps_orWrap [keeps_intros]: "keeps g m \<Longrightarrow> keeps g (orWrap msg m)"
  unfolding orWrap_def by (intro keeps_bind keeps_return)

lemma preserves_exec:
  "ignores_faults P \<Longrightarrow> (\<And>s. P s \<Longrightarrow> P (snd (f s))) \<Longrightarrow> preserves P (exec f)"
  by (simp add: preserves_def run_exec ignores_faults_def split: list.split option.split)

lemma preserves_query [inv_intros]: "ignores_faults P \<Longrightarrow> preserves P (query f)"
  unfolding query_def by (rule preserves_exec) simp_all

lemma preserves_update: "ignores_faults P \<Longrightarrow> (\<And>s. P s \<Longrightarrow> P (f s)) \<Longrightarrow> preserves P (update f)"
  unfolding update_def by (rule preserves_exec) simp_all

lemma preserves_checkedDelete: "ignores_faults P \<Longrightarrow> (\<And>s. P s \<Longrightarrow> P (f s)) \<Longrightarrow> preserves P (checkedDelete f)"
  unfolding checkedDelete_def by (rule preserves_exec) simp_all

lemma preserves_andThen [inv_intros]: "preserves P m \<Longrightarrow> (\<And>x. preserves P (k x)) \<Longrightarrow> preserves P (andThen m k)"
  unfolding andThen_def by (intro preserves_bind preserves_case_sum preserves_return)

lemma preserves_orWrap [inv_intros]: "preserves P m \<Longrightarrow> preserves P (orWrap msg m)"
  unfolding orWrap_def by (intro preserves_bind preserves_return)

section \<open>Runs without faults\<close>

lemma exec_clean: "faults s = [] \<Longrightarrow> run_state (exec f) s = f s"
  by (simp add: run_exec)

lemma query_clean: "faults s = [] \<Longrightarrow> run_state (query f) s = (f s, s)"
  by (simp add: query_def exec_clean)

lemma update_clean: "faults s = [] \<Longrightarrow> run_state (update f) s = (Inr (), f s)"
  by (simp add: update_def exec_clean)

lemma run_andThen:
  "run_state (andThen m k) s = (case run_state m s of (Inl e, s') \<Rightarrow> (Inl e, s') | (Inr x, s') \<Rightarrow> run_state (k x) s')"
  by (simp add: andThen_def split: prod.split sum.split)

lemma run_orWrap: "run_state (orWrap msg m) s = (case run_state m s of (r, s') \<Rightarrow> (wrap msg r, s'))"
  by (simp add: orWrap_def split: prod.split)

lemmas clean_runs = exec_clean query_clean update_clean run_andThen run_orWrap

lemma keeps_retryUnique [keeps_intros]: "(\<And>k. keeps g (ins k)) \<Longrightarrow> keeps g (retryUnique n a ins m e)"
  by (induction n arbitrary: a) (auto intro!: keeps_intros)

lemma preserves_retryUnique [inv_intros]: "(\<And>k. preserves P (ins k)) \<Longrightarrow> preserves P (retryUnique n a ins m e)"
  by (induction n arbitrary: a) (auto intro!: inv_intros)

lemma wf_query [inv_intros]: "preserves wfdb (query f)"
  by (rule preserves_query [OF ignores_wfdb])

lemma wf_update: "(\<And>s. wfdb s \<Longrightarrow> wfdb (f s)) \<Longrightarrow> preserves wfdb (update f)"
  by (rule preserves_update [OF ignores_wfdb])

lemma wf_exec: "(\<And>s. wfdb s \<Longrightarrow> wfdb (snd (f s))) \<Longrightarrow> preserves wfdb (exec f)"
  by (rule preserves_exec [OF ignores_wfdb])

lemma wf_checkedDelete: "(\<And>s. wfdb s \<Longrightarrow> wfdb (f s)) \<Longrightarrow> preserves wfdb (checkedDelete f)"
  by (rule preserves_checkedDelete [OF ignores_wfdb])

lemma wf_dropDeployments: "wfdb s \<Longrightarrow> wfdb (dropDeployments P s)"
  by (simp add: wfdb_def dropDeployments_def Let_def row_simps keyed_map uniq_map)

lemma wf_dropTriggers: "wfdb s \<Longrightarrow> wfdb (dropTriggers P s)"
  by (simp add: wfdb_def dropTriggers_def Let_def row_simps keyed_map uniq_map)

lemma wf_dropExecutions: "wfdb s \<Longrightarrow> wfdb (dropExecutions P s)"
  by (simp add: wfdb_def dropExecutions_def Let_def row_simps keyed_map uniq_map)

lemma wf_dropVersions: "wfdb s \<Longrightarrow> wfdb (dropVersions P s)"
  by (simp add: wfdb_def dropVersions_def Let_def row_simps keyed_map uniq_map refs_filter [simplified])

lemma wf_clearFiles:
  "wfdb s \<Longrightarrow> wfdb (s\<lparr>files := filter P (files s), executions := map (\<lambda>e. e\<lparr>eFile := g e\<rparr>) (executions s)\<rparr>)"
  by (simp add: wfdb_def row_simps keyed_map)

lemma wf_clearProjects:
  "wfdb s \<Longrightarrow> wfdb (s\<lparr>projects := filter P (projects s), kvs := filter Q (kvs s), shares := filter R (shares s)\<rparr>)"
  by (simp add: wfdb_def row_simps)

lemma wf_clearWorkspaces:
  "wfdb s \<Longrightarrow> wfdb (s\<lparr>workspaces := filter P (workspaces s), members := filter Q (members s)\<rparr>)"
  by (simp add: wfdb_def row_simps)

lemma wf_dropFiles: "wfdb s \<Longrightarrow> wfdb (dropFiles P s)"
  unfolding dropFiles_def Let_def by (intro wf_clearFiles wf_dropTriggers wf_dropDeployments)

lemma wf_dropProjects: "wfdb s \<Longrightarrow> wfdb (dropProjects P s)"
  unfolding dropProjects_def Let_def
  by (intro wf_clearProjects wf_dropVersions wf_dropExecutions wf_dropTriggers wf_dropDeployments wf_dropFiles)

lemma wf_dropWorkspaces: "wfdb s \<Longrightarrow> wfdb (dropWorkspaces P s)"
  unfolding dropWorkspaces_def Let_def by (intro wf_clearWorkspaces wf_dropProjects)

lemmas wf_drops = wf_dropDeployments wf_dropTriggers wf_dropExecutions wf_dropVersions wf_dropFiles
  wf_dropProjects wf_dropWorkspaces

section \<open>Transactions\<close>

text \<open>Sequences only move forward.\<close>

definition seq_le :: "sequences \<Rightarrow> sequences \<Rightarrow> bool" where
  "seq_le a b \<longleftrightarrow>
     seqUser a \<le> seqUser b \<and> seqWorkspace a \<le> seqWorkspace b \<and> seqProject a \<le> seqProject b \<and>
     seqFile a \<le> seqFile b \<and> seqVersion a \<le> seqVersion b \<and> seqDeployment a \<le> seqDeployment b \<and>
     seqTrigger a \<le> seqTrigger b \<and> seqExecution a \<le> seqExecution b \<and> seqAppCall a \<le> seqAppCall b \<and>
     seqAdmin a \<le> seqAdmin b"

lemma seq_le_refl [simp]: "seq_le a a"
  by (simp add: seq_le_def)

lemma keyed_mono: "keyed key a xs \<Longrightarrow> a \<le> b \<Longrightarrow> keyed key b xs"
  by (force simp: keyed_def)

lemma wfdb_later: "wfdb s \<Longrightarrow> seq_le (seqs s) q \<Longrightarrow> wfdb (s\<lparr>seqs := q, faults := fs\<rparr>)"
  unfolding wfdb_def seq_le_def by (elim conjE) (simp add: keyed_mono)

lemma ignores_seq_le: "ignores_faults (\<lambda>s. seq_le q (seqs s))"
  by (simp add: ignores_faults_def)

lemma transaction_cases:
  obtains (began) e fs where "run_state (transaction m) s = (Inl e, s\<lparr>faults := fs\<rparr>)"
  | (failed) e fs s1 where "run_state (transaction m) s = (Inl e, s\<lparr>seqs := seqs s1, faults := faults s1\<rparr>)"
      "s1 = snd (run_state (andThen m (\<lambda>x. andThen (orWrap ''commit'' (query (\<lambda>_. Inr ()))) (\<lambda>_. ret (Inr x)))) (s\<lparr>faults := fs\<rparr>))"
  | (ended) fs where "run_state (transaction m) s =
      run_state (andThen m (\<lambda>x. andThen (orWrap ''commit'' (query (\<lambda>_. Inr ()))) (\<lambda>_. ret (Inr x)))) (s\<lparr>faults := fs\<rparr>)"
proof -
  define r where "r = run_state (orWrap ''begin'' (query (\<lambda>_. Inr ()))) s"
  have r: "\<exists>fs. snd r = s\<lparr>faults := fs\<rparr>"
    by (cases "faults s") (auto simp: r_def run_orWrap query_def run_exec split: option.split intro: exI [of _ "faults s"])
  then obtain fs where fs: "snd r = s\<lparr>faults := fs\<rparr>" by blast
  show ?thesis
  proof (cases "fst r")
    case (Inl e)
    then have "run_state (transaction m) s = (Inl e, s\<lparr>faults := fs\<rparr>)"
      using fs by (cases r) (simp add: transaction_def r_def [symmetric])
    then show ?thesis by (rule began)
  next
    case (Inr u)
    define t where "t = run_state (andThen m (\<lambda>x. andThen (orWrap ''commit'' (query (\<lambda>_. Inr ()))) (\<lambda>_. ret (Inr x)))) (s\<lparr>faults := fs\<rparr>)"
    have T: "run_state (transaction m) s = (case t of (Inr x, s1) \<Rightarrow> (Inr x, s1)
        | (Inl e, s1) \<Rightarrow> (Inl e, s\<lparr>seqs := seqs s1, faults := faults s1\<rparr>))"
      using Inr fs by (cases r) (simp add: transaction_def r_def [symmetric] t_def split: prod.split sum.split)
    show ?thesis
    proof (cases "fst t")
      case (Inl e)
      then show ?thesis using T failed [of e "snd t" fs] by (cases t) (simp add: t_def)
    next
      case (Inr x)
      then show ?thesis using T ended [of fs] by (cases t) (simp add: t_def)
    qed
  qed
qed

lemma wf_transaction:
  assumes "preserves wfdb m" and "\<And>q. preserves (\<lambda>s. seq_le q (seqs s)) m"
  shows "preserves wfdb (transaction m)"
proof -
  define m' where "m' = andThen m (\<lambda>x. andThen (orWrap ''commit'' (query (\<lambda>_. Inr ()))) (\<lambda>_. ret (Inr x)))"
  have wf: "preserves wfdb m'" unfolding m'_def by (intro inv_intros assms)
  have le: "preserves (\<lambda>s. seq_le q (seqs s)) m'" for q
    unfolding m'_def by (intro inv_intros assms ignores_seq_le)
  have "wfdb (snd (run_state (transaction m) s))" if s: "wfdb s" for s
  proof (cases rule: transaction_cases [of m s])
    case (began e fs)
    then show ?thesis using s by simp
  next
    case (failed e fs s1)
    have "seq_le (seqs s) (seqs s1)" using preservesD [OF le [of "seqs s"], of "s\<lparr>faults := fs\<rparr>"] failed(2) by (simp add: m'_def)
    with failed(1) wfdb_later [OF s] show ?thesis by simp
  next
    case (ended fs)
    then show ?thesis using preservesD [OF wf, of "s\<lparr>faults := fs\<rparr>"] s by (simp add: m'_def)
  qed
  then show ?thesis by (simp add: preserves_def)
qed

lemma transaction_clean:
  assumes "faults s = []" and "run_state m s = (r, s1)" and "faults s1 = []"
  shows "run_state (transaction m) s = (r, case r of Inl e \<Rightarrow> s\<lparr>seqs := seqs s1\<rparr> | Inr x \<Rightarrow> s1)"
  using assms by (cases r) (simp_all add: transaction_def clean_runs wrap_def)

section \<open>Programs that only read\<close>

text \<open>\<open>reads m\<close>: \<open>m\<close> changes nothing but the fault script, of which it uses up a part.\<close>

named_theorems reads_intros \<open>introduction rules that show a program only reads\<close>

definition reads :: "(db, 'a) state \<Rightarrow> bool" where
  "reads m \<longleftrightarrow> (\<forall>s. \<exists>fs. set fs \<subseteq> set (faults s) \<and> snd (run_state m s) = s\<lparr>faults := fs\<rparr>)"

lemma readsD:
  assumes "reads m" and "run_state m s = (r, s')"
  obtains fs where "set fs \<subseteq> set (faults s)" "s' = s\<lparr>faults := fs\<rparr>"
  using assms unfolding reads_def by (metis snd_conv)

lemma reads_keeps: "reads m \<Longrightarrow> ignores_faults f \<Longrightarrow> keeps f m"
  unfolding keeps_def by (metis ignores_faults_def reads_def)

lemma reads_return [reads_intros]: "reads (ret x)"
  unfolding reads_def by (auto intro: exI [of _ "faults _"])

lemma reads_query [reads_intros]: "reads (query f)"
  unfolding reads_def query_def
  by (auto simp: run_exec split: list.split option.split intro: exI [of _ "[]"])

lemma reads_bind [reads_intros]:
  assumes "reads m" and "\<And>x. reads (k x)"
  shows "reads (State_Monad.bind m k)"
  unfolding reads_def
proof
  fix s
  obtain x s1 where m: "run_state m s = (x, s1)" by (cases "run_state m s")
  obtain fs where fs: "set fs \<subseteq> set (faults s)" "s1 = s\<lparr>faults := fs\<rparr>" by (rule readsD [OF assms(1) m])
  obtain y s2 where n: "run_state (k x) s1 = (y, s2)" by (cases "run_state (k x) s1")
  obtain gs where gs: "set gs \<subseteq> set (faults s1)" "s2 = s1\<lparr>faults := gs\<rparr>" by (rule readsD [OF assms(2) n])
  show "\<exists>fs. set fs \<subseteq> set (faults s) \<and> snd (run_state (State_Monad.bind m k) s) = s\<lparr>faults := fs\<rparr>"
    using fs gs m n by (intro exI [of _ gs]) auto
qed

lemma reads_if [reads_intros]: "(b \<Longrightarrow> reads m) \<Longrightarrow> (\<not> b \<Longrightarrow> reads n) \<Longrightarrow> reads (if b then m else n)"
  by simp

lemma reads_case_sum [reads_intros]:
  "(\<And>e. r = Inl e \<Longrightarrow> reads (m e)) \<Longrightarrow> (\<And>x. r = Inr x \<Longrightarrow> reads (n x)) \<Longrightarrow>
    reads (case r of Inl e \<Rightarrow> m e | Inr x \<Rightarrow> n x)"
  by (cases r) auto

lemma reads_case_option [reads_intros]:
  "(r = None \<Longrightarrow> reads m) \<Longrightarrow> (\<And>x. r = Some x \<Longrightarrow> reads (n x)) \<Longrightarrow>
    reads (case r of None \<Rightarrow> m | Some x \<Rightarrow> n x)"
  by (cases r) auto

lemma reads_case_list [reads_intros]:
  "(r = [] \<Longrightarrow> reads m) \<Longrightarrow> (\<And>x xs. r = x # xs \<Longrightarrow> reads (n x xs)) \<Longrightarrow>
    reads (case r of [] \<Rightarrow> m | x # xs \<Rightarrow> n x xs)"
  by (cases r) auto

lemma reads_case_prod [reads_intros]:
  "(\<And>x y. r = (x, y) \<Longrightarrow> reads (m x y)) \<Longrightarrow> reads (case r of (x, y) \<Rightarrow> m x y)"
  by (cases r) auto

lemma reads_Let [reads_intros]: "reads (m x) \<Longrightarrow> reads (let y = x in m y)"
  by simp

lemma reads_andThen [reads_intros]: "reads m \<Longrightarrow> (\<And>x. reads (k x)) \<Longrightarrow> reads (andThen m k)"
  unfolding andThen_def by (intro reads_intros)

lemma reads_orWrap [reads_intros]: "reads m \<Longrightarrow> reads (orWrap msg m)"
  unfolding orWrap_def by (intro reads_intros)

text \<open>What a successful query tells of the state it ran in.\<close>

lemma query_Inr:
  assumes "run_state (query f) s = (Inr x, s')"
  obtains fs where "f (s\<lparr>faults := fs\<rparr>) = Inr x" "s' = s\<lparr>faults := fs\<rparr>"
proof (cases "faults s")
  case Nil
  then have e: "s\<lparr>faults := []\<rparr> = s" by simp
  have "f s = Inr x \<and> s' = s" using assms Nil by (auto simp: query_def run_exec)
  then show ?thesis by (intro that [of "[]"]) (simp_all only: e)
next
  case (Cons o1 fs)
  show ?thesis
  proof (cases o1)
    case None
    then show ?thesis by (intro that [of fs]) (use assms Cons in \<open>auto simp: query_def run_exec\<close>)
  next
    case (Some e)
    then show ?thesis using assms Cons by (simp add: query_def run_exec)
  qed
qed

section \<open>The empty database\<close>

definition emptyDB :: db where
  "emptyDB = \<lparr>users = [], workspaces = [], members = [], projects = [], files = [], versions = [], versionFiles = [],
     deployments = [], triggers = [], executions = [], kvs = [], shares = [], settings = [], appCallRows = [],
     quotas = [], admins = [],
     seqs = \<lparr>seqUser = 0, seqWorkspace = 0, seqProject = 0, seqFile = 0, seqVersion = 0, seqDeployment = 0,
             seqTrigger = 0, seqExecution = 0, seqAppCall = 0, seqAdmin = 0\<rparr>,
     clk = ''2026-01-01 00:00:00'', faults = []\<rparr>"

lemma wf_emptyDB: "wfdb emptyDB"
  by (simp add: wfdb_def emptyDB_def keyed_def uniq_def)

end
