(* ===== verification/Retry.thy ===== *)
theory Retry
  imports Schema
begin

text \<open>
  The contract of the retry loops (\<open>CreateWorkspace\<close>, \<open>CreateWSProject\<close>, \<open>CreateWSDeployment\<close>):
  an insert that, in a run without outside faults, either reports a unique violation and leaves
  the observed tables alone, or succeeds. \<open>ready\<close> is what the insert relies on and keeps.
\<close>

locale retry_insert =
  fixes ins :: "nat \<Rightarrow> 'a stm"
    and taken :: "'v \<Rightarrow> nat \<Rightarrow> bool"
    and view :: "db \<Rightarrow> 'v"
    and ready :: "db \<Rightarrow> bool"
  assumes conflict: "ready s \<Longrightarrow> taken (view s) a \<Longrightarrow>
      \<exists>s'. run_state (ins a) s = (Inl uniqueViolation, s') \<and> ready s' \<and> view s' = view s"
    and inserted: "ready s \<Longrightarrow> \<not> taken (view s) a \<Longrightarrow> \<exists>x s'. run_state (ins a) s = (Inr x, s') \<and> ready s'"
begin

text \<open>
  Either the first free attempt is the one that inserts, or every attempt is taken and the loop
  gives up without changing what is observed.
\<close>

lemma first_free:
  assumes "ready s"
  shows "(\<exists>k s1. k < n \<and> \<not> taken (view s) (a + k) \<and> (\<forall>j < k. taken (view s) (a + j)) \<and>
            ready s1 \<and> view s1 = view s \<and> run_state (retryUnique n a ins m e) s = run_state (ins (a + k)) s1) \<or>
         ((\<forall>j < n. taken (view s) (a + j)) \<and>
            (\<exists>s1. run_state (retryUnique n a ins m e) s = (Inl e, s1) \<and> view s1 = view s \<and> ready s1))"
  using assms
proof (induction n arbitrary: a s)
  case 0
  then show ?case by simp
next
  case (Suc n)
  show ?case
  proof (cases "taken (view s) a")
    case False
    then obtain x s' where "run_state (ins a) s = (Inr x, s')" using inserted [OF Suc.prems, of a] by blast
    then have "run_state (retryUnique (Suc n) a ins m e) s = run_state (ins (a + 0)) s" by simp
    with False Suc.prems show ?thesis by (intro disjI1 exI [of _ 0] exI [of _ s]) simp
  next
    case True
    then obtain s' where s': "run_state (ins a) s = (Inl uniqueViolation, s')" "ready s'" "view s' = view s"
      using conflict [OF Suc.prems] by blast
    have step: "run_state (retryUnique (Suc n) a ins m e) s = run_state (retryUnique n (a + 1) ins m e) s'"
      using s'(1) by (simp add: isUniqueViolation_def uniqueViolation_def)
    have less: "(\<forall>j < Suc k. taken (view s) (a + j)) \<longleftrightarrow> (\<forall>j < k. taken (view s) (a + 1 + j))" for k
      using True by (auto simp: All_less_Suc2)
    from Suc.IH [OF s'(2), of "a + 1"] show ?thesis
    proof (elim disjE exE conjE)
      fix k s1
      assume "k < n" "\<not> taken (view s') (a + 1 + k)" "\<forall>j<k. taken (view s') (a + 1 + j)"
        "ready s1" "view s1 = view s'" "run_state (retryUnique n (a + 1) ins m e) s' = run_state (ins (a + 1 + k)) s1"
      then show ?thesis
        using s'(3) step less [of k] by (intro disjI1 exI [of _ "Suc k"] exI [of _ s1]) simp
    next
      fix s1
      assume "\<forall>j<n. taken (view s') (a + 1 + j)" "run_state (retryUnique n (a + 1) ins m e) s' = (Inl e, s1)"
        "view s1 = view s'" "ready s1"
      then show ?thesis
        using s'(3) step less [of n] by (intro disjI2) simp
    qed
  qed
qed

end

end
