(* ===== verification/StoreUsers.thy ===== *)
theory StoreUsers
  imports Retry
begin

text \<open>
  Users, workspaces, membership and project sharing: server/internal/store/workspaces.go and
  \<open>Slugify\<close> of projects.go. Workspaces are returned as their rows (the Go struct has exactly
  the columns); the structs that differ from a row have a record here. Every operation is a
  statement, or a sequence of statements, on the database of theory Schema.
\<close>

section \<open>Roles and results\<close>

type_synonym role = string

definition RoleOwner :: role where "RoleOwner = ''owner''"
definition RoleAdmin :: role where "RoleAdmin = ''admin''"
definition RoleMember :: role where "RoleMember = ''member''"
definition RoleEditor :: role where "RoleEditor = ''editor''"
definition RoleViewer :: role where "RoleViewer = ''viewer''"

lemmas role_defs = RoleOwner_def RoleAdmin_def RoleMember_def RoleEditor_def RoleViewer_def

record User =
  userId :: int
  userSubject :: string
  userEmail :: string
  userName :: string
  userPicture :: string
  userCreatedAt :: string
  userLastLoginAt :: string

record WorkspaceMember =
  wmWorkspace :: int
  wmUser :: int
  wmRole :: role
  wmEmail :: string
  wmName :: string
  wmPicture :: string

record ProjectShare =
  psProject :: int
  psUser :: int
  psRole :: role
  psEmail :: string
  psName :: string

record ProjectAccess =
  paId :: int
  paWorkspace :: int
  paSlug :: string
  paName :: string
  paDescription :: string
  paCreatedAt :: string
  paUpdatedAt :: string
  paWorkspaceSlug :: string
  paWorkspaceName :: string
  paRole :: role

section \<open>Slugs\<close>

text \<open>The loop of \<open>Slugify\<close>: the text built so far and whether it ends in a dash.\<close>

fun slugRunes :: "nat list \<Rightarrow> string \<Rightarrow> bool \<Rightarrow> string" where
  "slugRunes [] b lastDash = b"
| "slugRunes (r # rs) b lastDash =
     (if 97 \<le> r \<and> r \<le> 122 \<or> 48 \<le> r \<and> r \<le> 57 then slugRunes rs (b @ encode_rune r) False
      else if \<not> lastDash \<and> 0 < length b then slugRunes rs (b @ ''-'') True
      else slugRunes rs b lastDash)"

definition Slugify :: "unicode \<Rightarrow> string \<Rightarrow> string" where
  "Slugify U name = Trim_char CHR ''-'' (slugRunes (runes (ToLower U (TrimSpace name))) [] False)"

definition slugBase :: "unicode \<Rightarrow> string \<Rightarrow> string \<Rightarrow> string" where
  "slugBase U dflt name = (let base = Slugify U name in if base = [] then dflt else base)"

definition attemptSlug :: "string \<Rightarrow> nat \<Rightarrow> string" where
  "attemptSlug base attempt = (if 0 < attempt then base @ ''-'' @ itoa (attempt + 1) else base)"

section \<open>Users\<close>

definition scanUser :: "userRow \<Rightarrow> User" where
  "scanUser u = \<lparr>userId = uId u, userSubject = uSubject u, userEmail = uEmail u, userName = uName u,
     userPicture = uPicture u, userCreatedAt = uCreatedAt u,
     userLastLoginAt = (case uLastLoginAt u of None \<Rightarrow> [] | Some t \<Rightarrow> t)\<rparr>"

definition ListUsers :: "User list stm" where
  "ListUsers = orWrap ''list users'' (query (\<lambda>s. Inr (map scanUser (sort_key uCreatedAt (users s)))))"

definition GetUserBySubject :: "string \<Rightarrow> User stm" where
  "GetUserBySubject subject = query (\<lambda>s. map_sum id scanUser (row (\<lambda>u. uSubject u = subject) (users s)))"

definition GetUser :: "int \<Rightarrow> User stm" where
  "GetUser i = query (\<lambda>s. map_sum id scanUser (row (\<lambda>u. uId u = i) (users s)))"

text \<open>The INSERT draws an id before the conflict is seen.\<close>

definition upsertUser :: "string \<Rightarrow> string \<Rightarrow> string \<Rightarrow> string \<Rightarrow> unit stm" where
  "upsertUser subject email name picture = update (\<lambda>s.
     let i = seqUser (seqs s) + 1;
         same = (\<lambda>u. uSubject u = subject);
         s1 = s\<lparr>seqs := seqs s\<lparr>seqUser := i\<rparr>\<rparr>
     in if list_ex same (users s)
        then s1\<lparr>users := alter same
               (\<lambda>u. u\<lparr>uEmail := (if email \<noteq> [] then email else uEmail u),
                     uName := (if name \<noteq> [] then name else uName u),
                     uPicture := (if picture \<noteq> [] then picture else uPicture u),
                     uLastLoginAt := Some (clk s)\<rparr>) (users s)\<rparr>
        else s1\<lparr>users := users s @
               [\<lparr>uId = i, uSubject = subject, uEmail = email, uName = name, uPicture = picture,
                 uCreatedAt = clk s, uLastLoginAt = Some (clk s)\<rparr>]\<rparr>)"

definition UpsertUserBySubject :: "string \<Rightarrow> string \<Rightarrow> string \<Rightarrow> string \<Rightarrow> User stm" where
  "UpsertUserBySubject subject email name picture =
     (if subject = [] then ret (Inl (Msg ''user subject must not be empty''))
      else andThen (orWrap ''upsert user'' (upsertUser subject email name picture))
             (\<lambda>_. GetUserBySubject subject))"

text \<open>\<open>lower\<close> is PostgreSQL's function of that name (its result depends on the collation).\<close>

definition FindUserByEmailExact :: "(string \<Rightarrow> string) \<Rightarrow> string \<Rightarrow> User stm" where
  "FindUserByEmailExact lower email =
     query (\<lambda>s. map_sum id scanUser (row (\<lambda>u. lower (uEmail u) = lower email \<and> uEmail u \<noteq> []) (users s)))"

section \<open>Workspaces\<close>

definition insertWorkspace :: "string \<Rightarrow> string \<Rightarrow> int stm" where
  "insertWorkspace slug name = exec (\<lambda>s.
     let i = seqWorkspace (seqs s) + 1;
         s1 = s\<lparr>seqs := seqs s\<lparr>seqWorkspace := i\<rparr>\<rparr>
     in if list_ex (\<lambda>w. wSlug w = slug) (workspaces s) then (Inl uniqueViolation, s1)
        else (Inr i, s1\<lparr>workspaces := workspaces s @ [\<lparr>wId = i, wSlug = slug, wName = name, wCreatedAt = clk s\<rparr>]\<rparr>))"

definition GetWorkspace :: "int \<Rightarrow> workspaceRow stm" where
  "GetWorkspace i = query (\<lambda>s. row (\<lambda>w. wId w = i) (workspaces s))"

definition GetWorkspaceBySlug :: "string \<Rightarrow> workspaceRow stm" where
  "GetWorkspaceBySlug slug = query (\<lambda>s. row (\<lambda>w. wSlug w = slug) (workspaces s))"

definition CreateWorkspace :: "unicode \<Rightarrow> string \<Rightarrow> workspaceRow stm" where
  "CreateWorkspace U name =
     (let base = slugBase U ''workspace'' name
      in andThen (retryUnique 100 0 (\<lambda>attempt. insertWorkspace (attemptSlug base attempt) name)
                   ''insert workspace'' (Fmt ''could not find a unique slug for %q'' [name]))
           GetWorkspace)"

definition ListWorkspacesForUser :: "int \<Rightarrow> workspaceRow list stm" where
  "ListWorkspacesForUser uid = orWrap ''list workspaces'' (query (\<lambda>s.
     Inr (sort_key wName
       (concat (map (\<lambda>w. map (\<lambda>m. w) (filter (\<lambda>m. mWorkspace m = wId w \<and> mUser m = uid) (members s))) (workspaces s))))))"

definition DeleteWorkspace :: "int \<Rightarrow> unit stm" where
  "DeleteWorkspace i = orWrap ''delete workspace'' (checkedDelete (dropWorkspaces (\<lambda>w. wId w = i)))"

section \<open>Members\<close>

definition validWorkspaceRole :: "role \<Rightarrow> bool" where
  "validWorkspaceRole r \<longleftrightarrow> r = RoleOwner \<or> r = RoleAdmin \<or> r = RoleMember"

definition upsertMember :: "int \<Rightarrow> int \<Rightarrow> role \<Rightarrow> unit stm" where
  "upsertMember wid uid r = exec (\<lambda>s.
     let same = (\<lambda>m. mWorkspace m = wid \<and> mUser m = uid) in
     if list_ex same (members s)
     then (Inr (), s\<lparr>members := alter same (\<lambda>m. m\<lparr>mRole := r\<rparr>) (members s)\<rparr>)
     else if hasId wId (workspaces s) wid \<and> hasId uId (users s) uid
     then (Inr (), s\<lparr>members := members s @ [\<lparr>mWorkspace = wid, mUser = uid, mRole = r\<rparr>]\<rparr>)
     else (Inl foreignKeyViolation, s))"

definition AddWorkspaceMember :: "int \<Rightarrow> int \<Rightarrow> role \<Rightarrow> unit stm" where
  "AddWorkspaceMember wid uid r =
     (if \<not> validWorkspaceRole r then ret (Inl (Fmt ''invalid workspace role %q'' [r]))
      else orWrap ''add workspace member'' (upsertMember wid uid r))"

definition RemoveWorkspaceMember :: "int \<Rightarrow> int \<Rightarrow> unit stm" where
  "RemoveWorkspaceMember wid uid =
     update (\<lambda>s. s\<lparr>members := filter (\<lambda>m. \<not> (mWorkspace m = wid \<and> mUser m = uid)) (members s)\<rparr>)"

definition GetWorkspaceRole :: "int \<Rightarrow> int \<Rightarrow> role stm" where
  "GetWorkspaceRole wid uid =
     query (\<lambda>s. map_sum id mRole (row (\<lambda>m. mWorkspace m = wid \<and> mUser m = uid) (members s)))"

definition CountWorkspaceOwners :: "int \<Rightarrow> int stm" where
  "CountWorkspaceOwners wid =
     query (\<lambda>s. Inr (int (length (filter (\<lambda>m. mWorkspace m = wid \<and> mRole m = ''owner'') (members s)))))"

definition memberOrder :: "WorkspaceMember \<Rightarrow> nat" where
  "memberOrder m = (if wmRole m = ''owner'' then 0 else if wmRole m = ''admin'' then 1 else 2)"

definition ListWorkspaceMembers :: "int \<Rightarrow> WorkspaceMember list stm" where
  "ListWorkspaceMembers wid = orWrap ''list members'' (query (\<lambda>s.
     Inr (sort_key memberOrder (sort_key wmName
       (concat (map (\<lambda>m. map (\<lambda>u. \<lparr>wmWorkspace = mWorkspace m, wmUser = mUser m, wmRole = mRole m,
                                     wmEmail = uEmail u, wmName = uName u, wmPicture = uPicture u\<rparr>)
                           (filter (\<lambda>u. uId u = mUser m) (users s)))
                 (filter (\<lambda>m. mWorkspace m = wid) (members s))))))))"

section \<open>Project sharing\<close>

definition upsertShare :: "int \<Rightarrow> int \<Rightarrow> role \<Rightarrow> int \<Rightarrow> unit stm" where
  "upsertShare pid uid r grantedBy = exec (\<lambda>s.
     let same = (\<lambda>h. sProject h = pid \<and> sUser h = uid) in
     if \<not> hasId uId (users s) grantedBy then (Inl foreignKeyViolation, s)
     else if list_ex same (shares s)
     then (Inr (), s\<lparr>shares := alter same (\<lambda>h. h\<lparr>sRole := r, sGrantedBy := Some grantedBy\<rparr>) (shares s)\<rparr>)
     else if hasId pId (projects s) pid \<and> hasId uId (users s) uid
     then (Inr (), s\<lparr>shares := shares s @ [\<lparr>sProject = pid, sUser = uid, sRole = r, sGrantedBy = Some grantedBy\<rparr>]\<rparr>)
     else (Inl foreignKeyViolation, s))"

definition UpsertProjectShare :: "int \<Rightarrow> int \<Rightarrow> role \<Rightarrow> int \<Rightarrow> unit stm" where
  "UpsertProjectShare pid uid r grantedBy =
     (if r \<noteq> RoleOwner \<and> r \<noteq> RoleEditor \<and> r \<noteq> RoleViewer then ret (Inl (Fmt ''invalid project share role %q'' [r]))
      else orWrap ''upsert project share'' (upsertShare pid uid r grantedBy))"

definition DeleteProjectShare :: "int \<Rightarrow> int \<Rightarrow> unit stm" where
  "DeleteProjectShare pid uid =
     update (\<lambda>s. s\<lparr>shares := filter (\<lambda>h. \<not> (sProject h = pid \<and> sUser h = uid)) (shares s)\<rparr>)"

definition ListProjectShares :: "int \<Rightarrow> ProjectShare list stm" where
  "ListProjectShares pid = orWrap ''list shares'' (query (\<lambda>s.
     Inr (sort_key psName
       (concat (map (\<lambda>h. map (\<lambda>u. \<lparr>psProject = sProject h, psUser = sUser h, psRole = sRole h,
                                     psEmail = uEmail u, psName = uName u\<rparr>)
                           (filter (\<lambda>u. uId u = sUser h) (users s)))
                 (filter (\<lambda>h. sProject h = pid) (shares s)))))))"

section \<open>The access decision\<close>

definition shareOrDefault :: "int \<Rightarrow> int \<Rightarrow> role \<Rightarrow> role stm" where
  "shareOrDefault pid uid wsRole = do {
     r \<leftarrow> query (\<lambda>s. map_sum id sRole (row (\<lambda>h. sProject h = pid \<and> sUser h = uid) (shares s)));
     case r of
       Inr shareRole \<Rightarrow> ret (Inr shareRole)
     | Inl e \<Rightarrow>
         if e \<noteq> ErrNotFound then ret (Inl (Wrap ''project share'' e))
         else if wsRole = RoleOwner \<or> wsRole = RoleAdmin then ret (Inr RoleOwner)
         else ret (Inr RoleEditor)
   }"

definition EffectiveProjectRole :: "int \<Rightarrow> int \<Rightarrow> role stm" where
  "EffectiveProjectRole pid uid =
     andThen (query (\<lambda>s. map_sum id pWorkspace (row (\<lambda>p. pId p = pid) (projects s)))) (\<lambda>wsID. do {
       r \<leftarrow> query (\<lambda>s. map_sum id mRole (row (\<lambda>m. mWorkspace m = wsID \<and> mUser m = uid) (members s)));
       case r of
         Inl e \<Rightarrow> if e = ErrNotFound then ret (Inr []) else ret (Inl (Wrap ''workspace role'' e))
       | Inr wsRole \<Rightarrow> shareOrDefault pid uid wsRole
     })"

definition accessOf :: "projectRow \<Rightarrow> workspaceRow \<Rightarrow> memberRow \<Rightarrow> shareRow option \<Rightarrow> ProjectAccess" where
  "accessOf p w m h =
     \<lparr>paId = pId p, paWorkspace = pWorkspace p, paSlug = pSlug p, paName = pName p, paDescription = pDescription p,
      paCreatedAt = pCreatedAt p, paUpdatedAt = pUpdatedAt p, paWorkspaceSlug = wSlug w, paWorkspaceName = wName w,
      paRole = (case h of Some x \<Rightarrow> sRole x
                | None \<Rightarrow> if mRole m = ''owner'' then ''owner'' else if mRole m = ''admin'' then ''owner'' else ''editor'')\<rparr>"

definition projectsFor :: "int \<Rightarrow> db \<Rightarrow> ProjectAccess list" where
  "projectsFor uid s =
     concat (map (\<lambda>p. concat (map (\<lambda>w. concat (map (\<lambda>m. map (accessOf p w m)
          (leftJoin (filter (\<lambda>h. sProject h = pId p \<and> sUser h = uid) (shares s))))
        (filter (\<lambda>m. mWorkspace m = pWorkspace p \<and> mUser m = uid) (members s))))
      (filter (\<lambda>w. wId w = pWorkspace p) (workspaces s))))
    (projects s))"

definition ListProjectsForUser :: "int \<Rightarrow> ProjectAccess list stm" where
  "ListProjectsForUser uid =
     orWrap ''list projects for user'' (query (\<lambda>s. Inr (sort_desc paUpdatedAt (projectsFor uid s))))"

section \<open>The constraints are kept\<close>

lemma wf_upsertUser: "preserves wfdb (upsertUser subject email name picture)"
  unfolding upsertUser_def by (rule wf_update) (simp add: wfdb_def Let_def row_simps)

lemma wf_insertWorkspace: "preserves wfdb (insertWorkspace slug name)"
  unfolding insertWorkspace_def by (rule wf_exec) (simp add: wfdb_def Let_def row_simps)

lemma wf_upsertMember: "preserves wfdb (upsertMember wid uid r)"
  unfolding upsertMember_def by (rule wf_exec) (simp add: wfdb_def Let_def row_simps)

lemma wf_RemoveWorkspaceMember [inv_intros]: "preserves wfdb (RemoveWorkspaceMember wid uid)"
  unfolding RemoveWorkspaceMember_def by (rule wf_update) (simp add: wfdb_def row_simps)

lemma wf_upsertShare: "preserves wfdb (upsertShare pid uid r g)"
  unfolding upsertShare_def by (rule wf_exec) (simp add: wfdb_def Let_def row_simps)

lemma wf_DeleteProjectShare [inv_intros]: "preserves wfdb (DeleteProjectShare pid uid)"
  unfolding DeleteProjectShare_def by (rule wf_update) (simp add: wfdb_def row_simps)

lemma wf_UpsertUserBySubject [inv_intros]: "preserves wfdb (UpsertUserBySubject subject email name picture)"
  unfolding UpsertUserBySubject_def GetUserBySubject_def by (intro inv_intros wf_upsertUser)

lemma wf_CreateWorkspace [inv_intros]: "preserves wfdb (CreateWorkspace U name)"
  unfolding CreateWorkspace_def Let_def GetWorkspace_def by (intro inv_intros wf_insertWorkspace)

lemma wf_DeleteWorkspace [inv_intros]: "preserves wfdb (DeleteWorkspace i)"
  unfolding DeleteWorkspace_def by (intro inv_intros wf_checkedDelete wf_dropWorkspaces)

lemma wf_AddWorkspaceMember [inv_intros]: "preserves wfdb (AddWorkspaceMember wid uid r)"
  unfolding AddWorkspaceMember_def by (intro inv_intros wf_upsertMember)

lemma wf_UpsertProjectShare [inv_intros]: "preserves wfdb (UpsertProjectShare pid uid r g)"
  unfolding UpsertProjectShare_def by (intro inv_intros wf_upsertShare)

section \<open>Lookups change nothing\<close>

lemmas userReads = ListUsers_def GetUserBySubject_def GetUser_def FindUserByEmailExact_def GetWorkspace_def
  GetWorkspaceBySlug_def ListWorkspacesForUser_def GetWorkspaceRole_def CountWorkspaceOwners_def
  ListWorkspaceMembers_def ListProjectShares_def shareOrDefault_def EffectiveProjectRole_def ListProjectsForUser_def

lemma userReads_keep [keeps_intros]:
  assumes "ignores_faults f"
  shows "keeps f ListUsers" "keeps f (GetUserBySubject sub)" "keeps f (GetUser i)" "keeps f (FindUserByEmailExact lower email)"
    "keeps f (GetWorkspace i)" "keeps f (GetWorkspaceBySlug slug)" "keeps f (ListWorkspacesForUser i)"
    "keeps f (GetWorkspaceRole i j)" "keeps f (CountWorkspaceOwners i)" "keeps f (ListWorkspaceMembers i)"
    "keeps f (ListProjectShares i)" "keeps f (shareOrDefault i j r)" "keeps f (EffectiveProjectRole i j)"
    "keeps f (ListProjectsForUser i)"
  unfolding userReads by (intro keeps_intros assms)+

lemma userReads_wf [inv_intros]:
  shows "preserves wfdb ListUsers" "preserves wfdb (GetUserBySubject sub)" "preserves wfdb (GetUser i)"
    "preserves wfdb (FindUserByEmailExact lower email)"
    "preserves wfdb (GetWorkspace i)" "preserves wfdb (GetWorkspaceBySlug slug)" "preserves wfdb (ListWorkspacesForUser i)"
    "preserves wfdb (GetWorkspaceRole i j)" "preserves wfdb (CountWorkspaceOwners i)" "preserves wfdb (ListWorkspaceMembers i)"
    "preserves wfdb (ListProjectShares i)" "preserves wfdb (shareOrDefault i j r)" "preserves wfdb (EffectiveProjectRole i j)"
    "preserves wfdb (ListProjectsForUser i)"
  unfolding userReads by (intro inv_intros)+

lemma userReads_reads [reads_intros]:
  shows "reads ListUsers" "reads (GetUserBySubject sub)" "reads (GetUser i)" "reads (FindUserByEmailExact lower email)"
    "reads (GetWorkspace i)" "reads (GetWorkspaceBySlug slug)" "reads (ListWorkspacesForUser i)"
    "reads (GetWorkspaceRole i j)" "reads (CountWorkspaceOwners i)" "reads (ListWorkspaceMembers i)"
    "reads (ListProjectShares i)" "reads (shareOrDefault i j r)" "reads (EffectiveProjectRole i j)"
    "reads (ListProjectsForUser i)"
  unfolding userReads by (intro reads_intros)+

section \<open>Slugs: shape and fixed points\<close>

definition slug_char :: "char \<Rightarrow> bool" where
  "slug_char c \<longleftrightarrow> 97 \<le> byte c \<and> byte c \<le> 122 \<or> 48 \<le> byte c \<and> byte c \<le> 57"

definition dashed :: "string \<Rightarrow> bool" where
  "dashed t \<longleftrightarrow>
     list_all (\<lambda>c. slug_char c \<or> c = CHR ''-'') t \<and>
     successively (\<lambda>a b. \<not> (a = CHR ''-'' \<and> b = CHR ''-'')) t \<and>
     (t \<noteq> [] \<longrightarrow> hd t \<noteq> CHR ''-'')"

definition is_slug :: "string \<Rightarrow> bool" where
  "is_slug t \<longleftrightarrow> dashed t \<and> (t \<noteq> [] \<longrightarrow> last t \<noteq> CHR ''-'')"

lemma dash_not_slug_char [simp]: "\<not> slug_char CHR ''-''"
  by (simp add: slug_char_def)

lemma dashed_snoc:
  "dashed (t @ [c]) \<longleftrightarrow> dashed t \<and> (slug_char c \<or> c = CHR ''-'' \<and> t \<noteq> [] \<and> last t \<noteq> CHR ''-'')"
  by (cases "t = []") (auto simp: dashed_def successively_append_iff)

lemma encode_slug_rune: "r < 128 \<Longrightarrow> encode_rune r = [char_of r]"
  by (simp add: encode_rune_def)

lemma slugRunes_dashed:
  "dashed b \<Longrightarrow> lastDash = (b \<noteq> [] \<and> last b = CHR ''-'') \<Longrightarrow> dashed (slugRunes rs b lastDash)"
proof (induction rs b lastDash rule: slugRunes.induct)
  case (2 r rs b lastDash)
  show ?case
  proof (cases "97 \<le> r \<and> r \<le> 122 \<or> 48 \<le> r \<and> r \<le> 57")
    case True
    then have e: "encode_rune r = [char_of r]" and b: "byte (char_of r :: char) = r"
      by (auto simp: encode_slug_rune)
    then have c: "slug_char (char_of r)" using True by (simp add: slug_char_def)
    have "dashed (slugRunes rs (b @ encode_rune r) False)"
      using True c "2.prems" by (intro "2.IH"(1)) (auto simp: e dashed_snoc)
    with True show ?thesis by simp
  next
    case False
    then show ?thesis using "2.IH"(2,3) "2.prems" by (auto simp: dashed_snoc)
  qed
qed simp

lemma is_slug_Trim: "dashed b \<Longrightarrow> is_slug (Trim_char CHR ''-'' b)"
proof (cases b rule: rev_cases)
  case Nil
  then show ?thesis by (simp add: is_slug_def dashed_def Trim_char_def TrimRight_char_def)
next
  case (snoc t c)
  assume d: "dashed b"
  then have "dropWhile (\<lambda>x. x = CHR ''-'') b = b"
    by (cases b) (auto simp: dashed_def)
  then have tr: "Trim_char CHR ''-'' b = rev (dropWhile (\<lambda>x. x = CHR ''-'') (rev b))"
    by (simp add: Trim_char_def TrimRight_char_def)
  show ?thesis
  proof (cases "c = CHR ''-''")
    case False
    then show ?thesis unfolding tr using d snoc by (simp add: is_slug_def)
  next
    case True
    with d snoc have t: "dashed t" "t \<noteq> []" "last t \<noteq> CHR ''-''" by (auto simp: dashed_snoc)
    then have "dropWhile (\<lambda>x. x = CHR ''-'') (rev t) = rev t"
      by (cases t rule: rev_cases) auto
    then show ?thesis unfolding tr using t True snoc by (simp add: is_slug_def)
  qed
qed

lemma decode_rune_ascii: "byte c < 128 \<Longrightarrow> decode_rune (c # s) = (byte c, 1)"
  by (simp add: decode_rune.simps Let_def)

lemma rune_chunks_ascii: "list_all (\<lambda>c. byte c < 128) t \<Longrightarrow> rune_chunks t = map (\<lambda>c. (byte c, [c])) t"
proof (induction t)
  case (Cons c t)
  then show ?case by (subst rune_chunks.simps) (simp add: decode_rune_ascii del: decode_rune.simps)
qed simp

lemma dashed_ascii: "dashed t \<Longrightarrow> list_all (\<lambda>c. byte c < 128) t"
  by (auto simp: dashed_def list_all_iff slug_char_def)

lemma runes_dashed: "dashed t \<Longrightarrow> runes t = map byte t"
  by (simp add: runes_def rune_chunks_ascii dashed_ascii)

lemma ToLower_dashed: "dashed t \<Longrightarrow> ToLower U t = t"
proof -
  assume d: "dashed t"
  have "encode_rune (lower_rune U (byte c)) = [c]" if c: "c \<in> set t" for c
  proof -
    have b: "byte c < 128" "\<not> (65 \<le> byte c \<and> byte c \<le> 90)"
      using d c by (auto simp: dashed_def list_all_iff slug_char_def)
    then have "lower_rune U (byte c) = byte c" by (simp add: lower_rune_def)
    with b show ?thesis by (simp add: encode_slug_rune)
  qed
  then have m: "map (\<lambda>c. encode_rune (lower_rune U (byte c))) t = map (\<lambda>c. [c]) t" by simp
  show ?thesis by (simp only: ToLower_def runes_dashed [OF d] map_map comp_def m) simp
qed

lemma dropWhile_space_slug:
  "list_all (\<lambda>c. slug_char c \<or> c = CHR ''-'') t \<Longrightarrow>
    dropWhile (\<lambda>(r, _). IsSpace r) (map (\<lambda>c. (byte c, [c])) t) = map (\<lambda>c. (byte c, [c])) t"
  by (cases t) (auto simp: IsSpace_def slug_char_def)

lemma TrimSpace_dashed: "dashed t \<Longrightarrow> TrimSpace t = t"
proof -
  assume d: "dashed t"
  then have a: "list_all (\<lambda>c. slug_char c \<or> c = CHR ''-'') t" "list_all (\<lambda>c. slug_char c \<or> c = CHR ''-'') (rev t)"
    by (simp_all add: dashed_def)
  show ?thesis
    unfolding TrimSpace_def rune_chunks_ascii [OF dashed_ascii [OF d]] dropWhile_space_slug [OF a(1)]
    using dropWhile_space_slug [OF a(2)] by (simp add: rev_map comp_def)
qed

lemma dashed_prefix: "dashed (xs @ ys) \<Longrightarrow> dashed xs"
  by (cases "xs = []") (auto simp: dashed_def successively_append_iff hd_append)

lemma slugRunes_slug:
  "dashed (b @ t) \<Longrightarrow> lastDash = (b \<noteq> [] \<and> last b = CHR ''-'') \<Longrightarrow> slugRunes (map byte t) b lastDash = b @ t"
proof (induction t arbitrary: b lastDash)
  case (Cons c t)
  have d: "dashed ((b @ [c]) @ t)" using Cons.prems(1) by simp
  have bc: "dashed (b @ [c])" by (rule dashed_prefix [OF d])
  show ?case
  proof (cases "slug_char c")
    case True
    then have "c \<noteq> CHR ''-''" by auto
    moreover have "byte c < 128" using True by (auto simp: slug_char_def)
    then have "encode_rune (byte c) = [c]" by (simp add: encode_slug_rune)
    ultimately show ?thesis using True Cons.IH [OF d, of False] by (simp add: slug_char_def)
  next
    case False
    with bc have c: "c = CHR ''-''" "b \<noteq> []" "last b \<noteq> CHR ''-''" by (simp_all add: dashed_snoc)
    then show ?thesis using Cons.prems(2) Cons.IH [OF d, of True] by simp
  qed
qed simp

lemma Slugify_fixed: "is_slug t \<Longrightarrow> Slugify U t = t"
proof -
  assume "is_slug t"
  then have d: "dashed t" and l: "t \<noteq> [] \<longrightarrow> last t \<noteq> CHR ''-''" by (simp_all add: is_slug_def)
  have "slugRunes (map byte t) [] False = t" using slugRunes_slug [of "[]" t False] d by simp
  moreover have "dropWhile (\<lambda>x. x = CHR ''-'') t = t" using d by (cases t) (auto simp: dashed_def)
  moreover have "rev (dropWhile (\<lambda>x. x = CHR ''-'') (rev t)) = t" using l by (cases t rule: rev_cases) auto
  ultimately show "Slugify U t = t"
    by (simp add: Slugify_def TrimSpace_dashed [OF d] ToLower_dashed [OF d] runes_dashed [OF d] Trim_char_def TrimRight_char_def)
qed

lemma Slugify_is_slug: "is_slug (Slugify U name)"
  unfolding Slugify_def by (rule is_slug_Trim, rule slugRunes_dashed) (simp_all add: dashed_def)

text \<open>
  \<open>Slugify\<close> always yields a slug (lower-case letters, digits and single inner dashes) or the
  empty text, and it leaves every slug as it is, so slugging twice changes nothing.
\<close>

theorem Slugify_slug: "is_slug (Slugify U name) \<and> (is_slug t \<longrightarrow> Slugify U t = t)"
  by (simp add: Slugify_is_slug Slugify_fixed)

theorem Slugify_slug_witness:
  "is_slug ''my-api-2'' \<and> Slugify \<lparr>lowerTab = id, upperTab = id, printTab = (\<lambda>_. True)\<rparr> ''my-api-2'' = ''my-api-2''"
proof -
  have "is_slug ''my-api-2''" by (simp add: is_slug_def dashed_def slug_char_def)
  with Slugify_slug show ?thesis by blast
qed

section \<open>Creating a workspace\<close>

definition ready :: "db \<Rightarrow> bool" where
  "ready s \<longleftrightarrow> wfdb s \<and> faults s = []"

lemma insertWorkspace_taken:
  assumes "ready s" and "list_ex (\<lambda>w. wSlug w = slug) (workspaces s)"
  shows "\<exists>s'. run_state (insertWorkspace slug name) s = (Inl uniqueViolation, s') \<and> ready s' \<and> workspaces s' = workspaces s"
  using assms preservesD [OF wf_insertWorkspace, of s slug name]
  by (auto simp: ready_def insertWorkspace_def exec_clean Let_def)

lemma insertWorkspace_free:
  assumes "ready s" and "\<not> list_ex (\<lambda>w. wSlug w = slug) (workspaces s)"
  shows "\<exists>w s'. run_state (insertWorkspace slug name) s = (Inr (wId w), s') \<and> ready s' \<and>
    wSlug w = slug \<and> wName w = name \<and> workspaces s' = workspaces s @ [w]"
  using assms preservesD [OF wf_insertWorkspace, of s slug name]
  by (auto simp: ready_def insertWorkspace_def exec_clean Let_def)

lemma GetWorkspace_last:
  assumes "ready s" and "workspaces s = ws @ [w]"
  shows "run_state (GetWorkspace (wId w)) s = (Inr w, s)"
proof -
  have "List.find (\<lambda>y. wId y = wId w) (workspaces s) = Some w"
    using assms by (intro find_key) (auto simp: ready_def wfdb_def keyed_uniq)
  with assms show ?thesis by (simp add: GetWorkspace_def query_clean ready_def row_def)
qed

interpretation workspace_slugs: retry_insert
  "\<lambda>a. insertWorkspace (attemptSlug base a) name" "\<lambda>ws a. list_ex (\<lambda>w. wSlug w = attemptSlug base a) ws" workspaces ready
  for base name
  by unfold_locales (use insertWorkspace_taken insertWorkspace_free in blast)+

definition workspaceSlugUsed :: "unicode \<Rightarrow> string \<Rightarrow> db \<Rightarrow> nat \<Rightarrow> bool" where
  "workspaceSlugUsed U name s a =
     list_ex (\<lambda>w. wSlug w = attemptSlug (slugBase U ''workspace'' name) a) (workspaces s)"

text \<open>
  \<open>CreateWorkspace\<close> without outside faults. The new workspace gets the first of the 100
  candidate slugs (the slug of the name, then with suffixes -2, -3, ...) that is not in use; no
  other workspace changes. Only if all of them are in use does it fail, changing no workspace.
\<close>

theorem CreateWorkspace_slug:
  assumes "ready s"
  shows "(\<exists>k w s'. k < 100 \<and> \<not> workspaceSlugUsed U name s k \<and> (\<forall>j < k. workspaceSlugUsed U name s j) \<and>
            run_state (CreateWorkspace U name) s = (Inr w, s') \<and> wName w = name \<and>
            wSlug w = attemptSlug (slugBase U ''workspace'' name) k \<and> workspaces s' = workspaces s @ [w] \<and> ready s') \<or>
         ((\<forall>j < 100. workspaceSlugUsed U name s j) \<and> (\<exists>s'. run_state (CreateWorkspace U name) s =
            (Inl (Fmt ''could not find a unique slug for %q'' [name]), s') \<and> workspaces s' = workspaces s))"
proof -
  define base where "base = slugBase U ''workspace'' name"
  note C = CreateWorkspace_def Let_def base_def [symmetric] run_andThen
  note used = workspaceSlugUsed_def base_def [symmetric]
  from workspace_slugs.first_free [OF assms(1), where n = 100 and a = 0 and base = base and name = name
      and m = "''insert workspace''" and e = "Fmt ''could not find a unique slug for %q'' [name]"]
  show ?thesis
  proof (elim disjE exE conjE)
    fix k s1
    assume k: "k < 100" "\<not> list_ex (\<lambda>w. wSlug w = attemptSlug base (0 + k)) (workspaces s)"
      "\<forall>j<k. list_ex (\<lambda>w. wSlug w = attemptSlug base (0 + j)) (workspaces s)"
      and s1: "ready s1" "workspaces s1 = workspaces s"
      and r: "run_state (retryUnique 100 0 (\<lambda>a. insertWorkspace (attemptSlug base a) name) ''insert workspace''
          (Fmt ''could not find a unique slug for %q'' [name])) s =
        run_state (insertWorkspace (attemptSlug base (0 + k)) name) s1"
    obtain w s' where i: "run_state (insertWorkspace (attemptSlug base k) name) s1 = (Inr (wId w), s')" "ready s'"
      "wSlug w = attemptSlug base k" "wName w = name" "workspaces s' = workspaces s @ [w]"
      using insertWorkspace_free [OF s1(1), of "attemptSlug base k" name] k(2) s1(2) by auto
    have "run_state (CreateWorkspace U name) s = (Inr w, s')"
      using r i(1) GetWorkspace_last [OF i(2,5)] by (simp add: C)
    with k i show ?thesis by (intro disjI1 exI [of _ k] exI [of _ w] exI [of _ s']) (simp add: used)
  next
    fix s1
    assume "\<forall>j<100. list_ex (\<lambda>w. wSlug w = attemptSlug base (0 + j)) (workspaces s)"
      and "run_state (retryUnique 100 0 (\<lambda>a. insertWorkspace (attemptSlug base a) name) ''insert workspace''
            (Fmt ''could not find a unique slug for %q'' [name])) s =
          (Inl (Fmt ''could not find a unique slug for %q'' [name]), s1)"
      and "workspaces s1 = workspaces s"
    then show ?thesis by (intro disjI2) (simp add: C used)
  qed
qed

theorem CreateWorkspace_slug_witness:
  "\<exists>w s'. run_state (CreateWorkspace \<lparr>lowerTab = id, upperTab = id, printTab = (\<lambda>_. True)\<rparr> ''demo'') emptyDB = (Inr w, s') \<and>
     wSlug w = ''demo''"
proof -
  define U where "U = \<lparr>lowerTab = id, upperTab = id, printTab = (\<lambda>_. True)\<rparr>"
  have "is_slug ''demo''" by (simp add: is_slug_def dashed_def slug_char_def)
  then have b: "slugBase U ''workspace'' ''demo'' = ''demo''" by (simp add: slugBase_def Slugify_fixed)
  have u: "\<not> workspaceSlugUsed U ''demo'' emptyDB a" for a by (simp add: workspaceSlugUsed_def emptyDB_def)
  have "ready emptyDB" by (simp add: ready_def wf_emptyDB) (simp add: emptyDB_def)
  from CreateWorkspace_slug [OF this, of U "''demo''"]
  obtain k w s' where "\<forall>j<k. workspaceSlugUsed U ''demo'' emptyDB j" "run_state (CreateWorkspace U ''demo'') emptyDB = (Inr w, s')"
    "wSlug w = attemptSlug ''demo'' k"
    using u [of 0] unfolding b by (elim disjE exE conjE) auto
  moreover from this(1) have "k = 0" using u by (cases k) auto
  ultimately show ?thesis unfolding U_def by (auto simp: attemptSlug_def)
qed

section \<open>The access decision: specification\<close>

text \<open>
  The documented rule: no access outside the project's workspace; inside it an explicit share
  wins, owners and admins of the workspace count as owners, other members as editors. None means
  that the project does not exist.
\<close>

definition roleIn :: "db \<Rightarrow> int \<Rightarrow> int \<Rightarrow> role option" where
  "roleIn s pid uid =
     (case List.find (\<lambda>p. pId p = pid) (projects s) of
        None \<Rightarrow> None
      | Some p \<Rightarrow>
          (case List.find (\<lambda>m. mWorkspace m = pWorkspace p \<and> mUser m = uid) (members s) of
             None \<Rightarrow> Some []
           | Some m \<Rightarrow>
               (case List.find (\<lambda>h. sProject h = pid \<and> sUser h = uid) (shares s) of
                  Some h \<Rightarrow> Some (sRole h)
                | None \<Rightarrow> Some (if mRole m = RoleOwner \<or> mRole m = RoleAdmin then RoleOwner else RoleEditor))))"

text \<open>A fault script in which no fault looks like an empty result.\<close>

definition realFaults :: "db \<Rightarrow> bool" where
  "realFaults s \<longleftrightarrow> Some ErrNotFound \<notin> set (faults s)"

lemma roleIn_faults [simp]: "roleIn (s\<lparr>faults := fs\<rparr>) pid uid = roleIn s pid uid"
  by (simp add: roleIn_def cong: option.case_cong)

lemma query_cases:
  assumes "realFaults s"
  obtains (fault) e fs where "e \<noteq> ErrNotFound" "set fs \<subseteq> set (faults s)" "run_state (query f) s = (Inl e, s\<lparr>faults := fs\<rparr>)"
  | (ok) fs where "set fs \<subseteq> set (faults s)"
      "run_state (query f) s = (f (s\<lparr>faults := fs\<rparr>), s\<lparr>faults := fs\<rparr>)"
proof (cases "faults s")
  case Nil
  then have e: "s\<lparr>faults := []\<rparr> = s" by simp
  show ?thesis by (rule ok [of "[]"]) (simp_all add: Nil e query_def run_exec)
next
  case (Cons o1 fs)
  show ?thesis
  proof (cases o1)
    case None
    with Cons show ?thesis using ok [of fs] by (simp add: query_def run_exec) blast
  next
    case (Some e)
    with Cons assms show ?thesis using fault [of e fs] by (simp add: query_def run_exec realFaults_def) blast
  qed
qed

lemma realFaults_rest: "realFaults s \<Longrightarrow> set fs \<subseteq> set (faults s) \<Longrightarrow> realFaults (s\<lparr>faults := fs\<rparr>)"
  by (auto simp: realFaults_def)

lemma shareOrDefault_sound:
  assumes "realFaults s" and "fst (run_state (shareOrDefault pid uid w) s) = Inr r"
  shows "r = (case List.find (\<lambda>h. sProject h = pid \<and> sUser h = uid) (shares s) of
                  Some h \<Rightarrow> sRole h
                | None \<Rightarrow> (if w = RoleOwner \<or> w = RoleAdmin then RoleOwner else RoleEditor))"
proof -
  have q: "shareOrDefault pid uid w = do {
      r \<leftarrow> query (\<lambda>s. map_sum id sRole (row (\<lambda>h. sProject h = pid \<and> sUser h = uid) (shares s)));
      case r of
       Inr shareRole \<Rightarrow> ret (Inr shareRole)
     | Inl e \<Rightarrow>
         if e \<noteq> ErrNotFound then ret (Inl (Wrap ''project share'' e))
         else if w = RoleOwner \<or> w = RoleAdmin then ret (Inr RoleOwner)
         else ret (Inr RoleEditor) }"
    by (simp add: shareOrDefault_def)
  from assms(1) show ?thesis
  proof (cases rule: query_cases [where f = "\<lambda>s. map_sum id sRole (row (\<lambda>h. sProject h = pid \<and> sUser h = uid) (shares s))"])
    case (fault e fs)
    then show ?thesis using assms(2) by (simp add: q)
  next
    case (ok fs)
    then show ?thesis using assms(2) by (auto simp: q row_def split: option.splits if_splits)
  qed
qed

lemma EffectiveProjectRole_clean:
  assumes "faults s = []"
  shows "run_state (EffectiveProjectRole pid uid) s =
    (case roleIn s pid uid of None \<Rightarrow> Inl ErrNotFound | Some r \<Rightarrow> Inr r, s)"
  using assms
  by (simp add: EffectiveProjectRole_def shareOrDefault_def roleIn_def clean_runs row_def split: option.split)

lemma EffectiveProjectRole_granted:
  assumes "realFaults s" and "fst (run_state (EffectiveProjectRole pid uid) s) = Inr r"
  shows "roleIn s pid uid = Some r"
proof -
  define f1 where "f1 = (\<lambda>s :: db. map_sum id pWorkspace (row (\<lambda>p. pId p = pid) (projects s)))"
  define f2 where "f2 = (\<lambda>wsID (s :: db). map_sum id mRole (row (\<lambda>m. mWorkspace m = wsID \<and> mUser m = uid) (members s)))"
  have "EffectiveProjectRole pid uid = andThen (query f1) (\<lambda>wsID. do {
      r \<leftarrow> query (f2 wsID);
      case r of
        Inl e \<Rightarrow> if e = ErrNotFound then ret (Inr []) else ret (Inl (Wrap ''workspace role'' e))
      | Inr wsRole \<Rightarrow> shareOrDefault pid uid wsRole })"
    by (simp add: EffectiveProjectRole_def f1_def f2_def)
  note E = this run_andThen
  from assms(1) show ?thesis
  proof (cases rule: query_cases [where f = f1])
    case (fault e fs)
    then show ?thesis using assms(2) by (simp add: E)
  next
    case (ok fs)
    define s1 where "s1 = s\<lparr>faults := fs\<rparr>"
    have s1: "realFaults s1" using realFaults_rest [OF assms(1) ok(1)] by (simp add: s1_def)
    show ?thesis
    proof (cases "List.find (\<lambda>p. pId p = pid) (projects s)")
      case None
      then show ?thesis using assms(2) ok by (simp add: E f1_def row_def)
    next
      case (Some p)
      then have f1: "f1 s1 = Inr (pWorkspace p)" by (simp add: f1_def row_def s1_def)
      from s1 show ?thesis
      proof (cases rule: query_cases [where f = "f2 (pWorkspace p)"])
        case (fault e fs)
        then show ?thesis using assms(2) ok f1 by (simp add: E s1_def [symmetric])
      next
        case ok2: (ok fs2)
        have s2: "realFaults (s1\<lparr>faults := fs2\<rparr>)" by (rule realFaults_rest [OF s1 ok2(1)])
        show ?thesis
        proof (cases "List.find (\<lambda>m. mWorkspace m = pWorkspace p \<and> mUser m = uid) (members s)")
          case None
          then have "f2 (pWorkspace p) (s1\<lparr>faults := fs2\<rparr>) = Inl ErrNotFound" by (simp add: f2_def row_def s1_def)
          then show ?thesis using assms(2) ok ok2 f1 Some None by (simp add: E s1_def [symmetric] roleIn_def)
        next
          case m: (Some m)
          then have "f2 (pWorkspace p) (s1\<lparr>faults := fs2\<rparr>) = Inr (mRole m)" by (simp add: f2_def row_def s1_def)
          then have "fst (run_state (shareOrDefault pid uid (mRole m)) (s1\<lparr>faults := fs2\<rparr>)) = Inr r"
            using assms(2) ok ok2 f1 by (simp add: E s1_def [symmetric])
          from shareOrDefault_sound [OF s2 this] m Some show ?thesis
            by (simp add: roleIn_def s1_def split: option.splits)
        qed
      qed
    qed
  qed
qed

text \<open>
  C10: the access decision. Whatever statements fail, \<open>EffectiveProjectRole\<close> changes no table, and
  a role it returns is the documented one (so a failure never grants more); without failures it
  returns that role, or not-found for a project that does not exist.
\<close>

theorem EffectiveProjectRole_decides:
  assumes "realFaults s"
  shows "tables (snd (run_state (EffectiveProjectRole pid uid) s)) = tables s \<and>
    (fst (run_state (EffectiveProjectRole pid uid) s) = Inr r \<longrightarrow> roleIn s pid uid = Some r) \<and>
    (faults s = [] \<longrightarrow> fst (run_state (EffectiveProjectRole pid uid) s) =
       (case roleIn s pid uid of None \<Rightarrow> Inl ErrNotFound | Some r \<Rightarrow> Inr r))"
  using EffectiveProjectRole_granted [OF assms, of pid uid r] EffectiveProjectRole_clean [of s pid uid]
    keepsD [OF userReads_keep(13) [OF ignores_tables]] by simp

text \<open>A workspace with one member who has only a viewer share on the one project.\<close>

definition sharedDB :: db where
  "sharedDB = emptyDB\<lparr>
     users := [\<lparr>uId = 1, uSubject = ''s1'', uEmail = ''a@x'', uName = ''A'', uPicture = [], uCreatedAt = [], uLastLoginAt = None\<rparr>,
               \<lparr>uId = 2, uSubject = ''s2'', uEmail = ''b@x'', uName = ''B'', uPicture = [], uCreatedAt = [], uLastLoginAt = None\<rparr>],
     workspaces := [\<lparr>wId = 1, wSlug = ''w'', wName = ''W'', wCreatedAt = []\<rparr>],
     members := [\<lparr>mWorkspace = 1, mUser = 1, mRole = RoleOwner\<rparr>, \<lparr>mWorkspace = 1, mUser = 2, mRole = RoleMember\<rparr>],
     projects := [\<lparr>pId = 1, pWorkspace = 1, pCreatedBy = Some 1, pSlug = ''p'', pName = ''P'', pDescription = [],
                   pCreatedAt = [], pUpdatedAt = []\<rparr>],
     shares := [\<lparr>sProject = 1, sUser = 2, sRole = RoleViewer, sGrantedBy = Some 1\<rparr>],
     seqs := \<lparr>seqUser = 2, seqWorkspace = 1, seqProject = 1, seqFile = 0, seqVersion = 0, seqDeployment = 0,
              seqTrigger = 0, seqExecution = 0, seqAppCall = 0, seqAdmin = 0\<rparr>\<rparr>"

lemma ready_sharedDB: "ready sharedDB"
  by (simp add: ready_def wfdb_def sharedDB_def emptyDB_def keyed_def uniq_def)

theorem EffectiveProjectRole_decides_witness:
  "fst (run_state (EffectiveProjectRole 1 2) sharedDB) = Inr RoleViewer"
proof -
  have r: "roleIn sharedDB 1 2 = Some RoleViewer" by (simp add: roleIn_def sharedDB_def)
  have f: "faults sharedDB = []" by (simp add: sharedDB_def emptyDB_def)
  then have "realFaults sharedDB" by (simp add: realFaults_def)
  from EffectiveProjectRole_decides [OF this, of 1 2] r f show ?thesis by simp
qed

lemma wf_finds:
  assumes "wfdb s"
  shows "p \<in> set (projects s) \<Longrightarrow> List.find (\<lambda>q. pId q = pId p) (projects s) = Some p"
    and "m \<in> set (members s) \<Longrightarrow> List.find (\<lambda>m'. mWorkspace m' = mWorkspace m \<and> mUser m' = mUser m) (members s) = Some m"
    and "h \<in> set (shares s) \<Longrightarrow> List.find (\<lambda>h'. sProject h' = sProject h \<and> sUser h' = sUser h) (shares s) = Some h"
  using find_key [of pId "projects s" p] find_key [of "\<lambda>m. (mWorkspace m, mUser m)" "members s" m]
    find_key [of "\<lambda>m. (sProject m, sUser m)" "shares s" h] wfdb_keys(4) [OF assms] assms
  by (simp_all add: wfdb_def)

lemma projectsFor_sound:
  assumes wf: "wfdb s" and check: "\<And>h. h \<in> set (shares s) \<Longrightarrow> sRole h \<noteq> []"
    and pa: "pa \<in> set (projectsFor uid s)"
  shows "paRole pa \<noteq> [] \<and> roleIn s (paId pa) uid = Some (paRole pa)"
proof -
  define pid r where "pid = paId pa" and "r = paRole pa"
  from pa obtain p w m h where p: "p \<in> set (projects s)" and m: "m \<in> set (members s)" "mWorkspace m = pWorkspace p" "mUser m = uid"
    and h: "h \<in> set (leftJoin (filter (\<lambda>h. sProject h = pId p \<and> sUser h = uid) (shares s)))"
    and pid: "pid = pId p" and r: "r = paRole (accessOf p w m h)"
    by (auto simp: projectsFor_def accessOf_def pid_def r_def)
  have m': "List.find (\<lambda>m. mWorkspace m = pWorkspace p \<and> mUser m = uid) (members s) = Some m"
    using wf_finds(2) [OF wf m(1)] m(2,3) by simp
  have "List.find (\<lambda>h. sProject h = pid \<and> sUser h = uid) (shares s) = h \<and> (\<forall>x. h = Some x \<longrightarrow> x \<in> set (shares s))"
  proof (cases h)
    case None
    then have "filter (\<lambda>h. sProject h = pId p \<and> sUser h = uid) (shares s) = []"
      using h by (auto simp: leftJoin_def split: if_splits)
    then show ?thesis using None pid by (auto simp: find_None_iff_ball filter_empty_conv)
  next
    case (Some x)
    then have "x \<in> set (shares s)" "sProject x = pId p" "sUser x = uid" using h by (auto simp: leftJoin_def split: if_splits)
    then show ?thesis using wf_finds(3) [OF wf, of x] Some pid by simp
  qed
  then have "r \<noteq> [] \<and> roleIn s pid uid = Some r"
    using wf_finds(1) [OF wf p] m' pid r check by (auto simp: roleIn_def accessOf_def role_defs split: option.split)
  then show ?thesis by (simp add: pid_def r_def)
qed

lemma projectsFor_complete:
  assumes fk: "\<And>p. p \<in> set (projects s) \<Longrightarrow> hasId wId (workspaces s) (pWorkspace p)"
    and r: "r \<noteq> [] \<and> roleIn s pid uid = Some r"
  shows "\<exists>pa \<in> set (projectsFor uid s). paId pa = pid \<and> paRole pa = r"
proof -
  from r obtain p m where p: "List.find (\<lambda>p. pId p = pid) (projects s) = Some p"
    and m: "List.find (\<lambda>m. mWorkspace m = pWorkspace p \<and> mUser m = uid) (members s) = Some m"
    by (auto simp: roleIn_def split: option.splits)
  define h where "h = List.find (\<lambda>h. sProject h = pid \<and> sUser h = uid) (shares s)"
  have p': "p \<in> set (projects s)" "pId p = pid" and m': "m \<in> set (members s)" "mWorkspace m = pWorkspace p" "mUser m = uid"
    using find_SomeD [OF p] find_SomeD [OF m] by auto
  obtain w where w: "w \<in> set (workspaces s)" "wId w = pWorkspace p" using fk [OF p'(1)] by (auto simp: hasId_def list_ex_iff)
  have h': "h \<in> set (leftJoin (filter (\<lambda>h. sProject h = pId p \<and> sUser h = uid) (shares s)))"
  proof (cases h)
    case None
    then have "filter (\<lambda>h. sProject h = pId p \<and> sUser h = uid) (shares s) = []"
      using p'(2) by (auto simp: h_def find_None_iff_ball filter_empty_conv)
    with None show ?thesis by (simp add: leftJoin_def)
  next
    case (Some x)
    then have "x \<in> set (filter (\<lambda>h. sProject h = pId p \<and> sUser h = uid) (shares s))"
      using p'(2) find_SomeD [of _ "shares s" x] by (auto simp: h_def)
    with Some show ?thesis by (auto simp: leftJoin_def filter_empty_conv)
  qed
  have "paRole (accessOf p w m h) = r" using r p m
    by (auto simp: roleIn_def accessOf_def h_def [symmetric] role_defs split: option.splits if_splits)
  moreover have "accessOf p w m h \<in> set (projectsFor uid s)"
    using p'(1) m' w h' by (auto simp: projectsFor_def)
  ultimately show ?thesis
    using p'(2) by (intro bexI [of _ "accessOf p w m h"]) (simp_all add: accessOf_def)
qed

text \<open>
  C29: the dashboard's project list shows exactly the projects to which the access decision gives
  the user a role, each with that role. (Rows satisfy the foreign key and CHECK constraints of the
  migration: a project's workspace exists and a share has a role.)
\<close>

theorem ListProjectsForUser_agrees:
  assumes "ready s"
    and fk: "\<And>p. p \<in> set (projects s) \<Longrightarrow> hasId wId (workspaces s) (pWorkspace p)"
    and check: "\<And>h. h \<in> set (shares s) \<Longrightarrow> sRole h \<noteq> []"
  shows "\<exists>pas. run_state (ListProjectsForUser uid) s = (Inr pas, s) \<and>
    (\<forall>pid r. (\<exists>pa \<in> set pas. paId pa = pid \<and> paRole pa = r) \<longleftrightarrow> r \<noteq> [] \<and> roleIn s pid uid = Some r)"
proof -
  have "run_state (ListProjectsForUser uid) s = (Inr (sort_desc paUpdatedAt (projectsFor uid s)), s)"
    using assms(1) by (simp add: ListProjectsForUser_def clean_runs wrap_def ready_def)
  moreover have "(\<exists>pa \<in> set (projectsFor uid s). paId pa = pid \<and> paRole pa = r) \<longleftrightarrow> r \<noteq> [] \<and> roleIn s pid uid = Some r" for pid r
    using projectsFor_sound [of s _ uid] projectsFor_complete [of s r pid uid] assms by (auto simp: ready_def)
  ultimately show ?thesis by simp
qed

theorem ListProjectsForUser_agrees_witness:
  "\<exists>pas. run_state (ListProjectsForUser 2) sharedDB = (Inr pas, sharedDB) \<and> (\<exists>pa \<in> set pas. paId pa = 1 \<and> paRole pa = RoleViewer)"
proof -
  have r: "roleIn sharedDB 1 2 = Some RoleViewer" by (simp add: roleIn_def sharedDB_def)
  have "p \<in> set (projects sharedDB) \<Longrightarrow> hasId wId (workspaces sharedDB) (pWorkspace p)"
    and "h \<in> set (shares sharedDB) \<Longrightarrow> sRole h \<noteq> []" for p h
    by (auto simp: sharedDB_def hasId_def role_defs)
  from ListProjectsForUser_agrees [OF ready_sharedDB this, of 2] r show ?thesis by (auto simp: role_defs)
qed

end
