(* ===== verification/KeyedStore.thy ===== *)
theory KeyedStore
  imports Prelude
begin

text \<open>
  The contract of a table that is written by key: what a lookup returns after a write, and after a
  delete. The files and the key/value entries of a project and the settings satisfy it.
\<close>

locale keyed_store =
  fixes lookup :: "'s \<Rightarrow> 'k \<rightharpoonup> 'v"
    and put :: "'k \<Rightarrow> 'v \<Rightarrow> 's \<Rightarrow> 's"
    and ok :: "'s \<Rightarrow> bool"
  assumes put_ok: "ok s \<Longrightarrow> ok (put k v s)"
    and lookup_put: "ok s \<Longrightarrow> lookup (put k v s) = (lookup s)(k \<mapsto> v)"
begin

text \<open>Writing a list of entries overlays it on what was there, later entries winning.\<close>

lemma put_all:
  "ok s \<Longrightarrow> ok (fold (\<lambda>(k, v). put k v) kvs s) \<and> lookup (fold (\<lambda>(k, v). put k v) kvs s) = lookup s ++ map_of (rev kvs)"
proof (induction kvs arbitrary: s)
  case (Cons kv kvs)
  obtain k v where kv: "kv = (k, v)" by (cases kv)
  have "lookup s ++ (map_of (rev kvs @ [(k, v)])) = (lookup s)(k \<mapsto> v) ++ map_of (rev kvs)"
    by (rule ext) (simp add: map_add_def split: option.split)
  then show ?case using Cons.IH [OF put_ok [OF Cons.prems, of k v]] lookup_put [OF Cons.prems, of k v] by (simp add: kv fun_upd_def)
qed simp

end

locale keyed_store_del = keyed_store +
  fixes del :: "'b \<Rightarrow> 'a \<Rightarrow> 'a"
  assumes del_ok: "ok s \<Longrightarrow> ok (del k s)"
    and lookup_del: "ok s \<Longrightarrow> lookup (del k s) = (lookup s)(k := None)"
begin

text \<open>After any run of writes and deletes the last one on a key decides.\<close>

lemma edits:
  "ok s \<Longrightarrow>
    ok (fold (\<lambda>(k, ov). case ov of Some v \<Rightarrow> put k v | None \<Rightarrow> del k) es s) \<and>
    lookup (fold (\<lambda>(k, ov). case ov of Some v \<Rightarrow> put k v | None \<Rightarrow> del k) es s) k =
      (case map_of (rev es) k of Some ov \<Rightarrow> ov | None \<Rightarrow> lookup s k)"
proof (induction es arbitrary: s)
  case (Cons e es)
  obtain k' ov where e: "e = (k', ov)" by (cases e)
  define s1 where "s1 = (case ov of Some v \<Rightarrow> put k' v s | None \<Rightarrow> del k' s)"
  have s1: "ok s1" "lookup s1 = (lookup s)(k' := ov)"
    using put_ok lookup_put del_ok lookup_del Cons.prems by (auto simp: s1_def split: option.split)
  have "fold (\<lambda>(k, ov). case ov of Some v \<Rightarrow> put k v | None \<Rightarrow> del k) (e # es) s =
    fold (\<lambda>(k, ov). case ov of Some v \<Rightarrow> put k v | None \<Rightarrow> del k) es s1"
    by (simp add: e s1_def split: option.split)
  then show ?case using Cons.IH [OF s1(1)] s1(2) by (auto simp: e map_add_def split: option.split)
qed simp

end

end
