(* ===== verification/StoreFiles.thy ===== *)
theory StoreFiles
  imports StoreUsers KeyedStore
begin

text \<open>
  Projects, files and versions: the first half of server/internal/store/workspaces_content.go
  (with the types of files.go and versions.go). Files and versions are returned as their rows,
  which have exactly the fields of the Go structs.
\<close>

section \<open>Projects\<close>

record WSProject =
  wpId :: int
  wpWorkspace :: int
  wpCreatedBy :: int
  wpSlug :: string
  wpName :: string
  wpDescription :: string
  wpCreatedAt :: string
  wpUpdatedAt :: string

definition scanWSProject :: "projectRow \<Rightarrow> WSProject" where
  "scanWSProject p = \<lparr>wpId = pId p, wpWorkspace = pWorkspace p,
     wpCreatedBy = (case pCreatedBy p of None \<Rightarrow> 0 | Some u \<Rightarrow> u), wpSlug = pSlug p, wpName = pName p,
     wpDescription = pDescription p, wpCreatedAt = pCreatedAt p, wpUpdatedAt = pUpdatedAt p\<rparr>"

definition insertProject :: "int \<Rightarrow> int \<Rightarrow> string \<Rightarrow> string \<Rightarrow> string \<Rightarrow> int stm" where
  "insertProject wid createdBy slug name description = exec (\<lambda>s.
     let i = seqProject (seqs s) + 1;
         s1 = s\<lparr>seqs := seqs s\<lparr>seqProject := i\<rparr>\<rparr>
     in if list_ex (\<lambda>p. pWorkspace p = wid \<and> pSlug p = slug) (projects s) then (Inl uniqueViolation, s1)
        else if hasId wId (workspaces s) wid \<and> hasId uId (users s) createdBy
        then (Inr i, s1\<lparr>projects := projects s @
               [\<lparr>pId = i, pWorkspace = wid, pCreatedBy = Some createdBy, pSlug = slug, pName = name,
                 pDescription = description, pCreatedAt = clk s, pUpdatedAt = clk s\<rparr>]\<rparr>)
        else (Inl foreignKeyViolation, s1))"

definition GetWSProject :: "int \<Rightarrow> WSProject stm" where
  "GetWSProject i = query (\<lambda>s. map_sum id scanWSProject (row (\<lambda>p. pId p = i) (projects s)))"

definition CreateWSProject :: "unicode \<Rightarrow> int \<Rightarrow> int \<Rightarrow> string \<Rightarrow> string \<Rightarrow> WSProject stm" where
  "CreateWSProject U wid createdBy name description =
     (let base = slugBase U ''project'' name
      in andThen (retryUnique 100 0 (\<lambda>attempt. insertProject wid createdBy (attemptSlug base attempt) name description)
                   ''insert ws project'' (Fmt ''could not find a unique slug for %q'' [name]))
           GetWSProject)"

definition setProject :: "int \<Rightarrow> (projectRow \<Rightarrow> projectRow) \<Rightarrow> unit stm" where
  "setProject i f = update (\<lambda>s. s\<lparr>projects := alter (\<lambda>p. pId p = i) (\<lambda>p. (f p)\<lparr>pUpdatedAt := clk s\<rparr>) (projects s)\<rparr>)"

definition UpdateWSProject :: "int \<Rightarrow> string option \<Rightarrow> string option \<Rightarrow> WSProject stm" where
  "UpdateWSProject i name description =
     andThen (case name of None \<Rightarrow> ret (Inr ())
              | Some n \<Rightarrow> orWrap ''update ws project name'' (setProject i (\<lambda>p. p\<lparr>pName := n\<rparr>))) (\<lambda>_.
     andThen (case description of None \<Rightarrow> ret (Inr ())
              | Some d \<Rightarrow> orWrap ''update ws project description'' (setProject i (\<lambda>p. p\<lparr>pDescription := d\<rparr>))) (\<lambda>_.
     GetWSProject i))"

definition DeleteWSProject :: "int \<Rightarrow> unit stm" where
  "DeleteWSProject i = orWrap ''delete ws project'' (checkedDelete (dropProjects (\<lambda>p. pId p = i)))"

definition touchWSProject :: "int \<Rightarrow> unit stm" where
  "touchWSProject i = setProject i (\<lambda>p. p)"

section \<open>Files\<close>

definition projectFiles :: "int \<Rightarrow> db \<Rightarrow> fileRow list" where
  "projectFiles pid s = sort_key fPosition (sort_key fName (filter (\<lambda>f. fProject f = pid) (files s)))"

definition ListWSFiles :: "int \<Rightarrow> fileRow list stm" where
  "ListWSFiles pid = orWrap ''list ws files'' (query (\<lambda>s. Inr (projectFiles pid s)))"

definition GetWSFile :: "int \<Rightarrow> string \<Rightarrow> fileRow stm" where
  "GetWSFile pid name = query (\<lambda>s. row (\<lambda>f. fProject f = pid \<and> fName f = name) (files s))"

definition GetWSFileByID :: "int \<Rightarrow> fileRow stm" where
  "GetWSFileByID i = query (\<lambda>s. row (\<lambda>f. fId f = i) (files s))"

definition setContent :: "int \<Rightarrow> string \<Rightarrow> unit stm" where
  "setContent i content =
     update (\<lambda>s. s\<lparr>files := alter (\<lambda>f. fId f = i) (\<lambda>f. f\<lparr>fContent := content, fUpdatedAt := clk s\<rparr>) (files s)\<rparr>)"

definition nextPosition :: "int \<Rightarrow> int stm" where
  "nextPosition pid = query (\<lambda>s.
     let ps = map fPosition (filter (\<lambda>f. fProject f = pid) (files s)) in Inr (if ps = [] then 0 else Max (set ps) + 1))"

definition insertFile :: "int \<Rightarrow> string \<Rightarrow> string \<Rightarrow> int \<Rightarrow> int stm" where
  "insertFile pid name content pos = exec (\<lambda>s.
     let i = seqFile (seqs s) + 1;
         s1 = s\<lparr>seqs := seqs s\<lparr>seqFile := i\<rparr>\<rparr>
     in if list_ex (\<lambda>f. fProject f = pid \<and> fName f = name) (files s) then (Inl uniqueViolation, s1)
        else if \<not> hasId pId (projects s) pid then (Inl foreignKeyViolation, s1)
        else (Inr i, s1\<lparr>files := files s @
               [\<lparr>fId = i, fProject = pid, fName = name, fContent = content, fPosition = pos,
                 fCreatedAt = clk s, fUpdatedAt = clk s\<rparr>]\<rparr>))"

definition UpsertWSFile :: "int \<Rightarrow> string \<Rightarrow> string \<Rightarrow> fileRow stm" where
  "UpsertWSFile pid name content = do {
     r \<leftarrow> GetWSFile pid name;
     case r of
       Inr existing \<Rightarrow>
         andThen (orWrap ''update ws file'' (setContent (fId existing) content)) (\<lambda>_. do {
           _ \<leftarrow> touchWSProject pid;
           GetWSFileByID (fId existing)
         })
     | Inl e \<Rightarrow>
         if e \<noteq> ErrNotFound then ret (Inl (Wrap ''get ws file'' e))
         else
           andThen (orWrap ''compute next position'' (nextPosition pid)) (\<lambda>nextPos.
           andThen (orWrap ''insert ws file'' (insertFile pid name content nextPos)) (\<lambda>i. do {
             _ \<leftarrow> touchWSProject pid;
             GetWSFileByID i
           }))
   }"

definition DeleteWSFile :: "int \<Rightarrow> string \<Rightarrow> unit stm" where
  "DeleteWSFile pid name =
     andThen (orWrap ''delete ws file'' (update (dropFiles (\<lambda>f. fProject f = pid \<and> fName f = name))))
       (\<lambda>_. touchWSProject pid)"

section \<open>Versions\<close>

definition nextNumber :: "int \<Rightarrow> int stm" where
  "nextNumber pid = query (\<lambda>s.
     let ns = map vNumber (filter (\<lambda>v. vProject v = pid) (versions s)) in Inr (if ns = [] then 1 else Max (set ns) + 1))"

definition insertVersion :: "int \<Rightarrow> int \<Rightarrow> string \<Rightarrow> int stm" where
  "insertVersion pid number label = exec (\<lambda>s.
     let i = seqVersion (seqs s) + 1;
         s1 = s\<lparr>seqs := seqs s\<lparr>seqVersion := i\<rparr>\<rparr>
     in if list_ex (\<lambda>v. vProject v = pid \<and> vNumber v = number) (versions s) then (Inl uniqueViolation, s1)
        else if \<not> hasId pId (projects s) pid then (Inl foreignKeyViolation, s1)
        else (Inr i, s1\<lparr>versions := versions s @
               [\<lparr>vId = i, vProject = pid, vNumber = number, vLabel = label, vCreatedAt = clk s\<rparr>]\<rparr>))"

definition insertVersionFile :: "int \<Rightarrow> fileRow \<Rightarrow> unit stm" where
  "insertVersionFile vid f = exec (\<lambda>s.
     if \<not> hasId vId (versions s) vid then (Inl foreignKeyViolation, s)
     else (Inr (), s\<lparr>versionFiles := versionFiles s @ [\<lparr>vfVersion = vid, vfName = fName f, vfContent = fContent f\<rparr>]\<rparr>))"

fun insertVersionFiles :: "int \<Rightarrow> fileRow list \<Rightarrow> unit stm" where
  "insertVersionFiles vid [] = ret (Inr ())"
| "insertVersionFiles vid (f # fs) =
     andThen (orWrap (''insert ws version file '' @ fName f) (insertVersionFile vid f)) (\<lambda>_. insertVersionFiles vid fs)"

definition GetWSVersion :: "int \<Rightarrow> versionRow stm" where
  "GetWSVersion i = query (\<lambda>s. row (\<lambda>v. vId v = i) (versions s))"

definition CreateWSVersion :: "int \<Rightarrow> string \<Rightarrow> versionRow stm" where
  "CreateWSVersion pid label =
     andThen (orWrap ''list ws files to snapshot'' (ListWSFiles pid)) (\<lambda>fs.
       if fs = [] then ret (Inl (Msg ''project has no files to snapshot''))
       else
         andThen (transaction
           (andThen (orWrap ''compute next version number'' (nextNumber pid)) (\<lambda>number.
            andThen (orWrap ''insert ws version'' (insertVersion pid number label)) (\<lambda>vid.
            andThen (insertVersionFiles vid fs) (\<lambda>_. ret (Inr vid))))))
         GetWSVersion)"

definition GetWSVersionByNumber :: "int \<Rightarrow> int \<Rightarrow> versionRow stm" where
  "GetWSVersionByNumber pid number = query (\<lambda>s.
     if \<not> int4 number then Inl outOfRange
     else row (\<lambda>v. vProject v = pid \<and> vNumber v = number) (versions s))"

definition ListWSVersions :: "int \<Rightarrow> versionRow list stm" where
  "ListWSVersions pid =
     orWrap ''list ws versions'' (query (\<lambda>s. Inr (sort_desc vNumber (filter (\<lambda>v. vProject v = pid) (versions s)))))"

definition GetWSVersionFileContent :: "int \<Rightarrow> string \<Rightarrow> string stm" where
  "GetWSVersionFileContent vid name =
     query (\<lambda>s. map_sum id vfContent (row (\<lambda>f. vfVersion f = vid \<and> vfName f = name) (versionFiles s)))"

text \<open>The rows of the snapshot, then one upsert per row until one fails.\<close>

definition snapshotOf :: "int \<Rightarrow> db \<Rightarrow> (string \<times> string) list" where
  "snapshotOf vid s =
     map (\<lambda>f. (vfName f, vfContent f)) (sort_key vfName (filter (\<lambda>f. vfVersion f = vid) (versionFiles s)))"

fun upsertAll :: "int \<Rightarrow> (string \<times> string) list \<Rightarrow> unit stm" where
  "upsertAll pid [] = ret (Inr ())"
| "upsertAll pid ((name, content) # snaps) =
     andThen (orWrap (''restore ws file '' @ name) (UpsertWSFile pid name content)) (\<lambda>_. upsertAll pid snaps)"

definition RestoreWSVersion :: "int \<Rightarrow> int \<Rightarrow> unit stm" where
  "RestoreWSVersion pid vid =
     andThen (orWrap ''list ws version files'' (query (\<lambda>s. Inr (snapshotOf vid s)))) (upsertAll pid)"

section \<open>The constraints are kept\<close>

lemma wf_insertProject: "preserves wfdb (insertProject wid u slug name d)"
  unfolding insertProject_def by (rule wf_exec) (simp add: wfdb_def Let_def row_simps)

lemma wf_setProject: "(\<And>p. pId (f p) = pId p) \<Longrightarrow> (\<And>p. pWorkspace (f p) = pWorkspace p) \<Longrightarrow>
    (\<And>p. pSlug (f p) = pSlug p) \<Longrightarrow> preserves wfdb (setProject i f)"
  unfolding setProject_def by (rule wf_update) (simp add: wfdb_def row_simps)

lemma wf_setContent: "preserves wfdb (setContent i c)"
  unfolding setContent_def by (rule wf_update) (simp add: wfdb_def row_simps)

lemma wf_insertFile: "preserves wfdb (insertFile pid name content pos)"
  unfolding insertFile_def by (rule wf_exec) (simp add: wfdb_def Let_def row_simps)

lemma wf_insertVersion: "preserves wfdb (insertVersion pid n l)"
  unfolding insertVersion_def by (rule wf_exec) (simp add: wfdb_def Let_def row_simps)

lemma wf_insertVersionFile: "preserves wfdb (insertVersionFile vid f)"
  unfolding insertVersionFile_def by (rule wf_exec) (simp add: wfdb_def)

lemma wf_insertVersionFiles: "preserves wfdb (insertVersionFiles vid fs)"
  by (induction fs) (auto intro!: inv_intros wf_insertVersionFile)

lemmas fileReads = GetWSProject_def ListWSFiles_def GetWSFile_def GetWSFileByID_def nextPosition_def
  nextNumber_def GetWSVersion_def GetWSVersionByNumber_def ListWSVersions_def GetWSVersionFileContent_def

lemma fileReads_wf [inv_intros]:
  shows "preserves wfdb (GetWSProject i)" "preserves wfdb (ListWSFiles i)" "preserves wfdb (GetWSFile i name)"
    "preserves wfdb (GetWSFileByID i)" "preserves wfdb (nextPosition i)" "preserves wfdb (nextNumber i)"
    "preserves wfdb (GetWSVersion i)" "preserves wfdb (GetWSVersionByNumber i n)" "preserves wfdb (ListWSVersions i)"
    "preserves wfdb (GetWSVersionFileContent i name)"
  unfolding fileReads by (intro inv_intros)+

lemma fileReads_keep [keeps_intros]:
  assumes "ignores_faults f"
  shows "keeps f (GetWSProject i)" "keeps f (ListWSFiles i)" "keeps f (GetWSFile i name)"
    "keeps f (GetWSFileByID i)" "keeps f (nextPosition i)" "keeps f (nextNumber i)"
    "keeps f (GetWSVersion i)" "keeps f (GetWSVersionByNumber i n)" "keeps f (ListWSVersions i)"
    "keeps f (GetWSVersionFileContent i name)"
  unfolding fileReads by (intro keeps_intros assms)+

lemma fileReads_reads [reads_intros]:
  shows "reads (GetWSProject i)" "reads (ListWSFiles i)" "reads (GetWSFile i name)"
    "reads (GetWSFileByID i)" "reads (nextPosition i)" "reads (nextNumber i)"
    "reads (GetWSVersion i)" "reads (GetWSVersionByNumber i n)" "reads (ListWSVersions i)"
    "reads (GetWSVersionFileContent i name)"
  unfolding fileReads by (intro reads_intros)+

lemma wf_touchWSProject [inv_intros]: "preserves wfdb (touchWSProject i)"
  unfolding touchWSProject_def by (rule wf_setProject) simp_all

lemma wf_CreateWSProject [inv_intros]: "preserves wfdb (CreateWSProject U wid u name d)"
  unfolding CreateWSProject_def Let_def by (intro inv_intros wf_insertProject)

lemma wf_UpdateWSProject [inv_intros]: "preserves wfdb (UpdateWSProject i n d)"
  unfolding UpdateWSProject_def by (intro inv_intros wf_setProject) simp_all

lemma wf_DeleteWSProject [inv_intros]: "preserves wfdb (DeleteWSProject i)"
  unfolding DeleteWSProject_def by (intro inv_intros wf_checkedDelete wf_dropProjects)

lemma wf_UpsertWSFile [inv_intros]: "preserves wfdb (UpsertWSFile pid name content)"
  unfolding UpsertWSFile_def by (intro inv_intros wf_setContent wf_insertFile)

lemma wf_DeleteWSFile [inv_intros]: "preserves wfdb (DeleteWSFile pid name)"
  unfolding DeleteWSFile_def by (intro inv_intros wf_update wf_dropFiles)

lemma seq_insertVersion: "preserves (\<lambda>s. seq_le q (seqs s)) (insertVersion pid n l)"
  unfolding insertVersion_def by (rule preserves_exec [OF ignores_seq_le]) (simp add: Let_def seq_le_def)

lemma seq_insertVersionFile: "preserves (\<lambda>s. seq_le q (seqs s)) (insertVersionFile vid f)"
  unfolding insertVersionFile_def by (rule preserves_exec [OF ignores_seq_le]) simp

lemma seq_insertVersionFiles: "preserves (\<lambda>s. seq_le q (seqs s)) (insertVersionFiles vid fs)"
  by (induction fs) (auto intro!: inv_intros seq_insertVersionFile)

lemma seq_nextNumber: "preserves (\<lambda>s. seq_le q (seqs s)) (nextNumber pid)"
  unfolding nextNumber_def by (rule preserves_query [OF ignores_seq_le])

lemma wf_CreateWSVersion [inv_intros]: "preserves wfdb (CreateWSVersion pid label)"
  unfolding CreateWSVersion_def
  by (intro inv_intros wf_transaction wf_insertVersion wf_insertVersionFiles seq_insertVersion
    seq_insertVersionFiles seq_nextNumber)

lemma wf_upsertAll: "preserves wfdb (upsertAll pid snaps)"
  by (induction snaps) (auto intro!: inv_intros)

lemma wf_RestoreWSVersion [inv_intros]: "preserves wfdb (RestoreWSVersion pid vid)"
  unfolding RestoreWSVersion_def by (intro inv_intros wf_upsertAll)

section \<open>Files as a keyed store\<close>

definition contentOf :: "db \<Rightarrow> int \<Rightarrow> string \<Rightarrow> string option" where
  "contentOf s pid name = map_option fContent (List.find (\<lambda>f. fProject f = pid \<and> fName f = name) (files s))"

definition fileReady :: "int \<Rightarrow> db \<Rightarrow> bool" where
  "fileReady pid s \<longleftrightarrow> ready s \<and> hasId pId (projects s) pid"

lemma find_alter:
  "(\<And>x. Q x \<Longrightarrow> P (f x) = P x) \<Longrightarrow>
    List.find P (alter Q f xs) = map_option (\<lambda>x. if Q x then f x else x) (List.find P xs)"
  by (induction xs) (auto simp: alter_def)

lemma hasId_alter [simp]: "(\<And>x. P x \<Longrightarrow> key (f x) = key x) \<Longrightarrow> hasId key (alter P f xs) i = hasId key xs i"
  by (auto simp: hasId_def list_ex_iff set_alter)

lemma find_file:
  assumes "wfdb s" and "f \<in> set (files s)"
  shows "List.find (\<lambda>g. fId g = fId f) (files s) = Some f"
    and "List.find (\<lambda>g. fProject g = fProject f \<and> fName g = fName f) (files s) = Some f"
  using find_key [OF wfdb_keys(5) [OF assms(1)] assms(2)] find_key [OF wfdb_keys(6) [OF assms(1)] assms(2)] by simp_all

text \<open>The part of the database that saving a file leaves alone.\<close>

definition besidesFiles :: "db \<Rightarrow> db" where
  "besidesFiles s = s\<lparr>files := [], projects := [], seqs := seqs emptyDB, faults := []\<rparr>"

lemma besidesFiles_versionFiles: "besidesFiles a = besidesFiles b \<Longrightarrow> versionFiles a = versionFiles b"
  by (drule arg_cong [where f = versionFiles]) (simp add: besidesFiles_def)

lemma ignores_besidesFiles: "ignores_faults besidesFiles"
  by (simp add: ignores_faults_def besidesFiles_def)

lemma keeps_touch [keeps_intros]: "keeps besidesFiles (touchWSProject i)"
  unfolding touchWSProject_def setProject_def
  by (rule keeps_update [OF ignores_besidesFiles]) (simp add: besidesFiles_def)

lemma keeps_UpsertWSFile: "keeps besidesFiles (UpsertWSFile pid name content)"
proof -
  have "keeps besidesFiles (setContent i c)" for i c
    unfolding setContent_def by (rule keeps_update [OF ignores_besidesFiles]) (simp add: besidesFiles_def)
  moreover have "keeps besidesFiles (insertFile pid name c i)" for c i
    unfolding insertFile_def by (rule keeps_exec [OF ignores_besidesFiles]) (simp add: besidesFiles_def Let_def)
  ultimately show ?thesis
    unfolding UpsertWSFile_def by (intro keeps_intros ignores_besidesFiles)
qed

lemma touch_clean:
  assumes "fileReady pid s"
  obtains s' where "run_state (touchWSProject i) s = (Inr (), s')" "fileReady pid s'" "files s' = files s"
proof -
  have "wfdb (snd (run_state (touchWSProject i) s))"
    using assms preservesD [OF wf_touchWSProject] by (simp add: fileReady_def ready_def)
  then show ?thesis
    using assms by (intro that [of "snd (run_state (touchWSProject i) s)"])
      (simp_all add: fileReady_def ready_def touchWSProject_def setProject_def update_clean)
qed

lemma UpsertWSFile_clean:
  assumes "fileReady pid s"
  obtains f s' where "run_state (UpsertWSFile pid name content) s = (Inr f, s')" "fileReady pid s'"
    "fProject f = pid" "fName f = name" "fContent f = content"
    "contentOf s' = (contentOf s)(pid := (contentOf s pid)(name \<mapsto> content))"
proof (cases "List.find (\<lambda>f. fProject f = pid \<and> fName f = name) (files s)")
  case (Some f)
  note fD = find_SomeD [OF Some]
  define s1 where "s1 = snd (run_state (setContent (fId f) content) s)"
  define g where "g = f\<lparr>fContent := content, fUpdatedAt := clk s\<rparr>"
  have r1: "run_state (setContent (fId f) content) s = (Inr (), s1)"
    using assms by (simp add: s1_def setContent_def update_clean fileReady_def ready_def)
  have s1: "fileReady pid s1" "files s1 = alter (\<lambda>h. fId h = fId f) (\<lambda>h. h\<lparr>fContent := content, fUpdatedAt := clk s\<rparr>) (files s)"
    using assms preservesD [OF wf_setContent, of s "fId f" content]
    by (simp_all add: s1_def fileReady_def ready_def setContent_def update_clean)
  obtain s2 where s2: "run_state (touchWSProject pid) s1 = (Inr (), s2)" "fileReady pid s2" "files s2 = files s1"
    by (rule touch_clean [OF s1(1)])
  have g: "g \<in> set (files s2)" using fD by (auto simp: s2(3) s1(2) set_alter g_def)
  have "run_state (GetWSFileByID (fId f)) s2 = (Inr g, s2)"
    using find_file(1) [OF _ g] s2(2) by (simp add: GetWSFileByID_def query_clean fileReady_def ready_def row_def g_def)
  moreover have "faults s = []" using assms by (simp add: fileReady_def ready_def)
  ultimately have "run_state (UpsertWSFile pid name content) s = (Inr g, s2)"
    using Some r1 s2(1) by (simp add: UpsertWSFile_def GetWSFile_def clean_runs row_def wrap_def)
  moreover have "contentOf s2 = (contentOf s)(pid := (contentOf s pid)(name \<mapsto> content))"
  proof (intro ext)
    fix p n
    have c: "contentOf s2 p n = map_option fContent (map_option
        (\<lambda>h. if fId h = fId f then h\<lparr>fContent := content, fUpdatedAt := clk s\<rparr> else h)
        (List.find (\<lambda>f. fProject f = p \<and> fName f = n) (files s)))"
      unfolding contentOf_def s2(3) s1(2) by (subst find_alter) simp_all
    have "fId h \<noteq> fId f" if "List.find (\<lambda>f. fProject f = p \<and> fName f = n) (files s) = Some h" "\<not> (p = pid \<and> n = name)" for h
    proof
      assume "fId h = fId f"
      moreover have "uniq fId (files s)" using assms by (intro wfdb_keys) (simp add: fileReady_def ready_def)
      ultimately have "h = f" using find_SomeD [OF that(1)] fD by (blast dest: uniqD)
      with find_SomeD [OF that(1)] that(2) fD show False by auto
    qed
    then show "contentOf s2 p n = ((contentOf s)(pid := (contentOf s pid)(name \<mapsto> content))) p n"
      unfolding c using Some by (cases "List.find (\<lambda>f. fProject f = p \<and> fName f = n) (files s)") (auto simp: contentOf_def)
  qed
  ultimately show ?thesis using that s2(2) fD by (simp add: g_def)
next
  case None
  have f0: "faults s = []" and wf: "wfdb s" using assms by (simp_all add: fileReady_def ready_def)
  obtain pos where pos: "run_state (nextPosition pid) s = (Inr pos, s)"
    using f0 by (simp add: nextPosition_def query_clean Let_def)
  define g where "g = \<lparr>fId = seqFile (seqs s) + 1, fProject = pid, fName = name, fContent = content, fPosition = pos,
    fCreatedAt = clk s, fUpdatedAt = clk s\<rparr>"
  define s1 where "s1 = snd (run_state (insertFile pid name content pos) s)"
  have r1: "run_state (insertFile pid name content pos) s = (Inr (fId g), s1)" and s1: "fileReady pid s1" "files s1 = files s @ [g]"
    using assms None preservesD [OF wf_insertFile, of s pid name content pos]
    by (simp_all add: s1_def g_def insertFile_def exec_clean fileReady_def ready_def Let_def find_None_iff_ball list_ex_iff)
  obtain s2 where s2: "run_state (touchWSProject pid) s1 = (Inr (), s2)" "fileReady pid s2" "files s2 = files s1"
    by (rule touch_clean [OF s1(1)])
  have g: "g \<in> set (files s2)" by (simp add: s2(3) s1(2))
  have "run_state (GetWSFileByID (fId g)) s2 = (Inr g, s2)"
    using find_file(1) [OF _ g] s2(2) by (simp add: GetWSFileByID_def query_clean fileReady_def ready_def row_def)
  then have "run_state (UpsertWSFile pid name content) s = (Inr g, s2)"
    using None f0 pos r1 s2(1) by (simp add: UpsertWSFile_def GetWSFile_def clean_runs row_def wrap_def)
  moreover have "contentOf s2 = (contentOf s)(pid := (contentOf s pid)(name \<mapsto> content))"
    using None by (intro ext) (auto simp: contentOf_def s2(3) s1(2) find_append g_def split: option.splits)
  ultimately show ?thesis using that s2(2) by (simp add: g_def)
qed

lemma find_filter: "List.find P (filter Q xs) = List.find (\<lambda>x. Q x \<and> P x) xs"
  by (induction xs) auto

lemma find_False [simp]: "List.find (\<lambda>x. False) xs = None"
  by (induction xs) auto

lemma dropFiles_frame [simp]:
  "files (dropFiles P s) = filter (\<lambda>f. \<not> P f) (files s)" "projects (dropFiles P s) = projects s"
  "faults (dropFiles P s) = faults s" "versionFiles (dropFiles P s) = versionFiles s" "versions (dropFiles P s) = versions s"
  "deployments (dropFiles P s) = filter (\<lambda>d. \<not> (\<exists>f \<in> set (files s). P f \<and> fId f = dFile d)) (deployments s)"
  "triggers (dropFiles P s) = filter (\<lambda>t. \<not> (\<exists>f \<in> set (files s). P f \<and> fId f = tFile t)) (triggers s)"
  "kvs (dropFiles P s) = kvs s" "shares (dropFiles P s) = shares s" "members (dropFiles P s) = members s"
  "workspaces (dropFiles P s) = workspaces s" "users (dropFiles P s) = users s" "seqs (dropFiles P s) = seqs s"
  by (simp_all add: dropFiles_def dropTriggers_def dropDeployments_def Let_def)

lemma DeleteWSFile_clean:
  assumes "fileReady pid s"
  obtains s' where "run_state (DeleteWSFile q name) s = (Inr (), s')" "fileReady pid s'"
    "contentOf s' = (contentOf s)(q := (contentOf s q)(name := None))" "versionFiles s' = versionFiles s"
proof -
  define s1 where "s1 = dropFiles (\<lambda>f. fProject f = q \<and> fName f = name) s"
  have s1: "fileReady pid s1" using assms wf_dropFiles by (simp add: s1_def fileReady_def ready_def)
  obtain s2 where s2: "run_state (touchWSProject q) s1 = (Inr (), s2)" "fileReady pid s2" "files s2 = files s1"
    by (rule touch_clean [OF s1])
  have "run_state (DeleteWSFile q name) s = (Inr (), s2)"
    using assms s2(1) by (simp add: DeleteWSFile_def clean_runs wrap_def s1_def fileReady_def ready_def)
  moreover have "contentOf s2 = (contentOf s)(q := (contentOf s q)(name := None))"
  proof (intro ext)
    fix p n
    show "contentOf s2 p n = ((contentOf s)(q := (contentOf s q)(name := None))) p n"
    proof (cases "p = q \<and> n = name")
      case True
      then show ?thesis by (simp add: contentOf_def s2(3) s1_def find_filter find_None_iff_ball)
    next
      case False
      then have e: "(\<lambda>f. \<not> (fProject f = q \<and> fName f = name) \<and> fProject f = p \<and> fName f = n) = (\<lambda>f. fProject f = p \<and> fName f = n)"
        by auto
      have "contentOf s2 p n = contentOf s p n"
        unfolding contentOf_def s2(3) s1_def dropFiles_frame find_filter e ..
      with False show ?thesis by auto
    qed
  qed
  moreover have "versionFiles s2 = versionFiles s1"
    using keepsD_eq [OF keeps_touch s2(1)] by (rule besidesFiles_versionFiles)
  ultimately show ?thesis using that s2(2) by (simp add: s1_def)
qed

definition putFile :: "int \<Rightarrow> string \<Rightarrow> string \<Rightarrow> db \<Rightarrow> db" where
  "putFile pid name content s = snd (run_state (UpsertWSFile pid name content) s)"

definition delFile :: "int \<Rightarrow> string \<Rightarrow> db \<Rightarrow> db" where
  "delFile pid name s = snd (run_state (DeleteWSFile pid name) s)"

interpretation wsFiles: keyed_store_del "\<lambda>s. contentOf s pid" "putFile pid" "fileReady pid" "delFile pid" for pid
proof
  fix s name content
  assume s: "fileReady pid s"
  obtain f s' where "run_state (UpsertWSFile pid name content) s = (Inr f, s')" "fileReady pid s'"
    "contentOf s' = (contentOf s)(pid := (contentOf s pid)(name \<mapsto> content))"
    by (rule UpsertWSFile_clean [OF s])
  then show "fileReady pid (putFile pid name content s)"
    and "contentOf (putFile pid name content s) pid = (contentOf s pid)(name \<mapsto> content)"
    by (simp_all add: putFile_def)
next
  fix s name
  assume s: "fileReady pid s"
  obtain s' where "run_state (DeleteWSFile pid name) s = (Inr (), s')" "fileReady pid s'"
    "contentOf s' = (contentOf s)(pid := (contentOf s pid)(name := None))"
    by (rule DeleteWSFile_clean [OF s])
  then show "fileReady pid (delFile pid name s)"
    and "contentOf (delFile pid name s) pid = (contentOf s pid)(name := None)"
    by (simp_all add: delFile_def)
qed

section \<open>Snapshots\<close>

lemma contentOf_Some:
  assumes "wfdb s"
  shows "contentOf s pid n = Some c \<longleftrightarrow> (\<exists>f \<in> set (files s). fProject f = pid \<and> fName f = n \<and> fContent f = c)"
  using find_file(2) [OF assms] by (auto simp: contentOf_def dest: find_SomeD)

lemma set_projectFiles: "set (projectFiles pid s) = {f \<in> set (files s). fProject f = pid}"
  by (auto simp: projectFiles_def)

lemma distinct_projectFiles:
  assumes "wfdb s"
  shows "distinct (map fName (projectFiles pid s))"
proof -
  have u: "uniq (\<lambda>f. (fProject f, fName f)) (files s)" by (rule wfdb_keys [OF assms])
  then have "distinct (files s)" by (auto simp: uniq_def distinct_map)
  then have "distinct (projectFiles pid s)" by (simp add: projectFiles_def)
  moreover have "inj_on fName (set (projectFiles pid s))"
    using uniqD [OF u] by (auto simp: set_projectFiles inj_on_def)
  ultimately show ?thesis by (simp add: distinct_map)
qed

definition frozen :: "int \<Rightarrow> fileRow \<Rightarrow> versionFileRow" where
  "frozen vid f = \<lparr>vfVersion = vid, vfName = fName f, vfContent = fContent f\<rparr>"

lemma insertVersionFiles_clean:
  "ready s \<Longrightarrow> hasId vId (versions s) vid \<Longrightarrow>
    run_state (insertVersionFiles vid fs) s = (Inr (), s\<lparr>versionFiles := versionFiles s @ map (frozen vid) fs\<rparr>)"
proof (induction fs arbitrary: s)
  case (Cons f fs)
  define s1 where "s1 = s\<lparr>versionFiles := versionFiles s @ [frozen vid f]\<rparr>"
  have r: "run_state (insertVersionFile vid f) s = (Inr (), s1)"
    using Cons.prems by (simp add: insertVersionFile_def exec_clean ready_def s1_def frozen_def)
  then have "ready s1"
    using preservesD [OF wf_insertVersionFile, of s vid f] Cons.prems(1) by (simp add: ready_def s1_def)
  moreover have "hasId vId (versions s1) vid" using Cons.prems(2) by (simp add: s1_def)
  ultimately have "run_state (insertVersionFiles vid fs) s1 = (Inr (), s1\<lparr>versionFiles := versionFiles s1 @ map (frozen vid) fs\<rparr>)"
    by (rule Cons.IH)
  with r show ?case by (simp add: clean_runs wrap_def s1_def)
qed simp

lemma nextNumber_free:
  assumes "faults s = []"
  obtains n where "run_state (nextNumber pid) s = (Inr n, s)" "\<not> list_ex (\<lambda>v. vProject v = pid \<and> vNumber v = n) (versions s)"
proof -
  define ns where "ns = map vNumber (filter (\<lambda>v. vProject v = pid) (versions s))"
  define n where "n = (if ns = [] then 1 else Max (set ns) + 1)"
  have "x < n" if "x \<in> set ns" for x using that Max_ge [of "set ns" x] by (auto simp: n_def)
  then have "\<not> list_ex (\<lambda>v. vProject v = pid \<and> vNumber v = n) (versions s)"
    by (force simp: list_ex_iff ns_def)
  with assms show ?thesis by (intro that [of n]) (simp_all add: nextNumber_def query_clean n_def ns_def Let_def)
qed

lemma version_file_bound:
  assumes "wfdb s" and "f \<in> set (versionFiles s)"
  shows "vfVersion f \<le> seqVersion (seqs s)"
proof -
  have "hasId vId (versions s) (vfVersion f)" and k: "keyed vId (seqVersion (seqs s)) (versions s)"
    using assms by (simp_all add: wfdb_def list_all_iff)
  then obtain v where "v \<in> set (versions s)" "vId v = vfVersion f" by (auto simp: hasId_def list_ex_iff)
  with k show ?thesis by (auto simp: keyed_def)
qed

lemma CreateWSVersion_clean:
  assumes s: "fileReady pid s" and ne: "projectFiles pid s \<noteq> []"
  obtains v s1 where "run_state (CreateWSVersion pid label) s = (Inr v, s1)" "vLabel v = label" "vProject v = pid"
    "fileReady pid s1" "files s1 = files s" "snapshotOf (vId v) s1 = map (\<lambda>f. (vfName f, vfContent f))
       (sort_key vfName (map (frozen (vId v)) (projectFiles pid s)))"
proof -
  have f0: "faults s = []" and wf: "wfdb s" and pr: "hasId pId (projects s) pid" using s by (simp_all add: fileReady_def ready_def)
  obtain n where n: "run_state (nextNumber pid) s = (Inr n, s)" "\<not> list_ex (\<lambda>v. vProject v = pid \<and> vNumber v = n) (versions s)"
    by (rule nextNumber_free [OF f0])
  define v where "v = \<lparr>vId = seqVersion (seqs s) + 1, vProject = pid, vNumber = n, vLabel = label, vCreatedAt = clk s\<rparr>"
  define s0 where "s0 = s\<lparr>seqs := seqs s\<lparr>seqVersion := seqVersion (seqs s) + 1\<rparr>, versions := versions s @ [v]\<rparr>"
  have i: "run_state (insertVersion pid n label) s = (Inr (vId v), s0)"
    using f0 n(2) pr by (simp add: insertVersion_def exec_clean Let_def s0_def v_def)
  have r0: "ready s0" using preservesD_eq [OF wf_insertVersion wf i] f0 by (simp add: ready_def s0_def)
  have v0: "hasId vId (versions s0) (vId v)" by (simp add: s0_def hasId_def)
  define s1 where "s1 = s0\<lparr>versionFiles := versionFiles s0 @ map (frozen (vId v)) (projectFiles pid s)\<rparr>"
  have iv: "run_state (insertVersionFiles (vId v) (projectFiles pid s)) s0 = (Inr (), s1)"
    using insertVersionFiles_clean [OF r0 v0] by (simp add: s1_def)
  have wf1: "wfdb s1" by (rule preservesD_eq [OF wf_insertVersionFiles _ iv]) (use r0 in \<open>simp add: ready_def\<close>)
  have f1: "faults s1 = []" using r0 by (simp add: s1_def ready_def)
  have "List.find (\<lambda>y. vId y = vId v) (versions s1) = Some v"
    by (rule find_key [OF wfdb_keys(7) [OF wf1]]) (simp add: s1_def s0_def)
  then have g: "run_state (GetWSVersion (vId v)) s1 = (Inr v, s1)" using f1 by (simp add: GetWSVersion_def query_clean row_def)
  have "run_state (CreateWSVersion pid label) s = (Inr v, s1)"
    using f0 f1 n(1) i iv ne g
    by (simp add: CreateWSVersion_def ListWSFiles_def clean_runs wrap_def transaction_clean)
  moreover have "snapshotOf (vId v) s1 = map (\<lambda>f. (vfName f, vfContent f))
      (sort_key vfName (map (frozen (vId v)) (projectFiles pid s)))"
  proof -
    have "vfVersion f \<le> seqVersion (seqs s)" if "f \<in> set (versionFiles s)" for f
      by (rule version_file_bound [OF wf that])
    then have "filter (\<lambda>f. vfVersion f = vId v) (versionFiles s) = []"
      by (force simp: filter_empty_conv v_def)
    then show ?thesis by (simp add: snapshotOf_def s1_def s0_def frozen_def comp_def)
  qed
  ultimately show ?thesis
    using that [of v s1] wf1 f1 pr by (simp add: fileReady_def ready_def v_def s1_def s0_def)
qed

lemma map_of_frozen:
  assumes "wfdb s"
  shows "map_of (rev (map (\<lambda>f. (vfName f, vfContent f)) (sort_key vfName (map (frozen vid) (projectFiles pid s))))) = contentOf s pid"
proof (rule ext)
  fix n
  define es where "es = rev (map (\<lambda>f. (vfName f, vfContent f)) (sort_key vfName (map (frozen vid) (projectFiles pid s))))"
  have "distinct (map vfName (map (frozen vid) (projectFiles pid s)))"
    using distinct_projectFiles [OF assms, of pid] by (simp add: frozen_def comp_def)
  then have "distinct (map vfName (sort_key vfName (map (frozen vid) (projectFiles pid s))))"
    by (metis distinct_map distinct_sort set_sort)
  moreover have "map fst es = rev (map vfName (sort_key vfName (map (frozen vid) (projectFiles pid s))))"
    by (simp add: es_def rev_map comp_def)
  ultimately have d: "distinct (map fst es)" by (simp only: distinct_rev)
  have e: "set es = (\<lambda>f. (fName f, fContent f)) ` {f \<in> set (files s). fProject f = pid}"
    by (simp add: es_def image_image frozen_def set_projectFiles)
  have "map_of es n = Some c \<longleftrightarrow> contentOf s pid n = Some c" for c
    unfolding map_of_eq_Some_iff [OF d] contentOf_Some [OF assms] e by blast
  then have "map_of es n = contentOf s pid n"
    by (metis not_Some_eq)
  then show "map_of (rev (map (\<lambda>f. (vfName f, vfContent f)) (sort_key vfName (map (frozen vid) (projectFiles pid s))))) n = contentOf s pid n"
    unfolding es_def .
qed

lemma upsertAll_clean:
  "fileReady pid s \<Longrightarrow> run_state (upsertAll pid snaps) s = (Inr (), fold (\<lambda>(k, v). putFile pid k v) snaps s)"
proof (induction snaps arbitrary: s)
  case (Cons kv snaps)
  obtain k v where kv: "kv = (k, v)" by (cases kv)
  obtain f s' where r: "run_state (UpsertWSFile pid k v) s = (Inr f, s')" "fileReady pid s'"
    by (rule UpsertWSFile_clean [OF Cons.prems])
  then show ?case using Cons.IH [OF r(2)] by (simp add: kv clean_runs wrap_def putFile_def)
qed simp

text \<open>Edits of the working files: a save of a file with its new content, or a delete.\<close>

definition applyEdits :: "int \<Rightarrow> (string \<times> string option) list \<Rightarrow> db \<Rightarrow> db" where
  "applyEdits pid = fold (\<lambda>(k, ov). case ov of Some v \<Rightarrow> putFile pid k v | None \<Rightarrow> delFile pid k)"

lemma applyEdits_ready: "fileReady pid s \<Longrightarrow> fileReady pid (applyEdits pid es s)"
  unfolding applyEdits_def using wsFiles.edits by blast

lemma applyEdits_versionFiles: "fileReady pid s \<Longrightarrow> versionFiles (applyEdits pid es s) = versionFiles s"
proof (induction es arbitrary: s)
  case (Cons e es)
  obtain k ov where e: "e = (k, ov)" by (cases e)
  define s1 where "s1 = (case ov of Some v \<Rightarrow> putFile pid k v s | None \<Rightarrow> delFile pid k s)"
  have "fileReady pid s1" using Cons.prems wsFiles.put_ok wsFiles.del_ok by (simp add: s1_def split: option.split)
  moreover have "versionFiles s1 = versionFiles s"
  proof (cases ov)
    case None
    obtain s' where "run_state (DeleteWSFile pid k) s = (Inr (), s')" "versionFiles s' = versionFiles s"
      by (rule DeleteWSFile_clean [OF Cons.prems])
    with None show ?thesis by (simp add: s1_def delFile_def)
  next
    case (Some v)
    then show ?thesis
      using besidesFiles_versionFiles [OF keepsD [OF keeps_UpsertWSFile, of pid k v s]] by (simp add: s1_def putFile_def)
  qed
  moreover have "applyEdits pid (e # es) s = applyEdits pid es s1"
    by (simp add: applyEdits_def e s1_def split: option.split)
  ultimately show ?case using Cons.IH by simp
qed (simp add: applyEdits_def)

text \<open>
  C19: saving a version and restoring it. A version of a project with files can always be saved
  (without outside faults), saving it changes no file, and however the files are edited and deleted
  afterwards, restoring the version succeeds, gives each file of the snapshot the content it had
  when the version was saved, and leaves files that are not in the snapshot as the edits left them.
\<close>

theorem version_restore:
  assumes "fileReady pid s" and "contentOf s pid n0 \<noteq> None"
  shows "\<exists>v s1. run_state (CreateWSVersion pid label) s = (Inr v, s1) \<and> vLabel v = label \<and> files s1 = files s \<and>
    (\<forall>es. \<exists>s2. run_state (RestoreWSVersion pid (vId v)) (applyEdits pid es s1) = (Inr (), s2) \<and>
       contentOf s2 pid = contentOf (applyEdits pid es s1) pid ++ contentOf s pid)"
proof -
  have wf: "wfdb s" using assms(1) by (simp add: fileReady_def ready_def)
  obtain c where "contentOf s pid n0 = Some c" using assms(2) by blast
  then have "set (projectFiles pid s) \<noteq> {}" using contentOf_Some [OF wf] by (auto simp: set_projectFiles)
  then have "projectFiles pid s \<noteq> []" by auto
  then obtain v s1 where v: "run_state (CreateWSVersion pid label) s = (Inr v, s1)" "vLabel v = label" "fileReady pid s1"
      "files s1 = files s" and snap: "snapshotOf (vId v) s1 = map (\<lambda>f. (vfName f, vfContent f))
       (sort_key vfName (map (frozen (vId v)) (projectFiles pid s)))"
    using CreateWSVersion_clean [OF assms(1)] by blast
  have "\<exists>s2. run_state (RestoreWSVersion pid (vId v)) (applyEdits pid es s1) = (Inr (), s2) \<and>
       contentOf s2 pid = contentOf (applyEdits pid es s1) pid ++ contentOf s pid" for es
  proof -
    define t where "t = applyEdits pid es s1"
    have t: "fileReady pid t" using applyEdits_ready v(3) by (simp add: t_def)
    have "snapshotOf (vId v) t = snapshotOf (vId v) s1"
      using applyEdits_versionFiles [OF v(3)] by (simp add: snapshotOf_def t_def)
    then have "run_state (RestoreWSVersion pid (vId v)) t =
        (Inr (), fold (\<lambda>(k, v). putFile pid k v) (snapshotOf (vId v) s1) t)"
      using t upsertAll_clean [OF t] by (simp add: RestoreWSVersion_def clean_runs wrap_def fileReady_def ready_def)
    then show ?thesis
      using wsFiles.put_all [OF t] map_of_frozen [OF wf] by (simp add: t_def snap)
  qed
  with v show ?thesis by blast
qed

text \<open>A project with one file.\<close>

definition oneFileDB :: db where
  "oneFileDB = sharedDB\<lparr>
     files := [\<lparr>fId = 1, fProject = 1, fName = ''main.flow'', fContent = ''a'', fPosition = 0, fCreatedAt = [], fUpdatedAt = []\<rparr>],
     seqs := (seqs sharedDB)\<lparr>seqFile := 1\<rparr>\<rparr>"

lemma fileReady_oneFileDB: "fileReady 1 oneFileDB"
  by (simp add: fileReady_def ready_def wfdb_def oneFileDB_def sharedDB_def emptyDB_def keyed_def uniq_def hasId_def)

theorem version_restore_witness:
  "\<exists>v s1 s2. run_state (CreateWSVersion 1 ''v1'') oneFileDB = (Inr v, s1) \<and>
     run_state (RestoreWSVersion 1 (vId v)) (applyEdits 1 [(''main.flow'', Some ''b''), (''main.flow'', None)] s1) = (Inr (), s2) \<and>
     contentOf s2 1 ''main.flow'' = Some ''a''"
proof -
  have c: "contentOf oneFileDB 1 ''main.flow'' = Some ''a''" by (simp add: contentOf_def oneFileDB_def)
  obtain v s1 where "run_state (CreateWSVersion 1 ''v1'') oneFileDB = (Inr v, s1)"
    and r: "\<forall>es. \<exists>s2. run_state (RestoreWSVersion 1 (vId v)) (applyEdits 1 es s1) = (Inr (), s2) \<and>
       contentOf s2 1 = contentOf (applyEdits 1 es s1) 1 ++ contentOf oneFileDB 1"
    using version_restore [OF fileReady_oneFileDB, of "''main.flow''" "''v1''"] c by auto
  moreover define es where "es = [(''main.flow'', Some ''b''), (''main.flow'', None)]"
  from spec [OF r, of es] obtain s2 where s2: "run_state (RestoreWSVersion 1 (vId v)) (applyEdits 1 es s1) = (Inr (), s2)"
    "contentOf s2 1 = contentOf (applyEdits 1 es s1) 1 ++ contentOf oneFileDB 1" by blast
  moreover have "contentOf s2 1 ''main.flow'' = Some ''a''"
    unfolding s2(2) map_add_def by (simp add: c)
  ultimately show ?thesis unfolding es_def by blast
qed

end
