(* ===== verification/StoreRuns.thy ===== *)
theory StoreRuns
  imports StoreFiles
begin

text \<open>
  Deployments, triggers, executions and key/value entries: the second half of
  server/internal/store/workspaces_content.go with deployments.go, triggers.go and executions.go.
  Go pointers that may be nil are options; the time columns \<open>next_run_at\<close>, \<open>last_run_at\<close>,
  \<open>started_at\<close> and \<open>finished_at\<close>, which hold what \<open>FormatTime\<close> wrote, are stamps (theory
  Schedule), and an empty time string is None. A random slug is made of the bytes that
  \<open>rand.Read\<close> delivers (it does not fail in the Go release the module asks for).
\<close>

section \<open>Deployments\<close>

record Deployment =
  depId :: int
  depProject :: int
  depFile :: int
  depFileName :: string
  depSlug :: string
  depVersion :: "int option"
  depEnabled :: bool
  depCreatedAt :: string
  depUpdatedAt :: string

definition byte_bits :: "char \<Rightarrow> bool list" where
  "byte_bits c = map (\<lambda>i. odd (byte c div 2 ^ i)) [7, 6, 5, 4, 3, 2, 1, 0]"

definition base32_char :: "bool list \<Rightarrow> char" where
  "base32_char g =
     ''abcdefghijklmnopqrstuvwxyz234567'' !
       foldl (\<lambda>n b. 2 * n + (if b then 1 else 0)) 0 (g @ replicate (5 - length g) False)"

fun base32 :: "bool list \<Rightarrow> string" where
  "base32 [] = []"
| "base32 (b # bs) = base32_char (take 5 (b # bs)) # base32 (drop 4 bs)"

definition randomSlug :: "bytes \<Rightarrow> string" where
  "randomSlug buf = base32 (concat (map byte_bits buf))"

definition scanDeployment :: "fileRow \<Rightarrow> deploymentRow \<Rightarrow> Deployment" where
  "scanDeployment f d = \<lparr>depId = dId d, depProject = dProject d, depFile = dFile d, depFileName = fName f,
     depSlug = dSlug d, depVersion = dVersion d, depEnabled = dEnabled d, depCreatedAt = dCreatedAt d,
     depUpdatedAt = dUpdatedAt d\<rparr>"

text \<open>\<open>wsDeploymentQuery\<close>: deployments joined with their file.\<close>

definition wsDeploymentQuery :: "(deploymentRow \<Rightarrow> bool) \<Rightarrow> db \<Rightarrow> Deployment list" where
  "wsDeploymentQuery P s =
     concat (map (\<lambda>d. map (\<lambda>f. scanDeployment f d) (filter (\<lambda>f. fId f = dFile d) (files s))) (filter P (deployments s)))"

definition insertDeployment :: "int \<Rightarrow> int \<Rightarrow> string \<Rightarrow> int option \<Rightarrow> int stm" where
  "insertDeployment pid fid slug vid = exec (\<lambda>s.
     let i = seqDeployment (seqs s) + 1;
         s1 = s\<lparr>seqs := seqs s\<lparr>seqDeployment := i\<rparr>\<rparr>
     in if list_ex (\<lambda>d. dSlug d = slug) (deployments s) then (Inl uniqueViolation, s1)
        else if hasId pId (projects s) pid \<and> hasId fId (files s) fid \<and> hasRef vId (versions s) vid
        then (Inr i, s1\<lparr>deployments := deployments s @
               [\<lparr>dId = i, dProject = pid, dFile = fid, dSlug = slug, dVersion = vid, dEnabled = True,
                 dCreatedAt = clk s, dUpdatedAt = clk s\<rparr>]\<rparr>)
        else (Inl foreignKeyViolation, s1))"

definition GetWSDeployment :: "int \<Rightarrow> Deployment stm" where
  "GetWSDeployment i = query (\<lambda>s. row (\<lambda>_. True) (wsDeploymentQuery (\<lambda>d. dId d = i) s))"

definition GetWSDeploymentBySlug :: "string \<Rightarrow> Deployment stm" where
  "GetWSDeploymentBySlug slug = query (\<lambda>s. row (\<lambda>_. True) (wsDeploymentQuery (\<lambda>d. dSlug d = slug) s))"

definition CreateWSDeployment :: "(nat \<Rightarrow> bytes) \<Rightarrow> int \<Rightarrow> int \<Rightarrow> int option \<Rightarrow> Deployment stm" where
  "CreateWSDeployment rnd pid fid vid =
     andThen (retryUnique 10 0 (\<lambda>attempt. insertDeployment pid fid (randomSlug (rnd attempt)) vid)
                ''insert ws deployment'' (Msg ''could not generate a unique deployment slug''))
       GetWSDeployment"

definition ListWSDeployments :: "int \<Rightarrow> Deployment list stm" where
  "ListWSDeployments pid = orWrap ''list ws deployments''
     (query (\<lambda>s. Inr (sort_desc depCreatedAt (wsDeploymentQuery (\<lambda>d. dProject d = pid) s))))"

definition SetWSDeploymentEnabled :: "int \<Rightarrow> bool \<Rightarrow> unit stm" where
  "SetWSDeploymentEnabled i enabled = update (\<lambda>s.
     s\<lparr>deployments := alter (\<lambda>d. dId d = i) (\<lambda>d. d\<lparr>dEnabled := enabled, dUpdatedAt := clk s\<rparr>) (deployments s)\<rparr>)"

definition DeleteWSDeployment :: "int \<Rightarrow> unit stm" where
  "DeleteWSDeployment i = update (dropDeployments (\<lambda>d. dId d = i))"

section \<open>Triggers\<close>

record Trigger =
  trId :: int
  trProject :: int
  trFile :: int
  trFileName :: string
  trVersion :: "int option"
  trScheduleType :: string
  trIntervalSeconds :: "int option"
  trDailyTimeUTC :: string
  trEnabled :: bool
  trNextRunAt :: stamp
  trLastRunAt :: "stamp option"
  trCreatedAt :: string
  trUpdatedAt :: string

record NewTrigger =
  ntProject :: int
  ntFile :: int
  ntVersion :: "int option"
  ntScheduleType :: string
  ntIntervalSeconds :: "int option"
  ntDailyTimeUTC :: string
  ntNextRunAt :: stamp

definition nullIfEmpty :: "string \<Rightarrow> string option" where
  "nullIfEmpty t = (if t = [] then None else Some t)"

definition scanTrigger :: "fileRow \<Rightarrow> triggerRow \<Rightarrow> Trigger" where
  "scanTrigger f t = \<lparr>trId = tId t, trProject = tProject t, trFile = tFile t, trFileName = fName f,
     trVersion = tVersion t, trScheduleType = tScheduleType t, trIntervalSeconds = tInterval t,
     trDailyTimeUTC = (case tDailyTime t of None \<Rightarrow> [] | Some d \<Rightarrow> d), trEnabled = tEnabled t,
     trNextRunAt = tNextRunAt t, trLastRunAt = tLastRunAt t, trCreatedAt = tCreatedAt t, trUpdatedAt = tUpdatedAt t\<rparr>"

definition wsTriggerQuery :: "(triggerRow \<Rightarrow> bool) \<Rightarrow> db \<Rightarrow> Trigger list" where
  "wsTriggerQuery P s =
     concat (map (\<lambda>t. map (\<lambda>f. scanTrigger f t) (filter (\<lambda>f. fId f = tFile t) (files s))) (filter P (triggers s)))"

text \<open>An interval that does not fit the INTEGER column is refused before the statement is sent (theory Schema).\<close>

definition insertTrigger :: "NewTrigger \<Rightarrow> int stm" where
  "insertTrigger nt = exec (\<lambda>s.
     let i = seqTrigger (seqs s) + 1;
         s1 = s\<lparr>seqs := seqs s\<lparr>seqTrigger := i\<rparr>\<rparr>
     in if \<not> fits (ntIntervalSeconds nt) then (Inl outOfRange, s)
        else if hasId pId (projects s) (ntProject nt) \<and> hasId fId (files s) (ntFile nt) \<and> hasRef vId (versions s) (ntVersion nt)
        then (Inr i, s1\<lparr>triggers := triggers s @
               [\<lparr>tId = i, tProject = ntProject nt, tFile = ntFile nt, tVersion = ntVersion nt,
                 tScheduleType = ntScheduleType nt, tInterval = ntIntervalSeconds nt,
                 tDailyTime = nullIfEmpty (ntDailyTimeUTC nt), tEnabled = True, tNextRunAt = ntNextRunAt nt,
                 tLastRunAt = None, tCreatedAt = clk s, tUpdatedAt = clk s\<rparr>]\<rparr>)
        else (Inl foreignKeyViolation, s1))"

definition GetWSTrigger :: "int \<Rightarrow> Trigger stm" where
  "GetWSTrigger i = query (\<lambda>s. row (\<lambda>_. True) (wsTriggerQuery (\<lambda>t. tId t = i) s))"

definition CreateWSTrigger :: "NewTrigger \<Rightarrow> Trigger stm" where
  "CreateWSTrigger nt = andThen (orWrap ''insert ws trigger'' (insertTrigger nt)) GetWSTrigger"

definition ListWSTriggers :: "int \<Rightarrow> Trigger list stm" where
  "ListWSTriggers pid = orWrap ''list ws triggers''
     (query (\<lambda>s. Inr (sort_desc trCreatedAt (wsTriggerQuery (\<lambda>t. tProject t = pid) s))))"

definition WSDueTriggers :: "stamp \<Rightarrow> Trigger list stm" where
  "WSDueTriggers nowUTC = orWrap ''list ws due triggers''
     (query (\<lambda>s. Inr (wsTriggerQuery (\<lambda>t. tEnabled t \<and> tNextRunAt t \<le> nowUTC) s)))"

definition SetWSTriggerEnabled :: "int \<Rightarrow> bool \<Rightarrow> unit stm" where
  "SetWSTriggerEnabled i enabled = update (\<lambda>s.
     s\<lparr>triggers := alter (\<lambda>t. tId t = i) (\<lambda>t. t\<lparr>tEnabled := enabled, tUpdatedAt := clk s\<rparr>) (triggers s)\<rparr>)"

definition RecordWSTriggerRun :: "int \<Rightarrow> stamp \<Rightarrow> stamp \<Rightarrow> unit stm" where
  "RecordWSTriggerRun i lastRunAt nextRunAt = update (\<lambda>s.
     s\<lparr>triggers := alter (\<lambda>t. tId t = i)
         (\<lambda>t. t\<lparr>tLastRunAt := Some lastRunAt, tNextRunAt := nextRunAt, tUpdatedAt := clk s\<rparr>) (triggers s)\<rparr>)"

definition DeleteWSTrigger :: "int \<Rightarrow> unit stm" where
  "DeleteWSTrigger i = update (dropTriggers (\<lambda>t. tId t = i))"

section \<open>Executions\<close>

record Execution =
  exId :: int
  exProject :: int
  exFile :: "int option"
  exFileName :: string
  exVersion :: "int option"
  exSource :: string
  exDeployment :: "int option"
  exTrigger :: "int option"
  exActor :: "int option"
  exStartedAt :: stamp
  exFinishedAt :: "stamp option"
  exDurationMs :: "int option"
  exCompileExitCode :: "int option"
  exCompileStderr :: string
  exRunExitCode :: "int option"
  exRunStderr :: string
  exTimedOut :: bool
  exTruncated :: bool
  exError :: string

record RunSummary =
  rsCompileExitCode :: int
  rsCompileStderr :: string
  rsCompileTimedOut :: bool
  rsCompileDurationMs :: int
  rsHasRun :: bool
  rsRunExitCode :: int
  rsRunStderr :: string
  rsRunTimedOut :: bool
  rsRunDurationMs :: int
  rsTruncated :: bool

record NewExecution =
  neProject :: int
  neFile :: "int option"
  neFileName :: string
  neVersion :: "int option"
  neSource :: string
  neDeployment :: "int option"
  neTrigger :: "int option"
  neStartedAt :: stamp
  neFinishedAt :: stamp
  neSummary :: "RunSummary option"
  neErr :: "goerr option"

record execFields =
  xfDurationMs :: "int option"
  xfCompileExit :: "int option"
  xfRunExit :: "int option"
  xfCompileStderr :: string
  xfRunStderr :: string
  xfTimedOut :: bool
  xfTruncated :: bool
  xfErrMsg :: string

definition executionFields :: "unicode \<Rightarrow> NewExecution \<Rightarrow> execFields" where
  "executionFields U ne =
     (let errMsg = (case neErr ne of None \<Rightarrow> [] | Some e \<Rightarrow> errText U e) in
      case neSummary ne of
        None \<Rightarrow> \<lparr>xfDurationMs = None, xfCompileExit = None, xfRunExit = None, xfCompileStderr = [], xfRunStderr = [],
                 xfTimedOut = False, xfTruncated = False, xfErrMsg = errMsg\<rparr>
      | Some r \<Rightarrow>
          \<lparr>xfDurationMs = Some (if rsHasRun r then rsCompileDurationMs r + rsRunDurationMs r else rsCompileDurationMs r),
           xfCompileExit = Some (rsCompileExitCode r),
           xfRunExit = (if rsHasRun r then Some (rsRunExitCode r) else None),
           xfCompileStderr = rsCompileStderr r,
           xfRunStderr = (if rsHasRun r then rsRunStderr r else []),
           xfTimedOut = (if rsHasRun r then rsCompileTimedOut r \<or> rsRunTimedOut r else rsCompileTimedOut r),
           xfTruncated = rsTruncated r,
           xfErrMsg = errMsg\<rparr>)"

definition insertExecution :: "NewExecution \<Rightarrow> execFields \<Rightarrow> int option \<Rightarrow> int stm" where
  "insertExecution ne xf actorID = exec (\<lambda>s.
     let i = seqExecution (seqs s) + 1;
         s1 = s\<lparr>seqs := seqs s\<lparr>seqExecution := i\<rparr>\<rparr>
     in if \<not> (fits (xfDurationMs xf) \<and> fits (xfCompileExit xf) \<and> fits (xfRunExit xf)) then (Inl outOfRange, s)
        else if hasId pId (projects s) (neProject ne) \<and> hasRef fId (files s) (neFile ne) \<and>
          hasRef vId (versions s) (neVersion ne) \<and> hasRef dId (deployments s) (neDeployment ne) \<and>
          hasRef tId (triggers s) (neTrigger ne) \<and> hasRef uId (users s) actorID
        then (Inr i, s1\<lparr>executions := executions s @
               [\<lparr>eId = i, eProject = neProject ne, eFile = neFile ne, eFileName = neFileName ne, eVersion = neVersion ne,
                 eSource = neSource ne, eDeployment = neDeployment ne, eTrigger = neTrigger ne, eActor = actorID,
                 eStartedAt = neStartedAt ne, eFinishedAt = Some (neFinishedAt ne), eDurationMs = xfDurationMs xf,
                 eCompileExit = xfCompileExit xf, eCompileStderr = Some (xfCompileStderr xf), eRunExit = xfRunExit xf,
                 eRunStderr = Some (xfRunStderr xf), eTimedOut = xfTimedOut xf, eTruncated = xfTruncated xf,
                 eError = nullIfEmpty (xfErrMsg xf)\<rparr>]\<rparr>)
        else (Inl foreignKeyViolation, s1))"

text \<open>\<open>sql.NullString\<close>: the text of a NULL is empty.\<close>

definition nullString :: "string option \<Rightarrow> string" where
  "nullString v = (case v of None \<Rightarrow> [] | Some t \<Rightarrow> t)"

definition scanWSExecution :: "executionRow \<Rightarrow> Execution" where
  "scanWSExecution e = \<lparr>exId = eId e, exProject = eProject e, exFile = eFile e, exFileName = eFileName e,
     exVersion = eVersion e, exSource = eSource e, exDeployment = eDeployment e, exTrigger = eTrigger e,
     exActor = eActor e, exStartedAt = eStartedAt e, exFinishedAt = eFinishedAt e, exDurationMs = eDurationMs e,
     exCompileExitCode = eCompileExit e, exCompileStderr = nullString (eCompileStderr e), exRunExitCode = eRunExit e,
     exRunStderr = nullString (eRunStderr e), exTimedOut = eTimedOut e, exTruncated = eTruncated e,
     exError = nullString (eError e)\<rparr>"

definition GetWSExecution :: "int \<Rightarrow> Execution stm" where
  "GetWSExecution i = query (\<lambda>s. map_sum id scanWSExecution (row (\<lambda>e. eId e = i) (executions s)))"

definition RecordWSSExecution :: "unicode \<Rightarrow> NewExecution \<Rightarrow> int option \<Rightarrow> Execution stm" where
  "RecordWSSExecution U ne actorID =
     andThen (orWrap ''insert ws execution'' (insertExecution ne (executionFields U ne) actorID)) GetWSExecution"

definition ListWSExecutions :: "int \<Rightarrow> int \<Rightarrow> int \<Rightarrow> Execution list stm" where
  "ListWSExecutions pid lim0 beforeID =
     (let lim1 = (if lim0 \<le> 0 \<or> 200 < lim0 then 50 else lim0) in
      orWrap ''list ws executions'' (query (\<lambda>s. Inr (map scanWSExecution (take (nat lim1) (sort_desc eId
        (filter (\<lambda>e. eProject e = pid \<and> (0 < beforeID \<longrightarrow> eId e < beforeID)) (executions s))))))))"

text \<open>The rank of an execution in its project, the newest having rank 1.\<close>

definition execRank :: "executionRow list \<Rightarrow> executionRow \<Rightarrow> nat" where
  "execRank es e = length (filter (\<lambda>x. eProject x = eProject e \<and> eId e \<le> eId x) es)"

definition PruneWSExecutions :: "int \<Rightarrow> int stm" where
  "PruneWSExecutions keepPerProject = orWrap ''prune ws executions'' (exec (\<lambda>s.
     let old = (\<lambda>e. keepPerProject < int (execRank (executions s) e)) in
     (Inr (int (length (filter old (executions s)))), dropExecutions old s)))"

record AuditEntry =
  auExecution :: Execution
  auProjectName :: string
  auActorEmail :: string

definition ListWSAudit :: "int \<Rightarrow> AuditEntry list stm" where
  "ListWSAudit lim0 =
     (let lim1 = (if lim0 \<le> 0 \<or> 200 < lim0 then 100 else lim0) in
      orWrap ''list ws audit'' (query (\<lambda>s. Inr (take (nat lim1)
        (concat (map (\<lambda>e. concat (map (\<lambda>p. map (\<lambda>u.
             \<lparr>auExecution = scanWSExecution e,
              auProjectName = (case p of None \<Rightarrow> [] | Some q \<Rightarrow> pName q),
              auActorEmail = (case u of None \<Rightarrow> [] | Some v \<Rightarrow> uEmail v)\<rparr>)
           (leftJoin (filter (\<lambda>u. Some (uId u) = eActor e) (users s))))
           (leftJoin (filter (\<lambda>p. pId p = eProject e) (projects s)))))
         (sort_desc eId (executions s))))))))"

section \<open>Key/value entries\<close>

definition upsertKV :: "int \<Rightarrow> string \<Rightarrow> string \<Rightarrow> int option \<Rightarrow> unit stm" where
  "upsertKV pid key v src = exec (\<lambda>s.
     let same = (\<lambda>k. kProject k = pid \<and> kKey k = key) in
     if \<not> hasRef eId (executions s) src then (Inl foreignKeyViolation, s)
     else if list_ex same (kvs s)
     then (Inr (), s\<lparr>kvs := alter same (\<lambda>k. k\<lparr>kValue := v, kUpdatedAt := clk s, kSourceExecution := src\<rparr>) (kvs s)\<rparr>)
     else if hasId pId (projects s) pid
     then (Inr (), s\<lparr>kvs := kvs s @ [\<lparr>kProject = pid, kKey = key, kValue = v, kUpdatedAt = clk s, kSourceExecution = src\<rparr>]\<rparr>)
     else (Inl foreignKeyViolation, s))"

definition UpsertWSKV :: "int \<Rightarrow> string \<Rightarrow> string \<Rightarrow> int option \<Rightarrow> unit stm" where
  "UpsertWSKV pid key v src = orWrap ''upsert ws kv'' (upsertKV pid key v src)"

definition ListWSKV :: "int \<Rightarrow> kvRow list stm" where
  "ListWSKV pid = orWrap ''list ws kv'' (query (\<lambda>s. Inr (sort_key kKey (filter (\<lambda>k. kProject k = pid) (kvs s)))))"

definition DeleteWSKV :: "int \<Rightarrow> string \<Rightarrow> unit stm" where
  "DeleteWSKV pid key = update (\<lambda>s. s\<lparr>kvs := filter (\<lambda>k. \<not> (kProject k = pid \<and> kKey k = key)) (kvs s)\<rparr>)"

section \<open>The constraints are kept\<close>

lemma wf_insertDeployment: "preserves wfdb (insertDeployment pid fid slug vid)"
  unfolding insertDeployment_def by (rule wf_exec) (simp add: wfdb_def Let_def row_simps)

lemma wf_insertTrigger: "preserves wfdb (insertTrigger nt)"
  unfolding insertTrigger_def by (rule wf_exec) (simp add: wfdb_def Let_def row_simps)

lemma wf_insertExecution: "preserves wfdb (insertExecution ne xf a)"
  unfolding insertExecution_def by (rule wf_exec) (simp add: wfdb_def Let_def row_simps)

lemma wf_upsertKV: "preserves wfdb (upsertKV pid key v src)"
  unfolding upsertKV_def by (rule wf_exec) (simp add: wfdb_def Let_def row_simps)

lemmas runReads = GetWSDeployment_def GetWSDeploymentBySlug_def ListWSDeployments_def GetWSTrigger_def ListWSTriggers_def
  WSDueTriggers_def GetWSExecution_def ListWSExecutions_def ListWSAudit_def ListWSKV_def Let_def

lemma runReads_wf [inv_intros]:
  shows "preserves wfdb (GetWSDeployment i)" "preserves wfdb (GetWSDeploymentBySlug slug)" "preserves wfdb (ListWSDeployments i)"
    "preserves wfdb (GetWSTrigger i)" "preserves wfdb (ListWSTriggers i)" "preserves wfdb (WSDueTriggers t)"
    "preserves wfdb (GetWSExecution i)" "preserves wfdb (ListWSExecutions i j k)" "preserves wfdb (ListWSAudit i)"
    "preserves wfdb (ListWSKV i)"
  unfolding runReads by (intro inv_intros)+

lemma runReads_keep [keeps_intros]:
  assumes "ignores_faults f"
  shows "keeps f (GetWSDeployment i)" "keeps f (GetWSDeploymentBySlug slug)" "keeps f (ListWSDeployments i)"
    "keeps f (GetWSTrigger i)" "keeps f (ListWSTriggers i)" "keeps f (WSDueTriggers t)"
    "keeps f (GetWSExecution i)" "keeps f (ListWSExecutions i j k)" "keeps f (ListWSAudit i)"
    "keeps f (ListWSKV i)"
  unfolding runReads by (intro keeps_intros assms)+

lemma runReads_reads [reads_intros]:
  shows "reads (GetWSDeployment i)" "reads (GetWSDeploymentBySlug slug)" "reads (ListWSDeployments i)"
    "reads (GetWSTrigger i)" "reads (ListWSTriggers i)" "reads (WSDueTriggers t)"
    "reads (GetWSExecution i)" "reads (ListWSExecutions i j k)" "reads (ListWSAudit i)"
    "reads (ListWSKV i)"
  unfolding runReads by (intro reads_intros)+

lemma runWrites_wf [inv_intros]:
  shows "preserves wfdb (CreateWSDeployment rnd pid fid vid)" "preserves wfdb (CreateWSTrigger nt)"
    "preserves wfdb (RecordWSSExecution U ne a)" "preserves wfdb (UpsertWSKV pid key v src)"
  unfolding CreateWSDeployment_def CreateWSTrigger_def RecordWSSExecution_def UpsertWSKV_def
  by (intro inv_intros wf_insertDeployment wf_insertTrigger wf_insertExecution wf_upsertKV)+

lemma wf_SetWSDeploymentEnabled [inv_intros]: "preserves wfdb (SetWSDeploymentEnabled i b)"
  unfolding SetWSDeploymentEnabled_def by (rule wf_update) (simp add: wfdb_def row_simps)

lemma wf_DeleteWSDeployment [inv_intros]: "preserves wfdb (DeleteWSDeployment i)"
  unfolding DeleteWSDeployment_def by (rule wf_update) (rule wf_dropDeployments)

lemma wf_SetWSTriggerEnabled [inv_intros]: "preserves wfdb (SetWSTriggerEnabled i b)"
  unfolding SetWSTriggerEnabled_def by (rule wf_update) (simp add: wfdb_def row_simps)

lemma wf_RecordWSTriggerRun [inv_intros]: "preserves wfdb (RecordWSTriggerRun i t u)"
  unfolding RecordWSTriggerRun_def by (rule wf_update) (simp add: wfdb_def row_simps)

lemma wf_DeleteWSTrigger [inv_intros]: "preserves wfdb (DeleteWSTrigger i)"
  unfolding DeleteWSTrigger_def by (rule wf_update) (rule wf_dropTriggers)

lemma wf_PruneWSExecutions [inv_intros]: "preserves wfdb (PruneWSExecutions n)"
  unfolding PruneWSExecutions_def by (intro inv_intros wf_exec) (simp add: Let_def wf_dropExecutions)

lemma wf_DeleteWSKV [inv_intros]: "preserves wfdb (DeleteWSKV pid key)"
  unfolding DeleteWSKV_def by (rule wf_update) (simp add: wfdb_def row_simps)

section \<open>Slugs of deployments\<close>

lemma length_base32: "length (base32 bs) = (length bs + 4) div 5"
proof (induction bs rule: base32.induct)
  case (2 b bs)
  then show ?case by (cases "length bs < 4") auto
qed simp

lemma foldl_bits: "foldl (\<lambda>n b. 2 * n + (if b then 1 else 0)) (a :: nat) bs < (a + 1) * 2 ^ length bs"
proof (induction bs arbitrary: a)
  case (Cons b bs)
  have "2 * a + (if b then 1 else 0) + 1 \<le> (a + 1) * 2" by simp
  then have "(2 * a + (if b then 1 else 0) + 1) * 2 ^ length bs \<le> ((a + 1) * 2) * 2 ^ length bs" by (rule mult_le_mono1)
  with Cons.IH [of "2 * a + (if b then 1 else 0)"] show ?case by simp
qed simp

lemma base32_char_range: "length g \<le> 5 \<Longrightarrow> base32_char g \<in> set ''abcdefghijklmnopqrstuvwxyz234567''"
proof -
  assume "length g \<le> 5"
  then have "length (g @ replicate (5 - length g) False) = 5" by simp
  from foldl_bits [of 0 "g @ replicate (5 - length g) False", unfolded this]
  have "foldl (\<lambda>n b. 2 * n + (if b then 1 else 0)) 0 (g @ replicate (5 - length g) False)
      < (32 :: nat)" by simp
  also have "(32 :: nat) = length ''abcdefghijklmnopqrstuvwxyz234567''" by simp
  finally have "foldl (\<lambda>n b. 2 * n + (if b then 1 else 0)) 0 (g @ replicate (5 - length g) False)
      < length ''abcdefghijklmnopqrstuvwxyz234567''" .
  then show ?thesis unfolding base32_char_def by (rule nth_mem)
qed

lemma base32_chars: "set (base32 bs) \<subseteq> set ''abcdefghijklmnopqrstuvwxyz234567''"
proof (induction bs rule: base32.induct)
  case (2 b bs)
  have "base32_char (take 5 (b # bs)) \<in> set ''abcdefghijklmnopqrstuvwxyz234567''"
    by (rule base32_char_range) simp
  with 2 show ?case by (simp only: base32.simps list.set insert_subset)
qed simp

lemma length_byte_bits: "length (concat (map byte_bits buf)) = 8 * length buf"
  by (induction buf) (simp_all add: byte_bits_def)

lemma randomSlug_shape:
  "length buf = 8 \<Longrightarrow> length (randomSlug buf) = 13 \<and> set (randomSlug buf) \<subseteq> set ''abcdefghijklmnopqrstuvwxyz234567''"
  using base32_chars [of "concat (map byte_bits buf)"] by (simp add: randomSlug_def length_base32 length_byte_bits)

section \<open>Pruning\<close>

lemma ranks_count:
  fixes A :: "int set"
  assumes "finite A"
  shows "card {x \<in> A. card {y \<in> A. x \<le> y} \<le> k} = min k (card A)"
proof -
  define rank where "rank = (\<lambda>x. card {y \<in> A. x \<le> y})"
  have less: "rank y < rank x" if "x \<in> A" "x < y" for x y
  proof -
    have "x \<in> {z \<in> A. x \<le> z} - {z \<in> A. y \<le> z}" and "{z \<in> A. y \<le> z} \<subseteq> {z \<in> A. x \<le> z}" using that by auto
    then have "{z \<in> A. y \<le> z} \<subset> {z \<in> A. x \<le> z}" by blast
    then show ?thesis unfolding rank_def using assms by (intro psubset_card_mono) simp_all
  qed
  have inj: "inj_on rank A"
  proof (rule inj_onI)
    fix x y
    assume "x \<in> A" "y \<in> A" "rank x = rank y"
    then show "x = y" using less [of x y] less [of y x] by (cases x y rule: linorder_cases) auto
  qed
  have "rank x \<in> {1..card A}" if "x \<in> A" for x
  proof -
    have "{x} \<subseteq> {y \<in> A. x \<le> y}" using that by auto
    then have "card {x} \<le> rank x" unfolding rank_def using assms by (intro card_mono) auto
    moreover have "rank x \<le> card A" unfolding rank_def using assms by (intro card_mono) auto
    ultimately show ?thesis by simp
  qed
  then have "rank ` A \<subseteq> {1..card A}" by blast
  then have img: "rank ` A = {1..card A}" by (intro card_subset_eq) (simp_all add: card_image [OF inj])
  have "rank ` {x \<in> A. rank x \<le> k} = {1..card A} \<inter> {..k}" unfolding img [symmetric] by auto
  also have "\<dots> = {1..min k (card A)}" by auto
  finally have "card (rank ` {x \<in> A. rank x \<le> k}) = min k (card A)" by simp
  moreover have "inj_on rank {x \<in> A. rank x \<le> k}" using inj by (rule inj_on_subset) auto
  ultimately show ?thesis by (simp add: card_image rank_def)
qed

definition ofProject :: "int \<Rightarrow> executionRow list \<Rightarrow> executionRow list" where
  "ofProject pid es = filter (\<lambda>e. eProject e = pid) es"

lemma distinct_filter_card:
  "distinct (map key xs) \<Longrightarrow> length (filter P xs) = card (key ` {x \<in> set xs. P x})"
proof -
  assume d: "distinct (map key xs)"
  then have "distinct (map key (filter P xs))" by (rule distinct_map_filter)
  from distinct_card [OF this] show ?thesis by simp
qed

lemma pruned_count:
  assumes "uniq eId es"
  shows "length (ofProject pid (filter (\<lambda>e. execRank es e \<le> k) es)) = min k (length (ofProject pid es))"
proof -
  define A where "A = eId ` {e \<in> set es. eProject e = pid}"
  have d: "distinct (map eId es)" using assms by (simp add: uniq_def)
  have r: "execRank es e = card {y \<in> A. eId e \<le> y}" if "eProject e = pid" for e
    unfolding execRank_def distinct_filter_card [OF d] using that
    by (intro arg_cong [where f = card]) (auto simp: A_def)
  have "length (ofProject pid (filter (\<lambda>e. execRank es e \<le> k) es)) =
      card (eId ` {e \<in> set es. execRank es e \<le> k \<and> eProject e = pid})"
    unfolding ofProject_def filter_filter distinct_filter_card [OF d] by (simp add: conj_commute)
  also have "eId ` {e \<in> set es. execRank es e \<le> k \<and> eProject e = pid} = {x \<in> A. card {y \<in> A. x \<le> y} \<le> k}"
    using r by (auto simp: A_def)
  also have "card \<dots> = min k (card A)" by (rule ranks_count) (simp add: A_def)
  also have "card A = length (ofProject pid es)"
    unfolding ofProject_def distinct_filter_card [OF d] A_def ..
  finally show ?thesis .
qed

lemma execRank_less: "e \<in> set es \<Longrightarrow> eProject e = eProject f \<Longrightarrow> eId e < eId f \<Longrightarrow> execRank es f < execRank es e"
proof -
  assume e: "e \<in> set es" "eProject e = eProject f" "eId e < eId f"
  have "length (filter P xs) < length (filter Q xs)" if "\<And>x. P x \<Longrightarrow> Q x" "y \<in> set xs" "Q y" "\<not> P y"
    for P Q :: "executionRow \<Rightarrow> bool" and xs y
    using that(2)
  proof (induction xs)
    case (Cons x xs)
    have "length (filter P xs) \<le> length (filter Q xs)" using that(1) by (induction xs) auto
    with Cons that show ?case by (auto simp: less_Suc_eq_le)
  qed simp
  from this [of "\<lambda>x. eProject x = eProject f \<and> eId f \<le> eId x" "\<lambda>x. eProject x = eProject e \<and> eId e \<le> eId x" e es]
  show ?thesis using e by (auto simp: execRank_def)
qed

text \<open>
  C30: pruning executions. Of each project exactly the newest \<open>keep\<close> executions stay (all, when
  there are fewer), every execution removed is older than every one that stays, their app calls
  go with them and no others do, the count returned is the number removed, and no other table
  loses a row.
\<close>

theorem PruneWSExecutions_keeps_newest:
  assumes "ready s"
  shows "\<exists>s'. run_state (PruneWSExecutions (int keep)) s = (Inr (int (length (executions s)) - int (length (executions s'))), s') \<and>
    set (executions s') \<subseteq> set (executions s) \<and>
    (\<forall>pid. length (ofProject pid (executions s')) = min keep (length (ofProject pid (executions s)))) \<and>
    (\<forall>a \<in> set (executions s'). \<forall>r \<in> set (executions s) - set (executions s'). eProject a = eProject r \<longrightarrow> eId r < eId a) \<and>
    appCallRows s' = filter (\<lambda>c. \<not> (\<exists>e \<in> set (executions s) - set (executions s'). eId e = acExecution c)) (appCallRows s) \<and>
    projects s' = projects s \<and> files s' = files s \<and> map kKey (kvs s') = map kKey (kvs s) \<and> triggers s' = triggers s \<and>
    deployments s' = deployments s"
proof -
  define old where "old = (\<lambda>e. int keep < int (execRank (executions s) e))"
  define s' where "s' = dropExecutions old s"
  have u: "uniq eId (executions s)" using assms by (intro wfdb_keys) (simp add: ready_def)
  have ex: "executions s' = filter (\<lambda>e. execRank (executions s) e \<le> keep) (executions s)"
    by (simp add: s'_def dropExecutions_def Let_def old_def not_less)
  have gone: "set (executions s) - set (executions s') = {e \<in> set (executions s). old e}"
    by (auto simp: ex old_def)
  have "length (filter old (executions s)) + length (executions s') = length (executions s)"
    unfolding ex using sum_length_filter_compl [of old "executions s"] by (simp add: old_def not_less)
  then have n: "int (length (filter old (executions s))) = int (length (executions s)) - int (length (executions s'))" by linarith
  have "run_state (PruneWSExecutions (int keep)) s = (Inr (int (length (filter old (executions s)))), s')"
    using assms by (simp add: PruneWSExecutions_def clean_runs wrap_def ready_def old_def s'_def Let_def)
  moreover have "eId r < eId a" if "a \<in> set (executions s')" "r \<in> set (executions s) - set (executions s')" "eProject a = eProject r" for a r
  proof (rule ccontr)
    assume "\<not> eId r < eId a"
    moreover have "eId a \<noteq> eId r" using uniqD [OF u, of a r] that ex by auto
    ultimately have "execRank (executions s) r < execRank (executions s) a"
      using that ex by (intro execRank_less) auto
    with that show False unfolding gone by (auto simp: ex old_def)
  qed
  moreover have "appCallRows s' = filter (\<lambda>c. \<not> (\<exists>e \<in> set (executions s) - set (executions s'). eId e = acExecution c)) (appCallRows s)"
    unfolding gone by (simp add: s'_def dropExecutions_def Let_def) (rule filter_cong, auto)
  moreover have "projects s' = projects s" "files s' = files s" "map kKey (kvs s') = map kKey (kvs s)"
    "triggers s' = triggers s" "deployments s' = deployments s"
    by (simp_all add: s'_def dropExecutions_def Let_def comp_def)
  ultimately show ?thesis using pruned_count [OF u] by (intro exI [of _ s']) (simp add: n ex)
qed

text \<open>A project with two executions.\<close>

definition sampleRun :: "int \<Rightarrow> executionRow" where
  "sampleRun i = \<lparr>eId = i, eProject = 1, eFile = Some 1, eFileName = ''main.flow'', eVersion = None, eSource = ''project-run'',
     eDeployment = None, eTrigger = None, eActor = Some 1, eStartedAt = i, eFinishedAt = Some i, eDurationMs = None,
     eCompileExit = None, eCompileStderr = None, eRunExit = None, eRunStderr = None, eTimedOut = False,
     eTruncated = False, eError = None\<rparr>"

definition twoRunsDB :: db where
  "twoRunsDB = oneFileDB\<lparr>executions := [sampleRun 1, sampleRun 2], seqs := (seqs oneFileDB)\<lparr>seqExecution := 2\<rparr>\<rparr>"

lemma ready_twoRunsDB: "ready twoRunsDB"
  by (simp add: ready_def wfdb_def twoRunsDB_def sampleRun_def oneFileDB_def sharedDB_def emptyDB_def keyed_def uniq_def)

theorem PruneWSExecutions_keeps_newest_witness:
  "\<exists>n s'. run_state (PruneWSExecutions (int 1)) twoRunsDB = (Inr n, s') \<and> length (ofProject 1 (executions s')) = 1"
proof -
  have "length (ofProject 1 (executions twoRunsDB)) = 2" by (simp add: ofProject_def twoRunsDB_def sampleRun_def)
  with PruneWSExecutions_keeps_newest [OF ready_twoRunsDB, of 1] show ?thesis by auto
qed

section \<open>Key/value entries as a keyed store\<close>

definition kvOf :: "db \<Rightarrow> int \<Rightarrow> string \<Rightarrow> string option" where
  "kvOf s pid key = map_option kValue (List.find (\<lambda>k. kProject k = pid \<and> kKey k = key) (kvs s))"

definition kvReady :: "int \<Rightarrow> int option \<Rightarrow> db \<Rightarrow> bool" where
  "kvReady pid src s \<longleftrightarrow> fileReady pid s \<and> hasRef eId (executions s) src"

definition putKV :: "int \<Rightarrow> int option \<Rightarrow> string \<Rightarrow> string \<Rightarrow> db \<Rightarrow> db" where
  "putKV pid src key v s = snd (run_state (UpsertWSKV pid key v src) s)"

definition delKV :: "int \<Rightarrow> string \<Rightarrow> db \<Rightarrow> db" where
  "delKV pid key s = snd (run_state (DeleteWSKV pid key) s)"

lemma UpsertWSKV_clean:
  assumes "kvReady pid src s"
  shows "fst (run_state (UpsertWSKV pid key v src) s) = Inr () \<and> kvReady pid src (putKV pid src key v s) \<and>
    kvOf (putKV pid src key v s) pid = (kvOf s pid)(key \<mapsto> v)"
proof -
  define same where "same = (\<lambda>k :: kvRow. kProject k = pid \<and> kKey k = key)"
  define t where "t = (if list_ex same (kvs s)
    then s\<lparr>kvs := alter same (\<lambda>k. k\<lparr>kValue := v, kUpdatedAt := clk s, kSourceExecution := src\<rparr>) (kvs s)\<rparr>
    else s\<lparr>kvs := kvs s @ [\<lparr>kProject = pid, kKey = key, kValue = v, kUpdatedAt = clk s, kSourceExecution = src\<rparr>]\<rparr>)"
  have f0: "faults s = []" and pr: "hasId pId (projects s) pid" and ref: "hasRef eId (executions s) src"
    using assms by (simp_all add: kvReady_def fileReady_def ready_def)
  have r: "run_state (UpsertWSKV pid key v src) s = (Inr (), t)"
    using f0 pr ref by (simp add: UpsertWSKV_def upsertKV_def clean_runs wrap_def Let_def same_def [symmetric] t_def)
  then have t: "putKV pid src key v s = t" by (simp add: putKV_def)
  have "wfdb t" using preservesD_eq [OF runWrites_wf(4) _ r] assms by (simp add: kvReady_def fileReady_def ready_def)
  then have "kvReady pid src t" using f0 pr ref by (simp add: kvReady_def fileReady_def ready_def t_def)
  moreover have "kvOf t pid n = ((kvOf s pid)(key \<mapsto> v)) n" for n
  proof (cases "list_ex same (kvs s)")
    case False
    then have "List.find same (kvs s) = None" by (auto simp: find_None_iff_ball list_ex_iff)
    with False show ?thesis by (auto simp: kvOf_def t_def find_append same_def split: option.split)
  next
    case True
    then obtain k where k: "List.find same (kvs s) = Some k" by (cases "List.find same (kvs s)") (auto simp: find_None_iff_ball list_ex_iff)
    have c: "kvOf t pid n = map_option kValue (map_option
        (\<lambda>k. if same k then k\<lparr>kValue := v, kUpdatedAt := clk s, kSourceExecution := src\<rparr> else k)
        (List.find (\<lambda>k. kProject k = pid \<and> kKey k = n) (kvs s)))"
      using True unfolding kvOf_def t_def by (simp add: find_alter)
    show ?thesis
    proof (cases "n = key")
      case True
      then show ?thesis unfolding c using k find_SomeD [OF k] by (simp add: same_def [symmetric])
    next
      case False
      then show ?thesis unfolding c
        by (cases "List.find (\<lambda>k. kProject k = pid \<and> kKey k = n) (kvs s)") (auto simp: kvOf_def same_def dest!: find_SomeD)
    qed
  qed
  ultimately show ?thesis using r t by auto
qed

interpretation wsKV: keyed_store_del "\<lambda>s. kvOf s pid" "putKV pid src" "kvReady pid src" "delKV pid" for pid src
proof
  fix s key v
  assume "kvReady pid src s"
  from UpsertWSKV_clean [OF this] show "kvReady pid src (putKV pid src key v s)"
    and "kvOf (putKV pid src key v s) pid = (kvOf s pid)(key \<mapsto> v)" by simp_all
next
  fix s key
  assume s: "kvReady pid src s"
  then have d: "delKV pid key s = s\<lparr>kvs := filter (\<lambda>k. \<not> (kProject k = pid \<and> kKey k = key)) (kvs s)\<rparr>"
    by (simp add: delKV_def DeleteWSKV_def update_clean kvReady_def fileReady_def ready_def)
  have "wfdb (delKV pid key s)"
    unfolding delKV_def using s preservesD [OF wf_DeleteWSKV] by (simp add: kvReady_def fileReady_def ready_def)
  with s d show "kvReady pid src (delKV pid key s)" by (simp add: kvReady_def fileReady_def ready_def)
  have k: "kvs (delKV pid key s) = filter (\<lambda>k. \<not> (kProject k = pid \<and> kKey k = key)) (kvs s)" by (simp add: d)
  have e: "(\<lambda>k. \<not> (kProject k = pid \<and> kKey k = key) \<and> kProject k = pid \<and> kKey k = n) =
      (\<lambda>k. n \<noteq> key \<and> kProject k = pid \<and> kKey k = n)" for n by auto
  have "kvOf (delKV pid key s) pid n = map_option kValue (List.find (\<lambda>k. n \<noteq> key \<and> kProject k = pid \<and> kKey k = n) (kvs s))" for n
    unfolding kvOf_def k find_filter e ..
  then show "kvOf (delKV pid key s) pid = (kvOf s pid)(key := None)"
    by (intro ext) (simp add: kvOf_def)
qed

end
