(* ===== verification/Engine.thy ===== *)
theory Engine
  imports Bridge StageExec Diagnostics StoreRuns
begin

text \<open>
  The execution pipeline of server/internal/engine/engine.go and summary.go: compile, decode the
  image, run with the app bridge, and the bounded pool of execution slots every caller shares.
  The operating system (temporary directory, source file, the two child processes, the image the
  compiler leaves, the bridge socket and the connections it serves until the run is over) is a
  record of answers. The app calls of a result are those the bridge had appended when the pipeline
  returned.
\<close>

section \<open>Results\<close>

record CompileResult =
  crStage :: StageResult
  crDiagnostics :: "Diagnostic list"

record Result =
  resCompile :: CompileResult
  resBytecode :: "Bytecode option"
  resBytecodeError :: "disasm_error option"
  resRun :: "StageResult option"
  resAppCalls :: "AppCall list"
  resTruncated :: bool

definition Summary :: "Result option \<Rightarrow> RunSummary option" where
  "Summary r =
     (case r of
        None \<Rightarrow> None
      | Some r \<Rightarrow>
          (let c = crStage (resCompile r);
               s = \<lparr>rsCompileExitCode = ExitCode c, rsCompileStderr = Stderr c, rsCompileTimedOut = TimedOut c,
                    rsCompileDurationMs = DurationMs c, rsHasRun = False, rsRunExitCode = 0, rsRunStderr = [],
                    rsRunTimedOut = False, rsRunDurationMs = 0, rsTruncated = resTruncated r\<rparr>
           in Some (case resRun r of
                None \<Rightarrow> s
              | Some x \<Rightarrow> s\<lparr>rsHasRun := True, rsRunExitCode := ExitCode x, rsRunStderr := Stderr x,
                           rsRunTimedOut := TimedOut x, rsRunDurationMs := DurationMs x\<rparr>)))"

section \<open>Compile and run\<close>

record runOS =
  mkdirTemp :: "goerr option"
  writeSource :: "goerr option"
  compiler :: "string \<Rightarrow> process"
  image :: "string \<Rightarrow> bytes option"
  listens :: bool
  runner :: "string \<Rightarrow> process"
  conns :: "string \<Rightarrow> bytes list"
  callEnvs :: "nat \<Rightarrow> Snapshot \<times> callenv"

definition compileStage :: "int \<Rightarrow> process \<Rightarrow> CompileResult" where
  "compileStage outputLimit p =
     (let c = runStage outputLimit p in \<lparr>crStage = c, crDiagnostics = parseDiagnostics (Stderr c)\<rparr>)"

text \<open>The image, when there is one, is decoded or its error kept; None is a panic of the decoder.\<close>

definition readImage :: "bytes option \<Rightarrow> (Bytecode option \<times> disasm_error option) option" where
  "readImage img =
     (case img of
        None \<Rightarrow> Some (None, None)
      | Some data \<Rightarrow> map_option (\<lambda>r. case r of Inr bc \<Rightarrow> (Some bc, None) | Inl e \<Rightarrow> (None, Some e)) (disassemble data))"

text \<open>
  The pipeline: the result or the error, and the app service after it. \<open>hasApps\<close> tells whether
  the engine has an app service attached.
\<close>

definition compileAndRun ::
  "unicode \<Rightarrow> int \<Rightarrow> bool \<Rightarrow> runOS \<Rightarrow> string \<Rightarrow> Actor \<Rightarrow> service \<Rightarrow> (Result result \<times> service) option" where
  "compileAndRun U outputLimit hasApps os source actor sv =
     (case mkdirTemp os of
        Some e \<Rightarrow> Some (Inl (Wrap ''create work dir'' e), sv)
      | None \<Rightarrow>
     (case writeSource os of
        Some e \<Rightarrow> Some (Inl (Wrap ''write source'' e), sv)
      | None \<Rightarrow> do {
          let compile = compileStage outputLimit (compiler os source);
          img \<leftarrow> readImage (image os source);
          let res = \<lparr>resCompile = compile, resBytecode = fst img, resBytecodeError = snd img, resRun = None,
                     resAppCalls = [], resTruncated = False\<rparr>;
          let (res, sv) =
            (if ExitCode (crStage compile) = 0 \<and> \<not> TimedOut (crStage compile) then
               (let b0 = \<lparr>callsMade = 0, appCalls = [], svc = sv\<rparr>;
                    b = (if hasApps \<and> listens os then snd (serveBridge U (callEnvs os) actor (conns os source) b0) else b0)
                in (res\<lparr>resRun := Some (runStage outputLimit (runner os source)), resAppCalls := appCalls b\<rparr>, svc b))
             else (res, sv));
          Some (Inr (res\<lparr>resTruncated := Truncated (crStage compile) \<or>
                  (case resRun res of None \<Rightarrow> False | Some r \<Rightarrow> Truncated r)\<rparr>), sv)
        }))"

text \<open>
  C21: what a run yields. The pipeline always returns, the decoder never bringing it down; it fails
  only when the work directory or the source file cannot be written. Otherwise the program is
  executed, and the app service touched, exactly when the compiler ended with code 0 before its
  deadline, and the truncation flag says whether any stream of either stage was cut.
\<close>

theorem compileAndRun_outcome:
  "\<exists>r sv'. compileAndRun U cap hasApps os source actor sv = Some (r, sv') \<and>
    ((\<exists>e. r = Inl e) \<longleftrightarrow> mkdirTemp os \<noteq> None \<or> writeSource os \<noteq> None) \<and>
    (case r of
       Inl e \<Rightarrow> sv' = sv
     | Inr res \<Rightarrow>
         crStage (resCompile res) = runStage cap (compiler os source) \<and>
         (resRun res \<noteq> None \<longleftrightarrow> \<not> deadlineExceeded (compiler os source) \<and>
            (ended (compiler os source) = RunOK \<or> ended (compiler os source) = ExitError 0)) \<and>
         (resRun res = None \<longrightarrow> resAppCalls res = [] \<and> sv' = sv) \<and>
         (\<forall>x. resRun res = Some x \<longrightarrow> x = runStage cap (runner os source)) \<and>
         (resTruncated res \<longleftrightarrow> Truncated (runStage cap (compiler os source)) \<or>
            resRun res \<noteq> None \<and> Truncated (runStage cap (runner os source))))"
proof -
  have img: "\<exists>i. readImage (image os source) = Some i"
    using disassemble_eq by (cases "image os source") (simp_all add: readImage_def)
  then obtain i where i: "readImage (image os source) = Some i" by blast
  define p where "p = compiler os source"
  have ok: "ExitCode (runStage cap p) = 0 \<and> \<not> TimedOut (runStage cap p) \<longleftrightarrow>
      \<not> deadlineExceeded p \<and> (ended p = RunOK \<or> ended p = ExitError 0)"
    by (cases "ended p") (auto simp: runStage_def Let_def)
  show ?thesis
  proof (cases "mkdirTemp os \<noteq> None \<or> writeSource os \<noteq> None")
    case True
    then show ?thesis by (auto simp: compileAndRun_def split: option.splits)
  next
    case False
    then show ?thesis
      using ok by (auto simp: compileAndRun_def compileStage_def Let_def i p_def [symmetric])
  qed
qed

text \<open>A clean compile without an app service: the program runs, and its exit code is reported.\<close>

theorem compileAndRun_outcome_witness:
  "\<forall>U actor sv envs. (let quiet = \<lparr>outWrites = [], errWrites = [], ended = RunOK, elapsedMs = 1, deadlineExceeded = False\<rparr>;
        os = \<lparr>mkdirTemp = None, writeSource = None, compiler = (\<lambda>_. quiet), image = (\<lambda>_. None), listens = False,
              runner = (\<lambda>_. quiet\<lparr>ended := ExitError 3\<rparr>), conns = (\<lambda>_. []), callEnvs = envs\<rparr>
    in \<exists>res sv'. compileAndRun U 100 False os ''x'' actor sv = Some (Inr res, sv') \<and>
         map_option ExitCode (resRun res) = Some 3)"
proof (intro allI)
  fix U actor sv and envs :: "nat \<Rightarrow> Snapshot \<times> callenv"
  define quiet where "quiet = \<lparr>outWrites = [], errWrites = [], ended = RunOK, elapsedMs = 1, deadlineExceeded = False\<rparr>"
  define os :: runOS where "os = \<lparr>mkdirTemp = None, writeSource = None, compiler = (\<lambda>_. quiet), image = (\<lambda>_. None), listens = False,
    runner = (\<lambda>_. quiet\<lparr>ended := ExitError 3\<rparr>), conns = (\<lambda>_. []), callEnvs = envs\<rparr>"
  have "ExitCode (runStage 100 (runner os ''x'')) = 3" by (simp add: os_def quiet_def runStage_def Let_def)
  moreover have "mkdirTemp os = None" "writeSource os = None" "ended (compiler os ''x'') = RunOK"
    "\<not> deadlineExceeded (compiler os ''x'')"
    by (simp_all add: os_def quiet_def)
  ultimately have "\<exists>res sv'. compileAndRun U 100 False os ''x'' actor sv = Some (Inr res, sv') \<and>
      map_option ExitCode (resRun res) = Some 3"
    using compileAndRun_outcome [of U 100 False os "''x''" actor sv] by (force split: sum.splits)
  then show "let quiet = \<lparr>outWrites = [], errWrites = [], ended = RunOK, elapsedMs = 1, deadlineExceeded = False\<rparr>;
        os = \<lparr>mkdirTemp = None, writeSource = None, compiler = (\<lambda>_. quiet), image = (\<lambda>_. None), listens = False,
              runner = (\<lambda>_. quiet\<lparr>ended := ExitError 3\<rparr>), conns = (\<lambda>_. []), callEnvs = envs\<rparr>
    in \<exists>res sv'. compileAndRun U 100 False os ''x'' actor sv = Some (Inr res, sv') \<and>
         map_option ExitCode (resRun res) = Some 3"
    by (simp add: Let_def os_def quiet_def)
qed

section \<open>The pool of slots\<close>

text \<open>
  The calls of \<open>RunWithActor\<close> that the process has served or is serving, by the order of their
  arrival, and the channel of slots as the number of elements it holds. A call first selects between
  a free slot, the end of its context and the timer of \<open>QueueWait\<close>; with a slot it executes the
  pipeline, and when that has returned, or panicked, the deferred receive gives the slot back before
  the call is over. The select statement chooses freely among its ready cases.
\<close>

datatype phase = Selecting | Executing | Unwinding | Finished "goerr option"

record caller =
  callerPhase :: phase
  arrivedAt :: int
  ctxDone :: bool

record pool =
  concurrency :: nat
  queueWait :: int
  slotsTaken :: nat
  poolTime :: int
  callers :: "caller list"

definition newPool :: "int \<Rightarrow> int \<Rightarrow> pool option" where
  "newPool wait n =
     (if n < 0 then None else Some \<lparr>concurrency = nat n, queueWait = wait, slotsTaken = 0, poolTime = 0, callers = []\<rparr>)"

definition ErrBusy :: goerr where
  "ErrBusy = Msg ''engine: busy, all execution slots occupied''"

definition ctxErr :: goerr where
  "ctxErr = Msg ''context canceled''"

text \<open>Caller \<open>i\<close> is in phase \<open>ph\<close>; the caller moves on to the phase \<open>ph\<close>.\<close>

definition inPhase :: "pool \<Rightarrow> nat \<Rightarrow> phase \<Rightarrow> bool" where
  "inPhase p i ph \<longleftrightarrow> i < length (callers p) \<and> callerPhase (callers p ! i) = ph"

definition moveTo :: "nat \<Rightarrow> phase \<Rightarrow> pool \<Rightarrow> pool" where
  "moveTo i ph p = p\<lparr>callers := (callers p)[i := (callers p ! i)\<lparr>callerPhase := ph\<rparr>]\<rparr>"

datatype pool_event = Arrive | Pass int | Cancel nat | Acquire nat | GiveUp nat | Busy nat | Return nat | Release nat

inductive RunWithActor :: "pool \<Rightarrow> pool_event \<Rightarrow> pool \<Rightarrow> bool" where
  arrive: "RunWithActor p Arrive (p\<lparr>callers := callers p @ [\<lparr>callerPhase = Selecting, arrivedAt = poolTime p, ctxDone = False\<rparr>]\<rparr>)"
| pass: "0 \<le> d \<Longrightarrow> RunWithActor p (Pass d) (p\<lparr>poolTime := poolTime p + d\<rparr>)"
| cancel: "i < length (callers p) \<Longrightarrow>
    RunWithActor p (Cancel i) (p\<lparr>callers := (callers p)[i := (callers p ! i)\<lparr>ctxDone := True\<rparr>]\<rparr>)"
| acquire: "inPhase p i Selecting \<Longrightarrow> slotsTaken p < concurrency p \<Longrightarrow>
    RunWithActor p (Acquire i) ((moveTo i Executing p)\<lparr>slotsTaken := slotsTaken p + 1\<rparr>)"
| giveUp: "inPhase p i Selecting \<Longrightarrow> ctxDone (callers p ! i) \<Longrightarrow>
    RunWithActor p (GiveUp i) (moveTo i (Finished (Some ctxErr)) p)"
| busy: "inPhase p i Selecting \<Longrightarrow> arrivedAt (callers p ! i) + queueWait p \<le> poolTime p \<Longrightarrow>
    RunWithActor p (Busy i) (moveTo i (Finished (Some ErrBusy)) p)"
| return: "inPhase p i Executing \<Longrightarrow> RunWithActor p (Return i) (moveTo i Unwinding p)"
| release: "inPhase p i Unwinding \<Longrightarrow> 0 < slotsTaken p \<Longrightarrow>
    RunWithActor p (Release i) ((moveTo i (Finished None) p)\<lparr>slotsTaken := slotsTaken p - 1\<rparr>)"

inductive_cases RunWithActor_cases: "RunWithActor p ev p'"

inductive_simps RunWithActor_simps:
  "RunWithActor p (Acquire i) p'" "RunWithActor p (GiveUp i) p'" "RunWithActor p (Busy i) p'" "RunWithActor p (Release i) p'"

inductive poolRuns :: "pool \<Rightarrow> pool_event list \<Rightarrow> pool \<Rightarrow> bool" where
  start: "poolRuns p [] p"
| step: "poolRuns p evs p1 \<Longrightarrow> RunWithActor p1 ev p2 \<Longrightarrow> poolRuns p (evs @ [ev]) p2"

lemma poolRuns_append: "poolRuns p1 evs2 p2 \<Longrightarrow> poolRuns p evs1 p1 \<Longrightarrow> poolRuns p (evs1 @ evs2) p2"
proof (induction rule: poolRuns.induct)
  case (step p1 evs p2 ev p3)
  from poolRuns.step [OF step.IH [OF step.prems] step.hyps(2)] show ?case by simp
qed simp

text \<open>How many callers are in a phase.\<close>

definition counted :: "(phase \<Rightarrow> bool) \<Rightarrow> pool \<Rightarrow> nat" where
  "counted Q p = length (filter (\<lambda>c. Q (callerPhase c)) (callers p))"

definition hasSlot :: "phase \<Rightarrow> bool" where
  "hasSlot ph \<longleftrightarrow> ph = Executing \<or> ph = Unwinding"

lemma length_filter_update:
  "i < length xs \<Longrightarrow> length (filter P (xs[i := x])) + (if P (xs ! i) then 1 else 0) = length (filter P xs) + (if P x then 1 else 0)"
proof (induction xs arbitrary: i)
  case (Cons y ys)
  show ?case
  proof (cases i)
    case (Suc j)
    with Cons show ?thesis by (cases "P y") (simp_all split: if_splits)
  qed simp
qed simp

lemma counted_moveTo:
  "inPhase p i ph0 \<Longrightarrow> counted Q (moveTo i ph p) + (if Q ph0 then 1 else 0) = counted Q p + (if Q ph then 1 else 0)"
  using length_filter_update [of i "callers p" "\<lambda>c. Q (callerPhase c)" "(callers p ! i)\<lparr>callerPhase := ph\<rparr>"]
  by (simp add: counted_def moveTo_def inPhase_def)

lemma counted_pos: "inPhase p i ph \<Longrightarrow> Q ph \<Longrightarrow> 0 < counted Q p"
  by (auto simp: counted_def inPhase_def filter_empty_conv intro: nth_mem)

lemma counted_none: "\<not> (\<exists>c \<in> set (callers p). Q (callerPhase c)) \<Longrightarrow> counted Q p = 0"
  by (simp add: counted_def filter_empty_conv)

lemma counted_mono: "(\<And>ph. Q ph \<Longrightarrow> R ph) \<Longrightarrow> counted Q p \<le> counted R p"
  unfolding counted_def by (induction "callers p" arbitrary: p) (auto simp: length_filter_conv_card intro!: card_mono)

lemma counted_same [simp]: "counted Q (p\<lparr>slotsTaken := k\<rparr>) = counted Q p" "counted Q (p\<lparr>poolTime := t\<rparr>) = counted Q p"
  by (simp_all add: counted_def)

lemma inPhase_same [simp]: "inPhase (p\<lparr>slotsTaken := k\<rparr>) = inPhase p" "inPhase (p\<lparr>poolTime := t\<rparr>) = inPhase p"
  by (simp_all add: inPhase_def fun_eq_iff)

lemma moveTo_same [simp]:
  "concurrency (moveTo i ph p) = concurrency p" "queueWait (moveTo i ph p) = queueWait p" "slotsTaken (moveTo i ph p) = slotsTaken p"
  "poolTime (moveTo i ph p) = poolTime p" "length (callers (moveTo i ph p)) = length (callers p)"
  by (simp_all add: moveTo_def)

text \<open>The elements of the channel are the slots of the callers that have taken one and not yet given it back.\<close>

definition poolInv :: "nat \<Rightarrow> int \<Rightarrow> pool \<Rightarrow> bool" where
  "poolInv n wait p \<longleftrightarrow> concurrency p = n \<and> queueWait p = wait \<and> slotsTaken p \<le> n \<and> slotsTaken p = counted hasSlot p"

lemma poolInv_step:
  assumes inv: "poolInv n wait p" and "RunWithActor p ev p'"
  shows "poolInv n wait p'"
  using assms(2)
proof (cases rule: RunWithActor.cases)
  case arrive
  then have "counted hasSlot p' = counted hasSlot p" by (simp add: counted_def hasSlot_def)
  with inv arrive show ?thesis by (simp add: poolInv_def)
next
  case (cancel i)
  then have "counted hasSlot p' = counted hasSlot p"
    using length_filter_update [of i "callers p" "\<lambda>c. hasSlot (callerPhase c)" "(callers p ! i)\<lparr>ctxDone := True\<rparr>"]
    by (simp add: counted_def)
  with inv cancel show ?thesis by (simp add: poolInv_def)
next
  case (acquire i)
  then show ?thesis using inv counted_moveTo [OF acquire(3), of hasSlot Executing] by (simp add: poolInv_def hasSlot_def [of Selecting] hasSlot_def [of Executing])
next
  case (giveUp i)
  then show ?thesis using inv counted_moveTo [OF giveUp(3), of hasSlot "Finished (Some ctxErr)"] by (simp add: poolInv_def hasSlot_def [of Selecting] hasSlot_def [of "Finished _"])
next
  case (busy i)
  then show ?thesis using inv counted_moveTo [OF busy(3), of hasSlot "Finished (Some ErrBusy)"] by (simp add: poolInv_def hasSlot_def [of Selecting] hasSlot_def [of "Finished _"])
next
  case (return i)
  then show ?thesis using inv counted_moveTo [OF return(3), of hasSlot Unwinding] by (simp add: poolInv_def hasSlot_def [of Executing] hasSlot_def [of Unwinding])
next
  case (release i)
  then show ?thesis using inv counted_moveTo [OF release(3), of hasSlot "Finished None"] by (auto simp: poolInv_def hasSlot_def [of Unwinding] hasSlot_def [of "Finished _"])
qed (use inv in \<open>simp_all add: poolInv_def\<close>)

lemma poolRuns_inv: "poolRuns p evs p' \<Longrightarrow> poolInv n wait p \<Longrightarrow> poolInv n wait p'"
  by (induction rule: poolRuns.induct) (auto intro: poolInv_step)

subsection \<open>Draining\<close>

text \<open>What is left to do for the callers, when nobody new arrives and no context ends.\<close>

definition stepsLeft :: "pool \<Rightarrow> nat" where
  "stepsLeft p = 3 * counted (\<lambda>ph. ph = Selecting) p + 2 * counted (\<lambda>ph. ph = Executing) p + counted (\<lambda>ph. ph = Unwinding) p"

definition drained :: "pool \<Rightarrow> bool" where
  "drained p \<longleftrightarrow> (\<forall>c \<in> set (callers p). \<exists>e. callerPhase c = Finished e)"

definition undisturbedEvents :: "pool_event list \<Rightarrow> bool" where
  "undisturbedEvents evs \<longleftrightarrow> Arrive \<notin> set evs \<and> (\<forall>i. Cancel i \<notin> set evs)"

lemma stepsLeft_move:
  assumes "inPhase p i ph0"
  shows "stepsLeft (moveTo i ph p) + (case ph0 of Selecting \<Rightarrow> 3 | Executing \<Rightarrow> 2 | Unwinding \<Rightarrow> 1 | Finished e \<Rightarrow> 0) =
    stepsLeft p + (case ph of Selecting \<Rightarrow> 3 | Executing \<Rightarrow> 2 | Unwinding \<Rightarrow> 1 | Finished e \<Rightarrow> 0)"
  using counted_moveTo [OF assms, of "\<lambda>ph. ph = Selecting" ph] counted_moveTo [OF assms, of "\<lambda>ph. ph = Executing" ph]
    counted_moveTo [OF assms, of "\<lambda>ph. ph = Unwinding" ph]
  by (auto simp: stepsLeft_def split: phase.splits if_splits)

lemma one_closer:
  assumes inv: "poolInv n wait p" and i: "inPhase p i ph" and "\<nexists>e. ph = Finished e"
  shows "\<exists>evs p'. poolRuns p evs p' \<and> undisturbedEvents evs \<and> stepsLeft p' < stepsLeft p"
proof (cases ph)
  case Selecting
  define d where "d = max 0 (arrivedAt (callers p ! i) + queueWait p - poolTime p)"
  define p1 where "p1 = p\<lparr>poolTime := poolTime p + d\<rparr>"
  have "RunWithActor p (Pass d) p1" unfolding p1_def by (rule RunWithActor.pass) (simp add: d_def)
  moreover have "RunWithActor p1 (Busy i) (moveTo i (Finished (Some ErrBusy)) p1)"
    by (rule RunWithActor.busy) (use i Selecting in \<open>simp_all add: p1_def d_def\<close>)
  ultimately have "poolRuns p ([] @ [Pass d] @ [Busy i]) (moveTo i (Finished (Some ErrBusy)) p1)"
    using poolRuns.start poolRuns.step by (metis append_assoc)
  moreover have "stepsLeft (moveTo i (Finished (Some ErrBusy)) p1) < stepsLeft p"
    using stepsLeft_move [of p1 i Selecting "Finished (Some ErrBusy)"] i Selecting by (simp add: p1_def stepsLeft_def)
  ultimately show ?thesis by (intro exI conjI) (assumption, simp_all add: undisturbedEvents_def)
next
  case Executing
  have "poolRuns p ([] @ [Return i]) (moveTo i Unwinding p)"
    by (rule poolRuns.step [OF poolRuns.start], rule RunWithActor.return) (use i Executing in simp)
  with stepsLeft_move [of p i Executing Unwinding] i Executing show ?thesis
    by (intro exI [of _ "[Return i]"] exI [of _ "moveTo i Unwinding p"]) (simp add: undisturbedEvents_def)
next
  case Unwinding
  have "0 < slotsTaken p" using inv counted_pos [OF i, of hasSlot] Unwinding by (simp add: poolInv_def hasSlot_def)
  then have "poolRuns p ([] @ [Release i]) ((moveTo i (Finished None) p)\<lparr>slotsTaken := slotsTaken p - 1\<rparr>)"
    by (intro poolRuns.step [OF poolRuns.start] RunWithActor.release) (use i Unwinding in simp_all)
  with stepsLeft_move [of p i Unwinding "Finished None"] i Unwinding show ?thesis
    by (intro exI [of _ "[Release i]"] exI [of _ "(moveTo i (Finished None) p)\<lparr>slotsTaken := slotsTaken p - 1\<rparr>"])
      (simp add: undisturbedEvents_def stepsLeft_def)
qed (use assms(3) in blast)

lemma pool_drains:
  "poolInv n wait p \<Longrightarrow> \<exists>evs p'. poolRuns p evs p' \<and> undisturbedEvents evs \<and> drained p' \<and> slotsTaken p' = 0"
proof (induction "stepsLeft p" arbitrary: p rule: less_induct)
  case less
  show ?case
  proof (cases "drained p")
    case True
    then have "counted hasSlot p = 0" by (intro counted_none) (auto simp: drained_def hasSlot_def)
    with less.prems True show ?thesis
      by (intro exI [of _ "[]"] exI [of _ p]) (simp add: poolRuns.start undisturbedEvents_def poolInv_def)
  next
    case False
    then obtain i ph where "inPhase p i ph" "\<nexists>e. ph = Finished e" by (auto simp: drained_def inPhase_def in_set_conv_nth)
    from one_closer [OF less.prems this] obtain evs1 p1
      where p1: "poolRuns p evs1 p1" "undisturbedEvents evs1" "stepsLeft p1 < stepsLeft p" by blast
    from less.hyps [OF p1(3) poolRuns_inv [OF p1(1) less.prems]] obtain evs2 p2
      where p2: "poolRuns p1 evs2 p2" "undisturbedEvents evs2" "drained p2" "slotsTaken p2 = 0" by blast
    have "poolRuns p (evs1 @ evs2) p2" by (rule poolRuns_append [OF p2(1) p1(1)])
    with p1(2) p2 show ?thesis by (intro exI [of _ "evs1 @ evs2"] exI [of _ p2]) (auto simp: undisturbedEvents_def)
  qed
qed

text \<open>
  C27: the pool bounds the pipelines and loses no slot. However arrivals, cancellations, timeouts,
  panics and returns interleave: no more pipelines execute at once than there are slots; the channel
  holds exactly the slots of the callers between their acquire and their deferred release, which
  never blocks, so that all slots are free when nobody is in flight; a waiting caller can take a slot
  exactly when one is free, is refused as busy only once \<open>QueueWait\<close> has passed, and leaves with
  the error of its context only once that is done. From every such state the calls there are can all
  come to their end, without any help of new calls or cancellations, and then every slot is free.
\<close>

theorem pool_bound:
  assumes "newPool wait m = Some p0" and "poolRuns p0 evs p"
  shows "int (counted (\<lambda>ph. ph = Executing) p) \<le> m \<and>
    slotsTaken p = counted hasSlot p \<and>
    (\<forall>i. inPhase p i Selecting \<longrightarrow>
       ((\<exists>p'. RunWithActor p (Acquire i) p') \<longleftrightarrow> int (counted hasSlot p) < m) \<and>
       ((\<exists>p'. RunWithActor p (Busy i) p') \<longleftrightarrow> arrivedAt (callers p ! i) + wait \<le> poolTime p) \<and>
       ((\<exists>p'. RunWithActor p (GiveUp i) p') \<longleftrightarrow> ctxDone (callers p ! i))) \<and>
    (\<forall>i. inPhase p i Unwinding \<longrightarrow> (\<exists>p'. RunWithActor p (Release i) p')) \<and>
    (\<exists>evs' p'. poolRuns p evs' p' \<and> undisturbedEvents evs' \<and> drained p' \<and> slotsTaken p' = 0)"
proof -
  have m: "0 \<le> m" and "poolInv (nat m) wait p0"
    using assms(1) by (auto simp: newPool_def poolInv_def counted_def split: if_splits)
  then have inv: "poolInv (nat m) wait p" using poolRuns_inv [OF assms(2)] by blast
  have "counted (\<lambda>ph. ph = Executing) p \<le> counted hasSlot p" by (rule counted_mono) (simp add: hasSlot_def)
  then have run: "int (counted (\<lambda>ph. ph = Executing) p) \<le> m" using inv m by (auto simp: poolInv_def)
  have rel: "\<exists>p'. RunWithActor p (Release i) p'" if "inPhase p i Unwinding" for i
    using inv counted_pos [OF that, of hasSlot] that by (auto simp: RunWithActor_simps poolInv_def hasSlot_def)
  have sel: "((\<exists>p'. RunWithActor p (Acquire i) p') \<longleftrightarrow> int (counted hasSlot p) < m) \<and>
       ((\<exists>p'. RunWithActor p (Busy i) p') \<longleftrightarrow> arrivedAt (callers p ! i) + wait \<le> poolTime p) \<and>
       ((\<exists>p'. RunWithActor p (GiveUp i) p') \<longleftrightarrow> ctxDone (callers p ! i))" if "inPhase p i Selecting" for i
    using inv m that by (auto simp: RunWithActor_simps poolInv_def)
  from inv run rel sel pool_drains [OF inv] show ?thesis by (simp add: poolInv_def)
qed

text \<open>One slot: the second caller waits until the first has given it back, and is refused after five seconds.\<close>

theorem pool_bound_witness:
  "\<exists>p0 p. newPool 5 1 = Some p0 \<and> poolRuns p0 [Arrive, Arrive, Acquire 1, Return 1] p \<and>
    \<not> (\<exists>p'. RunWithActor p (Acquire 0) p') \<and> \<not> (\<exists>p'. RunWithActor p (Busy 0) p') \<and>
    (\<exists>evs' p'. poolRuns p evs' p' \<and> drained p' \<and> slotsTaken p' = 0)"
proof -
  define c where "c = \<lparr>callerPhase = Selecting, arrivedAt = 0, ctxDone = False\<rparr>"
  define p0 where "p0 = \<lparr>concurrency = 1, queueWait = 5, slotsTaken = 0, poolTime = 0, callers = []\<rparr>"
  define p3 where "p3 = p0\<lparr>slotsTaken := 1, callers := [c, c\<lparr>callerPhase := Executing\<rparr>]\<rparr>"
  define p where "p = p0\<lparr>slotsTaken := 1, callers := [c, c\<lparr>callerPhase := Unwinding\<rparr>]\<rparr>"
  have n: "newPool 5 1 = Some p0" by (simp add: newPool_def p0_def)
  have "poolRuns p0 ([] @ [Arrive]) (p0\<lparr>callers := [c]\<rparr>)"
    by (rule poolRuns.step [OF poolRuns.start]) (use RunWithActor.arrive [of p0] in \<open>simp add: p0_def c_def\<close>)
  then have "poolRuns p0 ([Arrive] @ [Arrive]) (p0\<lparr>callers := [c, c]\<rparr>)"
    by (intro poolRuns.step) (simp, use RunWithActor.arrive [of "p0\<lparr>callers := [c]\<rparr>"] in \<open>simp add: p0_def c_def\<close>)
  then have "poolRuns p0 ([Arrive, Arrive] @ [Acquire 1]) p3"
    by (intro poolRuns.step)
      (simp, use RunWithActor.acquire [of "p0\<lparr>callers := [c, c]\<rparr>" 1] in \<open>simp add: p0_def p3_def c_def moveTo_def inPhase_def\<close>)
  then have "poolRuns p0 ([Arrive, Arrive, Acquire 1] @ [Return 1]) p"
    by (intro poolRuns.step)
      (simp, use RunWithActor.return [of p3 1] in \<open>simp add: p0_def p3_def p_def c_def moveTo_def inPhase_def\<close>)
  then have r: "poolRuns p0 [Arrive, Arrive, Acquire 1, Return 1] p" by simp
  have i: "inPhase p 0 Selecting" "counted hasSlot p = 1" "poolTime p = 0" "arrivedAt (callers p ! 0) = 0"
    by (simp_all add: inPhase_def counted_def hasSlot_def p_def p0_def c_def)
  from pool_bound [OF n r] i show ?thesis using n r by (intro exI [of _ p0] exI [of _ p]) auto
qed

end
