(* ===== verification/StoreSettings.thy ===== *)
theory StoreSettings
  imports StoreRuns
begin

text \<open>
  Settings blobs, app-call records, quota overrides (server/internal/store/settings.go) and the
  administrators allowlist (administrators.go). \<open>lower\<close> is PostgreSQL's function of that name.
\<close>

section \<open>Settings\<close>

definition GetSetting :: "string \<Rightarrow> string stm" where
  "GetSetting key = do {
     r \<leftarrow> query (\<lambda>s. map_sum id stValue (row (\<lambda>t. stKey t = key) (settings s)));
     ret (case r of
       Inr v \<Rightarrow> Inr v
     | Inl e \<Rightarrow> if e = ErrNotFound then Inr [] else Inl (Wrap (''get setting '' @ key) e))
   }"

definition putSetting :: "string \<Rightarrow> string \<Rightarrow> int option \<Rightarrow> unit stm" where
  "putSetting key v updatedBy = exec (\<lambda>s.
     let same = (\<lambda>t. stKey t = key) in
     if \<not> hasRef uId (users s) updatedBy then (Inl foreignKeyViolation, s)
     else if list_ex same (settings s)
     then (Inr (), s\<lparr>settings := alter same (\<lambda>t. t\<lparr>stValue := v, stUpdatedAt := clk s, stUpdatedBy := updatedBy\<rparr>) (settings s)\<rparr>)
     else (Inr (), s\<lparr>settings := settings s @ [\<lparr>stKey = key, stValue = v, stUpdatedAt = clk s, stUpdatedBy = updatedBy\<rparr>]\<rparr>))"

definition PutSetting :: "string \<Rightarrow> string \<Rightarrow> int \<Rightarrow> unit stm" where
  "PutSetting key v updatedBy =
     orWrap (''put setting '' @ key) (putSetting key v (if 0 < updatedBy then Some updatedBy else None))"

text \<open>
  \<open>GetSettingJSON\<close> decodes into a value the caller has pre-filled; \<open>decode\<close> is
  \<open>json.Unmarshal\<close>, which may leave a partly updated value behind when it fails.
\<close>

definition GetSettingJSON :: "(string \<Rightarrow> 'v \<Rightarrow> (goerr option \<times> 'v)) \<Rightarrow> string \<Rightarrow> 'v \<Rightarrow> (db, goerr option \<times> 'v) state" where
  "GetSettingJSON decode key v = do {
     r \<leftarrow> GetSetting key;
     ret (case r of
       Inl e \<Rightarrow> (Some e, v)
     | Inr raw \<Rightarrow>
         if raw = [] then (None, v)
         else (case decode raw v of
                 (Some e, v') \<Rightarrow> (Some (Wrap (''setting '' @ key @ '' is not valid JSON'') e), v')
               | (None, v') \<Rightarrow> (None, v')))
   }"

definition IsInternalSetting :: "string \<Rightarrow> bool" where
  "IsInternalSetting key \<longleftrightarrow> 2 < length key \<and> take 2 key = ''__''"

section \<open>App calls\<close>

definition insertAppCall :: "appCallRow \<Rightarrow> unit stm" where
  "insertAppCall c = exec (\<lambda>s.
     let i = seqAppCall (seqs s) + 1;
         s1 = s\<lparr>seqs := seqs s\<lparr>seqAppCall := i\<rparr>\<rparr>
     in if \<not> int4 (acDurationMs c) then (Inl outOfRange, s)
        else if hasId eId (executions s) (acExecution c) \<and> hasRef uId (users s) (acUser c)
        then (Inr (), s1\<lparr>appCallRows := appCallRows s @ [c\<lparr>acId := i, acCreatedAt := clk s\<rparr>]\<rparr>)
        else (Inl foreignKeyViolation, s1))"

fun RecordAppCalls :: "appCallRow list \<Rightarrow> unit stm" where
  "RecordAppCalls [] = ret (Inr ())"
| "RecordAppCalls (c # cs) = andThen (orWrap ''record app call'' (insertAppCall c)) (\<lambda>_. RecordAppCalls cs)"

definition ListExecutionAppCalls :: "int \<Rightarrow> appCallRow list stm" where
  "ListExecutionAppCalls eid = orWrap ''list execution app calls''
     (query (\<lambda>s. Inr (sort_key acId (filter (\<lambda>c. acExecution c = eid) (appCallRows s)))))"

section \<open>Quota overrides\<close>

record AppQuota =
  aqUser :: int
  aqUserEmail :: string
  aqApp :: string
  aqCallsPerMinute :: "int option"
  aqEnabled :: bool

definition upsertQuota :: "AppQuota \<Rightarrow> unit stm" where
  "upsertQuota q = exec (\<lambda>s.
     let same = (\<lambda>x. qUser x = aqUser q \<and> qApp x = aqApp q) in
     if \<not> fits (aqCallsPerMinute q) then (Inl outOfRange, s)
     else if list_ex same (quotas s)
     then (Inr (), s\<lparr>quotas := alter same (\<lambda>x. x\<lparr>qCallsPerMinute := aqCallsPerMinute q, qEnabled := aqEnabled q\<rparr>) (quotas s)\<rparr>)
     else if hasId uId (users s) (aqUser q)
     then (Inr (), s\<lparr>quotas := quotas s @
             [\<lparr>qUser = aqUser q, qApp = aqApp q, qCallsPerMinute = aqCallsPerMinute q, qEnabled = aqEnabled q\<rparr>]\<rparr>)
     else (Inl foreignKeyViolation, s))"

definition UpsertAppQuota :: "AppQuota \<Rightarrow> unit stm" where
  "UpsertAppQuota q = orWrap ''upsert app quota'' (upsertQuota q)"

definition DeleteAppQuota :: "int \<Rightarrow> string \<Rightarrow> unit stm" where
  "DeleteAppQuota uid app = update (\<lambda>s. s\<lparr>quotas := filter (\<lambda>q. \<not> (qUser q = uid \<and> qApp q = app)) (quotas s)\<rparr>)"

definition ListAppQuotas :: "string \<Rightarrow> AppQuota list stm" where
  "ListAppQuotas app = orWrap ''list app quotas'' (query (\<lambda>s.
     Inr (sort_key aqUserEmail
       (concat (map (\<lambda>q. map (\<lambda>u.
            \<lparr>aqUser = qUser q, aqUserEmail = (case u of None \<Rightarrow> [] | Some v \<Rightarrow> uEmail v), aqApp = qApp q,
             aqCallsPerMinute = qCallsPerMinute q, aqEnabled = qEnabled q\<rparr>)
          (leftJoin (filter (\<lambda>u. uId u = qUser q) (users s))))
        (filter (\<lambda>q. qApp q = app) (quotas s)))))))"

definition EffectiveQuota :: "int \<Rightarrow> string \<Rightarrow> int \<Rightarrow> (int \<times> bool) stm" where
  "EffectiveQuota uid app def = do {
     r \<leftarrow> query (\<lambda>s. row (\<lambda>q. qUser q = uid \<and> qApp q = app) (quotas s));
     ret (case r of
       Inl e \<Rightarrow> if e = ErrNotFound then Inr (def, True) else Inl e
     | Inr q \<Rightarrow> Inr (case qCallsPerMinute q of
                       Some c \<Rightarrow> if 0 \<le> c then c else def
                     | None \<Rightarrow> def, qEnabled q))
   }"

section \<open>Administrators\<close>

record Administrator =
  admId :: int
  admSubject :: string
  admEmail :: string
  admName :: string
  admPicture :: string
  admCreatedAt :: string
  admLastLoginAt :: string

definition scanAdministrator :: "adminRow \<Rightarrow> Administrator" where
  "scanAdministrator a = \<lparr>admId = aId a, admSubject = nullString (aSubject a), admEmail = aEmail a, admName = aName a,
     admPicture = aPicture a, admCreatedAt = aCreatedAt a, admLastLoginAt = nullString (aLastLoginAt a)\<rparr>"

definition ListAdministrators :: "Administrator list stm" where
  "ListAdministrators = orWrap ''list administrators''
     (query (\<lambda>s. Inr (map scanAdministrator (sort_key aCreatedAt (sort_key aId (admins s))))))"

definition CountAdministrators :: "int stm" where
  "CountAdministrators = query (\<lambda>s. Inr (int (length (admins s))))"

definition GetAdministrator :: "int \<Rightarrow> Administrator stm" where
  "GetAdministrator i = query (\<lambda>s. map_sum id scanAdministrator (row (\<lambda>a. aId a = i) (admins s)))"

definition insertAdministrator :: "(string \<Rightarrow> string) \<Rightarrow> string \<Rightarrow> string \<Rightarrow> int stm" where
  "insertAdministrator lower email name = exec (\<lambda>s.
     let i = seqAdmin (seqs s) + 1;
         s1 = s\<lparr>seqs := seqs s\<lparr>seqAdmin := i\<rparr>\<rparr>
     in if list_ex (\<lambda>a. lower (aEmail a) = lower email) (admins s) then (Inl uniqueViolation, s1)
        else (Inr i, s1\<lparr>admins := admins s @
               [\<lparr>aId = i, aSubject = None, aEmail = email, aName = name, aPicture = [], aCreatedAt = clk s,
                 aLastLoginAt = None\<rparr>]\<rparr>))"

definition AddAdministrator :: "(string \<Rightarrow> string) \<Rightarrow> string \<Rightarrow> string \<Rightarrow> Administrator stm" where
  "AddAdministrator lower email name = do {
     r \<leftarrow> insertAdministrator lower email name;
     case r of
       Inl e \<Rightarrow> ret (Inl (if isUniqueViolation e then Fmt ''administrator %s already exists'' [email]
                         else Wrap ''add administrator'' e))
     | Inr i \<Rightarrow> GetAdministrator i
   }"

definition RemoveAdministrator :: "int \<Rightarrow> unit stm" where
  "RemoveAdministrator i =
     orWrap ''remove administrator'' (update (\<lambda>s. s\<lparr>admins := filter (\<lambda>a. aId a \<noteq> i) (admins s)\<rparr>))"

definition FindAdministratorForLogin :: "(string \<Rightarrow> string) \<Rightarrow> string \<Rightarrow> string \<Rightarrow> Administrator stm" where
  "FindAdministratorForLogin lower subject email = do {
     r \<leftarrow> query (\<lambda>s. map_sum id scanAdministrator (row (\<lambda>a. aSubject a = Some subject) (admins s)));
     case r of
       Inr a \<Rightarrow> ret (Inr a)
     | Inl e \<Rightarrow>
         if e \<noteq> ErrNotFound then ret (Inl (Wrap ''find administrator by subject'' e))
         else query (\<lambda>s. map_sum id scanAdministrator
                (row (\<lambda>a. lower (aEmail a) = lower email \<and> (aSubject a = None \<or> aSubject a = Some subject)) (admins s)))
   }"

text \<open>The UPDATE fails when another row already has the subject.\<close>

definition UpsertAdministratorLogin :: "int \<Rightarrow> string \<Rightarrow> string \<Rightarrow> string \<Rightarrow> unit stm" where
  "UpsertAdministratorLogin i subject name picture = orWrap ''record administrator login'' (exec (\<lambda>s.
     if list_ex (\<lambda>a. aId a = i) (admins s) \<and> list_ex (\<lambda>a. aId a \<noteq> i \<and> aSubject a = Some subject) (admins s)
     then (Inl uniqueViolation, s)
     else (Inr (), s\<lparr>admins := alter (\<lambda>a. aId a = i)
            (\<lambda>a. a\<lparr>aSubject := Some subject,
                  aName := (if name \<noteq> [] then name else aName a),
                  aPicture := (if picture \<noteq> [] then picture else aPicture a),
                  aLastLoginAt := Some (clk s)\<rparr>) (admins s)\<rparr>)))"

text \<open>The loop of \<open>SeedAdministrators\<close>: the number inserted, and the error that ended it.\<close>

fun seedLoop :: "(string \<Rightarrow> string) \<Rightarrow> string list \<Rightarrow> nat \<Rightarrow> (db, nat \<times> goerr option) state" where
  "seedLoop lower [] inserted = ret (inserted, None)"
| "seedLoop lower (email # emails) inserted = do {
     r \<leftarrow> AddAdministrator lower email [];
     case r of
       Inl e \<Rightarrow> ret (inserted, Some e)
     | Inr _ \<Rightarrow> seedLoop lower emails (inserted + 1)
   }"

definition SeedAdministrators :: "(string \<Rightarrow> string) \<Rightarrow> string list \<Rightarrow> (db, nat \<times> goerr option) state" where
  "SeedAdministrators lower emails =
     (if emails = [] then ret (0, None)
      else do {
        r \<leftarrow> CountAdministrators;
        case r of
          Inl e \<Rightarrow> ret (0, Some e)
        | Inr n \<Rightarrow> if 0 < n then ret (0, None) else seedLoop lower emails 0
      })"

section \<open>The constraints are kept\<close>

lemma wf_putSetting: "preserves wfdb (putSetting key v by)"
  unfolding putSetting_def by (rule wf_exec) (simp add: wfdb_def Let_def row_simps)

lemma wf_insertAppCall: "preserves wfdb (insertAppCall c)"
  unfolding insertAppCall_def by (rule wf_exec) (simp add: wfdb_def Let_def row_simps)

lemma wf_upsertQuota: "preserves wfdb (upsertQuota q)"
  unfolding upsertQuota_def by (rule wf_exec) (simp add: wfdb_def Let_def row_simps)

lemma wf_insertAdministrator: "preserves wfdb (insertAdministrator lower email name)"
  unfolding insertAdministrator_def by (rule wf_exec) (simp add: wfdb_def Let_def row_simps)

lemmas settingReads = GetSetting_def GetSettingJSON_def ListExecutionAppCalls_def ListAppQuotas_def EffectiveQuota_def
  ListAdministrators_def CountAdministrators_def GetAdministrator_def FindAdministratorForLogin_def

lemma settingReads_keep [keeps_intros]:
  assumes "ignores_faults f"
  shows "keeps f (GetSetting key)" "keeps f (GetSettingJSON d key w)" "keeps f (ListExecutionAppCalls i)"
    "keeps f (ListAppQuotas app)" "keeps f (EffectiveQuota i app n)" "keeps f ListAdministrators"
    "keeps f CountAdministrators" "keeps f (GetAdministrator i)" "keeps f (FindAdministratorForLogin l s e)"
  unfolding settingReads by (intro keeps_intros assms)+

lemma settingReads_wf [inv_intros]:
  shows "preserves wfdb (GetSetting key)" "preserves wfdb (GetSettingJSON d key w)" "preserves wfdb (ListExecutionAppCalls i)"
    "preserves wfdb (ListAppQuotas app)" "preserves wfdb (EffectiveQuota i app n)" "preserves wfdb ListAdministrators"
    "preserves wfdb CountAdministrators" "preserves wfdb (GetAdministrator i)" "preserves wfdb (FindAdministratorForLogin l s e)"
  unfolding settingReads by (intro inv_intros)+

lemma settingReads_reads [reads_intros]:
  shows "reads (GetSetting key)" "reads (GetSettingJSON d key w)" "reads (ListExecutionAppCalls i)"
    "reads (ListAppQuotas app)" "reads (EffectiveQuota i app n)" "reads ListAdministrators"
    "reads CountAdministrators" "reads (GetAdministrator i)" "reads (FindAdministratorForLogin l s e)"
  unfolding settingReads by (intro reads_intros)+

lemma wf_PutSetting [inv_intros]: "preserves wfdb (PutSetting key v by)"
  unfolding PutSetting_def by (intro inv_intros wf_putSetting)

lemma wf_RecordAppCalls [inv_intros]: "preserves wfdb (RecordAppCalls cs)"
  by (induction cs) (auto intro!: inv_intros wf_insertAppCall)

lemma wf_UpsertAppQuota [inv_intros]: "preserves wfdb (UpsertAppQuota q)"
  unfolding UpsertAppQuota_def by (intro inv_intros wf_upsertQuota)

lemma wf_DeleteAppQuota [inv_intros]: "preserves wfdb (DeleteAppQuota i app)"
  unfolding DeleteAppQuota_def by (rule wf_update) (simp add: wfdb_def row_simps)

lemma wf_AddAdministrator [inv_intros]: "preserves wfdb (AddAdministrator lower email name)"
  unfolding AddAdministrator_def by (intro inv_intros wf_insertAdministrator)

lemma wf_RemoveAdministrator [inv_intros]: "preserves wfdb (RemoveAdministrator i)"
  unfolding RemoveAdministrator_def by (intro inv_intros wf_update) (simp add: wfdb_def row_simps)

lemma wf_UpsertAdministratorLogin [inv_intros]: "preserves wfdb (UpsertAdministratorLogin i sub n p)"
  unfolding UpsertAdministratorLogin_def by (intro inv_intros wf_exec) (simp add: wfdb_def row_simps)

lemma wf_seedLoop: "preserves wfdb (seedLoop lower emails n)"
  by (induction emails arbitrary: n) (auto intro!: inv_intros)

lemma wf_SeedAdministrators [inv_intros]: "preserves wfdb (SeedAdministrators lower emails)"
  unfolding SeedAdministrators_def by (intro inv_intros wf_seedLoop)

section \<open>Who may sign in as an administrator\<close>

text \<open>The rule of the code's comment: a bound subject decides; an e-mail only claims an unbound row.\<close>

definition mayClaim :: "(string \<Rightarrow> string) \<Rightarrow> db \<Rightarrow> string \<Rightarrow> string \<Rightarrow> adminRow \<Rightarrow> bool" where
  "mayClaim lower s subject email a \<longleftrightarrow>
     a \<in> set (admins s) \<and>
     (aSubject a = Some subject \<or>
      aSubject a = None \<and> lower (aEmail a) = lower email \<and> \<not> list_ex (\<lambda>b. aSubject b = Some subject) (admins s))"

lemma row_Inr: "row P xs = Inr x \<longleftrightarrow> List.find P xs = Some x"
  by (simp add: row_def split: option.split)

lemma row_Inl: "row P xs = Inl e \<longleftrightarrow> List.find P xs = None \<and> e = ErrNotFound"
  by (auto simp: row_def split: option.split)

lemma FindAdministrator_claims:
  assumes "realFaults s" and "fst (run_state (FindAdministratorForLogin lower subject email) s) = Inr a"
  shows "\<exists>r. a = scanAdministrator r \<and> mayClaim lower s subject email r"
proof -
  define f where "f = (\<lambda>s :: db. map_sum id scanAdministrator (row (\<lambda>a. aSubject a = Some subject) (admins s)))"
  define g where "g = (\<lambda>s :: db. map_sum id scanAdministrator
      (row (\<lambda>a. lower (aEmail a) = lower email \<and> (aSubject a = None \<or> aSubject a = Some subject)) (admins s)))"
  have F: "FindAdministratorForLogin lower subject email = do {
     r \<leftarrow> query f;
     case r of
       Inr a \<Rightarrow> ret (Inr a)
     | Inl e \<Rightarrow> if e \<noteq> ErrNotFound then ret (Inl (Wrap ''find administrator by subject'' e)) else query g }"
    unfolding FindAdministratorForLogin_def f_def g_def ..
  from assms(1) show ?thesis
  proof (cases rule: query_cases [where f = f])
    case (fault e fs)
    then show ?thesis using assms(2) by (simp add: F)
  next
    case (ok fs)
    show ?thesis
    proof (cases "List.find (\<lambda>a. aSubject a = Some subject) (admins s)")
      case (Some r)
      then have "a = scanAdministrator r" using ok assms(2) by (simp add: F f_def row_def)
      with find_SomeD [OF Some] show ?thesis by (auto simp: mayClaim_def)
    next
      case None
      define s1 where "s1 = s\<lparr>faults := fs\<rparr>"
      have "realFaults s1" using realFaults_rest [OF assms(1) ok(1)] by (simp add: s1_def)
      moreover have "fst (run_state (query g) s1) = Inr a" using ok None assms(2) by (simp add: F f_def row_def s1_def)
      ultimately have "g s1 = Inr a" by (cases rule: query_cases [where f = g]) (simp_all add: g_def)
      then obtain r where "List.find (\<lambda>a. lower (aEmail a) = lower email \<and> (aSubject a = None \<or> aSubject a = Some subject)) (admins s) = Some r"
        "a = scanAdministrator r"
        by (auto simp: g_def s1_def row_def split: option.splits)
      with find_SomeD [OF this(1)] None show ?thesis
        by (auto simp: mayClaim_def find_None_iff_ball list_ex_iff)
    qed
  qed
qed

text \<open>
  C31: the allowlist lookup. Whatever statements fail, an identity is only ever matched with an
  administrator row bound to its own subject, or with a still unbound row of its e-mail address;
  a row whose e-mail matches but which is bound to another subject is never returned.
\<close>

theorem FindAdministratorForLogin_safe:
  assumes "realFaults s" and "run_state (FindAdministratorForLogin lower subject email) s = (Inr a, s')"
  shows "tables s' = tables s \<and>
    (\<exists>r. a = scanAdministrator r \<and> mayClaim lower s subject email r) \<and> (admSubject a = subject \<or> admSubject a = [])"
proof -
  obtain r where r: "a = scanAdministrator r" "mayClaim lower s subject email r"
    using FindAdministrator_claims [OF assms(1), of lower subject email a] assms(2) by auto
  moreover have "admSubject a = subject \<or> admSubject a = []"
    using r by (auto simp: mayClaim_def scanAdministrator_def nullString_def)
  ultimately show ?thesis using keepsD_eq [OF settingReads_keep(9) [OF ignores_tables] assms(2)] by blast
qed

definition adminDB :: db where
  "adminDB = emptyDB\<lparr>
     admins := [\<lparr>aId = 1, aSubject = Some ''sub-1'', aEmail = ''ann@x'', aName = [], aPicture = [], aCreatedAt = [], aLastLoginAt = None\<rparr>,
                \<lparr>aId = 2, aSubject = None, aEmail = ''bob@x'', aName = [], aPicture = [], aCreatedAt = [], aLastLoginAt = None\<rparr>],
     seqs := (seqs emptyDB)\<lparr>seqAdmin := 2\<rparr>\<rparr>"

theorem FindAdministratorForLogin_safe_witness:
  "\<exists>a s'. run_state (FindAdministratorForLogin id ''sub-2'' ''bob@x'') adminDB = (Inr a, s') \<and> admSubject a = [] \<and>
     run_state (FindAdministratorForLogin id ''sub-2'' ''ann@x'') adminDB = (Inl ErrNotFound, adminDB)"
proof -
  define a where "a = \<lparr>admId = 2, admSubject = [], admEmail = ''bob@x'', admName = [], admPicture = [], admCreatedAt = [],
    admLastLoginAt = []\<rparr>"
  have f: "faults adminDB = []" by (simp add: adminDB_def emptyDB_def)
  then have rf: "realFaults adminDB" by (simp add: realFaults_def)
  have r: "run_state (FindAdministratorForLogin id ''sub-2'' ''bob@x'') adminDB = (Inr a, adminDB)"
    "run_state (FindAdministratorForLogin id ''sub-2'' ''ann@x'') adminDB = (Inl ErrNotFound, adminDB)"
    by (simp_all add: FindAdministratorForLogin_def query_clean row_def adminDB_def emptyDB_def scanAdministrator_def
      nullString_def a_def)
  have "admSubject a \<noteq> ''sub-2''" by (simp add: a_def)
  with FindAdministratorForLogin_safe [OF rf r(1)] have "admSubject a = []" by blast
  with r show ?thesis by blast
qed

section \<open>Seeding the allowlist\<close>

text \<open>
  seeding the allowlist is not repeated. If the table has a row, seeding inserts nothing
  whatever the configured list is, so an administrator removed in the UI does not come back; but
  this holds after a partial seed as well: when two configured addresses differ only in case the
  second one fails, and no later run ever inserts the addresses after it.
\<close>

theorem SeedAdministrators_once:
  assumes "ready s" and "admins s \<noteq> []"
  shows "run_state (SeedAdministrators lower emails) s = ((0, None), s)"
  using assms by (simp add: SeedAdministrators_def CountAdministrators_def query_clean ready_def)

theorem SeedAdministrators_once_witness: "run_state (SeedAdministrators id [''eve@x'']) adminDB = ((0, None), adminDB)"
proof (rule SeedAdministrators_once)
  show "ready adminDB" by (simp add: ready_def wfdb_def adminDB_def emptyDB_def keyed_def uniq_def)
  show "admins adminDB \<noteq> []" by (simp add: adminDB_def)
qed

lemma AddAdministrator_clean:
  assumes "ready s" and "\<not> list_ex (\<lambda>a. lower (aEmail a) = lower email) (admins s)"
  obtains a s' where "run_state (AddAdministrator lower email name) s = (Inr a, s')" "ready s'"
    "map aEmail (admins s') = map aEmail (admins s) @ [email]"
proof -
  define r where "r = \<lparr>aId = seqAdmin (seqs s) + 1, aSubject = None, aEmail = email, aName = name, aPicture = [],
    aCreatedAt = clk s, aLastLoginAt = None\<rparr>"
  define s1 where "s1 = s\<lparr>seqs := seqs s\<lparr>seqAdmin := seqAdmin (seqs s) + 1\<rparr>, admins := admins s @ [r]\<rparr>"
  have i: "run_state (insertAdministrator lower email name) s = (Inr (aId r), s1)"
    using assms by (simp add: insertAdministrator_def exec_clean ready_def Let_def r_def s1_def)
  have "wfdb s" using assms(1) by (simp add: ready_def)
  from preservesD_eq [OF wf_insertAdministrator this i] have s1: "ready s1" using assms(1) by (simp add: ready_def s1_def)
  have "List.find (\<lambda>y. aId y = aId r) (admins s1) = Some r"
    by (rule find_key [OF wfdb_keys(12)]) (use s1 in \<open>simp_all add: ready_def s1_def\<close>)
  then have "run_state (AddAdministrator lower email name) s = (Inr (scanAdministrator r), s1)"
    using i s1 by (simp add: AddAdministrator_def GetAdministrator_def query_clean ready_def row_def)
  then show ?thesis using that s1 by (simp add: s1_def r_def)
qed

lemma AddAdministrator_taken:
  assumes "ready s" and "list_ex (\<lambda>a. lower (aEmail a) = lower email) (admins s)"
  shows "\<exists>s'. run_state (AddAdministrator lower email name) s = (Inl (Fmt ''administrator %s already exists'' [email]), s') \<and>
    admins s' = admins s \<and> ready s'"
proof -
  obtain s' where i: "run_state (insertAdministrator lower email name) s = (Inl uniqueViolation, s')" "admins s' = admins s"
    "faults s' = faults s"
    using assms by (simp add: insertAdministrator_def exec_clean ready_def Let_def)
  moreover have "wfdb s'" using preservesD_eq [OF wf_insertAdministrator _ i(1)] assms(1) by (simp add: ready_def)
  ultimately show ?thesis
    using assms(1) by (simp add: AddAdministrator_def isUniqueViolation_def uniqueViolation_def ready_def)
qed

text \<open>
  a duplicate in the configured list, be it only in case, cuts the seed short. The addresses
  before it are inserted, the ones after it are not, and since the table is no longer empty they
  are not inserted by any later run either.
\<close>

theorem SeedAdministrators_partial:
  assumes "ready s" and "admins s = []" and "lower b = lower a"
  shows "\<exists>s'. run_state (SeedAdministrators lower (a # b # rest)) s =
      ((1, Some (Fmt ''administrator %s already exists'' [b])), s') \<and> map aEmail (admins s') = [a] \<and>
    run_state (SeedAdministrators lower (a # b # rest)) s' = ((0, None), s')"
proof -
  have n: "\<not> list_ex (\<lambda>c. lower (aEmail c) = lower a) (admins s)" using assms(2) by simp
  obtain x s1 where "run_state (AddAdministrator lower a []) s = (Inr x, s1)" "ready s1"
    "map aEmail (admins s1) = map aEmail (admins s) @ [a]"
    by (rule AddAdministrator_clean [OF assms(1) n])
  then have a: "run_state (AddAdministrator lower a []) s = (Inr x, s1)" "ready s1" "map aEmail (admins s1) = [a]"
    using assms(2) by simp_all
  then have "list_ex (\<lambda>c. lower (aEmail c) = lower b) (admins s1)" using assms(3) by (auto simp: list_ex_iff)
  from AddAdministrator_taken [OF a(2) this, of "[]"]
  obtain s2 where b: "run_state (AddAdministrator lower b []) s1 = (Inl (Fmt ''administrator %s already exists'' [b]), s2)"
    "admins s2 = admins s1" "ready s2" by blast
  have e: "run_state (SeedAdministrators lower (a # b # rest)) s = ((1, Some (Fmt ''administrator %s already exists'' [b])), s2)"
    using assms a b by (simp add: SeedAdministrators_def CountAdministrators_def query_clean ready_def)
  have "admins s2 \<noteq> []" using a(3) b(2) by auto
  then have "run_state (SeedAdministrators lower (a # b # rest)) s2 = ((0, None), s2)"
    using b(3) by (simp add: SeedAdministrators_def CountAdministrators_def query_clean ready_def)
  with e a(3) b(2) show ?thesis by auto
qed

theorem SeedAdministrators_partial_witness:
  "\<exists>s'. run_state (SeedAdministrators (\<lambda>_. ''a@x'') [''a@x'', ''A@x'', ''b@x'']) emptyDB =
      ((1, Some (Fmt ''administrator %s already exists'' [''A@x''])), s') \<and> map aEmail (admins s') = [''a@x'']"
proof -
  have "ready emptyDB" by (simp add: ready_def wf_emptyDB) (simp add: emptyDB_def)
  moreover have "admins emptyDB = []" by (simp add: emptyDB_def)
  ultimately show ?thesis
    using SeedAdministrators_partial [of emptyDB "\<lambda>_. ''a@x''" "''A@x''" "''a@x''" "[''b@x'']"] by auto
qed

end
