(* ===== verification/Web.thy ===== *)
theory Web
  imports Engine StoreSettings
begin

text \<open>
  What the HTTP layer of the server (package main under server/) is made of: the request, the
  replies with the data they carry, and the helpers of main.go, auth.go and web.go that parse and
  escape. A handler is a state transformer on the database that yields a reply. JSON bodies and
  HTML templates are not rendered: a reply holds the value that is encoded or the data the template
  gets.
\<close>

section \<open>Requests\<close>

record request =
  cookieOf :: "string \<Rightarrow> string option"
  headerOf :: "string \<Rightarrow> string"
  urlPath :: string
  hostName :: string
  isTLS :: bool
  pathValue :: "string \<Rightarrow> string"
  queryOf :: "string \<Rightarrow> string"
  formValue :: "string \<Rightarrow> string"
  postContent :: "string option"
  reqBody :: bytes

text \<open>
  What the JSON decoder makes of a byte stream that may end early: a value, a syntax or type error,
  or an incomplete value.
\<close>

datatype 'v parsed = Parsed 'v | Malformed | Incomplete

record createTriggerRequest =
  ctFileName :: string
  ctVersionID :: "int option"
  ctScheduleType :: string
  ctIntervalSeconds :: "int option"
  ctDailyTimeUTC :: string

record bodyParsers =
  parseCreateProject :: "bytes \<Rightarrow> (string \<times> string) parsed"
  parseUpdateProject :: "bytes \<Rightarrow> (string option \<times> string option) parsed"
  parseSaveFile :: "bytes \<Rightarrow> string parsed"
  parseCreateVersion :: "bytes \<Rightarrow> string parsed"
  parseCreateDeployment :: "bytes \<Rightarrow> (string \<times> int option) parsed"
  parseCreateTrigger :: "bytes \<Rightarrow> createTriggerRequest parsed"
  parseEnabled :: "bytes \<Rightarrow> bool option parsed"

section \<open>Replies\<close>

record rail =
  railProjects :: "ProjectAccess list"
  railActiveID :: int
  railProject :: "WSProject option"
  railSection :: string
  railRole :: role
  railCanEdit :: bool

record basePage =
  bpTitle :: string
  bpFlash :: string
  bpFlashOK :: bool
  bpUser :: "User option"
  bpRail :: "rail option"

record projectPage =
  ppBase :: basePage
  ppP :: WSProject
  ppRole :: role
  ppCanEdit :: bool

record logEntry =
  leApp :: string
  leWhen :: string
  leExecID :: int
  leEntry :: Entry

record runResult =
  rrResult :: Result
  rrExecutionID :: int

record deployResponse =
  drDeployment :: string
  drNote :: string
  drResult :: Result
  drExecutionID :: int

datatype page =
    LoginPage basePage
  | ProjectsPage basePage
  | ErrorPage basePage string
  | OverviewPage projectPage nat nat nat nat "Execution list"
  | FilesPage projectPage "fileRow list" "fileRow option" "runResult option"
  | VersionsPage projectPage "versionRow list"
  | DeploymentsPage projectPage "Deployment list" "fileRow list"
  | TriggersPage projectPage "Trigger list" "fileRow list"
  | KVPage projectPage "kvRow list"
  | ExecutionsPage projectPage "Execution list"
  | ExecutionPage projectPage Execution "appCallRow list"
  | LogsPage projectPage "logEntry list"

datatype payload =
    ErrorBody string
  | StatusBody string
  | ProjectsBody "ProjectAccess list"
  | ProjectBody WSProject
  | FilesBody "fileRow list" role
  | FileBody fileRow
  | RunBody runResult
  | VersionsBody "versionRow list"
  | VersionBody versionRow
  | DeploymentsBody "Deployment list"
  | DeploymentBody Deployment
  | DeployBody deployResponse
  | TriggersBody "Trigger list"
  | TriggerBody Trigger
  | ExecutionsBody "Execution list"
  | ExecutionBody Execution "appCallRow list"
  | KVBody "kvRow list"

text \<open>
  \<open>Silent\<close> is a handler that returns without writing because the client has gone; \<open>Panicked\<close> is a
  run-time panic, which net/http turns into a dropped connection.
\<close>

datatype response =
    JSON nat payload
  | PlainText nat string
  | NoContent
  | SeeOther string
  | Rendered nat page
  | NotFoundReply
  | Silent
  | Panicked

type_synonym handler = "(db, response) state"

record cookie =
  ckName :: string
  ckValue :: string
  ckMaxAge :: int
  ckHttpOnly :: bool
  ckLax :: bool

definition writeError :: "nat \<Rightarrow> string \<Rightarrow> handler" where
  "writeError status msg = ret (JSON status (ErrorBody msg))"

abbreviation redirect :: "string \<Rightarrow> handler" where
  "redirect url \<equiv> ret (SeeOther url)"

section \<open>The world of a request\<close>

text \<open>
  The server's constants and what the outside contributes to one request: the HMAC-SHA256
  function, the session key, the service token in memory, the clock when the middleware and when
  the handler look at it, random bytes, the outcome of the engine, whether the client's context is
  cancelled, the order in which Go ranges over a map, the content of the log files with the JSON decoder of their lines, and the
  reformatting of their RFC 3339 times for display, None when a time does not parse.
\<close>

record world =
  uni :: unicode
  mac :: "bytes \<Rightarrow> bytes \<Rightarrow> bytes"
  secret :: bytes
  serviceToken :: "string option"
  gateTime :: time
  reqTime :: time
  rnd :: "nat \<Rightarrow> bytes"
  startTime :: time
  finishTime :: time
  engineRun :: "string \<Rightarrow> Actor \<Rightarrow> Result result"
  clientGone :: bool
  rangeOrder :: "(string \<times> string) list \<Rightarrow> (string \<times> string) list"
  parsers :: bodyParsers
  logFile :: "string \<Rightarrow> string option"
  unmarshalEntry :: "string \<Rightarrow> Entry option"
  logWhen :: "string \<Rightarrow> string option"

section \<open>Parsing\<close>

definition decodeJSON :: "(bytes \<Rightarrow> 'v parsed) \<Rightarrow> request \<Rightarrow> nat \<Rightarrow> ('v \<Rightarrow> handler) \<Rightarrow> handler" where
  "decodeJSON dec req maxBytes k =
     (case dec (take maxBytes (reqBody req)) of
        Parsed v \<Rightarrow> k v
      | Malformed \<Rightarrow> writeError 400 ''request body must be valid JSON''
      | Incomplete \<Rightarrow>
          if length (reqBody req) > maxBytes then writeError 413 ''request body too large''
          else writeError 400 ''request body must be valid JSON'')"

definition pathInt64Value :: "request \<Rightarrow> string \<Rightarrow> int option" where
  "pathInt64Value req name = ParseInt64 (pathValue req name)"

definition pathInt64 :: "request \<Rightarrow> string \<Rightarrow> (int \<Rightarrow> handler) \<Rightarrow> handler" where
  "pathInt64 req name k =
     (let bad = writeError 400 (name @ '' must be a positive integer'') in
      case ParseInt64 (pathValue req name) of
        None \<Rightarrow> bad
      | Some v \<Rightarrow> if v \<le> 0 then bad else k v)"

text \<open>\<open>int\<close> has 64 bits, so the conversion in \<open>pathInt\<close> loses nothing.\<close>

definition pathInt :: "request \<Rightarrow> string \<Rightarrow> (int \<Rightarrow> handler) \<Rightarrow> handler" where
  "pathInt req name k = pathInt64 req name k"

definition pathID :: "request \<Rightarrow> int" where
  "pathID req = (case ParseInt64 (pathValue req ''id'') of
     Some v \<Rightarrow> v
   | None \<Rightarrow>
       (let t = pathValue req ''id''; neg = (t \<noteq> [] \<and> hd t = CHR ''-'');
            d = (if t \<noteq> [] \<and> (hd t = CHR ''-'' \<or> hd t = CHR ''+'') then tl t else t) in
        if parse_uint d = None then 0 else if neg then - (2 ^ 63) else 2 ^ 63 - 1))"

section \<open>Escaping\<close>

definition upper_hex :: "nat \<Rightarrow> char" where
  "upper_hex d = ''0123456789ABCDEF'' ! d"

definition is_alnum :: "char \<Rightarrow> bool" where
  "is_alnum c \<longleftrightarrow>
     65 \<le> byte c \<and> byte c \<le> 90 \<or> 97 \<le> byte c \<and> byte c \<le> 122 \<or> 48 \<le> byte c \<and> byte c \<le> 57"

definition escape_byte :: "string \<Rightarrow> char \<Rightarrow> string" where
  "escape_byte plain c =
     (if c = CHR '' '' then ''+''
      else if is_alnum c \<or> c \<in> set plain then [c]
      else [CHR ''%'', upper_hex (byte c div 16), upper_hex (byte c mod 16)])"

text \<open>The escaping of auth.go, and \<open>url.QueryEscape\<close>, which also leaves the tilde alone.\<close>

definition queryEscape :: "string \<Rightarrow> string" where
  "queryEscape s = concat (map (escape_byte ''-._'') s)"

definition urlQuery :: "string \<Rightarrow> string" where
  "urlQuery s = concat (map (escape_byte ''-_.~'') s)"

text \<open>How the other side reads a query value.\<close>

definition hex_value :: "char \<Rightarrow> nat option" where
  "hex_value c =
     (if 48 \<le> byte c \<and> byte c \<le> 57 then Some (byte c - 48)
      else if 65 \<le> byte c \<and> byte c \<le> 70 then Some (byte c - 55)
      else if 97 \<le> byte c \<and> byte c \<le> 102 then Some (byte c - 87)
      else None)"

fun unescape :: "string \<Rightarrow> string option" where
  "unescape [] = Some []"
| "unescape (c # s) =
     (if c = CHR ''+'' then map_option ((#) CHR '' '') (unescape s)
      else if c = CHR ''%'' then
        (case s of
           a # b # t \<Rightarrow>
             (case (hex_value a, hex_value b) of
                (Some x, Some y) \<Rightarrow> map_option ((#) (char_of (16 * x + y))) (unescape t)
              | _ \<Rightarrow> None)
         | _ \<Rightarrow> None)
      else map_option ((#) c) (unescape s))"

lemma byte_upper_hex: "d < 16 \<Longrightarrow> byte (upper_hex d) = (if d < 10 then 48 + d else 55 + d)"
proof -
  assume "d < 16"
  then have "d \<in> set [0..<16]" by simp
  then show ?thesis by (auto simp: upper_hex_def upt_rec numeral_eq_Suc)
qed

lemma hex_value_upper [simp]: "d < 16 \<Longrightarrow> hex_value (upper_hex d) = Some d"
  by (simp add: hex_value_def byte_upper_hex)

lemma unescape_byte:
  assumes "CHR ''+'' \<notin> set plain" and "CHR ''%'' \<notin> set plain"
  shows "unescape (escape_byte plain c @ s) = map_option ((#) c) (unescape s)"
proof -
  have b: "byte c div 16 < 16" by (simp add: less_mult_imp_div_less)
  have "16 * (byte c div 16) + byte c mod 16 = byte c" by simp
  then have "char_of (16 * (byte c div 16) + byte c mod 16) = c" by (simp only: char_of_char)
  then show ?thesis using assms b by (auto simp: escape_byte_def is_alnum_def split: option.split)
qed

lemma unescape_all:
  assumes "CHR ''+'' \<notin> set plain" and "CHR ''%'' \<notin> set plain"
  shows "unescape (concat (map (escape_byte plain) s)) = Some s"
  by (induction s) (simp_all add: unescape_byte [OF assms])

text \<open>
  flash messages survive the query string. Both escapings are inverted by the query decoder on
  every byte string, and what they produce has no byte that could end the value, the URL or the
  header line it is put in.
\<close>

theorem queryEscape_roundtrip:
  "unescape (queryEscape s) = Some s \<and> unescape (urlQuery s) = Some s \<and>
   list_all (\<lambda>c. is_alnum c \<or> c \<in> set ''+%-._~'') (queryEscape s @ urlQuery s)"
proof -
  have "is_alnum (upper_hex d)" if "d < 16" for d
    using that by (simp add: is_alnum_def byte_upper_hex)
  then have e: "list_all (\<lambda>c. is_alnum c \<or> c \<in> set ''+%-._~'') (escape_byte plain c)"
    if "set plain \<subseteq> set ''-._~''" for plain c
    using that by (auto simp: escape_byte_def less_mult_imp_div_less)
  have "list_all (\<lambda>c. is_alnum c \<or> c \<in> set ''+%-._~'') (concat (map (escape_byte plain) s))"
    if "set plain \<subseteq> set ''-._~''" for plain
    using e [OF that] by (induction s) simp_all
  from this [of "''-._''"] this [of "''-_.~''"] show ?thesis
    by (simp add: queryEscape_def urlQuery_def unescape_all)
qed

section \<open>Small helpers\<close>

definition emailLocalPart :: "string \<Rightarrow> string" where
  "emailLocalPart email = (case IndexByte CHR ''@'' email of Some i \<Rightarrow> if 0 < i then take i email else [] | None \<Rightarrow> [])"

fun firstNonEmptyStr :: "string list \<Rightarrow> string" where
  "firstNonEmptyStr [] = []"
| "firstNonEmptyStr (v # vs) = (if v \<noteq> [] then v else firstNonEmptyStr vs)"

definition randomToken :: "bytes \<Rightarrow> string" where
  "randomToken b = hex_encode b"

definition env :: "(string \<Rightarrow> string) \<Rightarrow> string \<Rightarrow> string \<Rightarrow> string" where
  "env getenv key fallback = (if getenv key \<noteq> [] then getenv key else fallback)"

end
