(* ===== verification/Access.thy ===== *)
theory Access
  imports Web
begin

text \<open>
  Who is calling and what they may do: the session cookies, the login through the identity
  provider and the first workspace (server/auth.go), the resolution of a project with the caller's
  role and the role check (server/projects.go). The identity provider (go-oidc and oauth2) is a
  record of functions; HMAC-SHA256 is the field \<open>mac\<close> of the world.
\<close>

section \<open>Session cookies\<close>

definition sessionCookieName :: string where "sessionCookieName = ''pg_session''"
definition sessionTTL :: time where "sessionTTL = 30 * 24 * 3600 * nsPerSecond"
definition stateCookieName :: string where "stateCookieName = ''pg_oidc_state''"
definition nonceCookieName :: string where "nonceCookieName = ''pg_oidc_nonce''"
definition stateTTL :: time where "stateTTL = 600 * nsPerSecond"

definition unixTime :: "time \<Rightarrow> int" where
  "unixTime t = t div nsPerSecond"

definition sessionValue :: "(bytes \<Rightarrow> bytes \<Rightarrow> bytes) \<Rightarrow> bytes \<Rightarrow> int \<Rightarrow> int \<Rightarrow> string" where
  "sessionValue h key i expiry =
     (let payload = itoa_int i @ ''|'' @ itoa_int expiry
      in payload @ ''|'' @ hex_encode (h key payload))"

definition setSession :: "world \<Rightarrow> time \<Rightarrow> int \<Rightarrow> cookie" where
  "setSession w now userID =
     \<lparr>ckName = sessionCookieName,
      ckValue = sessionValue (mac w) (secret w) userID (unixTime (now + sessionTTL)),
      ckMaxAge = sessionTTL div nsPerSecond, ckHttpOnly = True, ckLax = True\<rparr>"

text \<open>
  \<open>fmt.Sscanf(payload, "%d|%d", ...)\<close>. The only white space net/http lets into a cookie value is the
  blank. Input after the second number is ignored.
\<close>

definition scanInt :: "string \<Rightarrow> (int \<times> string) option" where
  "scanInt s0 =
     (let s = dropWhile (\<lambda>c. c = CHR '' '') s0;
          signed = (s \<noteq> [] \<and> (hd s = CHR ''+'' \<or> hd s = CHR ''-''));
          t = (if signed then tl s else s);
          ds = takeWhile is_digit t
      in if ds = [] then None
         else map_option (\<lambda>v. (v, dropWhile is_digit t)) (ParseInt64 ((if signed then [hd s] else []) @ ds)))"

definition scanPair :: "string \<Rightarrow> (int \<times> int) option" where
  "scanPair s = do {
     (a, s) \<leftarrow> scanInt s;
     if s \<noteq> [] \<and> hd s = CHR ''|'' then do { (b, _) \<leftarrow> scanInt (tl s); Some (a, b) } else None
   }"

text \<open>The checks on a cookie value that need no database: the id it vouches for.\<close>

definition openSession :: "(bytes \<Rightarrow> bytes \<Rightarrow> bytes) \<Rightarrow> bytes \<Rightarrow> int \<Rightarrow> string \<Rightarrow> int option" where
  "openSession h key now v =
     (let parts = Split CHR ''|'' v in
      if v = [] \<or> length parts \<noteq> 3 then None
      else
        (let payload = parts ! 0 @ ''|'' @ parts ! 1; want = hex_encode (h key payload) in
         if want \<noteq> parts ! 2 then None
         else
           (case scanPair payload of
              None \<Rightarrow> None
            | Some (i, expiry) \<Rightarrow> if now > expiry \<or> i \<le> 0 then None else Some i)))"

definition userFromSession :: "world \<Rightarrow> time \<Rightarrow> request \<Rightarrow> (db, User option) state" where
  "userFromSession w now req =
     (case cookieOf req sessionCookieName of
        None \<Rightarrow> ret None
      | Some v \<Rightarrow>
     (case openSession (mac w) (secret w) (unixTime now) v of
        None \<Rightarrow> ret None
      | Some userID \<Rightarrow> do {
          r \<leftarrow> GetUser userID;
          ret (case r of Inl _ \<Rightarrow> None | Inr u \<Rightarrow> Some u)
        }))"

definition bearerOK :: "world \<Rightarrow> request \<Rightarrow> bool" where
  "bearerOK w req =
     (case serviceToken w of
        None \<Rightarrow> False
      | Some tok \<Rightarrow>
          (let h = headerOf req ''Authorization'' in
           tok \<noteq> [] \<and> 7 < length h \<and> take 7 h = ''Bearer '' \<and> drop 7 h = tok))"

definition userFromServiceToken :: "world \<Rightarrow> request \<Rightarrow> (db, User option) state" where
  "userFromServiceToken w req =
     (if \<not> bearerOK w req then ret None
      else do {
        r \<leftarrow> ListUsers;
        ret (case r of Inl _ \<Rightarrow> None | Inr us \<Rightarrow> (case us of [] \<Rightarrow> None | u # _ \<Rightarrow> Some u))
      })"

definition currentUser :: "world \<Rightarrow> time \<Rightarrow> request \<Rightarrow> (db, User option) state" where
  "currentUser w now req = do {
     u \<leftarrow> userFromSession w now req;
     case u of Some u \<Rightarrow> ret (Some u) | None \<Rightarrow> userFromServiceToken w req
   }"

section \<open>Middleware\<close>

definition requireUserPage :: "world \<Rightarrow> request \<Rightarrow> handler \<Rightarrow> handler" where
  "requireUserPage w req nxt = do {
     u \<leftarrow> currentUser w (gateTime w) req;
     if u \<noteq> None then nxt else redirect ''/login''
   }"

definition requireUser :: "world \<Rightarrow> request \<Rightarrow> handler \<Rightarrow> handler" where
  "requireUser w req nxt = do {
     u \<leftarrow> currentUser w (gateTime w) req;
     if u \<noteq> None then nxt else writeError 401 ''login required''
   }"

section \<open>The first workspace\<close>

definition ensureWorkspace :: "world \<Rightarrow> User \<Rightarrow> int stm" where
  "ensureWorkspace w user =
     andThen (ListWorkspacesForUser (userId user)) (\<lambda>ws.
       case ws of
         x # _ \<Rightarrow> ret (Inr (wId x))
       | [] \<Rightarrow>
           (let wsName = firstNonEmptyStr [userName user, emailLocalPart (userEmail user), ''workspace''] in
            andThen (CreateWorkspace (uni w) wsName) (\<lambda>created.
            andThen (AddWorkspaceMember (wId created) (userId user) RoleOwner) (\<lambda>_.
            ret (Inr (wId created))))))"

definition loginUser :: "world \<Rightarrow> string \<Rightarrow> string \<Rightarrow> string \<Rightarrow> string \<Rightarrow> User stm" where
  "loginUser w subject email name picture =
     andThen (UpsertUserBySubject subject email name picture) (\<lambda>user.
     andThen (ensureWorkspace w user) (\<lambda>_. ret (Inr user)))"

text \<open>The caller checks that the id is positive, as the code does.\<close>

definition userWorkspaceID :: "world \<Rightarrow> User \<Rightarrow> (db, int option) state" where
  "userWorkspaceID w user = do {
     r \<leftarrow> ensureWorkspace w user;
     ret (case r of Inl _ \<Rightarrow> None | Inr i \<Rightarrow> if i \<le> 0 then None else Some i)
   }"

section \<open>Login through the identity provider\<close>

record claims =
  clSub :: string
  clEmail :: string
  clName :: string
  clPicture :: string
  clNonce :: string

text \<open>
  \<open>exchange\<close> fails, or yields a token whose \<open>id_token\<close> may be missing; \<open>verifyToken\<close> fails with a
  text, or yields the claims unless they do not decode.
\<close>

record idp =
  authCodeURL :: "string \<Rightarrow> string \<Rightarrow> string \<Rightarrow> string"
  exchange :: "string \<Rightarrow> string \<Rightarrow> string option option"
  verifyToken :: "string \<Rightarrow> string + claims option"

definition callbackURL :: "string \<Rightarrow> bool \<Rightarrow> request \<Rightarrow> string" where
  "callbackURL override trustProxy req =
     (if override \<noteq> [] then override
      else
        (let scheme = (if isTLS req then ''https'' else ''http'');
             proto = headerOf req ''X-Forwarded-Proto'';
             scheme = (if trustProxy \<and> proto \<noteq> [] then proto else scheme)
         in scheme @ ''://'' @ hostName req @ ''/api/auth/callback''))"

definition shortCookie :: "string \<Rightarrow> string \<Rightarrow> cookie" where
  "shortCookie name v =
     \<lparr>ckName = name, ckValue = v, ckMaxAge = stateTTL div nsPerSecond, ckHttpOnly = True, ckLax = True\<rparr>"

definition clearedCookie :: "string \<Rightarrow> cookie" where
  "clearedCookie name = \<lparr>ckName = name, ckValue = [], ckMaxAge = -1, ckHttpOnly = False, ckLax = False\<rparr>"

definition starting :: string where
  "starting = ''sign-in provider is still starting, try again''"

definition handleLoginStart :: "idp option \<Rightarrow> string \<Rightarrow> bool \<Rightarrow> world \<Rightarrow> request \<Rightarrow> cookie list \<times> response" where
  "handleLoginStart provider override trustProxy w req =
     (case provider of
        None \<Rightarrow> ([], SeeOther (''/login?err='' @ queryEscape starting))
      | Some P \<Rightarrow>
          (let state = randomToken (rnd w 0); nonce = randomToken (rnd w 1) in
           ([shortCookie stateCookieName state, shortCookie nonceCookieName nonce],
            SeeOther (authCodeURL P state (callbackURL override trustProxy req) nonce))))"

text \<open>
  The part of the callback before the database: the cookies set and the message of a failed login,
  or the verified claims. \<open>redirectURI\<close> is the callback URL.
\<close>

definition callbackClaims ::
  "idp option \<Rightarrow> string \<Rightarrow> string \<Rightarrow> string \<Rightarrow> request \<Rightarrow> cookie list \<times> (string + claims)" where
  "callbackClaims provider stateName nonceName redirectURI req =
     (if queryOf req ''error'' \<noteq> [] then ([], Inl (queryOf req ''error''))
      else
     (case provider of
        None \<Rightarrow> ([], Inl starting)
      | Some P \<Rightarrow>
     (let state = queryOf req ''state'' in
      if cookieOf req stateName = None \<or> cookieOf req stateName = Some [] \<or> cookieOf req stateName \<noteq> Some state
      then ([], Inl ''login session expired, try again'')
      else
        (let nonceCookie = cookieOf req nonceName;
             cleared = [clearedCookie stateName, clearedCookie nonceName] in
         (cleared,
          case exchange P (queryOf req ''code'') redirectURI of
            None \<Rightarrow> Inl ''token exchange failed''
          | Some None \<Rightarrow> Inl ''provider returned no id_token''
          | Some (Some rawID) \<Rightarrow>
              (case verifyToken P rawID of
                 Inl e \<Rightarrow> Inl (''id_token verification failed: '' @ e)
               | Inr None \<Rightarrow> Inl ''id_token carried no subject''
               | Inr (Some cl) \<Rightarrow>
                   if clSub cl = [] then Inl ''id_token carried no subject''
                   else if nonceCookie = None \<or> nonceCookie = Some [] \<or> nonceCookie \<noteq> Some (clNonce cl)
                   then Inl ''login session expired, try again''
                   else Inr cl))))))"

definition handleAuthCallback ::
  "idp option \<Rightarrow> string \<Rightarrow> bool \<Rightarrow> world \<Rightarrow> request \<Rightarrow> (db, cookie list \<times> response) state" where
  "handleAuthCallback provider override trustProxy w req =
     (case callbackClaims provider stateCookieName nonceCookieName (callbackURL override trustProxy req) req of
        (cookies, Inl msg) \<Rightarrow> ret (cookies, SeeOther (''/login?err='' @ queryEscape msg))
      | (cookies, Inr cl) \<Rightarrow> do {
          r \<leftarrow> loginUser w (clSub cl) (clEmail cl) (clName cl) (clPicture cl);
          case r of
            Inl _ \<Rightarrow> ret (cookies, SeeOther (''/login?err='' @ queryEscape ''could not record login''))
          | Inr user \<Rightarrow> ret (cookies @ [setSession w (reqTime w) (userId user)], SeeOther ''/projects'')
        })"

definition handleLogoutPost :: "cookie list \<times> response" where
  "handleLogoutPost = ([clearedCookie sessionCookieName], SeeOther ''/login'')"

section \<open>Projects and roles\<close>

definition resolveWSProject :: "world \<Rightarrow> request \<Rightarrow> (db, (nat \<times> string) + (WSProject \<times> role \<times> User)) state" where
  "resolveWSProject w req = do {
     u \<leftarrow> currentUser w (reqTime w) req;
     case u of
       None \<Rightarrow> ret (Inl (401, ''login required''))
     | Some user \<Rightarrow>
         (case pathInt64Value req ''id'' of
            None \<Rightarrow> ret (Inl (400, ''bad project id''))
          | Some i \<Rightarrow>
              if i \<le> 0 then ret (Inl (400, ''bad project id''))
              else do {
                g \<leftarrow> GetWSProject i;
                case g of
                  Inl e \<Rightarrow>
                    if errors_Is e ErrNotFound then ret (Inl (404, ''project not found''))
                    else ret (Inl (500, ''could not look up project''))
                | Inr p \<Rightarrow> do {
                    r \<leftarrow> EffectiveProjectRole (wpId p) (userId user);
                    case r of
                      Inl _ \<Rightarrow> ret (Inl (500, ''could not resolve access''))
                    | Inr role \<Rightarrow>
                        if role = [] then ret (Inl (404, ''project not found''))
                        else ret (Inr (p, role, user))
                  }
              })
   }"

text \<open>The handler continues with the project, the role and the user.\<close>

definition wsProjectOr404 :: "world \<Rightarrow> request \<Rightarrow> (WSProject \<Rightarrow> role \<Rightarrow> User \<Rightarrow> handler) \<Rightarrow> handler" where
  "wsProjectOr404 w req k = do {
     r \<leftarrow> resolveWSProject w req;
     case r of
       Inl (status, msg) \<Rightarrow> writeError status msg
     | Inr (p, role, user) \<Rightarrow> k p role user
   }"

definition rank :: "role \<Rightarrow> nat" where
  "rank r = (if r = RoleViewer then 1 else if r = RoleEditor then 2 else if r = RoleOwner then 3 else 0)"

definition requireRole :: "role \<Rightarrow> role \<Rightarrow> handler \<Rightarrow> handler" where
  "requireRole role need k =
     (if rank role \<ge> rank need then k else writeError 403 ''you do not have edit access to this project'')"

section \<open>What a session cookie proves\<close>

lemma byte_nibbles: "byte c div 16 < 16" "byte c mod 16 < 16"
  by (simp_all add: less_mult_imp_div_less)

lemma bar_free: "CHR ''|'' \<notin> set (itoa_int i)" "CHR ''|'' \<notin> set (hex_encode b)"
proof -
  have "CHR ''|'' \<notin> set (itoa n)" for n using itoa_digits [of "CHR ''|''" n] by (auto simp: is_digit_def)
  then show "CHR ''|'' \<notin> set (itoa_int i)" by (simp add: itoa_int_def)
  have "hex_digit d \<noteq> CHR ''|''" if "d < 16" for d
  proof -
    from that have "d \<in> set [0..<16]" by simp
    then show ?thesis by (auto simp: hex_digit_def upt_rec numeral_eq_Suc)
  qed
  from this [OF byte_nibbles(1)] this [OF byte_nibbles(2)] show "CHR ''|'' \<notin> set (hex_encode b)"
    by (induction b) (simp_all add: hex_encode_def hex_byte_def eq_commute)
qed

lemma scanInt_itoa:
  assumes "- (2 ^ 63) \<le> i" and "i < 2 ^ 63" and "rest = [] \<or> \<not> is_digit (hd rest)"
  shows "scanInt (itoa_int i @ rest) = Some (i, rest)"
proof -
  define sg where "sg = (if i < 0 then ''-'' else [])"
  define n where "n = (if i < 0 then nat (- i) else nat i)"
  have it: "itoa_int i = sg @ itoa n" by (simp add: itoa_int_def sg_def n_def)
  have tw: "takeWhile is_digit (itoa n @ rest) = itoa n" "dropWhile is_digit (itoa n @ rest) = rest"
    using assms(3) itoa_digits [of _ n] by (cases rest; simp add: takeWhile_append2 dropWhile_append2)+
  obtain c t where ct: "itoa n = c # t" by (cases "itoa n") auto
  have c: "c \<noteq> CHR '' ''" "c \<noteq> CHR ''+''" "c \<noteq> CHR ''-''" using itoa_digits [of c n] ct by (auto simp: is_digit_def)
  have p: "ParseInt64 (sg @ itoa n) = Some i" using ParseInt64_itoa_int [OF assms(1,2)] it by simp
  show ?thesis
  proof (cases "i < 0")
    case True
    then have "sg = ''-''" by (simp add: sg_def)
    then show ?thesis using it p tw by (simp add: scanInt_def Let_def)
  next
    case False
    then have "sg = []" by (simp add: sg_def)
    then show ?thesis using it p tw c ct by (simp add: scanInt_def Let_def)
  qed
qed

lemma openSession_value:
  assumes "0 < i" and "i < 2 ^ 63" and "- (2 ^ 63) \<le> e" and "e < 2 ^ 63"
  shows "openSession h key now (sessionValue h key i e) = (if now > e then None else Some i)"
proof -
  define p where "p = itoa_int i @ ''|'' @ itoa_int e"
  have v: "sessionValue h key i e = Join ''|'' [itoa_int i, itoa_int e, hex_encode (h key p)]"
    by (simp add: sessionValue_def p_def Let_def)
  have parts: "Split CHR ''|'' (sessionValue h key i e) = [itoa_int i, itoa_int e, hex_encode (h key p)]"
    unfolding v by (rule Split_Join) (auto simp: bar_free)
  have "scanInt (itoa_int e @ []) = Some (e, [])" by (rule scanInt_itoa) (use assms in simp_all)
  moreover have "scanInt (itoa_int i @ ''|'' @ itoa_int e) = Some (i, ''|'' @ itoa_int e)"
    by (rule scanInt_itoa) (use assms in \<open>simp_all add: is_digit_def\<close>)
  ultimately have "scanPair p = Some (i, e)" by (simp add: p_def scanPair_def)
  moreover have "itoa_int i @ CHR ''|'' # itoa_int e = p" by (simp add: p_def)
  moreover have "sessionValue h key i e \<noteq> []" by (simp add: sessionValue_def Let_def)
  ultimately show ?thesis using assms parts by (simp add: openSession_def Let_def)
qed

lemma openSession_sound:
  assumes "openSession h key now v = Some i"
  shows "\<exists>p e. v = p @ ''|'' @ hex_encode (h key p) \<and> scanPair p = Some (i, e) \<and> now \<le> e \<and> 0 < i"
proof -
  obtain a b c where parts: "Split CHR ''|'' v = [a, b, c]"
    using assms by (auto simp: openSession_def Let_def length_Suc_conv numeral_3_eq_3 split: if_splits)
  then have v: "v = a @ ''|'' @ b @ ''|'' @ c" using Join_Split [of "CHR ''|''" v] by simp
  have "hex_encode (h key (a @ ''|'' @ b)) = c"
    "\<exists>e. scanPair (a @ ''|'' @ b) = Some (i, e) \<and> now \<le> e \<and> 0 < i"
    using assms parts by (auto simp: openSession_def Let_def split: if_splits option.splits)
  then show ?thesis using v by (intro exI [of _ "a @ ''|'' @ b"]) auto
qed

text \<open>
  C12: the session cookie. The cookie set at login vouches for its user for thirty days and for
  nobody afterwards; and a cookie that is accepted carries the HMAC, under the server's key, of the
  very text its user id and its unexpired deadline are read from, so that without the key neither
  can be changed.
\<close>

theorem session_cookie:
  assumes "0 < i" and "i < 2 ^ 63" and "0 \<le> now" and "now < 2 ^ 62"
  shows "openSession (mac w) (secret w) (unixTime t) (ckValue (setSession w now i)) =
      (if unixTime t > unixTime now + 30 * 86400 then None else Some i) \<and>
    (openSession (mac w) (secret w) (unixTime t) v = Some j \<longrightarrow>
      (\<exists>p e. v = p @ ''|'' @ hex_encode (mac w (secret w) p) \<and> scanPair p = Some (j, e) \<and> unixTime t \<le> e \<and> 0 < j))"
proof -
  have e: "unixTime (now + sessionTTL) = unixTime now + 30 * 86400"
    by (simp add: unixTime_def sessionTTL_def nsPerSecond_def)
  have "0 \<le> unixTime now" "unixTime now < 2 ^ 62"
    using assms(3,4) by (simp_all add: unixTime_def nsPerSecond_def)
  then have "- (2 ^ 63) \<le> unixTime now + 30 * 86400" "unixTime now + 30 * 86400 < (2 ^ 63 :: int)" by simp_all
  from openSession_value [OF assms(1,2) this] openSession_sound show ?thesis by (auto simp: setSession_def e)
qed

definition sampleWorld :: world where
  "sampleWorld = \<lparr>uni = \<lparr>lowerTab = id, upperTab = id, printTab = (\<lambda>_. True)\<rparr>, mac = (\<lambda>k m. k @ m), secret = ''key'',
     serviceToken = Some ''token'', gateTime = 0, reqTime = 0, rnd = (\<lambda>n. replicate 8 (char_of n)), startTime = 0, finishTime = 0,
     engineRun = (\<lambda>src a. Inl ErrBusy), clientGone = False, rangeOrder = id,
     parsers = \<lparr>parseCreateProject = (\<lambda>_. Malformed), parseUpdateProject = (\<lambda>_. Malformed), parseSaveFile = (\<lambda>b. Parsed b),
        parseCreateVersion = (\<lambda>b. Parsed b), parseCreateDeployment = (\<lambda>b. Parsed (b, None)),
        parseCreateTrigger = (\<lambda>_. Malformed), parseEnabled = (\<lambda>_. Parsed (Some False))\<rparr>,
     logFile = (\<lambda>_. None), unmarshalEntry = (\<lambda>_. None), logWhen = (\<lambda>_. None)\<rparr>"

theorem session_cookie_witness:
  "openSession (mac sampleWorld) (secret sampleWorld) 2592000 (ckValue (setSession sampleWorld 0 7)) = Some 7 \<and>
   openSession (mac sampleWorld) (secret sampleWorld) 2592001 (ckValue (setSession sampleWorld 0 7)) = None"
  using session_cookie [of 7 0 sampleWorld "2592000 * nsPerSecond"] session_cookie [of 7 0 sampleWorld "2592001 * nsPerSecond"]
  by (simp add: unixTime_def nsPerSecond_def)

section \<open>Login\<close>

lemma exec_Inr:
  assumes "run_state (exec f) s = (Inr x, s')"
  obtains fs where "f (s\<lparr>faults := fs\<rparr>) = (Inr x, s')"
proof (cases "faults s")
  case Nil
  then have e: "s\<lparr>faults := []\<rparr> = s" by simp
  from assms Nil have "f s = (Inr x, s')" by (simp add: run_exec)
  then show ?thesis using that [of "[]"] by (simp only: e)
next
  case (Cons o1 fs)
  then show ?thesis using assms that [of fs] by (cases o1) (simp_all add: run_exec)
qed

lemma andThen_Inr:
  assumes "run_state (andThen m k) s = (Inr y, s')"
  obtains x s1 where "run_state m s = (Inr x, s1)" "run_state (k x) s1 = (Inr y, s')"
  using assms by (auto simp: run_andThen split: prod.splits sum.splits)

lemma orWrap_Inr: "run_state (orWrap msg m) s = (Inr x, s') \<longleftrightarrow> run_state m s = (Inr x, s')"
  by (auto simp: run_orWrap wrap_def split: prod.splits sum.splits)

lemma AddWorkspaceMember_Inr:
  assumes "run_state (AddWorkspaceMember wid uid r) s = (Inr (), s')"
  shows "\<exists>m \<in> set (members s'). mWorkspace m = wid \<and> mUser m = uid \<and> mRole m = r"
proof -
  from assms have u: "run_state (upsertMember wid uid r) s = (Inr (), s')"
    by (auto simp: AddWorkspaceMember_def orWrap_Inr split: if_splits)
  obtain fs where "(let same = (\<lambda>m. mWorkspace m = wid \<and> mUser m = uid); s = s\<lparr>faults := fs\<rparr> in
     if list_ex same (members s)
     then (Inr (), s\<lparr>members := alter same (\<lambda>m. m\<lparr>mRole := r\<rparr>) (members s)\<rparr>)
     else if hasId wId (workspaces s) wid \<and> hasId uId (users s) uid
     then (Inr (), s\<lparr>members := members s @ [\<lparr>mWorkspace = wid, mUser = uid, mRole = r\<rparr>]\<rparr>)
     else (Inl foreignKeyViolation, s)) = (Inr (), s')"
    by (rule exec_Inr [OF u [unfolded upsertMember_def]]) (simp add: Let_def)
  then consider (old) m where "m \<in> set (members s)" "mWorkspace m = wid" "mUser m = uid"
      "members s' = alter (\<lambda>m. mWorkspace m = wid \<and> mUser m = uid) (\<lambda>m. m\<lparr>mRole := r\<rparr>) (members s)"
    | (new) "members s' = members s @ [\<lparr>mWorkspace = wid, mUser = uid, mRole = r\<rparr>]"
    by (auto simp: Let_def list_ex_iff split: if_splits)
  then show ?thesis
  proof cases
    case old
    then have "m\<lparr>mRole := r\<rparr> \<in> set (members s')" by (simp add: set_alter)
    with old show ?thesis by (intro bexI [of _ "m\<lparr>mRole := r\<rparr>"]) simp_all
  qed simp
qed

lemma retryUnique_now:
  "0 < n \<Longrightarrow> run_state (ins a) s = (Inr x, s') \<Longrightarrow> run_state (retryUnique n a ins m e) s = (Inr x, s')"
  by (cases n) simp_all

lemma CreateWorkspace_first:
  assumes "faults s = []" and "workspaces s = []"
  obtains c where "wId c = seqWorkspace (seqs s) + 1"
    "run_state (CreateWorkspace U n) s =
      (Inr c, s\<lparr>seqs := seqs s\<lparr>seqWorkspace := seqWorkspace (seqs s) + 1\<rparr>, workspaces := [c]\<rparr>)"
proof -
  define c where "c = \<lparr>wId = seqWorkspace (seqs s) + 1, wSlug = attemptSlug (slugBase U ''workspace'' n) 0, wName = n,
    wCreatedAt = clk s\<rparr>"
  have "run_state (insertWorkspace (attemptSlug (slugBase U ''workspace'' n) 0) n) s =
      (Inr (wId c), s\<lparr>seqs := seqs s\<lparr>seqWorkspace := seqWorkspace (seqs s) + 1\<rparr>, workspaces := [c]\<rparr>)"
    using assms by (simp add: insertWorkspace_def exec_clean Let_def c_def)
  from retryUnique_now [of 100 "\<lambda>attempt. insertWorkspace (attemptSlug (slugBase U ''workspace'' n) attempt) n", OF _ this]
  have "run_state (CreateWorkspace U n) s =
      (Inr c, s\<lparr>seqs := seqs s\<lparr>seqWorkspace := seqWorkspace (seqs s) + 1\<rparr>, workspaces := [c]\<rparr>)"
    using assms by (simp add: CreateWorkspace_def Let_def run_andThen GetWorkspace_def query_clean row_def c_def)
  then show ?thesis by (intro that [of c]) (simp_all add: c_def)
qed

lemma keeps_members:
  "keeps members (UpsertUserBySubject subject email name picture)" "keeps members (CreateWorkspace U n)"
proof -
  have i: "ignores_faults members" by (simp add: ignores_faults_def)
  have "keeps members (upsertUser subject email name picture)"
    unfolding upsertUser_def by (rule keeps_update [OF i]) (simp add: Let_def)
  then show "keeps members (UpsertUserBySubject subject email name picture)"
    unfolding UpsertUserBySubject_def by (intro keeps_intros i)
  have "keeps members (insertWorkspace slug n)" for slug
    unfolding insertWorkspace_def by (rule keeps_exec [OF i]) (simp add: Let_def)
  then show "keeps members (CreateWorkspace U n)"
    unfolding CreateWorkspace_def Let_def by (intro keeps_intros i)
qed

lemma ensureWorkspace_member:
  assumes "run_state (ensureWorkspace w user) s = (Inr i, s')"
  shows "(\<exists>m \<in> set (members s'). mUser m = userId user \<and> mWorkspace m = i \<and>
      (mRole m = RoleOwner \<or> (\<exists>m' \<in> set (members s). mUser m' = userId user)))"
proof -
  from assms obtain ws s1 where l: "run_state (ListWorkspacesForUser (userId user)) s = (Inr ws, s1)"
    and k: "run_state (case ws of x # _ \<Rightarrow> ret (Inr (wId x)) | [] \<Rightarrow>
           (let wsName = firstNonEmptyStr [userName user, emailLocalPart (userEmail user), ''workspace''] in
            andThen (CreateWorkspace (uni w) wsName) (\<lambda>created.
            andThen (AddWorkspaceMember (wId created) (userId user) RoleOwner) (\<lambda>_.
            ret (Inr (wId created)))))) s1 = (Inr i, s')"
    unfolding ensureWorkspace_def by (rule andThen_Inr)
  obtain fs where fs: "Inr (sort_key wName (concat (map (\<lambda>w. map (\<lambda>m. w) (filter (\<lambda>m. mWorkspace m = wId w \<and> mUser m = userId user)
      (members (s\<lparr>faults := fs\<rparr>)))) (workspaces (s\<lparr>faults := fs\<rparr>))))) = (Inr ws :: workspaceRow list result)" "s1 = s\<lparr>faults := fs\<rparr>"
    by (rule query_Inr [OF l [unfolded ListWorkspacesForUser_def orWrap_Inr]])
  then have f: "ws = sort_key wName
       (concat (map (\<lambda>w. map (\<lambda>m. w) (filter (\<lambda>m. mWorkspace m = wId w \<and> mUser m = userId user) (members s))) (workspaces s)))"
    "s1 = s\<lparr>faults := fs\<rparr>" by simp_all
  show ?thesis
  proof (cases ws)
    case (Cons x xs)
    then have "x \<in> set ws" by simp
    then obtain m where "m \<in> set (members s)" "mWorkspace m = wId x" "mUser m = userId user"
      unfolding f(1) by auto
    moreover have "i = wId x" "s' = s1" using k Cons by simp_all
    ultimately show ?thesis using f(2) by auto
  next
    case Nil
    define n where "n = firstNonEmptyStr [userName user, emailLocalPart (userEmail user), ''workspace'']"
    from k Nil have "run_state (andThen (CreateWorkspace (uni w) n) (\<lambda>created.
            andThen (AddWorkspaceMember (wId created) (userId user) RoleOwner) (\<lambda>_.
            ret (Inr (wId created))))) s1 = (Inr i, s')" by (simp add: Let_def n_def)
    then obtain c :: workspaceRow and s2 where "run_state (andThen (AddWorkspaceMember (wId c) (userId user) RoleOwner) (\<lambda>_.
            ret (Inr (wId c)))) s2 = (Inr i, s')" by (rule andThen_Inr)
    then have "run_state (AddWorkspaceMember (wId c) (userId user) RoleOwner) s2 = (Inr (), s')" "i = wId c"
      by (auto simp: run_andThen split: prod.splits sum.splits)
    with AddWorkspaceMember_Inr [OF this(1)] show ?thesis by blast
  qed
qed

lemma row_Inr_find: "row P xs = Inr x \<longleftrightarrow> List.find P xs = Some x"
  by (simp add: row_def split: option.split)

lemma GetUserBySubject_Inr:
  assumes "run_state (GetUserBySubject sub) s = (Inr u, s')"
  shows "userSubject u = sub"
proof -
  obtain fs where "map_sum id scanUser (row (\<lambda>u. uSubject u = sub) (users (s\<lparr>faults := fs\<rparr>))) = Inr u"
    by (rule query_Inr [OF assms [unfolded GetUserBySubject_def]])
  then obtain r where "List.find (\<lambda>u. uSubject u = sub) (users s) = Some r" "u = scanUser r"
    by (cases "row (\<lambda>u. uSubject u = sub) (users s)") (auto simp: row_Inr_find)
  with find_SomeD [OF this(1)] show ?thesis by (simp add: scanUser_def)
qed

text \<open>
  after a login the user has a workspace. Whatever was in the database, a login that succeeds
  returns the user of that subject, who is then a member of some workspace, and the owner of it if
  they were in none before.
\<close>

theorem loginUser_workspace:
  assumes "run_state (loginUser w subject email name picture) s = (Inr user, s')"
  shows "userSubject user = subject \<and>
    (\<exists>m \<in> set (members s'). mUser m = userId user \<and>
      ((\<forall>m' \<in> set (members s). mUser m' \<noteq> userId user) \<longrightarrow> mRole m = RoleOwner))"
proof -
  from assms obtain s1 i where u: "run_state (UpsertUserBySubject subject email name picture) s = (Inr user, s1)"
    and e: "run_state (ensureWorkspace w user) s1 = (Inr i, s')"
    unfolding loginUser_def by (auto elim!: andThen_Inr)
  have "members s1 = members s" by (rule keepsD_eq [OF keeps_members(1) u])
  moreover have "userSubject user = subject"
    using u by (auto simp: UpsertUserBySubject_def split: if_splits elim!: andThen_Inr dest: GetUserBySubject_Inr)
  ultimately show ?thesis using ensureWorkspace_member [OF e] by auto
qed

lemma first_login:
  "\<exists>user s'. run_state (loginUser sampleWorld ''sub'' ''ann@x'' [] []) emptyDB = (Inr user, s')"
proof -
  define user where "user = \<lparr>userId = 1, userSubject = ''sub'', userEmail = ''ann@x'', userName = [], userPicture = [],
    userCreatedAt = clk emptyDB, userLastLoginAt = clk emptyDB\<rparr>"
  obtain s1 where u: "run_state (UpsertUserBySubject ''sub'' ''ann@x'' [] []) emptyDB = (Inr user, s1)"
    and s1: "faults s1 = []" "workspaces s1 = []" "members s1 = []" "hasId uId (users s1) 1"
    by (simp add: UpsertUserBySubject_def upsertUser_def GetUserBySubject_def clean_runs emptyDB_def wrap_def Let_def
        row_def scanUser_def user_def hasId_def)
  obtain c where c: "wId c = seqWorkspace (seqs s1) + 1"
    "run_state (CreateWorkspace (uni sampleWorld) ''ann'') s1 =
      (Inr c, s1\<lparr>seqs := seqs s1\<lparr>seqWorkspace := seqWorkspace (seqs s1) + 1\<rparr>, workspaces := [c]\<rparr>)"
    by (rule CreateWorkspace_first [OF s1(1,2)])
  define s2 where "s2 = s1\<lparr>seqs := seqs s1\<lparr>seqWorkspace := seqWorkspace (seqs s1) + 1\<rparr>, workspaces := [c]\<rparr>"
  have uid: "userId user = 1" "userName user = []" "emailLocalPart (userEmail user) = ''ann''"
    by (simp_all add: user_def emailLocalPart_def IndexByte_def)
  have l: "run_state (ListWorkspacesForUser 1) s1 = (Inr [], s1)"
    using s1 by (simp add: ListWorkspacesForUser_def clean_runs wrap_def)
  have "\<exists>s3. run_state (AddWorkspaceMember (wId c) 1 RoleOwner) s2 = (Inr (), s3)"
    using s1 by (simp add: AddWorkspaceMember_def validWorkspaceRole_def run_orWrap upsertMember_def exec_clean wrap_def
        s2_def Let_def) (simp add: hasId_def)
  then obtain s3 where m: "run_state (AddWorkspaceMember (wId c) 1 RoleOwner) s2 = (Inr (), s3)" by blast
  have "run_state (ensureWorkspace sampleWorld user) s1 = (Inr (wId c), s3)"
    using l c(2) m by (simp add: ensureWorkspace_def uid run_andThen Let_def s2_def)
  then have "run_state (loginUser sampleWorld ''sub'' ''ann@x'' [] []) emptyDB = (Inr user, s3)"
    using u by (simp add: loginUser_def run_andThen)
  then show ?thesis by blast
qed

theorem loginUser_workspace_witness:
  "\<exists>user s'. run_state (loginUser sampleWorld ''sub'' ''ann@x'' [] []) emptyDB = (Inr user, s') \<and>
    (\<exists>m \<in> set (members s'). mUser m = userId user \<and> mRole m = RoleOwner)"
proof -
  obtain user s' where r: "run_state (loginUser sampleWorld ''sub'' ''ann@x'' [] []) emptyDB = (Inr user, s')"
    using first_login by blast
  have "members emptyDB = []" by (simp add: emptyDB_def)
  with loginUser_workspace [OF r] r show ?thesis by auto
qed

text \<open>
  C11: what a login callback needs. The session cookie is only set when the state parameter equals
  the non-empty state cookie, the identity token was obtained with the request's code and verified,
  its nonce equals the non-empty nonce cookie and its subject is not empty; the session is then that
  of the user with this subject.
\<close>

theorem handleAuthCallback_session:
  assumes "run_state (handleAuthCallback provider override trustProxy w req) s = ((cookies, resp), s')"
    and "c \<in> set cookies" and "ckName c = sessionCookieName"
  shows "\<exists>P raw cl (user :: User). provider = Some P \<and>
    cookieOf req stateCookieName = Some (queryOf req ''state'') \<and> queryOf req ''state'' \<noteq> [] \<and>
    exchange P (queryOf req ''code'') (callbackURL override trustProxy req) = Some (Some raw) \<and>
    verifyToken P raw = Inr (Some cl) \<and> cookieOf req nonceCookieName = Some (clNonce cl) \<and> clNonce cl \<noteq> [] \<and>
    clSub cl \<noteq> [] \<and> userSubject user = clSub cl \<and> c = setSession w (reqTime w) (userId user) \<and>
    (\<exists>m \<in> set (members s'). mUser m = userId user)"
proof -
  obtain cs r where cb: "callbackClaims provider stateCookieName nonceCookieName (callbackURL override trustProxy req) req = (cs, r)"
    by (cases "callbackClaims provider stateCookieName nonceCookieName (callbackURL override trustProxy req) req")
  have cs: "c \<notin> set cs"
    using cb assms(3) by (auto simp: callbackClaims_def Let_def clearedCookie_def sessionCookieName_def stateCookieName_def
        nonceCookieName_def split: if_splits option.splits)
  then obtain cl where r: "r = Inr cl" using assms(1,2) cb by (cases r) (auto simp: handleAuthCallback_def)
  obtain rr s1 where l: "run_state (loginUser w (clSub cl) (clEmail cl) (clName cl) (clPicture cl)) s = (rr, s1)"
    by (cases "run_state (loginUser w (clSub cl) (clEmail cl) (clName cl) (clPicture cl)) s")
  then obtain user where u: "rr = Inr user" using assms(1,2) cb cs r by (cases rr) (auto simp: handleAuthCallback_def)
  with l have l: "run_state (loginUser w (clSub cl) (clEmail cl) (clName cl) (clPicture cl)) s = (Inr user, s1)" by simp
  have "cookies = cs @ [setSession w (reqTime w) (userId user)]" "s' = s1"
    using assms(1) cb r l by (auto simp: handleAuthCallback_def)
  then have c: "c = setSession w (reqTime w) (userId user)" "s' = s1" using assms(2) cs by auto
  from l obtain s2 i where e: "run_state (UpsertUserBySubject (clSub cl) (clEmail cl) (clName cl) (clPicture cl)) s = (Inr user, s2)"
    "run_state (ensureWorkspace w user) s2 = (Inr i, s1)"
    unfolding loginUser_def by (auto elim!: andThen_Inr)
  have sub: "userSubject user = clSub cl"
    using e(1) by (auto simp: UpsertUserBySubject_def split: if_splits elim!: andThen_Inr dest: GetUserBySubject_Inr)
  have m: "\<exists>m \<in> set (members s'). mUser m = userId user" using ensureWorkspace_member [OF e(2)] c(2) by auto
  from cb [unfolded r] obtain P raw where "provider = Some P"
    "cookieOf req stateCookieName = Some (queryOf req ''state'')" "queryOf req ''state'' \<noteq> []"
    "exchange P (queryOf req ''code'') (callbackURL override trustProxy req) = Some (Some raw)"
    "verifyToken P raw = Inr (Some cl)" "cookieOf req nonceCookieName = Some (clNonce cl)" "clNonce cl \<noteq> []" "clSub cl \<noteq> []"
    by (auto simp: callbackClaims_def Let_def split: if_splits option.splits sum.splits)
  with sub m c show ?thesis
    by (intro exI [of _ P] exI [of _ raw] exI [of _ cl] exI [of _ user] conjI) assumption+
qed

definition loginRequest :: request where
  "loginRequest =
     \<lparr>cookieOf = (\<lambda>n. if n = stateCookieName then Some ''st'' else if n = nonceCookieName then Some ''n'' else None),
      headerOf = (\<lambda>_. []), urlPath = ''/api/auth/callback'', hostName = ''host'', isTLS = False, pathValue = (\<lambda>_. []),
      queryOf = (\<lambda>n. if n = ''state'' then ''st'' else if n = ''code'' then ''c'' else []),
      formValue = (\<lambda>_. []), postContent = None, reqBody = []\<rparr>"

definition sampleIdp :: "string \<Rightarrow> idp" where
  "sampleIdp nonce =
     \<lparr>authCodeURL = (\<lambda>st r n. st), exchange = (\<lambda>c r. Some (Some c)),
      verifyToken = (\<lambda>raw. Inr (Some \<lparr>clSub = ''sub'', clEmail = ''ann@x'', clName = [], clPicture = [], clNonce = nonce\<rparr>))\<rparr>"

text \<open>With the right nonce the login sets a session; with a replayed token it does not.\<close>

theorem handleAuthCallback_session_witness:
  "(\<exists>cookies resp s' c. run_state (handleAuthCallback (Some (sampleIdp ''n'')) [] False sampleWorld loginRequest) emptyDB =
      ((cookies, resp), s') \<and> c \<in> set cookies \<and> ckName c = sessionCookieName) \<and>
   \<not> (\<exists>cookies resp s' c. run_state (handleAuthCallback (Some (sampleIdp ''old'')) [] False sampleWorld loginRequest) emptyDB =
      ((cookies, resp), s') \<and> c \<in> set cookies \<and> ckName c = sessionCookieName)"
proof (intro conjI notI)
  obtain user s' where "run_state (loginUser sampleWorld ''sub'' ''ann@x'' [] []) emptyDB = (Inr user, s')"
    using first_login by blast
  moreover have "callbackClaims (Some (sampleIdp ''n'')) stateCookieName nonceCookieName
      (callbackURL [] False loginRequest) loginRequest =
    ([clearedCookie stateCookieName, clearedCookie nonceCookieName],
     Inr \<lparr>clSub = ''sub'', clEmail = ''ann@x'', clName = [], clPicture = [], clNonce = ''n''\<rparr>)"
    by (simp add: callbackClaims_def Let_def loginRequest_def sampleIdp_def stateCookieName_def nonceCookieName_def)
  ultimately have "run_state (handleAuthCallback (Some (sampleIdp ''n'')) [] False sampleWorld loginRequest) emptyDB =
      (([clearedCookie stateCookieName, clearedCookie nonceCookieName] @ [setSession sampleWorld (reqTime sampleWorld) (userId user)],
        SeeOther ''/projects''), s')"
    by (simp add: handleAuthCallback_def)
  moreover have "ckName (setSession sampleWorld (reqTime sampleWorld) (userId user)) = sessionCookieName"
    by (simp add: setSession_def)
  ultimately show "\<exists>cookies resp s' c. run_state (handleAuthCallback (Some (sampleIdp ''n'')) [] False sampleWorld loginRequest) emptyDB =
      ((cookies, resp), s') \<and> c \<in> set cookies \<and> ckName c = sessionCookieName"
    by (metis in_set_conv_decomp)
next
  assume "\<exists>cookies resp s' c. run_state (handleAuthCallback (Some (sampleIdp ''old'')) [] False sampleWorld loginRequest) emptyDB =
      ((cookies, resp), s') \<and> c \<in> set cookies \<and> ckName c = sessionCookieName"
  then obtain cookies resp s' c where
    "run_state (handleAuthCallback (Some (sampleIdp ''old'')) [] False sampleWorld loginRequest) emptyDB = ((cookies, resp), s')"
    "c \<in> set cookies" "ckName c = sessionCookieName" by blast
  from handleAuthCallback_session [OF this] show False
    by (auto simp: sampleIdp_def loginRequest_def nonceCookieName_def stateCookieName_def)
qed

end
