(* ===== verification/Gate.thy ===== *)
theory Gate
  imports Access
begin

text \<open>
  The access gate of the project handlers: what it proves about the caller when it lets a handler's
  body run. The JSON handlers and the pages check in different code; both are instances of one
  interface, so that what a handler may do follows from the role its gate admits.
\<close>

section \<open>Who the caller is\<close>

text \<open>
  The caller is a user of the table: the one a valid session cookie names, or for the service token
  the user who registered first.
\<close>

definition identified :: "world \<Rightarrow> time \<Rightarrow> request \<Rightarrow> db \<Rightarrow> User \<Rightarrow> bool" where
  "identified w now req s user \<longleftrightarrow>
     (\<exists>u \<in> set (users s). user = scanUser u \<and>
       ((\<exists>v. cookieOf req sessionCookieName = Some v \<and> openSession (mac w) (secret w) (unixTime now) v = Some (uId u)) \<or>
        (bearerOK w req \<and> u = hd (sort_key uCreatedAt (users s)))))"

lemma identified_faults [simp]: "identified w now req (s\<lparr>faults := fs\<rparr>) = identified w now req s"
  by (rule ext) (simp add: identified_def)

lemma userReads_Inr:
  "run_state (GetUser i) s = (Inr u, s') \<Longrightarrow> \<exists>r \<in> set (users s). uId r = i \<and> u = scanUser r"
  "run_state ListUsers s = (Inr us, s') \<Longrightarrow> us = map scanUser (sort_key uCreatedAt (users s))"
proof -
  assume "run_state (GetUser i) s = (Inr u, s')"
  then obtain fs where "map_sum id scanUser (row (\<lambda>u. uId u = i) (users (s\<lparr>faults := fs\<rparr>))) = Inr u"
    unfolding GetUser_def by (rule query_Inr)
  then obtain r where "List.find (\<lambda>u. uId u = i) (users s) = Some r" "u = scanUser r"
    by (cases "row (\<lambda>u. uId u = i) (users s)") (auto simp: row_Inr_find)
  with find_SomeD [OF this(1)] show "\<exists>r \<in> set (users s). uId r = i \<and> u = scanUser r" by auto
next
  assume "run_state ListUsers s = (Inr us, s')"
  then have q: "run_state (query (\<lambda>s. Inr (map scanUser (sort_key uCreatedAt (users s))))) s = (Inr us, s')"
    by (simp add: ListUsers_def orWrap_Inr)
  obtain fs where "Inr (map scanUser (sort_key uCreatedAt (users (s\<lparr>faults := fs\<rparr>)))) = (Inr us :: User list result)"
    by (rule query_Inr [OF q])
  then show "us = map scanUser (sort_key uCreatedAt (users s))" by simp
qed

lemma reads_currentUser [reads_intros]: "reads (currentUser w now req)"
  unfolding currentUser_def userFromSession_def userFromServiceToken_def by (intro reads_intros)

lemma userFromSession_Some:
  assumes "run_state (userFromSession w now req) s = (Some user, s')"
  shows "identified w now req s user"
proof -
  from assms obtain v i where v: "cookieOf req sessionCookieName = Some v"
    "openSession (mac w) (secret w) (unixTime now) v = Some i"
    by (auto simp: userFromSession_def split: option.splits)
  then have "run_state (GetUser i) s = (Inr user, s')"
    using assms by (auto simp: userFromSession_def split: prod.splits sum.splits)
  from userReads_Inr(1) [OF this] v show ?thesis by (auto simp: identified_def)
qed

lemma userFromServiceToken_Some:
  assumes "run_state (userFromServiceToken w req) s = (Some user, s')"
  shows "identified w now req s user"
proof -
  from assms have b: "bearerOK w req" by (auto simp: userFromServiceToken_def split: if_splits)
  with assms obtain us where "run_state ListUsers s = (Inr (user # us), s')"
    by (auto simp: userFromServiceToken_def split: prod.splits sum.splits list.splits)
  from userReads_Inr(2) [OF this] have us: "map scanUser (sort_key uCreatedAt (users s)) = user # us" by simp
  then obtain u rest where "sort_key uCreatedAt (users s) = u # rest" "user = scanUser u" by auto
  moreover from this(1) have "u \<in> set (users s)" by (metis list.set_intros(1) set_sort)
  ultimately show ?thesis using b by (auto simp: identified_def)
qed

lemma currentUser_Some:
  assumes "run_state (currentUser w now req) s = (Some user, s')"
  shows "identified w now req s user"
proof -
  obtain o1 s1 where s1: "run_state (userFromSession w now req) s = (o1, s1)" by (cases "run_state (userFromSession w now req) s")
  show ?thesis
  proof (cases o1)
    case (Some u)
    with s1 assms have "run_state (userFromSession w now req) s = (Some user, s1)" by (simp add: currentUser_def)
    then show ?thesis by (rule userFromSession_Some)
  next
    case None
    have "reads (userFromSession w now req)" unfolding userFromSession_def by (intro reads_intros)
    from readsD [OF this s1] obtain fs where fs: "s1 = s\<lparr>faults := fs\<rparr>" by blast
    from None s1 assms have "run_state (userFromServiceToken w req) s1 = (Some user, s')" by (simp add: currentUser_def)
    from userFromServiceToken_Some [OF this] fs show ?thesis by simp
  qed
qed

section \<open>Resolving the project\<close>

lemma reads_resolve [reads_intros]: "reads (resolveWSProject w req)"
  unfolding resolveWSProject_def by (intro reads_intros)

lemma GetWSProject_Inr:
  assumes "run_state (GetWSProject i) s = (Inr p, s')"
  shows "\<exists>r \<in> set (projects s). p = scanWSProject r \<and> pId r = i" and "wpId p = i"
proof -
  obtain fs where "map_sum id scanWSProject (row (\<lambda>p. pId p = i) (projects (s\<lparr>faults := fs\<rparr>))) = Inr p"
    by (rule query_Inr [OF assms [unfolded GetWSProject_def]])
  then obtain r where "List.find (\<lambda>p. pId p = i) (projects s) = Some r" "p = scanWSProject r"
    by (cases "row (\<lambda>p. pId p = i) (projects s)") (auto simp: row_Inr_find)
  with find_SomeD [OF this(1)] show "\<exists>r \<in> set (projects s). p = scanWSProject r \<and> pId r = i" "wpId p = i"
    by (auto simp: scanWSProject_def)
qed

text \<open>The caller is known, the path names the project and the role is the one the sharing rules give.\<close>

definition mayAct :: "world \<Rightarrow> request \<Rightarrow> db \<Rightarrow> WSProject \<Rightarrow> role \<Rightarrow> User \<Rightarrow> bool" where
  "mayAct w req s p role user \<longleftrightarrow>
     identified w (reqTime w) req s user \<and> pathInt64Value req ''id'' = Some (wpId p) \<and>
     (\<exists>r \<in> set (projects s). p = scanWSProject r) \<and> roleIn s (wpId p) (userId user) = Some role \<and> role \<noteq> []"

lemma resolve_Inr:
  assumes "realFaults s" and "run_state (resolveWSProject w req) s = (Inr (p, role, user), s')"
  shows "mayAct w req s p role user"
proof -
  obtain ou s1 where u: "run_state (currentUser w (reqTime w) req) s = (ou, s1)" by (cases "run_state (currentUser w (reqTime w) req) s")
  with assms(2) obtain us where us: "ou = Some us" by (cases ou) (simp_all add: resolveWSProject_def)
  obtain fs where fs: "set fs \<subseteq> set (faults s)" "s1 = s\<lparr>faults := fs\<rparr>" by (rule readsD [OF reads_currentUser u])
  from assms(2) u us obtain i where i: "pathInt64Value req ''id'' = Some i" "\<not> i \<le> 0"
    by (auto simp: resolveWSProject_def split: option.splits if_splits)
  obtain g s2 where g: "run_state (GetWSProject i) s1 = (g, s2)" by (cases "run_state (GetWSProject i) s1")
  with assms(2) u us i obtain q where q: "g = Inr q" by (cases g) (auto simp: resolveWSProject_def split: if_splits)
  obtain gs where gs: "set gs \<subseteq> set (faults s1)" "s2 = s1\<lparr>faults := gs\<rparr>" by (rule readsD [OF fileReads_reads(1) g])
  obtain r s3 where r: "run_state (EffectiveProjectRole (wpId q) (userId us)) s2 = (r, s3)"
    by (cases "run_state (EffectiveProjectRole (wpId q) (userId us)) s2")
  with assms(2) u us i g q obtain ro where ro: "r = Inr ro" "ro \<noteq> []" "p = q" "role = ro" "user = us"
    by (cases r) (auto simp: resolveWSProject_def split: if_splits)
  have s2: "s2 = s\<lparr>faults := gs\<rparr>" "set gs \<subseteq> set (faults s)" using fs gs by auto
  then have "realFaults s2" using realFaults_rest [OF assms(1)] by simp
  then have "roleIn s2 (wpId q) (userId us) = Some ro"
    by (rule EffectiveProjectRole_granted) (simp add: r ro)
  moreover have "identified w (reqTime w) req s us" using u us by (intro currentUser_Some) simp
  moreover have "\<exists>r \<in> set (projects s). q = scanWSProject r" "wpId q = i"
    using GetWSProject_Inr [OF g [unfolded q]] fs by auto
  ultimately show ?thesis using ro i s2 by (simp add: mayAct_def)
qed

section \<open>The interface\<close>

locale project_gate =
  fixes gate :: "world \<Rightarrow> request \<Rightarrow> (WSProject \<Rightarrow> role \<Rightarrow> User \<Rightarrow> handler) \<Rightarrow> handler"
    and admits :: "role \<Rightarrow> bool"
  assumes gate_opens: "realFaults s \<Longrightarrow>
      (\<exists>r fs. run_state (gate w req k) s = (r, s\<lparr>faults := fs\<rparr>)) \<or>
      (\<exists>p role user fs. mayAct w req s p role user \<and> admits role \<and> set fs \<subseteq> set (faults s) \<and>
         run_state (gate w req k) s = run_state (k p role user) (s\<lparr>faults := fs\<rparr>))"
    and gate_wf: "(\<And>p role user. preserves wfdb (k p role user)) \<Longrightarrow> preserves wfdb (gate w req k)"
begin

text \<open>A change of any table is the doing of a caller whose role the gate admits.\<close>

lemma changes_need:
  assumes "realFaults s" and "tables (snd (run_state (gate w req k) s)) \<noteq> tables s"
  shows "\<exists>p role user. mayAct w req s p role user \<and> admits role"
  using gate_opens [OF assms(1), of w req k] assms(2) by (auto simp: tables_def)

text \<open>What every body with the project keeps, the gated handler keeps.\<close>

lemma keeps_gated:
  assumes "realFaults s" and "ignores_faults f"
    and "\<And>p role user. mayAct w req s p role user \<Longrightarrow> keeps f (k p role user)"
  shows "f (snd (run_state (gate w req k) s)) = f s"
  using gate_opens [OF assms(1), of w req k]
proof (elim disjE exE conjE)
  fix r fs
  assume "run_state (gate w req k) s = (r, s\<lparr>faults := fs\<rparr>)"
  then show ?thesis using assms(2) by (simp add: ignores_faults_def)
next
  fix p role user fs
  assume "mayAct w req s p role user" "run_state (gate w req k) s = run_state (k p role user) (s\<lparr>faults := fs\<rparr>)"
  then show ?thesis using keepsD [OF assms(3)] assms(2) by (simp add: ignores_faults_def)
qed

lemma foreign_unchanged:
  assumes "realFaults s" and "\<And>p role user. mayAct w req s p role user \<Longrightarrow> \<not> admits role"
  shows "tables (snd (run_state (gate w req k) s)) = tables s"
  using changes_need [OF assms(1), of w req k] assms(2) by blast

end

section \<open>The JSON gate\<close>

lemma wsProject_opens:
  assumes "realFaults s"
  shows "(\<exists>r fs. run_state (wsProjectOr404 w req k) s = (r, s\<lparr>faults := fs\<rparr>)) \<or>
      (\<exists>p role user fs. mayAct w req s p role user \<and> set fs \<subseteq> set (faults s) \<and>
         run_state (wsProjectOr404 w req k) s = run_state (k p role user) (s\<lparr>faults := fs\<rparr>))"
proof -
  obtain r s1 where r: "run_state (resolveWSProject w req) s = (r, s1)" by (cases "run_state (resolveWSProject w req) s")
  obtain fs where fs: "set fs \<subseteq> set (faults s)" "s1 = s\<lparr>faults := fs\<rparr>" by (rule readsD [OF reads_resolve r])
  show ?thesis
  proof (cases r)
    case (Inl e)
    then show ?thesis using r fs by (cases e) (auto simp: wsProjectOr404_def writeError_def)
  next
    case (Inr x)
    then obtain p role user where x: "r = Inr (p, role, user)" by (cases x) auto
    with resolve_Inr [OF assms] r have "mayAct w req s p role user" by blast
    moreover have "run_state (wsProjectOr404 w req k) s = run_state (k p role user) (s\<lparr>faults := fs\<rparr>)"
      using r x fs by (simp add: wsProjectOr404_def)
    ultimately show ?thesis using fs(1) by blast
  qed
qed

lemma wf_reads: "reads m \<Longrightarrow> preserves wfdb m"
  unfolding preserves_def reads_def by (metis wfdb_faults)

lemma wf_wsProject [inv_intros]: "(\<And>p role user. preserves wfdb (k p role user)) \<Longrightarrow> preserves wfdb (wsProjectOr404 w req k)"
  unfolding wsProjectOr404_def writeError_def by (intro inv_intros wf_reads [OF reads_resolve])

lemma wf_requireRole [inv_intros]: "preserves wfdb k \<Longrightarrow> preserves wfdb (requireRole role need k)"
  unfolding requireRole_def writeError_def by (intro inv_intros)

interpretation apiGate: project_gate wsProjectOr404 "\<lambda>role. True"
  by unfold_locales (use wsProject_opens in blast, intro inv_intros)

lemma requireRole_opens:
  assumes "realFaults s"
  shows "(\<exists>r fs. run_state (wsProjectOr404 w req (\<lambda>p role user. requireRole role need (k p role user))) s = (r, s\<lparr>faults := fs\<rparr>)) \<or>
      (\<exists>p role user fs. mayAct w req s p role user \<and> rank role \<ge> rank need \<and> set fs \<subseteq> set (faults s) \<and>
         run_state (wsProjectOr404 w req (\<lambda>p role user. requireRole role need (k p role user))) s =
         run_state (k p role user) (s\<lparr>faults := fs\<rparr>))"
  using wsProject_opens [OF assms, of w req "\<lambda>p role user. requireRole role need (k p role user)"]
proof (elim disjE exE conjE)
  fix p role user fs
  assume m: "mayAct w req s p role user" "set fs \<subseteq> set (faults s)"
    "run_state (wsProjectOr404 w req (\<lambda>p role user. requireRole role need (k p role user))) s =
      run_state (requireRole role need (k p role user)) (s\<lparr>faults := fs\<rparr>)"
  show ?thesis
  proof (cases "rank role \<ge> rank need")
    case True
    then have "requireRole role need (k p role user) = k p role user" by (simp add: requireRole_def)
    with m True show ?thesis by (intro disjI2 exI [of _ p] exI [of _ role] exI [of _ user] exI [of _ fs]) simp
  next
    case False
    with m show ?thesis by (auto simp: requireRole_def writeError_def)
  qed
qed blast

interpretation editGate: project_gate
  "\<lambda>w req k. wsProjectOr404 w req (\<lambda>p role user. requireRole role RoleEditor (k p role user))"
  "\<lambda>role. rank role \<ge> rank RoleEditor"
  by unfold_locales (use requireRole_opens in blast, intro inv_intros)

interpretation ownGate: project_gate
  "\<lambda>w req k. wsProjectOr404 w req (\<lambda>p role user. requireRole role RoleOwner (k p role user))"
  "\<lambda>role. rank role \<ge> rank RoleOwner"
  by unfold_locales (use requireRole_opens in blast, intro inv_intros)

lemma rank_roles:
  "rank RoleEditor \<le> rank r \<longleftrightarrow> r = RoleEditor \<or> r = RoleOwner" "rank RoleOwner \<le> rank r \<longleftrightarrow> r = RoleOwner"
  by (simp_all add: rank_def role_defs)

end
