(* ===== verification/Settings.thy ===== *)
theory Settings
  imports StoreSettings KeyedStore Config
begin

text \<open>
  The settings manager of server/internal/settings/settings.go: the cached snapshot beside the
  database it is read from. \<open>json.Unmarshal\<close> into each group is a decoder that is given the value to
  update; \<open>json.Marshal\<close> is the encoder \<open>SaveGroup\<close> is called with. The atomic pointer is the first
  component of the state, the database the second.
\<close>

section \<open>The manager\<close>

definition KeyMail :: string where "KeyMail = ''mail''"
definition KeyHTTP :: string where "KeyHTTP = ''http''"
definition KeyLogger :: string where "KeyLogger = ''logger''"
definition KeyQuotas :: string where "KeyQuotas = ''quotas''"
definition KeyRun :: string where "KeyRun = ''run''"
definition KeySessionSecret :: string where "KeySessionSecret = ''__session_secret''"
definition KeyServiceToken :: string where "KeyServiceToken = ''__service_token''"
definition KeyAdminSessionSecret :: string where "KeyAdminSessionSecret = ''__admin_session_secret''"

lemmas key_defs = KeyMail_def KeyHTTP_def KeyLogger_def KeyQuotas_def KeyRun_def
  KeySessionSecret_def KeyServiceToken_def KeyAdminSessionSecret_def

type_synonym 'v decoder = "string \<Rightarrow> 'v \<Rightarrow> goerr option \<times> 'v"

record decoders =
  decMail :: "Mail decoder"
  decHTTP :: "HTTP decoder"
  decLogger :: "LoggerGroup decoder"
  decQuotas :: "Quotas decoder"
  decRun :: "Run decoder"

type_synonym 'a mgr = "(Snapshot \<times> db, 'a) state"

definition onStore :: "(db, 'a) state \<Rightarrow> 'a mgr" where
  "onStore m = State (\<lambda>(cur, s). case run_state m s of (r, s') \<Rightarrow> (r, (cur, s')))"

definition install :: "Snapshot \<Rightarrow> unit mgr" where
  "install snap = State (\<lambda>(cur, s). ((), (snap, s)))"

text \<open>A new manager holds the zero snapshot: every app disabled, every limit zero.\<close>

definition NewManager :: "db \<Rightarrow> Snapshot \<times> db" where
  "NewManager s =
     (\<lparr>MailCfg = \<lparr>MailEnabled = False, MailFrom = []\<rparr>,
       HTTPCfg = \<lparr>HTTPEnabled = False, AllowedDomains = [], TimeoutSeconds = 0, ResponseCapBytes = 0\<rparr>,
       LoggerCfg = \<lparr>LoggerEnabled = False\<rparr>,
       QuotasCfg = \<lparr>MailPerMinute = 0, HTTPPerMinute = 0, LoggerPerMinute = 0\<rparr>,
       RunCfg = \<lparr>RunTimeoutSeconds = 0, MaxConcurrent = 0, RatePerMinute = 0, RateBurst = 0,
                 DeployRatePerMinute = 0, DeployRateBurst = 0, OutputCapBytes = 0\<rparr>\<rparr>, s)"

text \<open>One group; an error of any group ends \<open>Load\<close>.\<close>

definition loadGroup :: "'v decoder \<Rightarrow> string \<Rightarrow> 'v \<Rightarrow> ('v \<Rightarrow> goerr option mgr) \<Rightarrow> goerr option mgr" where
  "loadGroup dec key v k = do {
     r \<leftarrow> onStore (GetSettingJSON dec key v);
     case fst r of Some e \<Rightarrow> ret (Some e) | None \<Rightarrow> k (snd r)
   }"

definition Load :: "decoders \<Rightarrow> goerr option mgr" where
  "Load D =
     loadGroup (decMail D) KeyMail (MailCfg defaults) (\<lambda>mail.
     loadGroup (decHTTP D) KeyHTTP (HTTPCfg defaults) (\<lambda>http.
     loadGroup (decLogger D) KeyLogger (LoggerCfg defaults) (\<lambda>logger.
     loadGroup (decQuotas D) KeyQuotas (QuotasCfg defaults) (\<lambda>quotas.
     loadGroup (decRun D) KeyRun (RunCfg defaults) (\<lambda>run. do {
       install \<lparr>MailCfg = mail, HTTPCfg = http, LoggerCfg = logger, QuotasCfg = quotas, RunCfg = run\<rparr>;
       ret None
     })))))"

definition Current :: "Snapshot mgr" where
  "Current = State (\<lambda>(cur, s). (cur, (cur, s)))"

definition SaveGroup :: "decoders \<Rightarrow> ('v \<Rightarrow> string result) \<Rightarrow> string \<Rightarrow> 'v \<Rightarrow> int \<Rightarrow> goerr option mgr" where
  "SaveGroup D enc key v updatedBy =
     (case enc v of
        Inl e \<Rightarrow> ret (Some e)
      | Inr raw \<Rightarrow> do {
          r \<leftarrow> onStore (PutSetting key raw updatedBy);
          case r of Inl e \<Rightarrow> ret (Some e) | Inr _ \<Rightarrow> Load D
        })"

text \<open>The internal secrets; \<open>rnd\<close> is what \<open>rand.Read\<close> delivers.\<close>

definition EnsureInternal :: "string \<Rightarrow> bytes result \<Rightarrow> string stm" where
  "EnsureInternal key rnd = do {
     r \<leftarrow> GetSetting key;
     case r of
       Inl e \<Rightarrow> ret (Inl e)
     | Inr v \<Rightarrow>
         if v \<noteq> [] then ret (Inr v)
         else (case rnd of
                 Inl e \<Rightarrow> ret (Inl e)
               | Inr buf \<Rightarrow> andThen (PutSetting key (hex_encode buf) 0) (\<lambda>_. ret (Inr (hex_encode buf))))
   }"

definition RotateInternal :: "string \<Rightarrow> bytes result \<Rightarrow> string stm" where
  "RotateInternal key rnd =
     (case rnd of
        Inl e \<Rightarrow> ret (Inl e)
      | Inr buf \<Rightarrow> andThen (PutSetting key (hex_encode buf) 0) (\<lambda>_. ret (Inr (hex_encode buf))))"

lemma wf_EnsureInternal [inv_intros]: "preserves wfdb (EnsureInternal key rnd)"
  unfolding EnsureInternal_def by (intro inv_intros)

lemma wf_RotateInternal [inv_intros]: "preserves wfdb (RotateInternal key rnd)"
  unfolding RotateInternal_def by (intro inv_intros)

section \<open>Settings by key\<close>

definition settingOf :: "db \<Rightarrow> string \<Rightarrow> string option" where
  "settingOf s key = map_option stValue (List.find (\<lambda>t. stKey t = key) (settings s))"

definition putValue :: "string \<Rightarrow> string \<Rightarrow> db \<Rightarrow> db" where
  "putValue key v s = snd (run_state (PutSetting key v 0) s)"

lemma find_alter_setting:
  "List.find (\<lambda>t. stKey t = k) (alter (\<lambda>t. stKey t = key) f xs) =
    (if k = key then map_option f (List.find (\<lambda>t. stKey t = key) xs) else List.find (\<lambda>t. stKey t = k) xs)"
  if "\<And>t. stKey (f t) = stKey t"
  using that by (induction xs) (auto simp: alter_def)

lemma PutSetting_clean:
  assumes "faults s = []" and "hasRef uId (users s) (if 0 < by then Some by else None)"
  obtains s' where "run_state (PutSetting key v by) s = (Inr (), s')" "faults s' = []" "users s' = users s"
    "settingOf s' = (settingOf s)(key \<mapsto> v)"
proof (cases "List.find (\<lambda>t. stKey t = key) (settings s)")
  case None
  define s' where "s' = s\<lparr>settings := settings s @ [\<lparr>stKey = key, stValue = v, stUpdatedAt = clk s,
    stUpdatedBy = (if 0 < by then Some by else None)\<rparr>]\<rparr>"
  have "\<not> list_ex (\<lambda>t. stKey t = key) (settings s)" using None by (auto simp: find_None_iff_ball list_ex_iff)
  then have "run_state (PutSetting key v by) s = (Inr (), s')"
    using assms by (simp add: PutSetting_def putSetting_def clean_runs exec_clean wrap_def s'_def Let_def)
  moreover have "settingOf s' = (settingOf s)(key \<mapsto> v)"
    using None by (auto simp: settingOf_def s'_def find_append split: option.split)
  ultimately show ?thesis using that assms(1) by (simp add: s'_def)
next
  case (Some t)
  define s' where "s' = s\<lparr>settings := alter (\<lambda>t. stKey t = key) (\<lambda>t. t\<lparr>stValue := v, stUpdatedAt := clk s,
    stUpdatedBy := (if 0 < by then Some by else None)\<rparr>) (settings s)\<rparr>"
  have "list_ex (\<lambda>t. stKey t = key) (settings s)" using find_SomeD [OF Some] by (auto simp: list_ex_iff)
  then have "run_state (PutSetting key v by) s = (Inr (), s')"
    using assms by (simp add: PutSetting_def putSetting_def clean_runs exec_clean wrap_def s'_def Let_def)
  moreover have "settingOf s' = (settingOf s)(key \<mapsto> v)"
    using Some by (auto simp: settingOf_def s'_def find_alter_setting)
  ultimately show ?thesis using that assms(1) by (simp add: s'_def)
qed

interpretation settingStore: keyed_store settingOf putValue "\<lambda>s. faults s = []"
proof
  fix s :: db and k v :: string
  assume s: "faults s = []"
  have "hasRef uId (users s) (if 0 < (0 :: int) then Some 0 else None)" by (simp add: hasRef_def)
  from PutSetting_clean [OF s this, of k v] obtain s' where "run_state (PutSetting k v 0) s = (Inr (), s')"
    "faults s' = []" "settingOf s' = (settingOf s)(k \<mapsto> v)" by blast
  then show "faults (putValue k v s) = []" "settingOf (putValue k v s) = (settingOf s)(k \<mapsto> v)"
    by (simp_all add: putValue_def)
qed

lemma GetSetting_clean:
  "faults s = [] \<Longrightarrow> run_state (GetSetting key) s = (Inr (case settingOf s key of None \<Rightarrow> [] | Some v \<Rightarrow> v), s)"
  by (simp add: GetSetting_def query_clean settingOf_def row_def split: option.split)

section \<open>Loading is all or nothing\<close>

text \<open>What a group decodes to: the default when the key is missing or empty.\<close>

definition groupOf :: "'v decoder \<Rightarrow> string \<Rightarrow> 'v \<Rightarrow> (string \<Rightarrow> string option) \<Rightarrow> 'v option" where
  "groupOf dec key v m =
     (case m key of
        None \<Rightarrow> Some v
      | Some raw \<Rightarrow> if raw = [] then Some v
                    else (case dec raw v of (None, v') \<Rightarrow> Some v' | (Some e, v') \<Rightarrow> None))"

definition storedSnapshot :: "decoders \<Rightarrow> (string \<Rightarrow> string option) \<Rightarrow> Snapshot option" where
  "storedSnapshot D m = do {
     mail \<leftarrow> groupOf (decMail D) KeyMail (MailCfg defaults) m;
     http \<leftarrow> groupOf (decHTTP D) KeyHTTP (HTTPCfg defaults) m;
     logger \<leftarrow> groupOf (decLogger D) KeyLogger (LoggerCfg defaults) m;
     quotas \<leftarrow> groupOf (decQuotas D) KeyQuotas (QuotasCfg defaults) m;
     run \<leftarrow> groupOf (decRun D) KeyRun (RunCfg defaults) m;
     Some \<lparr>MailCfg = mail, HTTPCfg = http, LoggerCfg = logger, QuotasCfg = quotas, RunCfg = run\<rparr>
   }"

lemma GetSetting_cases:
  assumes "realFaults s"
  obtains (fault) e fs where "run_state (GetSetting key) s = (Inl e, s\<lparr>faults := fs\<rparr>)" "set fs \<subseteq> set (faults s)"
  | (value_) fs where "run_state (GetSetting key) s = (Inr (case settingOf s key of None \<Rightarrow> [] | Some v \<Rightarrow> v), s\<lparr>faults := fs\<rparr>)"
      "set fs \<subseteq> set (faults s)"
proof -
  define f where "f = (\<lambda>s :: db. map_sum id stValue (row (\<lambda>t. stKey t = key) (settings s)))"
  have G: "GetSetting key = do { r \<leftarrow> query f; ret (case r of Inr v \<Rightarrow> Inr v
     | Inl e \<Rightarrow> if e = ErrNotFound then Inr [] else Inl (Wrap (''get setting '' @ key) e)) }"
    unfolding GetSetting_def f_def ..
  from assms show ?thesis
  proof (cases rule: query_cases [where f = f])
    case (fault e fs)
    then show ?thesis using that(1) [of "Wrap (''get setting '' @ key) e" fs] by (simp add: G)
  next
    case (ok fs)
    have "(case f (s\<lparr>faults := fs\<rparr>) of Inr v \<Rightarrow> Inr v | Inl e \<Rightarrow> if e = ErrNotFound then Inr [] else Inl (Wrap (''get setting '' @ key) e)) =
      (Inr (case settingOf s key of None \<Rightarrow> [] | Some v \<Rightarrow> v) :: string result)"
      by (simp add: f_def settingOf_def row_def split: option.split)
    then show ?thesis using that(2) [of fs] ok by (simp add: G)
  qed
qed

lemma loadGroup_cases:
  assumes "realFaults s"
  obtains (failed) e fs where "run_state (loadGroup dec key v k) (cur, s) = (Some e, (cur, s\<lparr>faults := fs\<rparr>))"
  | (loaded) w fs where "groupOf dec key v (settingOf s) = Some w" "realFaults (s\<lparr>faults := fs\<rparr>)"
      "run_state (loadGroup dec key v k) (cur, s) = run_state (k w) (cur, s\<lparr>faults := fs\<rparr>)"
proof (cases rule: GetSetting_cases [OF assms, where key = key])
  case (1 e fs)
  then have "run_state (loadGroup dec key v k) (cur, s) = (Some e, (cur, s\<lparr>faults := fs\<rparr>))"
    by (simp add: loadGroup_def onStore_def GetSettingJSON_def)
  then show ?thesis by (rule failed)
next
  case (2 fs)
  define raw where "raw = (case settingOf s key of None \<Rightarrow> [] | Some v \<Rightarrow> v)"
  have r: "run_state (loadGroup dec key v k) (cur, s) =
    (if raw = [] then run_state (k v) (cur, s\<lparr>faults := fs\<rparr>)
     else case dec raw v of
        (Some e, v') \<Rightarrow> (Some (Wrap (''setting '' @ key @ '' is not valid JSON'') e), (cur, s\<lparr>faults := fs\<rparr>))
      | (None, v') \<Rightarrow> run_state (k v') (cur, s\<lparr>faults := fs\<rparr>))"
    using 2(1) by (simp add: loadGroup_def onStore_def GetSettingJSON_def raw_def [symmetric] split: prod.split option.split)
  have g: "groupOf dec key v (settingOf s) =
      (if raw = [] then Some v else case dec raw v of (None, v') \<Rightarrow> Some v' | (Some e, v') \<Rightarrow> None)"
    by (simp add: groupOf_def raw_def split: option.split)
  have rf: "realFaults (s\<lparr>faults := fs\<rparr>)" using realFaults_rest [OF assms 2(2)] .
  show ?thesis
  proof (cases "raw = []")
    case True
    then show ?thesis by (intro loaded [OF _ rf, of v]) (use r g in simp_all)
  next
    case False
    obtain o' v' where d: "dec raw v = (o', v')" by (cases "dec raw v")
    show ?thesis
    proof (cases o')
      case None
      then show ?thesis by (intro loaded [OF _ rf, of v']) (use False d r g in simp_all)
    next
      case (Some e)
      with False d r show ?thesis by (intro failed) simp
    qed
  qed
qed

lemma settingOf_faults [simp]: "settingOf (s\<lparr>faults := fs\<rparr>) = settingOf s"
  by (simp add: settingOf_def fun_eq_iff)

lemma loadGroup_rule:
  assumes "realFaults s"
    and "\<And>e fs. Q (Some e, (cur, s\<lparr>faults := fs\<rparr>))"
    and "\<And>w fs. groupOf dec key v (settingOf s) = Some w \<Longrightarrow> realFaults (s\<lparr>faults := fs\<rparr>) \<Longrightarrow>
      Q (run_state (k w) (cur, s\<lparr>faults := fs\<rparr>))"
  shows "Q (run_state (loadGroup dec key v k) (cur, s))"
proof (cases rule: loadGroup_cases [OF assms(1), where dec = dec and key = key and v = v and k = k and cur = cur])
  case (1 e fs)
  then show ?thesis by (simp only: assms(2))
next
  case (2 w fs)
  show ?thesis unfolding 2(3) by (rule assms(3) [OF 2(1,2)])
qed

definition loadedOr :: "decoders \<Rightarrow> Snapshot \<Rightarrow> db \<Rightarrow> goerr option \<times> Snapshot \<times> db \<Rightarrow> bool" where
  "loadedOr D cur s = (\<lambda>(r, cur', s').
     (\<exists>fs. s' = s\<lparr>faults := fs\<rparr>) \<and> (case r of Some e \<Rightarrow> cur' = cur | None \<Rightarrow> storedSnapshot D (settingOf s) = Some cur'))"

lemma loadedOr_fail: "loadedOr D cur s (Some e, (cur, s\<lparr>faults := fs\<rparr>))"
  by (auto simp: loadedOr_def)

lemma Load_faulty: "realFaults s \<Longrightarrow> loadedOr D cur s (run_state (Load D) (cur, s))"
  unfolding Load_def
  apply (rule loadGroup_rule, assumption, rule loadedOr_fail)
  apply (rule loadGroup_rule, assumption, simp add: loadedOr_fail)
  apply (rule loadGroup_rule, assumption, simp add: loadedOr_fail)
  apply (rule loadGroup_rule, assumption, simp add: loadedOr_fail)
  apply (rule loadGroup_rule, assumption, simp add: loadedOr_fail)
  apply (auto simp: loadedOr_def install_def storedSnapshot_def)
  done

text \<open>
  C32: loading the configuration is all or nothing. Whatever statement fails and whatever the
  decoders do with half-parsed values, a failed load leaves the snapshot that was in force, and a
  successful one installs exactly the groups the database holds over the defaults; it never writes.
\<close>

theorem Load_all_or_nothing:
  assumes "realFaults s" and "run_state (Load D) (cur, s) = (r, (cur', s'))"
  shows "tables s' = tables s \<and>
    (case r of Some e \<Rightarrow> cur' = cur | None \<Rightarrow> storedSnapshot D (settingOf s) = Some cur')"
  using Load_faulty [OF assms(1), of D cur] assms(2) by (auto simp: loadedOr_def tables_def)

definition mailDecoders :: decoders where
  "mailDecoders =
     \<lparr>decMail = (\<lambda>raw m. if raw = ''on'' then (None, m\<lparr>MailEnabled := True\<rparr>) else (Some (Msg ''bad''), m\<lparr>MailEnabled := True\<rparr>)),
      decHTTP = (\<lambda>raw h. (None, h)), decLogger = (\<lambda>raw l. (None, l)), decQuotas = (\<lambda>raw q. (None, q)),
      decRun = (\<lambda>raw r. (None, r))\<rparr>"

theorem Load_all_or_nothing_witness:
  "\<exists>e s'. run_state (Load mailDecoders) (defaults, emptyDB\<lparr>settings :=
      [\<lparr>stKey = ''mail'', stValue = ''{'', stUpdatedAt = [], stUpdatedBy = None\<rparr>]\<rparr>) = (Some e, (defaults, s'))"
proof -
  define s where "s = emptyDB\<lparr>settings := [\<lparr>stKey = ''mail'', stValue = ''{'', stUpdatedAt = [], stUpdatedBy = None\<rparr>]\<rparr>"
  have f: "realFaults s" by (simp add: realFaults_def s_def emptyDB_def)
  obtain r cur' s' where r: "run_state (Load mailDecoders) (defaults, s) = (r, (cur', s'))" by (metis prod_cases3)
  have "storedSnapshot mailDecoders (settingOf s) = None"
    by (simp add: storedSnapshot_def groupOf_def settingOf_def s_def mailDecoders_def KeyMail_def)
  with Load_all_or_nothing [OF f r] r show ?thesis by (cases r) (auto simp: s_def)
qed

section \<open>Saving a group\<close>

lemma loadGroup_clean:
  "faults s = [] \<Longrightarrow> groupOf dec key v (settingOf s) = Some w \<Longrightarrow>
    run_state (loadGroup dec key v k) (cur, s) = run_state (k w) (cur, s)"
  by (auto simp: loadGroup_def onStore_def GetSettingJSON_def GetSetting_clean groupOf_def
      split: option.splits if_splits prod.splits)

lemma Load_clean:
  assumes "faults s = []" and "storedSnapshot D (settingOf s) = Some snap"
  shows "run_state (Load D) (cur, s) = (None, (snap, s))"
  using assms unfolding Load_def storedSnapshot_def
  by (auto simp: loadGroup_clean install_def bind_eq_Some_conv)

lemma groupOf_other: "key \<noteq> k \<Longrightarrow> groupOf dec key v (m(k \<mapsto> raw)) = groupOf dec key v m"
  by (simp add: groupOf_def)

lemma SaveGroup_clean:
  assumes "faults s = []" and "hasRef uId (users s) (if 0 < by then Some by else None)" and "enc v = Inr raw"
    and "storedSnapshot D ((settingOf s)(key \<mapsto> raw)) = Some snap"
  obtains s' where "run_state (SaveGroup D enc key v by) (cur, s) = (None, (snap, s'))" "faults s' = []"
    "settingOf s' = (settingOf s)(key \<mapsto> raw)"
proof -
  from PutSetting_clean [OF assms(1,2), of key raw] obtain s'
    where p: "run_state (PutSetting key raw by) s = (Inr (), s')" "faults s' = []" "settingOf s' = (settingOf s)(key \<mapsto> raw)" by metis
  with Load_clean [OF p(2), of D snap] assms(3,4) show ?thesis by (intro that) (auto simp: SaveGroup_def onStore_def)
qed

text \<open>
  a saved group is in force at once. When the administrator's mail settings encode to a text
  that decodes back to them, saving them stores that text under the group's key, leaves every other
  key alone, and the next request sees the new mail settings with all other groups as they were.
\<close>

theorem SaveGroup_mail:
  assumes "faults s = []" and "by > 0 \<Longrightarrow> hasId uId (users s) by"
    and "enc m = Inr raw" and "raw \<noteq> []" and "decMail D raw (MailCfg defaults) = (None, m)"
    and "storedSnapshot D (settingOf s) = Some old"
  shows "\<exists>s'. run_state (SaveGroup D enc KeyMail m by) (cur, s) = (None, (old\<lparr>MailCfg := m\<rparr>, s')) \<and>
    settingOf s' = (settingOf s)(KeyMail \<mapsto> raw)"
proof -
  have "hasRef uId (users s) (if 0 < by then Some by else None)" using assms(2) by (simp add: hasRef_def)
  moreover have "storedSnapshot D ((settingOf s)(KeyMail \<mapsto> raw)) = Some (old\<lparr>MailCfg := m\<rparr>)"
    using assms(4-6) by (auto simp: storedSnapshot_def groupOf_other key_defs bind_eq_Some_conv) (simp add: groupOf_def)
  ultimately show ?thesis using SaveGroup_clean [where key = KeyMail, OF assms(1), where v = m and enc = enc, OF _ assms(3)] by metis
qed

theorem SaveGroup_mail_witness:
  "\<exists>s'. run_state (SaveGroup mailDecoders (\<lambda>m. Inr ''on'') KeyMail \<lparr>MailEnabled = True, MailFrom = []\<rparr> 0)
      (NewManager emptyDB) = (None, (defaults\<lparr>MailCfg := \<lparr>MailEnabled = True, MailFrom = []\<rparr>\<rparr>, s'))"
proof -
  define m where "m = \<lparr>MailEnabled = True, MailFrom = ([] :: string)\<rparr>"
  have "faults emptyDB = []" by (simp add: emptyDB_def)
  moreover have "storedSnapshot mailDecoders (settingOf emptyDB) = Some defaults"
    by (simp add: storedSnapshot_def groupOf_def settingOf_def emptyDB_def)
  moreover have "decMail mailDecoders ''on'' (MailCfg defaults) = (None, m)" by (simp add: mailDecoders_def defaults_def m_def)
  moreover have "hasId uId (users emptyDB) 0" if "(0 :: int) > 0" using that by simp
  ultimately show ?thesis
    using SaveGroup_mail [of emptyDB 0 "\<lambda>m. Inr ''on''" m "''on''" mailDecoders defaults "fst (NewManager emptyDB)"]
    by (auto simp: m_def NewManager_def)
qed

section \<open>Internal secrets\<close>

text \<open>
  an internal secret is generated once. On an intact database \<open>EnsureInternal\<close> returns a value
  that is stored, the one already there when there is one; asking again, with whatever randomness,
  returns the same value and writes nothing, until \<open>RotateInternal\<close> replaces it.
\<close>

theorem EnsureInternal_stable:
  assumes "faults s = []" and "buf \<noteq> []"
  shows "\<exists>v s'. run_state (EnsureInternal key (Inr buf)) s = (Inr v, s') \<and> v \<noteq> [] \<and>
    settingOf s' = (settingOf s)(key \<mapsto> v) \<and>
    (\<forall>w. settingOf s key = Some w \<and> w \<noteq> [] \<longrightarrow> v = w \<and> s' = s) \<and>
    run_state (EnsureInternal key rnd) s' = (Inr v, s') \<and>
    fst (run_state (andThen (RotateInternal key (Inr buf2)) (\<lambda>_. GetSetting key)) s') = Inr (hex_encode buf2)"
proof -
  have rot: "fst (run_state (andThen (RotateInternal key (Inr buf2)) (\<lambda>_. GetSetting key)) s') = Inr (hex_encode buf2)"
    if s': "faults s' = []" for s'
  proof -
    have "hasRef uId (users s') (if 0 < (0 :: int) then Some 0 else None)" by (simp add: hasRef_def)
    from PutSetting_clean [OF s' this, of key "hex_encode buf2"] obtain s2
      where "run_state (PutSetting key (hex_encode buf2) 0) s' = (Inr (), s2)" "faults s2 = []"
        "settingOf s2 = (settingOf s')(key \<mapsto> hex_encode buf2)" by metis
    then show ?thesis by (simp add: andThen_def RotateInternal_def GetSetting_clean)
  qed
  have hb: "hex_encode buf \<noteq> []" using assms(2) length_hex_encode [of buf] by (metis length_0_conv mult_eq_0_iff zero_neq_numeral)
  define v0 where "v0 = (case settingOf s key of None \<Rightarrow> [] | Some v \<Rightarrow> v)"
  have g: "run_state (GetSetting key) s = (Inr v0, s)" using assms(1) by (simp add: GetSetting_clean v0_def)
  show ?thesis
  proof (cases "v0 = []")
    case False
    then have "settingOf s key = Some v0" by (auto simp: v0_def split: option.splits)
    then have "settingOf s = (settingOf s)(key \<mapsto> v0)" by auto
    moreover have "run_state (EnsureInternal key r) s = (Inr v0, s)" for r using g False by (simp add: EnsureInternal_def)
    ultimately show ?thesis using False rot [OF assms(1)] by (intro exI [of _ v0] exI [of _ s]) (simp add: v0_def)
  next
    case True
    have "hasRef uId (users s) (if 0 < (0 :: int) then Some 0 else None)" by (simp add: hasRef_def)
    from PutSetting_clean [OF assms(1) this, of key "hex_encode buf"] obtain s1
      where p: "run_state (PutSetting key (hex_encode buf) 0) s = (Inr (), s1)" "faults s1 = []"
        "settingOf s1 = (settingOf s)(key \<mapsto> hex_encode buf)" by metis
    have "run_state (EnsureInternal key (Inr buf)) s = (Inr (hex_encode buf), s1)"
      using g True p by (simp add: EnsureInternal_def andThen_def)
    moreover have "run_state (EnsureInternal key rnd) s1 = (Inr (hex_encode buf), s1)"
      using p hb by (simp add: EnsureInternal_def GetSetting_clean)
    moreover have "\<forall>w. settingOf s key = Some w \<and> w \<noteq> [] \<longrightarrow> hex_encode buf = w \<and> s1 = s"
      using True by (auto simp: v0_def)
    ultimately show ?thesis using p hb rot [OF p(2)] by blast
  qed
qed

theorem EnsureInternal_stable_witness:
  "\<exists>v s'. run_state (EnsureInternal KeyServiceToken (Inr ''k'')) emptyDB = (Inr v, s') \<and>
    run_state (EnsureInternal KeyServiceToken (Inr ''other'')) s' = (Inr v, s')"
proof -
  have "faults emptyDB = []" by (simp add: emptyDB_def)
  from EnsureInternal_stable [OF this, of "''k''" KeyServiceToken "Inr ''other''" "[]"] show ?thesis by blast
qed

end
