(* ===== verification/KVLog.thy ===== *)
theory KVLog
  imports GoText
begin

text \<open>
  The key/value log of a run, server/internal/store/kv.go: \<open>ExtractStoreSets\<close> scans a trace for
  the lines the runner dumps after a run and keeps, for each key, the last value. The regular
  expression is deterministic: a run of white space is followed by a byte that is not white
  space, a captured token ends at the first quote. Case folding follows Unicode: besides the
  ASCII letters, \<open>s\<close> also matches U+017F (bytes C5 BF) and \<open>k\<close> matches U+212A (bytes E2 84 AA).
  No match can begin inside the bytes of another rune, so the scan goes byte by byte.
\<close>

definition re_space :: "char \<Rightarrow> bool" where
  "re_space c \<longleftrightarrow> c \<in> {CHR 0x09, CHR 0x0A, CHR 0x0C, CHR 0x0D, CHR '' ''}"

definition quote :: char where
  "quote = CHR 0x22"

text \<open>One letter of a case-insensitive literal: the rest of the input after it.\<close>

definition letter_ci :: "char \<Rightarrow> string \<Rightarrow> string option" where
  "letter_ci c s =
     (case s of
        [] \<Rightarrow> None
      | a # t \<Rightarrow>
          if byte a = byte c \<or> byte a + 32 = byte c then Some t
          else if c = CHR ''s'' \<and> take 2 s = [CHR 0xC5, CHR 0xBF] then Some (drop 2 s)
          else if c = CHR ''k'' \<and> take 3 s = [CHR 0xE2, CHR 0x84, CHR 0xAA] then Some (drop 3 s)
          else None)"

fun lit_ci :: "string \<Rightarrow> string \<Rightarrow> string option" where
  "lit_ci [] s = Some s"
| "lit_ci (c # p) s = Option.bind (letter_ci c s) (lit_ci p)"

definition spaces0 :: "string \<Rightarrow> string" where
  "spaces0 s = dropWhile re_space s"

definition spaces1 :: "string \<Rightarrow> string option" where
  "spaces1 s = (case s of [] \<Rightarrow> None | c # t \<Rightarrow> if re_space c then Some (dropWhile re_space t) else None)"

definition quoted :: "string \<Rightarrow> (string \<times> string) option" where
  "quoted s =
     (case s of
        [] \<Rightarrow> None
      | c # t \<Rightarrow>
          if c = quote \<and> quote \<in> set t
          then Some (takeWhile (\<lambda>x. x \<noteq> quote) t, tl (dropWhile (\<lambda>x. x \<noteq> quote) t))
          else None)"

definition equals_sign :: "string \<Rightarrow> string option" where
  "equals_sign s = (case s of [] \<Rightarrow> None | c # t \<Rightarrow> if c = CHR ''='' then Some t else None)"

text \<open>A match of the expression at the start of the input: key, value and the input after it.\<close>

definition storeSetRe :: "string \<Rightarrow> (string \<times> string \<times> string) option" where
  "storeSetRe s = do {
     s \<leftarrow> lit_ci ''store'' s;
     s \<leftarrow> spaces1 s;
     s \<leftarrow> lit_ci ''set'' s;
     s \<leftarrow> spaces1 s;
     s \<leftarrow> lit_ci ''key'' s;
     s \<leftarrow> equals_sign (spaces0 s);
     (k, s) \<leftarrow> quoted (spaces0 s);
     s \<leftarrow> spaces1 s;
     s \<leftarrow> lit_ci ''value'' s;
     s \<leftarrow> equals_sign (spaces0 s);
     (v, s) \<leftarrow> quoted (spaces0 s);
     Some (k, v, s)
   }"

lemma letter_ci_shorter: "letter_ci c s = Some t \<Longrightarrow> length t < length s"
  by (auto simp: letter_ci_def split: list.splits if_splits)

lemma lit_ci_shorter: "lit_ci p s = Some t \<Longrightarrow> length t \<le> length s"
  by (induction p arbitrary: s) (auto simp: bind_eq_Some_conv dest!: letter_ci_shorter, force)

lemma spaces1_shorter: "spaces1 s = Some t \<Longrightarrow> length t < length s"
  by (auto simp: spaces1_def le_imp_less_Suc length_dropWhile_le split: list.splits if_splits)

lemma spaces0_shorter: "length (spaces0 s) \<le> length s"
  by (simp add: spaces0_def length_dropWhile_le)

lemma equals_sign_shorter: "equals_sign s = Some t \<Longrightarrow> length t < length s"
  by (auto simp: equals_sign_def split: list.splits if_splits)

lemma quoted_shorter: "quoted s = Some (k, t) \<Longrightarrow> length t < length s"
proof -
  have "length (tl (dropWhile P t)) \<le> length t" for P and t :: string
    by (metis diff_le_self le_trans length_dropWhile_le length_tl)
  then show "quoted s = Some (k, t) \<Longrightarrow> length t < length s"
    by (auto simp: quoted_def le_imp_less_Suc split: list.splits if_splits)
qed

lemmas matcher_shorter = lit_ci_shorter spaces1_shorter equals_sign_shorter quoted_shorter

lemma storeSetRe_shorter: "storeSetRe s = Some (k, v, t) \<Longrightarrow> length t < length s"
proof -
  assume "storeSetRe s = Some (k, v, t)"
  then obtain s1 s2 s3 s4 s5 s6 s7 s8 s9 s10 where
    m: "lit_ci ''store'' s = Some s1" "spaces1 s1 = Some s2" "lit_ci ''set'' s2 = Some s3" "spaces1 s3 = Some s4"
    "lit_ci ''key'' s4 = Some s5" "equals_sign (spaces0 s5) = Some s6" "quoted (spaces0 s6) = Some (k, s7)"
    "spaces1 s7 = Some s8" "lit_ci ''value'' s8 = Some s9" "equals_sign (spaces0 s9) = Some s10"
    "quoted (spaces0 s10) = Some (v, t)"
    unfolding storeSetRe_def by (auto simp: bind_eq_Some_conv)
  note lit_ci_shorter [OF m(1)] spaces1_shorter [OF m(2)] lit_ci_shorter [OF m(3)] spaces1_shorter [OF m(4)]
    lit_ci_shorter [OF m(5)] equals_sign_shorter [OF m(6)] quoted_shorter [OF m(7)] spaces1_shorter [OF m(8)]
    lit_ci_shorter [OF m(9)] equals_sign_shorter [OF m(10)] quoted_shorter [OF m(11)]
  with spaces0_shorter [of s5] spaces0_shorter [of s6] spaces0_shorter [of s9] spaces0_shorter [of s10]
  show ?thesis by linarith
qed

text \<open>\<open>FindAllStringSubmatch\<close>: leftmost, non-overlapping.\<close>

function findAll :: "string \<Rightarrow> (string \<times> string) list" where
  "findAll s =
     (if s = [] then []
      else (case storeSetRe s of
              Some (k, v, t) \<Rightarrow> (k, v) # findAll t
            | None \<Rightarrow> findAll (tl s)))"
  by pat_completeness auto
termination
  by (relation "measure length") (auto dest: storeSetRe_shorter)

declare findAll.simps [simp del]

definition ExtractStoreSets :: "string \<Rightarrow> (string \<rightharpoonup> string)" where
  "ExtractStoreSets trace = foldl (\<lambda>writes (k, v). writes(k \<mapsto> v)) Map.empty (findAll trace)"

section \<open>The lines the runner dumps\<close>

definition dumpLine :: "string \<times> string \<Rightarrow> string" where
  "dumpLine kv = ''store set key = '' @ [quote] @ fst kv @ [quote] @ '' value = '' @ [quote] @ snd kv @ [quote]"

text \<open>Text in which no match can begin.\<close>

definition quiet :: "string \<Rightarrow> bool" where
  "quiet s \<longleftrightarrow> (\<forall>c \<in> set s. c \<noteq> CHR ''s'' \<and> c \<noteq> CHR ''S'' \<and> c \<noteq> CHR 0xC5)"

lemma quoted_token [simp]: "quote \<notin> set k \<Longrightarrow> quoted (quote # k @ quote # t) = Some (k, t)"
  by (simp add: quoted_def takeWhile_append dropWhile_append takeWhile_eq_all_conv [THEN iffD2] dropWhile_eq_Nil_conv [THEN iffD2])

lemma storeSetRe_dumpLine:
  assumes "quote \<notin> set k" and "quote \<notin> set v"
  shows "storeSetRe (dumpLine (k, v) @ t) = Some (k, v, t)"
proof -
  have q: "\<not> re_space quote" by (simp add: re_space_def quote_def)
  have r: "re_space CHR '' ''" "\<not> re_space CHR ''s''" "\<not> re_space CHR ''k''" "\<not> re_space CHR ''v''" "\<not> re_space CHR ''=''"
    by (simp_all add: re_space_def)
  show ?thesis using assms q r
    by (simp add: storeSetRe_def dumpLine_def letter_ci_def spaces1_def spaces0_def equals_sign_def)
qed

lemma storeSetRe_quiet_head:
  assumes "c \<noteq> CHR ''s''" "c \<noteq> CHR ''S''" "c \<noteq> CHR 0xC5"
  shows "storeSetRe (c # s) = None"
proof -
  have "byte c \<noteq> byte CHR ''s''" "byte c \<noteq> byte CHR ''S''" using assms by (simp_all only: byte_eq_iff) auto
  then have "byte c \<noteq> 115" "byte c + 32 \<noteq> 115" by auto
  with assms(3) show ?thesis by (simp add: storeSetRe_def letter_ci_def)
qed

lemma findAll_quiet: "quiet p \<Longrightarrow> findAll (p @ s) = findAll s"
proof (induction p)
  case (Cons c p)
  then have "storeSetRe (c # p @ s) = None" and "quiet p"
    by (auto simp: quiet_def intro: storeSetRe_quiet_head)
  with Cons.IH show ?case by (simp add: findAll.simps [of "c # p @ s"])
qed simp

lemma findAll_dumpLine:
  "quote \<notin> set k \<Longrightarrow> quote \<notin> set v \<Longrightarrow> findAll (dumpLine (k, v) @ t) = (k, v) # findAll t"
  by (subst findAll.simps) (simp add: storeSetRe_dumpLine, simp add: dumpLine_def)


lemma findAll_dump:
  "list_all (\<lambda>(k, v). quote \<notin> set k \<and> quote \<notin> set v) kvs \<Longrightarrow> quiet pre \<Longrightarrow>
    findAll (concat (map (\<lambda>kv. pre @ dumpLine kv @ [CHR 0x0A]) kvs)) = kvs"
proof (induction kvs)
  case Nil
  then show ?case by (simp add: findAll.simps)
next
  case (Cons kv kvs)
  obtain k v where kv: "kv = (k, v)" by (cases kv)
  have q: "quiet [CHR 0x0A]" by (simp add: quiet_def)
  from Cons kv have "findAll (concat (map (\<lambda>kv. pre @ dumpLine kv @ [CHR 0x0A]) kvs)) = kvs" by simp
  with Cons.prems kv findAll_quiet [OF q] show ?case
    by (simp add: findAll_quiet findAll_dumpLine)
qed

lemma foldl_writes: "foldl (\<lambda>w (k, v). w(k \<mapsto> v)) m kvs = m ++ map_of (rev kvs)"
  by (induction kvs arbitrary: m) (auto simp: map_add_def fun_eq_iff split: option.splits)

lemma quoted_sound: "quoted s = Some (k, t) \<Longrightarrow> \<exists>b. s = quote # k @ quote # b \<and> t = b \<and> quote \<notin> set k"
proof -
  assume "quoted s = Some (k, t)"
  then obtain r where r: "s = quote # r" "quote \<in> set r" "k = takeWhile (\<lambda>x. x \<noteq> quote) r" "t = tl (dropWhile (\<lambda>x. x \<noteq> quote) r)"
    by (auto simp: quoted_def split: list.splits if_splits)
  have ne: "dropWhile (\<lambda>x. x \<noteq> quote) r \<noteq> []" using r(2) by (simp add: dropWhile_eq_Nil_conv)
  then have "hd (dropWhile (\<lambda>x. x \<noteq> quote) r) = quote" using hd_dropWhile by blast
  with ne r(4) have "dropWhile (\<lambda>x. x \<noteq> quote) r = quote # t" by (metis list.collapse)
  then have "r = k @ quote # t" using r(3) takeWhile_dropWhile_id [of "\<lambda>x. x \<noteq> quote" r] by simp
  moreover have "quote \<notin> set k" using r(3) by (auto dest: set_takeWhileD)
  ultimately show ?thesis using r(1) by blast
qed

lemma findAll_quote_free: "(k, v) \<in> set (findAll s) \<Longrightarrow> quote \<notin> set k \<and> quote \<notin> set v"
proof (induction s rule: findAll.induct)
  case (1 s)
  have hit: "quote \<notin> set k' \<and> quote \<notin> set v'" if "storeSetRe s = Some (k', v', t)" for k' v' t
    using that by (auto simp: storeSetRe_def bind_eq_Some_conv dest!: quoted_sound)
  show ?case
  proof (cases "s = []")
    case True
    with "1.prems" show ?thesis by (simp add: findAll.simps)
  next
    case False
    show ?thesis
    proof (cases "storeSetRe s")
      case None
      with False "1.prems" "1.IH"(1) show ?thesis by (simp add: findAll.simps [of s])
    next
      case (Some m)
      obtain k' v' t where m: "m = (k', v', t)" by (cases m)
      with False Some "1.prems" have "(k, v) = (k', v') \<or> (k, v) \<in> set (findAll t)"
        by (simp add: findAll.simps [of s])
      with "1.IH"(2) [OF False Some] m hit Some show ?thesis by blast
    qed
  qed
qed

section \<open>Properties\<close>

text \<open>
  the dump of a run is read back. If neither keys nor values contain a quote, the map
  extracted from the dumped lines (each after a line prefix such as the runner's
  \<open>[flowcode:INFO]\<close>) has exactly the keys written, each with the last value written to it.
\<close>

theorem ExtractStoreSets_dump:
  assumes "list_all (\<lambda>(k, v). quote \<notin> set k \<and> quote \<notin> set v) kvs" and "quiet pre"
  shows "ExtractStoreSets (concat (map (\<lambda>kv. pre @ dumpLine kv @ [CHR 0x0A]) kvs)) = map_of (rev kvs)"
  by (simp add: ExtractStoreSets_def findAll_dump [OF assms] foldl_writes)

theorem ExtractStoreSets_dump_witness:
  "ExtractStoreSets (concat (map (\<lambda>kv. ''[flowcode:INFO] '' @ dumpLine kv @ [CHR 0x0A]) [(''a'', ''1''), (''b'', []), (''a'', ''2'')]))
     ''a'' = Some ''2''"
  using ExtractStoreSets_dump [of "[(''a'', ''1''), (''b'', []), (''a'', ''2'')]" "''[flowcode:INFO] ''"]
  by (simp add: quote_def quiet_def)

text \<open>
  nothing but quote-free tokens is ever recorded, and a trace without any \<open>store\<close> text
  yields the empty map.
\<close>

theorem ExtractStoreSets_tokens:
  "(\<forall>k v. ExtractStoreSets trace k = Some v \<longrightarrow> quote \<notin> set k \<and> quote \<notin> set v) \<and>
   (quiet trace \<longrightarrow> ExtractStoreSets trace = Map.empty)"
proof (intro conjI allI impI)
  fix k v assume "ExtractStoreSets trace k = Some v"
  then have "(k, v) \<in> set (findAll trace)"
    by (auto simp: ExtractStoreSets_def foldl_writes dest: map_of_SomeD)
  then show "quote \<notin> set k" "quote \<notin> set v" using findAll_quote_free by blast+
next
  assume "quiet trace"
  then have "findAll (trace @ []) = []" by (simp only: findAll_quiet) (simp add: findAll.simps)
  then show "ExtractStoreSets trace = Map.empty" by (simp add: ExtractStoreSets_def)
qed

theorem ExtractStoreSets_tokens_witness:
  "ExtractStoreSets ''hello'' = Map.empty"
  using ExtractStoreSets_tokens [of "''hello''"] by (simp add: quiet_def)

text \<open>
  keys are trusted to be quote-free. The runner replaces quotes in the value only; the one
  line dumped for a key that contains quotes is read as a write of another key and value chosen
  by whoever wrote the key, and the real key gets no entry.
\<close>

theorem store_key_forgery:
  assumes "quiet v" and "quote \<notin> set target" and "quote \<notin> set forged"
  shows "(let key = target @ [quote] @ '' value = '' @ [quote] @ forged in
    ExtractStoreSets (''[flowcode:INFO] '' @ dumpLine (key, v)) = [target \<mapsto> forged])"
proof -
  let ?key = "target @ [quote] @ '' value = '' @ [quote] @ forged"
  have d: "dumpLine (?key, v) = dumpLine (target, forged) @ '' value = '' @ [quote] @ v @ [quote]"
    by (simp add: dumpLine_def)
  have q: "quiet (''[flowcode:INFO] '')" "quiet ('' value = '' @ [quote] @ v @ [quote])"
    using assms(1) by (auto simp: quiet_def quote_def)
  have "findAll (('' value = '' @ [quote] @ v @ [quote]) @ []) = []"
    by (simp only: findAll_quiet [OF q(2)]) (simp add: findAll.simps)
  then have "findAll (''[flowcode:INFO] '' @ dumpLine (?key, v)) = [(target, forged)]"
    unfolding findAll_quiet [OF q(1)] d findAll_dumpLine [OF assms(2,3)] by simp
  then show ?thesis by (simp only: Let_def ExtractStoreSets_def) simp
qed

theorem store_key_forgery_witness:
  "ExtractStoreSets (''[flowcode:INFO] '' @ dumpLine (''admin'' @ [quote] @ '' value = '' @ [quote] @ ''1'', ''x'')) ''admin'' = Some ''1''"
  using store_key_forgery [of "''x''" "''admin''" "''1''"] by (simp add: quiet_def quote_def)

end
