(* ===== verification/Api.thy ===== *)
theory Api
  imports Gate Settings KVLog
begin

text \<open>
  The JSON handlers of the server: projects.go, files.go, versions.go, deployments.go, triggers.go,
  executions.go, kv.go and internalapi.go, and the table of routes of main.go that puts them behind
  the login check. The running of a program is the field \<open>engineRun\<close> of the world (theory Engine
  models it); the time stamps of a run are \<open>startTime\<close> and \<open>finishTime\<close>.
\<close>

section \<open>Projects\<close>

definition handleListProjects :: "world \<Rightarrow> request \<Rightarrow> handler" where
  "handleListProjects w req = do {
     u \<leftarrow> currentUser w (reqTime w) req;
     case u of
       None \<Rightarrow> writeError 401 ''login required''
     | Some user \<Rightarrow> do {
         r \<leftarrow> ListProjectsForUser (userId user);
         case r of
           Inl _ \<Rightarrow> writeError 500 ''could not list projects''
         | Inr ps \<Rightarrow> ret (JSON 200 (ProjectsBody ps))
       }
   }"

definition handleCreateProject :: "world \<Rightarrow> request \<Rightarrow> handler" where
  "handleCreateProject w req = do {
     u \<leftarrow> currentUser w (reqTime w) req;
     case u of
       None \<Rightarrow> writeError 401 ''login required''
     | Some user \<Rightarrow>
         decodeJSON (parseCreateProject (parsers w)) req 4096 (\<lambda>(name, description).
           if name = [] then writeError 400 ''name is required''
           else do {
             ws \<leftarrow> userWorkspaceID w user;
             case ws of
               None \<Rightarrow> writeError 500 ''you have no workspace''
             | Some wsID \<Rightarrow> do {
                 r \<leftarrow> CreateWSProject (uni w) wsID (userId user) name description;
                 case r of
                   Inl _ \<Rightarrow> writeError 500 ''could not create project''
                 | Inr p \<Rightarrow> ret (JSON 201 (ProjectBody p))
               }
           })
   }"

definition handleGetProject :: "world \<Rightarrow> request \<Rightarrow> handler" where
  "handleGetProject w req = wsProjectOr404 w req (\<lambda>p role user. ret (JSON 200 (ProjectBody p)))"

definition handleUpdateProject :: "world \<Rightarrow> request \<Rightarrow> handler" where
  "handleUpdateProject w req = wsProjectOr404 w req (\<lambda>p role user. requireRole role RoleEditor (
     decodeJSON (parseUpdateProject (parsers w)) req 4096 (\<lambda>(name, description).
       if name = Some [] then writeError 400 ''name cannot be empty''
       else do {
         r \<leftarrow> UpdateWSProject (wpId p) name description;
         case r of
           Inl _ \<Rightarrow> writeError 500 ''could not update project''
         | Inr updated \<Rightarrow> ret (JSON 200 (ProjectBody updated))
       })))"

definition handleDeleteProject :: "world \<Rightarrow> request \<Rightarrow> handler" where
  "handleDeleteProject w req = wsProjectOr404 w req (\<lambda>p role user. requireRole role RoleOwner (do {
     r \<leftarrow> DeleteWSProject (wpId p);
     case r of Inl _ \<Rightarrow> writeError 500 ''could not delete project'' | Inr _ \<Rightarrow> ret NoContent
   }))"

section \<open>Files and runs\<close>

definition maxSourceBytes :: nat where
  "maxSourceBytes = 65536"

definition handleListFiles :: "world \<Rightarrow> request \<Rightarrow> handler" where
  "handleListFiles w req = wsProjectOr404 w req (\<lambda>p role user. do {
     r \<leftarrow> ListWSFiles (wpId p);
     case r of Inl _ \<Rightarrow> writeError 500 ''could not list files'' | Inr fs \<Rightarrow> ret (JSON 200 (FilesBody fs role))
   })"

definition handleSaveFile :: "world \<Rightarrow> request \<Rightarrow> handler" where
  "handleSaveFile w req = wsProjectOr404 w req (\<lambda>p role user. requireRole role RoleEditor (
     let name = pathValue req ''name'' in
     if name = [] then writeError 400 ''file name is required''
     else decodeJSON (parseSaveFile (parsers w)) req (maxSourceBytes + 1024) (\<lambda>content.
       if length content > maxSourceBytes then writeError 413 ''file content too large''
       else do {
         r \<leftarrow> UpsertWSFile (wpId p) name content;
         case r of Inl _ \<Rightarrow> writeError 500 ''could not save file'' | Inr f \<Rightarrow> ret (JSON 200 (FileBody f))
       })))"

definition handleDeleteFile :: "world \<Rightarrow> request \<Rightarrow> handler" where
  "handleDeleteFile w req = wsProjectOr404 w req (\<lambda>p role user. requireRole role RoleEditor (do {
     r \<leftarrow> DeleteWSFile (wpId p) (pathValue req ''name'');
     case r of Inl _ \<Rightarrow> writeError 500 ''could not delete file'' | Inr _ \<Rightarrow> ret NoContent
   }))"

definition noActor :: Actor where
  "noActor = \<lparr>ActorUserID = 0, ActorEmail = [], ActorProjectID = 0, ActorExecID = 0\<rparr>"

definition actorFor :: "User option \<Rightarrow> WSProject option \<Rightarrow> Actor" where
  "actorFor user p =
     (case (user, p) of
        (Some u, Some q) \<Rightarrow> noActor\<lparr>ActorUserID := userId u, ActorEmail := userEmail u, ActorProjectID := wpId q\<rparr>
      | _ \<Rightarrow> noActor)"

definition ownerActor :: "WSProject option \<Rightarrow> (db, Actor) state" where
  "ownerActor p =
     (case p of
        None \<Rightarrow> ret noActor
      | Some q \<Rightarrow>
          if wpCreatedBy q \<le> 0 then ret noActor
          else do {
            r \<leftarrow> GetUser (wpCreatedBy q);
            ret (case r of
               Inl _ \<Rightarrow> noActor\<lparr>ActorUserID := wpCreatedBy q, ActorProjectID := wpId q\<rparr>
             | Inr u \<Rightarrow> noActor\<lparr>ActorUserID := userId u, ActorEmail := userEmail u, ActorProjectID := wpId q\<rparr>)
          })"

definition appFamily :: "string \<Rightarrow> string" where
  "appFamily name =
     (if name = ''MailApp.sendEmail'' \<or> name = ''MailApp.read'' then ''mail''
      else if name = ''UrlFetchApp.fetch'' then ''http''
      else if name = ''Logger.log'' then ''logger''
      else ''other'')"

definition appRecordable :: "string \<Rightarrow> bool" where
  "appRecordable name \<longleftrightarrow> name = ''MailApp.sendEmail'' \<or> name = ''MailApp.read'' \<or> name = ''UrlFetchApp.fetch''"

text \<open>The pairs of the map \<open>ExtractStoreSets\<close> returns; Go ranges over them in any order.\<close>

definition storePairs :: "string \<Rightarrow> (string \<times> string) list" where
  "storePairs trace =
     (let m = ExtractStoreSets trace in map (\<lambda>k. (k, the (m k))) (remdups (map fst (findAll trace))))"

fun upsertKVs :: "int \<Rightarrow> int \<Rightarrow> (string \<times> string) list \<Rightarrow> (db, unit) state" where
  "upsertKVs pid eid [] = ret ()"
| "upsertKVs pid eid ((k, v) # rest) = do {
     _ \<leftarrow> UpsertWSKV pid k v (Some eid);
     upsertKVs pid eid rest
   }"

definition callRows :: "int \<Rightarrow> int option \<Rightarrow> AppCall list \<Rightarrow> appCallRow list" where
  "callRows eid uid calls =
     map (\<lambda>c. \<lparr>acId = 0, acExecution = eid, acUser = uid, acApp = appFamily (AcName c), acName = AcName c,
                acStatus = AcStatus c, acRequest = AcRequest c, acResponse = AcResponse c,
                acDurationMs = AcDurationMs c, acCreatedAt = []\<rparr>)
       (filter (\<lambda>c. appRecordable (AcName c)) calls)"

definition recordExecution ::
  "world \<Rightarrow> WSProject \<Rightarrow> fileRow option \<Rightarrow> int option \<Rightarrow> string \<Rightarrow> int option \<Rightarrow> int option \<Rightarrow> User option \<Rightarrow>
    Result option \<Rightarrow> goerr option \<Rightarrow> Execution stm" where
  "recordExecution w p f versionID source deploymentID triggerID actor result runErr =
     (let actorID = map_option userId actor;
          ne = \<lparr>neProject = wpId p, neFile = map_option fId f, neFileName = (case f of None \<Rightarrow> [] | Some x \<Rightarrow> fName x),
                neVersion = versionID, neSource = source, neDeployment = deploymentID, neTrigger = triggerID,
                neStartedAt = FormatTime (startTime w), neFinishedAt = FormatTime (finishTime w),
                neSummary = Summary result, neErr = runErr\<rparr>
      in andThen (RecordWSSExecution (uni w) ne actorID) (\<lambda>entry. do {
           _ \<leftarrow> (case result of
                    None \<Rightarrow> ret ()
                  | Some res \<Rightarrow>
                      (case resRun res of
                         None \<Rightarrow> ret ()
                       | Some run \<Rightarrow> upsertKVs (wpId p) (exId entry) (rangeOrder w (storePairs (Stderr run)))));
           (case result of
              None \<Rightarrow> ret (Inr entry)
            | Some res \<Rightarrow>
                (let calls = callRows (exId entry) actorID (resAppCalls res) in
                 if calls = [] then ret (Inr entry)
                 else do { _ \<leftarrow> RecordAppCalls calls; ret (Inr entry) }))
         }))"

definition handleRunFile :: "world \<Rightarrow> request \<Rightarrow> handler" where
  "handleRunFile w req = wsProjectOr404 w req (\<lambda>p role user. requireRole role RoleEditor (do {
     g \<leftarrow> GetWSFile (wpId p) (pathValue req ''name'');
     case g of
       Inl e \<Rightarrow>
         if errors_Is e ErrNotFound then writeError 404 ''file not found''
         else writeError 500 ''could not look up file''
     | Inr f \<Rightarrow>
         (let outcome = engineRun w (fContent f) (actorFor (Some user) (Some p));
              result = (case outcome of Inl _ \<Rightarrow> None | Inr r \<Rightarrow> Some r);
              runErr = (case outcome of Inl e \<Rightarrow> Some e | Inr _ \<Rightarrow> None);
              record = do {
                x \<leftarrow> recordExecution w p (Some f) None ''project-run'' None None (Some user) result runErr;
                case x of
                  Inl _ \<Rightarrow> writeError 500 ''could not record execution''
                | Inr entry \<Rightarrow>
                    (case outcome of
                       Inl _ \<Rightarrow> writeError 500 ''could not execute the program''
                     | Inr r \<Rightarrow> ret (JSON 200 (RunBody \<lparr>rrResult = r, rrExecutionID = exId entry\<rparr>)))
              }
          in case outcome of
               Inl e \<Rightarrow>
                 if errors_Is e ErrBusy then writeError 503 ''playground is busy, try again shortly''
                 else if clientGone w then ret Silent
                 else record
             | Inr _ \<Rightarrow> record)
   }))"

section \<open>Versions\<close>

definition handleListVersions :: "world \<Rightarrow> request \<Rightarrow> handler" where
  "handleListVersions w req = wsProjectOr404 w req (\<lambda>p role user. do {
     r \<leftarrow> ListWSVersions (wpId p);
     case r of Inl _ \<Rightarrow> writeError 500 ''could not list versions'' | Inr vs \<Rightarrow> ret (JSON 200 (VersionsBody vs))
   })"

definition handleCreateVersion :: "world \<Rightarrow> request \<Rightarrow> handler" where
  "handleCreateVersion w req = wsProjectOr404 w req (\<lambda>p role user. requireRole role RoleEditor (
     decodeJSON (parseCreateVersion (parsers w)) req 4096 (\<lambda>label. do {
       r \<leftarrow> CreateWSVersion (wpId p) label;
       case r of
         Inl e \<Rightarrow> writeError 400 (errText (uni w) e)
       | Inr v \<Rightarrow> ret (JSON 201 (VersionBody v))
     })))"

text \<open>The lookup that both version handlers begin with.\<close>

definition withVersion :: "request \<Rightarrow> WSProject \<Rightarrow> (versionRow \<Rightarrow> handler) \<Rightarrow> handler" where
  "withVersion req p k = pathInt req ''number'' (\<lambda>number. do {
     r \<leftarrow> GetWSVersionByNumber (wpId p) number;
     case r of
       Inl e \<Rightarrow>
         if errors_Is e ErrNotFound then writeError 404 ''version not found''
         else writeError 500 ''could not look up version''
     | Inr v \<Rightarrow> k v
   })"

definition handleGetVersion :: "world \<Rightarrow> request \<Rightarrow> handler" where
  "handleGetVersion w req = wsProjectOr404 w req (\<lambda>p role user.
     withVersion req p (\<lambda>v. ret (JSON 200 (VersionBody v))))"

definition handleRestoreVersion :: "world \<Rightarrow> request \<Rightarrow> handler" where
  "handleRestoreVersion w req = wsProjectOr404 w req (\<lambda>p role user. requireRole role RoleEditor (
     withVersion req p (\<lambda>v. do {
       r \<leftarrow> RestoreWSVersion (wpId p) (vId v);
       case r of
         Inl _ \<Rightarrow> writeError 500 ''could not restore version''
       | Inr _ \<Rightarrow> ret (JSON 200 (StatusBody ''restored''))
     })))"

section \<open>Deployments\<close>

definition handleListDeployments :: "world \<Rightarrow> request \<Rightarrow> handler" where
  "handleListDeployments w req = wsProjectOr404 w req (\<lambda>p role user. do {
     r \<leftarrow> ListWSDeployments (wpId p);
     case r of
       Inl _ \<Rightarrow> writeError 500 ''could not list deployments''
     | Inr ds \<Rightarrow> ret (JSON 200 (DeploymentsBody ds))
   })"

definition handleCreateDeployment :: "world \<Rightarrow> request \<Rightarrow> handler" where
  "handleCreateDeployment w req = wsProjectOr404 w req (\<lambda>p role user. requireRole role RoleEditor (
     decodeJSON (parseCreateDeployment (parsers w)) req 4096 (\<lambda>(fileName, versionID). do {
       g \<leftarrow> GetWSFile (wpId p) fileName;
       case g of
         Inl e \<Rightarrow>
           if errors_Is e ErrNotFound then writeError 400 ''fileName does not refer to a file in this project''
           else writeError 500 ''could not look up file''
       | Inr f \<Rightarrow> do {
           r \<leftarrow> CreateWSDeployment (rnd w) (wpId p) (fId f) versionID;
           case r of
             Inl _ \<Rightarrow> writeError 500 ''could not create deployment''
           | Inr dep \<Rightarrow> ret (JSON 201 (DeploymentBody dep))
         }
     })))"

definition handleUpdateDeployment :: "world \<Rightarrow> request \<Rightarrow> handler" where
  "handleUpdateDeployment w req = wsProjectOr404 w req (\<lambda>p role user.
     pathInt64 req ''depId'' (\<lambda>depID.
     decodeJSON (parseEnabled (parsers w)) req 4096 (\<lambda>enabled. do {
       u \<leftarrow> (case enabled of None \<Rightarrow> ret (Inr ()) | Some b \<Rightarrow> SetWSDeploymentEnabled depID b);
       case u of
         Inl _ \<Rightarrow> writeError 500 ''could not update deployment''
       | Inr _ \<Rightarrow> do {
           g \<leftarrow> GetWSDeployment depID;
           case g of
             Inl e \<Rightarrow>
               if errors_Is e ErrNotFound then writeError 404 ''deployment not found''
               else writeError 500 ''could not look up deployment''
           | Inr dep \<Rightarrow> ret (JSON 200 (DeploymentBody dep))
         }
     })))"

definition handleDeleteDeployment :: "world \<Rightarrow> request \<Rightarrow> handler" where
  "handleDeleteDeployment w req = wsProjectOr404 w req (\<lambda>p role user.
     pathInt64 req ''depId'' (\<lambda>depID. do {
       r \<leftarrow> DeleteWSDeployment depID;
       case r of Inl _ \<Rightarrow> writeError 500 ''could not delete deployment'' | Inr _ \<Rightarrow> ret NoContent
     }))"

definition deployLimitationNote :: string where
  "deployLimitationNote =
     ''this deployment ignores the incoming request; it re-executes the workflow with no parameters''"

definition resolveDeploymentSource :: "Deployment \<Rightarrow> (string \<times> fileRow \<times> WSProject) stm" where
  "resolveDeploymentSource dep =
     andThen (GetWSFileByID (depFile dep)) (\<lambda>f.
     andThen (GetWSProject (fProject f)) (\<lambda>p.
       case depVersion dep of
         None \<Rightarrow> ret (Inr (fContent f, f, p))
       | Some vid \<Rightarrow> andThen (GetWSVersionFileContent vid (fName f)) (\<lambda>content. ret (Inr (content, f, p)))))"

text \<open>The status of a run that was executed, and the reply in the requested format.\<close>

definition deployStatus :: "Result \<Rightarrow> nat" where
  "deployStatus result =
     (if ExitCode (crStage (resCompile result)) \<noteq> 0 \<or>
         (case resRun result of None \<Rightarrow> False | Some r \<Rightarrow> ExitCode r \<noteq> 0) then 502 else 200)"

definition deployReply :: "request \<Rightarrow> Deployment \<Rightarrow> Result \<Rightarrow> Execution result \<Rightarrow> response" where
  "deployReply req dep result entry =
     (if queryOf req ''format'' = ''text'' then
        PlainText (deployStatus result)
          (case resRun result of Some r \<Rightarrow> Stderr r | None \<Rightarrow> Stderr (crStage (resCompile result)))
      else
        JSON (deployStatus result)
          (DeployBody \<lparr>drDeployment = depSlug dep, drNote = deployLimitationNote, drResult = result,
                       drExecutionID = (case entry of Inl _ \<Rightarrow> 0 | Inr x \<Rightarrow> exId x)\<rparr>))"

definition handleDeploy :: "world \<Rightarrow> request \<Rightarrow> handler" where
  "handleDeploy w req = do {
     g \<leftarrow> GetWSDeploymentBySlug (pathValue req ''slug'');
     case g of
       Inl e \<Rightarrow>
         if errors_Is e ErrNotFound then writeError 404 ''no such deployment, or it has been disabled''
         else writeError 500 ''could not look up deployment''
     | Inr dep \<Rightarrow>
         if \<not> depEnabled dep then writeError 404 ''no such deployment, or it has been disabled''
         else do {
           r \<leftarrow> resolveDeploymentSource dep;
           case r of
             Inl _ \<Rightarrow> writeError 500 ''could not resolve deployment source''
           | Inr (source, f, p) \<Rightarrow> do {
               actor \<leftarrow> ownerActor (Some p);
               (case engineRun w source actor of
                  Inl e \<Rightarrow>
                    if errors_Is e ErrBusy then writeError 503 ''deployment is busy, try again shortly''
                    else if clientGone w then ret Silent
                    else writeError 502 ''the deployment failed to execute''
                | Inr result \<Rightarrow> do {
                    owner \<leftarrow> (if 0 < wpCreatedBy p
                              then do { u \<leftarrow> GetUser (wpCreatedBy p); ret (case u of Inl _ \<Rightarrow> None | Inr x \<Rightarrow> Some x) }
                              else ret None);
                    entry \<leftarrow> recordExecution w p (Some f) (depVersion dep) ''deployment'' (Some (depId dep)) None owner
                              (Some result) None;
                    ret (deployReply req dep result entry)
                  })
             }
         }
   }"

section \<open>Triggers\<close>

definition handleListTriggers :: "world \<Rightarrow> request \<Rightarrow> handler" where
  "handleListTriggers w req = wsProjectOr404 w req (\<lambda>p role user. do {
     r \<leftarrow> ListWSTriggers (wpId p);
     case r of
       Inl _ \<Rightarrow> writeError 500 ''could not list triggers''
     | Inr ts \<Rightarrow> ret (JSON 200 (TriggersBody ts))
   })"

definition handleCreateTrigger :: "world \<Rightarrow> request \<Rightarrow> handler" where
  "handleCreateTrigger w req = wsProjectOr404 w req (\<lambda>p role user. requireRole role RoleEditor (
     decodeJSON (parseCreateTrigger (parsers w)) req 4096 (\<lambda>ct. do {
       g \<leftarrow> GetWSFile (wpId p) (ctFileName ct);
       case g of
         Inl e \<Rightarrow>
           if errors_Is e ErrNotFound then writeError 400 ''fileName does not refer to a file in this project''
           else writeError 500 ''could not look up file''
       | Inr f \<Rightarrow>
           (let interval = (case ctIntervalSeconds ct of None \<Rightarrow> 0 | Some n \<Rightarrow> n) in
            case NextRun (reqTime w) (ctScheduleType ct) interval (ctDailyTimeUTC ct) of
              Inl e \<Rightarrow> writeError 400 (errText (uni w) e)
            | Inr nxt \<Rightarrow> do {
                r \<leftarrow> CreateWSTrigger
                  \<lparr>ntProject = wpId p, ntFile = fId f, ntVersion = ctVersionID ct, ntScheduleType = ctScheduleType ct,
                   ntIntervalSeconds = ctIntervalSeconds ct, ntDailyTimeUTC = ctDailyTimeUTC ct,
                   ntNextRunAt = FormatTime nxt\<rparr>;
                case r of
                  Inl _ \<Rightarrow> writeError 500 ''could not create trigger''
                | Inr t \<Rightarrow> ret (JSON 201 (TriggerBody t))
              })
     })))"

definition handleUpdateTrigger :: "world \<Rightarrow> request \<Rightarrow> handler" where
  "handleUpdateTrigger w req = wsProjectOr404 w req (\<lambda>p role user.
     pathInt64 req ''trigId'' (\<lambda>trigID.
     decodeJSON (parseEnabled (parsers w)) req 4096 (\<lambda>enabled. do {
       u \<leftarrow> (case enabled of None \<Rightarrow> ret (Inr ()) | Some b \<Rightarrow> SetWSTriggerEnabled trigID b);
       case u of
         Inl _ \<Rightarrow> writeError 500 ''could not update trigger''
       | Inr _ \<Rightarrow> do {
           g \<leftarrow> GetWSTrigger trigID;
           case g of
             Inl e \<Rightarrow>
               if errors_Is e ErrNotFound then writeError 404 ''trigger not found''
               else writeError 500 ''could not look up trigger''
           | Inr t \<Rightarrow> ret (JSON 200 (TriggerBody t))
         }
     })))"

definition handleDeleteTrigger :: "world \<Rightarrow> request \<Rightarrow> handler" where
  "handleDeleteTrigger w req = wsProjectOr404 w req (\<lambda>p role user.
     pathInt64 req ''trigId'' (\<lambda>trigID. do {
       r \<leftarrow> DeleteWSTrigger trigID;
       case r of Inl _ \<Rightarrow> writeError 500 ''could not delete trigger'' | Inr _ \<Rightarrow> ret NoContent
     }))"

section \<open>Executions and key/value entries\<close>

definition handleListExecutions :: "world \<Rightarrow> request \<Rightarrow> handler" where
  "handleListExecutions w req = wsProjectOr404 w req (\<lambda>p role user.
     (let v = queryOf req ''limit'';
          lim0 = (if v = [] then 50 else (case Atoi v of None \<Rightarrow> 50 | Some n \<Rightarrow> n));
          b = queryOf req ''before'';
          beforeID = (if b = [] then 0 else (case ParseInt64 b of None \<Rightarrow> 0 | Some n \<Rightarrow> n))
      in do {
        r \<leftarrow> ListWSExecutions (wpId p) lim0 beforeID;
        case r of
          Inl _ \<Rightarrow> writeError 500 ''could not list executions''
        | Inr es \<Rightarrow> ret (JSON 200 (ExecutionsBody es))
      }))"

definition handleGetExecution :: "world \<Rightarrow> request \<Rightarrow> handler" where
  "handleGetExecution w req = wsProjectOr404 w req (\<lambda>p role user.
     pathInt64 req ''execId'' (\<lambda>execID. do {
       g \<leftarrow> GetWSExecution execID;
       case g of
         Inl e \<Rightarrow>
           if errors_Is e ErrNotFound then writeError 404 ''execution not found''
           else writeError 500 ''could not look up execution''
       | Inr entry \<Rightarrow>
           if exProject entry \<noteq> wpId p then writeError 404 ''execution not found''
           else do {
             c \<leftarrow> ListExecutionAppCalls (exId entry);
             ret (JSON 200 (ExecutionBody entry (case c of Inl _ \<Rightarrow> [] | Inr cs \<Rightarrow> cs)))
           }
     }))"

definition handleListKV :: "world \<Rightarrow> request \<Rightarrow> handler" where
  "handleListKV w req = wsProjectOr404 w req (\<lambda>p role user. do {
     r \<leftarrow> ListWSKV (wpId p);
     case r of Inl _ \<Rightarrow> writeError 500 ''could not list kv entries'' | Inr es \<Rightarrow> ret (JSON 200 (KVBody es))
   })"

definition handleDeleteKV :: "world \<Rightarrow> request \<Rightarrow> handler" where
  "handleDeleteKV w req = wsProjectOr404 w req (\<lambda>p role user. requireRole role RoleEditor (do {
     r \<leftarrow> DeleteWSKV (wpId p) (pathValue req ''key'');
     case r of Inl _ \<Rightarrow> writeError 500 ''could not delete kv entry'' | Inr _ \<Rightarrow> ret NoContent
   }))"

section \<open>The routes\<close>

datatype apiRoute =
    ListProjects | CreateProject | GetProject | UpdateProject | DeleteProject
  | ListFiles | SaveFile | DeleteFile | RunFile
  | ListVersions | CreateVersion | GetVersion | RestoreVersion
  | ListDeployments | CreateDeployment | UpdateDeployment | DeleteDeployment
  | ListTriggers | CreateTrigger | UpdateTrigger | DeleteTrigger
  | ListExecutions | GetExecution | ListKV | DeleteKV

fun apiHandler :: "apiRoute \<Rightarrow> world \<Rightarrow> request \<Rightarrow> handler" where
  "apiHandler ListProjects = handleListProjects"
| "apiHandler CreateProject = handleCreateProject"
| "apiHandler GetProject = handleGetProject"
| "apiHandler UpdateProject = handleUpdateProject"
| "apiHandler DeleteProject = handleDeleteProject"
| "apiHandler ListFiles = handleListFiles"
| "apiHandler SaveFile = handleSaveFile"
| "apiHandler DeleteFile = handleDeleteFile"
| "apiHandler RunFile = handleRunFile"
| "apiHandler ListVersions = handleListVersions"
| "apiHandler CreateVersion = handleCreateVersion"
| "apiHandler GetVersion = handleGetVersion"
| "apiHandler RestoreVersion = handleRestoreVersion"
| "apiHandler ListDeployments = handleListDeployments"
| "apiHandler CreateDeployment = handleCreateDeployment"
| "apiHandler UpdateDeployment = handleUpdateDeployment"
| "apiHandler DeleteDeployment = handleDeleteDeployment"
| "apiHandler ListTriggers = handleListTriggers"
| "apiHandler CreateTrigger = handleCreateTrigger"
| "apiHandler UpdateTrigger = handleUpdateTrigger"
| "apiHandler DeleteTrigger = handleDeleteTrigger"
| "apiHandler ListExecutions = handleListExecutions"
| "apiHandler GetExecution = handleGetExecution"
| "apiHandler ListKV = handleListKV"
| "apiHandler DeleteKV = handleDeleteKV"

definition serveApi :: "apiRoute \<Rightarrow> world \<Rightarrow> request \<Rightarrow> handler" where
  "serveApi route w req = requireUser w req (apiHandler route w req)"

section \<open>The internal reload API\<close>

text \<open>The settings manager beside the database, and the service token in memory.\<close>

definition refreshSettings :: "decoders \<Rightarrow> string option \<Rightarrow> (goerr option \<times> string option) mgr" where
  "refreshSettings D cached = do {
     e \<leftarrow> Load D;
     case e of
       Some e \<Rightarrow> ret (Some e, cached)
     | None \<Rightarrow> do {
         t \<leftarrow> onStore (GetSetting KeyServiceToken);
         ret (None, case t of Inr tok \<Rightarrow> if tok \<noteq> [] then Some tok else cached | Inl _ \<Rightarrow> cached)
       }
   }"

definition handleInternalReload :: "decoders \<Rightarrow> unicode \<Rightarrow> request \<Rightarrow> string option \<Rightarrow> (response \<times> string option) mgr" where
  "handleInternalReload D U req cached = do {
     t \<leftarrow> onStore (GetSetting KeyServiceToken);
     case t of
       Inl _ \<Rightarrow> ret (JSON 500 (ErrorBody ''could not read service token''), cached)
     | Inr tok \<Rightarrow>
         (let h = headerOf req ''Authorization'' in
          if tok = [] \<or> length h \<le> 7 \<or> take 7 h \<noteq> ''Bearer '' \<or> drop 7 h \<noteq> tok
          then ret (JSON 403 (ErrorBody ''invalid service token''), cached)
          else do {
            r \<leftarrow> refreshSettings D cached;
            case r of
              (Some e, cached') \<Rightarrow> ret (JSON 500 (ErrorBody (''reload failed: '' @ errText U e)), cached')
            | (None, cached') \<Rightarrow> ret (JSON 200 (StatusBody ''reloaded''), cached')
          })
   }"

section \<open>The constraints are kept\<close>

lemma wf_decodeJSON [inv_intros]: "(\<And>v. preserves wfdb (k v)) \<Longrightarrow> preserves wfdb (decodeJSON dec req n k)"
  by (auto simp: decodeJSON_def writeError_def split: parsed.split intro!: inv_intros)

lemma wf_pathInt64 [inv_intros]: "(\<And>v. preserves wfdb (k v)) \<Longrightarrow> preserves wfdb (pathInt64 req name k)"
  unfolding pathInt64_def Let_def writeError_def by (intro inv_intros)

lemma wf_writeError [inv_intros]: "preserves wfdb (writeError n m)"
  unfolding writeError_def by (intro inv_intros)

lemma wf_withVersion [inv_intros]: "(\<And>v. preserves wfdb (k v)) \<Longrightarrow> preserves wfdb (withVersion req p k)"
  unfolding withVersion_def pathInt_def by (intro inv_intros)

lemma wf_access [inv_intros]:
  "preserves wfdb (currentUser w t req)" "preserves wfdb (ensureWorkspace w user)" "preserves wfdb (userWorkspaceID w user)"
  "preserves wfdb (loginUser w sub email name pic)" "preserves wfdb (ownerActor p)"
proof -
  show "preserves wfdb (currentUser w t req)" by (rule wf_reads [OF reads_currentUser])
  show e: "preserves wfdb (ensureWorkspace w user)" for user
    unfolding ensureWorkspace_def Let_def by (intro inv_intros)
  show "preserves wfdb (userWorkspaceID w user)" unfolding userWorkspaceID_def by (intro inv_intros e)
  show "preserves wfdb (loginUser w sub email name pic)" unfolding loginUser_def by (intro inv_intros e)
  show "preserves wfdb (ownerActor p)" unfolding ownerActor_def by (intro inv_intros)
qed

lemma wf_upsertKVs [inv_intros]: "preserves wfdb (upsertKVs pid eid kvps)"
  by (induction kvps) (auto intro!: inv_intros)

lemma wf_recordExecution [inv_intros]: "preserves wfdb (recordExecution w p f v src d t a res e)"
  unfolding recordExecution_def Let_def by (intro inv_intros)

lemma wf_requireUser [inv_intros]: "preserves wfdb h \<Longrightarrow> preserves wfdb (requireUser w req h)"
  unfolding requireUser_def by (intro inv_intros)

lemmas apiHandlers = handleListProjects_def handleCreateProject_def handleGetProject_def handleUpdateProject_def
  handleDeleteProject_def handleListFiles_def handleSaveFile_def handleDeleteFile_def handleRunFile_def
  handleListVersions_def handleCreateVersion_def handleGetVersion_def handleRestoreVersion_def
  handleListDeployments_def handleCreateDeployment_def handleUpdateDeployment_def handleDeleteDeployment_def
  handleListTriggers_def handleCreateTrigger_def handleUpdateTrigger_def handleDeleteTrigger_def
  handleListExecutions_def handleGetExecution_def handleListKV_def handleDeleteKV_def Let_def

lemma wf_resolveDeploymentSource [inv_intros]: "preserves wfdb (resolveDeploymentSource dep)"
  unfolding resolveDeploymentSource_def by (intro inv_intros)

lemma wf_handleDeploy [inv_intros]: "preserves wfdb (handleDeploy w req)"
  unfolding handleDeploy_def by (intro inv_intros)

lemma wf_apiHandler: "preserves wfdb (apiHandler route w req)"
  by (cases route; simp only: apiHandler.simps; unfold apiHandlers; intro inv_intros)

lemma wf_serveApi [inv_intros]: "preserves wfdb (serveApi route w req)"
  unfolding serveApi_def by (intro inv_intros wf_apiHandler)

section \<open>Writes need a role\<close>

lemma reads_small [reads_intros]:
  "reads (writeError n m)"
  "(\<And>p role user. reads (k p role user)) \<Longrightarrow> reads (wsProjectOr404 w req k)"
  "(\<And>v. reads (g v)) \<Longrightarrow> reads (pathInt64 req name g)"
  "(\<And>v. reads (h v)) \<Longrightarrow> reads (withVersion req q h)"
proof -
  show e: "reads (writeError n m)" for n m unfolding writeError_def by (intro reads_intros)
  show "(\<And>p role user. reads (k p role user)) \<Longrightarrow> reads (wsProjectOr404 w req k)"
    unfolding wsProjectOr404_def by (intro reads_intros e)
  show g: "(\<And>v. reads (g v)) \<Longrightarrow> reads (pathInt64 req name g)" for g name
    unfolding pathInt64_def Let_def by (intro reads_intros e)
  show "(\<And>v. reads (h v)) \<Longrightarrow> reads (withVersion req q h)"
    unfolding withVersion_def pathInt_def by (intro g reads_intros e)
qed

fun readOnly :: "apiRoute \<Rightarrow> bool" where
  "readOnly route \<longleftrightarrow> route \<in> {ListProjects, GetProject, ListFiles, ListVersions, GetVersion, ListDeployments, ListTriggers,
     ListExecutions, GetExecution, ListKV}"

lemma reads_handlers:
  "reads (handleListProjects w req)" "reads (handleGetProject w req)" "reads (handleListFiles w req)"
  "reads (handleListVersions w req)" "reads (handleGetVersion w req)" "reads (handleListDeployments w req)"
  "reads (handleListTriggers w req)" "reads (handleListExecutions w req)" "reads (handleGetExecution w req)"
  "reads (handleListKV w req)"
  unfolding apiHandlers by (intro reads_intros)+

lemma reads_api: "readOnly route \<Longrightarrow> reads (apiHandler route w req)"
  by (cases route) (simp_all add: reads_handlers)

lemma reads_tables: "reads m \<Longrightarrow> tables (snd (run_state m s)) = tables s"
  by (rule keepsD [OF reads_keeps [OF _ ignores_tables]])

lemma mayAct_faults [simp]: "mayAct w req (s\<lparr>faults := fs\<rparr>) p role user = mayAct w req s p role user"
  by (simp add: mayAct_def)

text \<open>The four routes whose handlers ask for a project but not for a role.\<close>

fun roleless :: "apiRoute \<Rightarrow> bool" where
  "roleless route \<longleftrightarrow> route \<in> {UpdateDeployment, DeleteDeployment, UpdateTrigger, DeleteTrigger}"

definition apiAllowed :: "apiRoute \<Rightarrow> world \<Rightarrow> request \<Rightarrow> db \<Rightarrow> bool" where
  "apiAllowed route w req s \<longleftrightarrow>
     (if route = CreateProject then \<exists>user. identified w (reqTime w) req s user
      else \<exists>p role user. mayAct w req s p role user \<and>
        (\<not> roleless route \<longrightarrow> role = RoleOwner \<or> role = RoleEditor \<and> route \<noteq> DeleteProject))"

lemma apiAllowed_faults [simp]: "apiAllowed route w req (s\<lparr>faults := fs\<rparr>) = apiAllowed route w req s"
  by (simp add: apiAllowed_def)

lemma create_allowed:
  assumes "tables (snd (run_state (handleCreateProject w req) s)) \<noteq> tables s"
  shows "\<exists>user. identified w (reqTime w) req s user"
proof -
  obtain ou s1 where u: "run_state (currentUser w (reqTime w) req) s = (ou, s1)" by (cases "run_state (currentUser w (reqTime w) req) s")
  have t: "tables s1 = tables s" using reads_tables [OF reads_currentUser, of w "reqTime w" req s] u by simp
  show ?thesis
  proof (cases ou)
    case None
    then show ?thesis using assms u t by (simp add: handleCreateProject_def writeError_def)
  next
    case (Some us)
    then show ?thesis using currentUser_Some u by blast
  qed
qed

lemma edit_changes:
  assumes "realFaults s"
    and "tables (snd (run_state (wsProjectOr404 w req (\<lambda>p role user. requireRole role RoleEditor (k p role user))) s)) \<noteq> tables s"
  shows "\<exists>p role user. mayAct w req s p role user \<and> (role = RoleOwner \<or> role = RoleEditor)"
  using editGate.changes_need [OF assms] by (auto simp: rank_roles)

lemma edit_handlers:
  assumes "realFaults s"
    and "\<exists>h \<in> {handleUpdateProject, handleSaveFile, handleDeleteFile, handleRunFile, handleCreateVersion, handleRestoreVersion,
            handleCreateDeployment, handleCreateTrigger, handleDeleteKV}. tables (snd (run_state (h w req) s)) \<noteq> tables s"
  shows "\<exists>p role user. mayAct w req s p role user \<and> (role = RoleOwner \<or> role = RoleEditor)"
  using assms(2) unfolding bex_simps
    handleUpdateProject_def handleSaveFile_def handleDeleteFile_def handleRunFile_def handleCreateVersion_def
    handleRestoreVersion_def handleCreateDeployment_def handleCreateTrigger_def handleDeleteKV_def
  by (elim disjE FalseE) (erule edit_changes [OF assms(1)])+

lemma api_changes:
  assumes "realFaults s" and c: "tables (snd (run_state (apiHandler route w req) s)) \<noteq> tables s"
  shows "apiAllowed route w req s"
proof (cases "readOnly route")
  case True
  then show ?thesis using c reads_tables [OF reads_api [OF True]] by simp
next
  case False
  show ?thesis
  proof (cases "route = DeleteProject")
    case True
    then show ?thesis
      using ownGate.changes_need [OF assms(1) c [unfolded True apiHandler.simps handleDeleteProject_def]]
      by (auto simp: apiAllowed_def rank_roles)
  next
    case nd: False
    show ?thesis
    proof (cases "roleless route")
      case True
      then have "\<exists>p role user. mayAct w req s p role user \<and> True"
        using c by (elim roleless.elims insertE emptyE) (simp_all only: apiHandler.simps apiHandlers;
          erule apiGate.changes_need [OF assms(1)])+
      then show ?thesis using True by (auto simp: apiAllowed_def)
    next
      case nr: False
      show ?thesis
      proof (cases "route = CreateProject")
        case True
        then show ?thesis using create_allowed c by (simp add: apiAllowed_def)
      next
        case nc: False
        have "\<exists>p role user. mayAct w req s p role user \<and> (role = RoleOwner \<or> role = RoleEditor)"
          using False nd nr nc c by (intro edit_handlers [OF assms(1)]) (cases route; simp)
        then show ?thesis using nd nc by (auto simp: apiAllowed_def)
      qed
    qed
  qed
qed

lemma requireUser_tables:
  obtains fs where "set fs \<subseteq> set (faults s)"
    "tables (snd (run_state (requireUser w req h) s)) = tables s \<or>
     snd (run_state (requireUser w req h) s) = snd (run_state h (s\<lparr>faults := fs\<rparr>))"
proof -
  obtain u s1 where u: "run_state (currentUser w (gateTime w) req) s = (u, s1)" by (cases "run_state (currentUser w (gateTime w) req) s")
  obtain fs where fs: "set fs \<subseteq> set (faults s)" "s1 = s\<lparr>faults := fs\<rparr>" by (rule readsD [OF reads_currentUser u])
  show ?thesis
    by (rule that [OF fs(1)]) (use u fs in \<open>auto simp: requireUser_def writeError_def tables_def\<close>)
qed

text \<open>
  The database without the deployments and the triggers, the references of executions to them included.
\<close>

definition beside :: "db \<Rightarrow> db" where
  "beside s = s\<lparr>deployments := [], triggers := [], executions := map (\<lambda>e. e\<lparr>eDeployment := None, eTrigger := None\<rparr>) (executions s), faults := []\<rparr>"

lemma ignores_beside: "ignores_faults beside"
  by (simp add: ignores_faults_def beside_def)

lemma keeps_beside:
  "keeps beside (SetWSDeploymentEnabled j b)" "keeps beside (SetWSTriggerEnabled j b)"
  "keeps beside (DeleteWSDeployment j)" "keeps beside (DeleteWSTrigger j)"
  unfolding SetWSDeploymentEnabled_def SetWSTriggerEnabled_def DeleteWSDeployment_def DeleteWSTrigger_def
  by (intro keeps_update ignores_beside; simp add: beside_def dropDeployments_def dropTriggers_def Let_def)+

lemma roleless_beside:
  assumes "roleless route"
  shows "beside (snd (run_state (serveApi route w req) s)) = beside s"
proof -
  have reads: "reads m \<Longrightarrow> keeps beside m" for m :: "(db, 'a) state" by (rule reads_keeps [OF _ ignores_beside])
  have dec: "(\<And>v. keeps beside (k v)) \<Longrightarrow> keeps beside (decodeJSON d req n k)" for d :: "bytes \<Rightarrow> 'v parsed" and n k
    by (auto simp: decodeJSON_def split: parsed.split intro!: reads_keeps [OF _ ignores_beside] reads_small)
  have H: "keeps beside (apiHandler route w req)"
    using assms by (elim roleless.elims insertE emptyE) (simp_all only: apiHandler.simps apiHandlers wsProjectOr404_def pathInt64_def,
      (intro keeps_intros keeps_beside dec reads_keeps [OF _ ignores_beside] reads_small runReads_reads reads_resolve ignores_beside)+)
  have "keeps beside (serveApi route w req)"
    unfolding serveApi_def requireUser_def
    by (intro keeps_intros H reads_keeps [OF reads_currentUser ignores_beside]) (intro reads_keeps [OF _ ignores_beside] reads_small)
  then show ?thesis by (rule keepsD)
qed

text \<open>
  C2: who can change what through the JSON API. Over all routes, and whatever statements fail: the routes
  that only read change nothing; a request that changes any table comes from a known user, who for every
  route on a project has access to the project of the path, and is its owner or an editor of it, the owner
  when it deletes the project. Four routes ask for access but not for a role: those that update or delete
  a deployment or a trigger. A request to one of them, a viewer's too, changes nothing but deployments,
  triggers and the references of executions to them.
\<close>

theorem api_writes_need_role:
  assumes "realFaults s" and "tables (snd (run_state (serveApi route w req) s)) \<noteq> tables s"
  shows "\<not> readOnly route \<and> apiAllowed route w req s \<and>
    (roleless route \<longrightarrow> beside (snd (run_state (serveApi route w req) s)) = beside s)"
proof -
  obtain fs where fs: "set fs \<subseteq> set (faults s)"
    "tables (snd (run_state (serveApi route w req) s)) = tables s \<or>
     snd (run_state (serveApi route w req) s) = snd (run_state (apiHandler route w req) (s\<lparr>faults := fs\<rparr>))"
    unfolding serveApi_def by (rule requireUser_tables)
  have "realFaults (s\<lparr>faults := fs\<rparr>)" by (rule realFaults_rest [OF assms(1) fs(1)])
  moreover have c: "tables (snd (run_state (apiHandler route w req) (s\<lparr>faults := fs\<rparr>))) \<noteq> tables (s\<lparr>faults := fs\<rparr>)"
    using fs(2) assms(2) by (auto simp: tables_def)
  ultimately have "apiAllowed route w req s" using api_changes by fastforce
  moreover have "\<not> readOnly route" using c reads_tables [OF reads_api] by blast
  ultimately show ?thesis using roleless_beside by blast
qed

section \<open>Requests for the witnesses\<close>

text \<open>
  User 1 has a viewer share on project 1 and nothing on project 2 of another workspace, which has a
  deployment; user 2 owns both workspaces.
\<close>

definition teamDB :: db where
  "teamDB = emptyDB\<lparr>
     users := [\<lparr>uId = 1, uSubject = ''s1'', uEmail = ''a@x'', uName = ''A'', uPicture = [], uCreatedAt = [], uLastLoginAt = None\<rparr>,
               \<lparr>uId = 2, uSubject = ''s2'', uEmail = ''b@x'', uName = ''B'', uPicture = [], uCreatedAt = [], uLastLoginAt = None\<rparr>],
     workspaces := [\<lparr>wId = 1, wSlug = ''w'', wName = ''W'', wCreatedAt = []\<rparr>, \<lparr>wId = 2, wSlug = ''v'', wName = ''V'', wCreatedAt = []\<rparr>],
     members := [\<lparr>mWorkspace = 1, mUser = 2, mRole = RoleOwner\<rparr>, \<lparr>mWorkspace = 1, mUser = 1, mRole = RoleMember\<rparr>,
                 \<lparr>mWorkspace = 2, mUser = 2, mRole = RoleOwner\<rparr>],
     projects := [\<lparr>pId = 1, pWorkspace = 1, pCreatedBy = Some 2, pSlug = ''p'', pName = ''P'', pDescription = [],
                   pCreatedAt = [], pUpdatedAt = []\<rparr>,
                  \<lparr>pId = 2, pWorkspace = 2, pCreatedBy = Some 2, pSlug = ''q'', pName = ''Q'', pDescription = [],
                   pCreatedAt = [], pUpdatedAt = []\<rparr>],
     files := [\<lparr>fId = 5, fProject = 2, fName = ''a.fc'', fContent = ''x'', fPosition = 0, fCreatedAt = [], fUpdatedAt = []\<rparr>],
     deployments := [\<lparr>dId = 9, dProject = 2, dFile = 5, dSlug = ''slug'', dVersion = None, dEnabled = True, dCreatedAt = [],
                      dUpdatedAt = []\<rparr>],
     shares := [\<lparr>sProject = 1, sUser = 1, sRole = RoleViewer, sGrantedBy = Some 2\<rparr>],
     seqs := \<lparr>seqUser = 2, seqWorkspace = 2, seqProject = 2, seqFile = 5, seqVersion = 0, seqDeployment = 9,
              seqTrigger = 0, seqExecution = 0, seqAppCall = 0, seqAdmin = 0\<rparr>\<rparr>"

lemma ready_teamDB: "ready teamDB"
  by (simp add: ready_def wfdb_def teamDB_def emptyDB_def keyed_def uniq_def)

text \<open>A request of the user with this id, with path values and a body.\<close>

definition requestBy :: "int \<Rightarrow> (string \<times> string) list \<Rightarrow> request" where
  "requestBy i path =
     \<lparr>cookieOf = (\<lambda>n. if n = sessionCookieName then Some (sessionValue (mac sampleWorld) (secret sampleWorld) i 100) else None),
      headerOf = (\<lambda>_. []), urlPath = [], hostName = ''host'', isTLS = False,
      pathValue = (\<lambda>n. case map_of path n of None \<Rightarrow> [] | Some v \<Rightarrow> v),
      queryOf = (\<lambda>_. []), formValue = (\<lambda>_. []), postContent = None, reqBody = []\<rparr>"

lemma currentUser_requestBy:
  assumes "i \<in> {1, 2}"
  shows "\<exists>u. run_state (currentUser sampleWorld 0 (requestBy i path)) teamDB = (Some u, teamDB) \<and> userId u = i"
proof -
  have "openSession (mac sampleWorld) (secret sampleWorld) (unixTime 0)
      (sessionValue (mac sampleWorld) (secret sampleWorld) i 100) = Some i"
    using assms by (subst openSession_value) (auto simp: unixTime_def)
  moreover have "\<exists>u. run_state (GetUser i) teamDB = (Inr u, teamDB) \<and> userId u = i"
    using assms by (auto simp: GetUser_def query_clean teamDB_def emptyDB_def row_def scanUser_def)
  ultimately show ?thesis
    by (auto simp: currentUser_def userFromSession_def requestBy_def)
qed

lemma resolve_requestBy:
  assumes "i \<in> {1, 2}" and "map_of path ''id'' = Some ''1''"
  shows "\<exists>p user. run_state (resolveWSProject sampleWorld (requestBy i path)) teamDB =
    (Inr (p, if i = 1 then RoleViewer else RoleOwner, user), teamDB) \<and> wpId p = 1 \<and> userId user = i"
proof -
  obtain u where u: "run_state (currentUser sampleWorld 0 (requestBy i path)) teamDB = (Some u, teamDB)" "userId u = i"
    using currentUser_requestBy [OF assms(1)] by blast
  have "pathInt64Value (requestBy i path) ''id'' = Some 1"
    using assms(2) by (simp add: pathInt64Value_def requestBy_def ParseInt64_def parse_uint_def digits_val_def digit_val_def is_digit_def)
  moreover have "\<exists>p. run_state (GetWSProject 1) teamDB = (Inr p, teamDB) \<and> wpId p = 1"
    by (simp add: GetWSProject_def query_clean teamDB_def emptyDB_def row_def scanWSProject_def)
  moreover have "faults teamDB = []" by (simp add: teamDB_def emptyDB_def)
  moreover have "roleIn teamDB 1 i = Some (if i = 1 then RoleViewer else RoleOwner)"
    using assms(1) by (auto simp: roleIn_def teamDB_def)
  moreover have "RoleViewer \<noteq> []" "RoleOwner \<noteq> []" by (simp_all add: role_defs)
  moreover have "reqTime sampleWorld = 0" by (simp add: sampleWorld_def)
  ultimately show ?thesis using u by (auto simp: resolveWSProject_def EffectiveProjectRole_clean)
qed

theorem api_writes_need_role_witness:
  "(\<exists>r s'. run_state (serveApi DeleteProject sampleWorld (requestBy 2 [(''id'', ''1'')])) teamDB = (r, s') \<and>
      map pId (projects s') = [2]) \<and>
   apiAllowed DeleteProject sampleWorld (requestBy 2 [(''id'', ''1'')]) teamDB"
proof -
  define req where "req = requestBy 2 [(''id'', ''1'')]"
  obtain p user where r: "run_state (resolveWSProject sampleWorld req) teamDB = (Inr (p, RoleOwner, user), teamDB)" "wpId p = 1"
    using resolve_requestBy [of 2 "[(''id'', ''1'')]"] by (auto simp: req_def)
  obtain u where u: "run_state (currentUser sampleWorld 0 req) teamDB = (Some u, teamDB)"
    using currentUser_requestBy [of 2] by (auto simp: req_def)
  have f: "faults teamDB = []" by (simp add: teamDB_def emptyDB_def)
  define t where "t = dropProjects (\<lambda>p. pId p = 1) teamDB"
  have t: "versionRefsOK t" "map pId (projects t) = [2]"
    by (simp_all add: t_def versionRefsOK_def hasVersion_def dropProjects_def dropFiles_def dropVersions_def dropTriggers_def
        dropDeployments_def dropExecutions_def Let_def teamDB_def emptyDB_def)
  have "run_state (DeleteWSProject 1) teamDB = (Inr (), t)"
    using f t by (simp add: DeleteWSProject_def run_orWrap checkedDelete_def exec_clean wrap_def t_def [symmetric])
  then have run: "run_state (serveApi DeleteProject sampleWorld req) teamDB = (NoContent, t)"
    using r u by (simp add: serveApi_def requireUser_def handleDeleteProject_def wsProjectOr404_def requireRole_def)
      (simp add: sampleWorld_def)
  have "map pId (projects teamDB) = [1, 2]" by (simp add: teamDB_def)
  with t(2) have "tables t \<noteq> tables teamDB" by (auto simp: tables_def dest: arg_cong [where f = projects])
  moreover have "realFaults teamDB" using f by (simp add: realFaults_def)
  ultimately have "apiAllowed DeleteProject sampleWorld req teamDB"
    using api_writes_need_role [of teamDB DeleteProject sampleWorld req] run by simp
  with run t show ?thesis by (auto simp: req_def)
qed

text \<open>
  C39: deleting a deployment needs no right on it. Once the caller has any role on the project in
  the path, the handler deletes the deployment of the id in the path whatever project it belongs
  to.
\<close>

theorem handleDeleteDeployment_unchecked:
  assumes "faults s = []" and "run_state (resolveWSProject w req) s = (Inr (p, role, user), s)"
    and "ParseInt64 (pathValue req ''depId'') = Some i" and "0 < i"
  shows "run_state (handleDeleteDeployment w req) s = (NoContent, dropDeployments (\<lambda>d. dId d = i) s)"
  using assms
  by (simp add: handleDeleteDeployment_def wsProjectOr404_def pathInt64_def DeleteWSDeployment_def update_clean)

text \<open>User 1, who has no access to project 2, deletes its deployment as a viewer of project 1.\<close>

theorem handleDeleteDeployment_unchecked_witness:
  "roleIn teamDB 2 1 = Some [] \<and> map dProject (deployments teamDB) = [2] \<and>
   (\<exists>s'. run_state (handleDeleteDeployment sampleWorld (requestBy 1 [(''id'', ''1''), (''depId'', ''9'')])) teamDB = (NoContent, s') \<and>
     deployments s' = [])"
proof -
  define req where "req = requestBy 1 [(''id'', ''1''), (''depId'', ''9'')]"
  obtain p user where r: "run_state (resolveWSProject sampleWorld req) teamDB = (Inr (p, RoleViewer, user), teamDB)"
    using resolve_requestBy [of 1 "[(''id'', ''1''), (''depId'', ''9'')]"] by (auto simp: req_def)
  have f: "faults teamDB = []" by (simp add: teamDB_def emptyDB_def)
  have i: "ParseInt64 (pathValue req ''depId'') = Some 9"
    by (simp add: req_def requestBy_def ParseInt64_def parse_uint_def digits_val_def digit_val_def is_digit_def)
  have "deployments (dropDeployments (\<lambda>d. dId d = 9) teamDB) = []" "roleIn teamDB 2 1 = Some []"
    "map dProject (deployments teamDB) = [2]"
    by (simp_all add: dropDeployments_def teamDB_def roleIn_def Let_def)
  with handleDeleteDeployment_unchecked [OF f r i] show ?thesis by (auto simp: req_def)
qed

end
