(* ===== verification/RunRecords.thy ===== *)
theory RunRecords
  imports Api "HOL-Library.Multiset"
begin

text \<open>
  What a run leaves behind, \<open>recordExecution\<close> of server/files.go: lemmas on the definitions of
  theory Api.
\<close>

section \<open>The entries of a trace\<close>

lemma ExtractStoreSets_map_of: "ExtractStoreSets trace = map_of (rev (findAll trace))"
  by (simp add: ExtractStoreSets_def foldl_writes)

lemma storePairs_map: "map_of (storePairs trace) = ExtractStoreSets trace"
proof
  fix k
  have "map_of (map (\<lambda>k. (k, f k)) ks) k = (if k \<in> set ks then Some (f k) else None)" for f :: "string \<Rightarrow> string" and ks
    by (induction ks) auto
  then have m: "map_of (storePairs trace) k =
      (if k \<in> fst ` set (findAll trace) then Some (the (ExtractStoreSets trace k)) else None)"
    by (simp add: storePairs_def Let_def)
  show "map_of (storePairs trace) k = ExtractStoreSets trace k"
  proof (cases "k \<in> fst ` set (findAll trace)")
    case True
    then have "ExtractStoreSets trace k \<noteq> None"
      by (simp add: ExtractStoreSets_map_of map_of_eq_None_iff)
    with m True show ?thesis by auto
  next
    case False
    then have "ExtractStoreSets trace k = None"
      by (simp add: ExtractStoreSets_map_of map_of_eq_None_iff)
    with m False show ?thesis by simp
  qed
qed

lemma storePairs_distinct: "distinct (map fst (storePairs trace))"
proof -
  have "map fst (storePairs trace) = remdups (map fst (findAll trace))"
    by (simp add: storePairs_def Let_def comp_def)
  then show ?thesis by simp
qed

text \<open>Whatever order Go ranges over the map in, the writes build the same map.\<close>

lemma range_any_order:
  assumes "mset xs = mset (storePairs trace)"
  shows "map_of (rev xs) = ExtractStoreSets trace"
proof -
  have d: "distinct (map fst xs)"
    using storePairs_distinct [of trace] mset_eq_imp_distinct_iff [of "map fst xs" "map fst (storePairs trace)"] assms by simp
  have "map_of (rev xs) = map_of (storePairs trace)"
    by (subst map_of_inject_set) (use assms d storePairs_distinct [of trace] in \<open>auto simp flip: rev_map dest: mset_eq_setD\<close>)
  then show ?thesis by (simp add: storePairs_map)
qed

section \<open>The writes of one run\<close>

lemma upsertKVs_fold:
  "run_state (upsertKVs pid eid xs) s = ((), fold (\<lambda>(k, v). putKV pid (Some eid) k v) xs s)"
  by (induction pid eid xs arbitrary: s rule: upsertKVs.induct) (auto simp: putKV_def split: prod.split)

lemma upsertKVs_clean:
  assumes "kvReady pid (Some eid) s"
  shows "kvReady pid (Some eid) (snd (run_state (upsertKVs pid eid xs) s)) \<and>
    kvOf (snd (run_state (upsertKVs pid eid xs) s)) pid = kvOf s pid ++ map_of (rev xs)"
  using wsKV.put_all [OF assms, of xs] by (simp add: upsertKVs_fold)

lemma keeps_kvOther:
  assumes "q \<noteq> pid"
  shows "keeps (\<lambda>s. kvOf s q) (upsertKVs pid eid xs)"
proof -
  have i: "ignores_faults (\<lambda>s. kvOf s q)" by (simp add: ignores_faults_def kvOf_def fun_eq_iff)
  have f: "List.find (\<lambda>k. kProject k = q \<and> kKey k = n) (alter (\<lambda>k. kProject k = pid \<and> kKey k = key) g ks) =
      List.find (\<lambda>k. kProject k = q \<and> kKey k = n) ks"
    if "\<And>k. kProject (g k) = kProject k" for n key g ks
    using assms that by (induction ks) (auto simp: alter_def)
  have "keeps (\<lambda>s. kvOf s q) (upsertKV pid key v src)" for key v src
    unfolding upsertKV_def
    by (rule keeps_exec [OF i]) (use assms in \<open>auto simp: Let_def kvOf_def fun_eq_iff f find_append split: option.split\<close>)
  then have "keeps (\<lambda>s. kvOf s q) (UpsertWSKV pid key v src)" for key v src
    unfolding UpsertWSKV_def by (intro keeps_intros)
  then show ?thesis by (induction pid eid xs rule: upsertKVs.induct) (auto intro!: keeps_intros)
qed

lemma keeps_calls:
  assumes "\<And>s x. f (s\<lparr>appCallRows := x\<rparr>) = f s" and "\<And>s x. f (s\<lparr>seqs := x\<rparr>) = f s" and "ignores_faults f"
  shows "keeps f (RecordAppCalls cs)"
proof -
  have "keeps f (insertAppCall c)" for c
    unfolding insertAppCall_def by (rule keeps_exec [OF assms(3)]) (use assms(1,2) in \<open>simp add: Let_def\<close>)
  then show ?thesis by (induction cs) (auto intro!: keeps_intros)
qed

lemma RecordWSSExecution_clean:
  assumes "ready s" and "run_state (RecordWSSExecution U ne a) s = (r, s')"
  shows "case r of
      Inl e \<Rightarrow> executions s' = executions s \<and> kvs s' = kvs s
    | Inr x \<Rightarrow> kvReady (neProject ne) (Some (exId x)) s' \<and> kvs s' = kvs s \<and>
        (\<exists>e. executions s' = executions s @ [e] \<and> x = scanWSExecution e \<and> eProject e = neProject ne \<and> eActor e = a \<and>
          eDeployment e = neDeployment ne)"
proof -
  have f: "faults s = []" and w: "wfdb s" using assms(1) by (simp_all add: ready_def)
  obtain q s1 where i: "run_state (insertExecution ne (executionFields U ne) a) s = (q, s1)"
    by (cases "run_state (insertExecution ne (executionFields U ne) a) s")
  have w1: "wfdb s1" by (rule preservesD_eq [OF wf_insertExecution w i])
  have f1: "faults s1 = []" using i f by (auto simp: insertExecution_def exec_clean Let_def split: if_splits)
  show ?thesis
  proof (cases q)
    case (Inl e)
    from i f have s1: "executions s1 = executions s \<and> kvs s1 = kvs s"
      unfolding Inl insertExecution_def exec_clean [OF f] Let_def by (auto split: if_splits)
    show ?thesis
      using Inl assms(2) i s1 by (auto simp: RecordWSSExecution_def run_andThen run_orWrap wrap_def)
  next
    case (Inr j)
    with i f obtain e where e: "executions s1 = executions s @ [e]" "eId e = j" "eProject e = neProject ne" "eActor e = a"
      "eDeployment e = neDeployment ne" "kvs s1 = kvs s" "hasId pId (projects s1) (neProject ne)"
      unfolding insertExecution_def exec_clean [OF f] Let_def by (auto split: if_splits)
    have "List.find (\<lambda>y. eId y = eId e) (executions s1) = Some e"
      by (rule find_key [OF wfdb_keys(10) [OF w1]]) (simp add: e)
    then have "r = Inr (scanWSExecution e)" "s' = s1"
      using assms(2) i Inr f1 e by (simp_all add: RecordWSSExecution_def run_andThen run_orWrap wrap_def GetWSExecution_def
          query_clean row_def)
    then show ?thesis using e w1 f1
      by (auto simp: kvReady_def fileReady_def ready_def scanWSExecution_def hasRef_def hasId_def)
  qed
qed

text \<open>
  the key/value log after a run. When the database works, recording a run either fails with no
  execution added and no entry changed, or adds one execution row, credited to the actor, and lays
  the last value the trace shows for each key over the entries of that project, in whatever order Go
  ranges over the map; the entries of other projects stay as they were.
\<close>

theorem recordExecution_kv:
  assumes "ready s" and "\<And>xs. mset (rangeOrder w xs) = mset xs"
    and "run_state (recordExecution w p f v src d t actor (Some res) e) s = (r, s')"
  shows "case r of
      Inl err \<Rightarrow> executions s' = executions s \<and> (\<forall>q. kvOf s' q = kvOf s q)
    | Inr x \<Rightarrow> exProject x = wpId p \<and> exActor x = map_option userId actor \<and>
        (\<forall>q. kvOf s' q = (if q = wpId p
           then kvOf s q ++ ExtractStoreSets (case resRun res of None \<Rightarrow> [] | Some run \<Rightarrow> Stderr run) else kvOf s q))"
proof -
  define ne where "ne = \<lparr>neProject = wpId p, neFile = map_option fId f, neFileName = (case f of None \<Rightarrow> [] | Some x \<Rightarrow> fName x),
                neVersion = v, neSource = src, neDeployment = d, neTrigger = t,
                neStartedAt = FormatTime (startTime w), neFinishedAt = FormatTime (finishTime w),
                neSummary = Summary (Some res), neErr = e\<rparr>"
  define xs where "xs = (case resRun res of None \<Rightarrow> [] | Some run \<Rightarrow> rangeOrder w (storePairs (Stderr run)))"
  obtain q s1 where q: "run_state (RecordWSSExecution (uni w) ne (map_option userId actor)) s = (q, s1)"
    by (cases "run_state (RecordWSSExecution (uni w) ne (map_option userId actor)) s")
  note R = RecordWSSExecution_clean [OF assms(1) q]
  show ?thesis
  proof (cases q)
    case (Inl err)
    then have "r = Inl err" "s' = s1"
      using assms(3) q by (simp_all add: recordExecution_def Let_def run_andThen ne_def)
    then show ?thesis using R Inl by (simp add: kvOf_def fun_eq_iff)
  next
    case (Inr x)
    define s2 where "s2 = snd (run_state (upsertKVs (wpId p) (exId x) xs) s1)"
    have kv: "kvReady (wpId p) (Some (exId x)) s1" "kvs s1 = kvs s" using R Inr by (simp_all add: ne_def)
    have e0: "findAll [] = []" by (simp add: findAll.simps)
    have m: "map_of (rev xs) = ExtractStoreSets (case resRun res of None \<Rightarrow> [] | Some run \<Rightarrow> Stderr run)"
    proof (cases "resRun res")
      case None
      then show ?thesis by (simp add: xs_def ExtractStoreSets_map_of e0)
    next
      case (Some run)
      then show ?thesis using range_any_order [OF assms(2)] by (simp add: xs_def)
    qed
    have s2: "kvOf s2 (wpId p) = kvOf s1 (wpId p) ++ map_of (rev xs)"
      using upsertKVs_clean [OF kv(1)] by (simp add: s2_def)
    have o2: "kvOf s2 n = kvOf s1 n" if "n \<noteq> wpId p" for n
      using keepsD [OF keeps_kvOther [OF that], of "exId x" xs s1] by (simp add: s2_def)
    have b: "run_state (case resRun res of None \<Rightarrow> ret () | Some run \<Rightarrow> upsertKVs (wpId p) (exId x) (rangeOrder w (storePairs (Stderr run)))) s1 = ((), s2)"
      by (cases "resRun res") (simp_all add: s2_def xs_def upsertKVs_fold)
    have k3: "keeps (\<lambda>s. kvOf s n) (RecordAppCalls cs)" for n cs
      by (rule keeps_calls) (simp_all add: kvOf_def fun_eq_iff ignores_faults_def)
    have "r = Inr x" "\<forall>n. kvOf s' n = kvOf s2 n"
      using assms(3) q Inr b k3 keepsD_eq [OF k3]
      by (auto simp: recordExecution_def Let_def run_andThen ne_def split: if_splits prod.splits)
    moreover have "kvOf s1 n = kvOf s n" for n using kv(2) by (simp add: kvOf_def fun_eq_iff)
    moreover have "exProject x = wpId p" "exActor x = map_option userId actor"
      using R Inr by (auto simp: ne_def scanWSExecution_def)
    ultimately show ?thesis using s2 o2 m by simp
  qed
qed

text \<open>A run of project 1 that dumps one entry, recorded without an actor.\<close>

definition dumpRun :: Result where
  "dumpRun = (let st = \<lparr>ExitCode = 0, Stdout = [], Stderr = [], TimedOut = False, DurationMs = 1, Truncated = False, Error = []\<rparr> in
     \<lparr>resCompile = \<lparr>crStage = st, crDiagnostics = []\<rparr>, resBytecode = None, resBytecodeError = None,
      resRun = Some (st\<lparr>Stderr := dumpLine (''k'', ''v'')\<rparr>), resAppCalls = [], resTruncated = False\<rparr>)"

theorem recordExecution_kv_witness:
  "\<exists>x s'. run_state (recordExecution sampleWorld \<lparr>wpId = 1, wpWorkspace = 1, wpCreatedBy = 2, wpSlug = ''p'', wpName = ''P'',
      wpDescription = [], wpCreatedAt = [], wpUpdatedAt = []\<rparr> None None ''project-run'' None None None (Some dumpRun) None) teamDB
     = (Inr x, s') \<and> kvOf s' 1 ''k'' = Some ''v'' \<and> kvOf s' 2 = kvOf teamDB 2"
proof -
  define p where "p = \<lparr>wpId = 1, wpWorkspace = 1, wpCreatedBy = 2, wpSlug = ''p'', wpName = ''P'', wpDescription = [],
    wpCreatedAt = [], wpUpdatedAt = []\<rparr>"
  obtain r s' where run: "run_state (recordExecution sampleWorld p None None ''project-run'' None None None (Some dumpRun) None) teamDB
      = (r, s')"
    by (cases "run_state (recordExecution sampleWorld p None None ''project-run'' None None None (Some dumpRun) None) teamDB")
  have o: "mset (rangeOrder sampleWorld xs) = mset xs" for xs by (simp add: sampleWorld_def)
  have "\<exists>x. r = Inr x"
    using run by (auto simp: recordExecution_def Let_def run_andThen RecordWSSExecution_def run_orWrap insertExecution_def exec_clean
        GetWSExecution_def query_clean row_def wrap_def executionFields_def Summary_def dumpRun_def teamDB_def emptyDB_def
        hasId_def hasRef_def fits_def int4_def p_def callRows_def upsertKVs_fold split: prod.splits)
  then obtain x where x: "r = Inr x" ..
  have k: "ExtractStoreSets (dumpLine (''k'', ''v'')) = [''k'' \<mapsto> ''v'']"
    using findAll_dumpLine [of "''k''" "''v''" "[]"] by (simp add: ExtractStoreSets_def quote_def findAll.simps [of "[]"])
  note recordExecution_kv [OF ready_teamDB o run, unfolded x]
  then have "kvOf s' 1 ''k'' = Some ''v''" "kvOf s' 2 = kvOf teamDB 2"
    by (simp_all add: p_def dumpRun_def Let_def k)
  with run x show ?thesis by (auto simp: p_def)
qed

end
