(* ===== verification/Pages.thy ===== *)
theory Pages
  imports RunRecords
begin

text \<open>
  The server-rendered pages of server/web.go: the chrome of every page, the project sections with
  their form handlers, and the table of page routes of main.go behind \<open>requireUserPage\<close>. A page is
  the data its template gets; flash messages travel in the query string of a redirect.
\<close>

section \<open>Chrome\<close>

definition basePage :: "world \<Rightarrow> request \<Rightarrow> string \<Rightarrow> (db, basePage) state" where
  "basePage w req title = do {
     u \<leftarrow> currentUser w (reqTime w) req;
     let okFlash = queryOf req ''ok'';
     let errFlash = queryOf req ''err'';
     ret \<lparr>bpTitle = title, bpFlash = (if errFlash \<noteq> [] then errFlash else okFlash), bpFlashOK = (okFlash \<noteq> []),
          bpUser = u, bpRail = None\<rparr>
   }"

definition pageMayEdit :: "role \<Rightarrow> bool" where
  "pageMayEdit role \<longleftrightarrow> role = RoleEditor \<or> role = RoleOwner \<or> role = RoleAdmin"

definition appPage :: "world \<Rightarrow> request \<Rightarrow> string \<Rightarrow> WSProject option \<Rightarrow> role \<Rightarrow> string \<Rightarrow> (db, basePage) state" where
  "appPage w req title p role sect = do {
     b \<leftarrow> basePage w req title;
     ps \<leftarrow> (case bpUser b of
              None \<Rightarrow> ret []
            | Some u \<Rightarrow> do {
                r \<leftarrow> ListProjectsForUser (userId u);
                ret (case r of Inl _ \<Rightarrow> [] | Inr ps \<Rightarrow> ps)
              });
     ret (b\<lparr>bpRail := Some \<lparr>railProjects = ps, railActiveID = (case p of None \<Rightarrow> 0 | Some q \<Rightarrow> wpId q), railProject = p,
                            railSection = sect, railRole = role, railCanEdit = pageMayEdit role\<rparr>\<rparr>)
   }"

definition errorReply :: "world \<Rightarrow> request \<Rightarrow> nat \<Rightarrow> string \<Rightarrow> string \<Rightarrow> handler" where
  "errorReply w req status title msg = do {
     b \<leftarrow> basePage w req title;
     ret (Rendered status (ErrorPage b msg))
   }"

definition projectOrNotFoundPage :: "world \<Rightarrow> request \<Rightarrow> (WSProject \<Rightarrow> role \<Rightarrow> User \<Rightarrow> handler) \<Rightarrow> handler" where
  "projectOrNotFoundPage w req k = do {
     r \<leftarrow> resolveWSProject w req;
     case r of
       Inl (status, msg) \<Rightarrow>
         if status = 401 then redirect ''/login'' else errorReply w req status ''Not found'' msg
     | Inr (p, role, user) \<Rightarrow> k p role user
   }"

text \<open>The title separator is a middle dot, U+00B7.\<close>

definition newProjectPage :: "world \<Rightarrow> request \<Rightarrow> WSProject \<Rightarrow> role \<Rightarrow> string \<Rightarrow> (db, projectPage) state" where
  "newProjectPage w req p role sect = do {
     b \<leftarrow> appPage w req (wpName p @ '' '' @ [CHR 0xC2, CHR 0xB7] @ '' '' @ sect) (Some p) role sect;
     ret \<lparr>ppBase = b, ppP = p, ppRole = role, ppCanEdit = pageMayEdit role\<rparr>
   }"

definition projectURL :: "int \<Rightarrow> string \<Rightarrow> string" where
  "projectURL pid rest = ''/projects/'' @ itoa_int pid @ rest"

definition errTo :: "string \<Rightarrow> string \<Rightarrow> handler" where
  "errTo url msg = redirect (url @ ''?err='' @ urlQuery msg)"

definition okTo :: "string \<Rightarrow> string \<Rightarrow> handler" where
  "okTo url msg = redirect (url @ ''?ok='' @ urlQuery msg)"

text \<open>The opening of every form handler: the project, and a role that may edit it.\<close>

definition editorsOnly :: "world \<Rightarrow> request \<Rightarrow> string \<Rightarrow> (WSProject \<Rightarrow> role \<Rightarrow> User \<Rightarrow> handler) \<Rightarrow> handler" where
  "editorsOnly w req sect k = projectOrNotFoundPage w req (\<lambda>p role user.
     if \<not> pageMayEdit role then errTo (projectURL (wpId p) sect) ''you have view-only access'' else k p role user)"

section \<open>Entry and projects\<close>

definition handleRoot :: "request \<Rightarrow> handler" where
  "handleRoot req = (if urlPath req \<noteq> ''/'' then ret NotFoundReply else redirect ''/projects'')"

definition handleLoginPage :: "world \<Rightarrow> request \<Rightarrow> handler" where
  "handleLoginPage w req = do { b \<leftarrow> basePage w req ''Log in''; ret (Rendered 200 (LoginPage b)) }"

definition handleProjectsPage :: "world \<Rightarrow> request \<Rightarrow> handler" where
  "handleProjectsPage w req = do { b \<leftarrow> appPage w req ''Projects'' None [] []; ret (Rendered 200 (ProjectsPage b)) }"

text \<open>
  A session that is lost between the gate and the handler leaves the nil user: without a name the
  handler does not look at it, otherwise it panics.
\<close>

definition handleProjectCreatePage :: "world \<Rightarrow> request \<Rightarrow> handler" where
  "handleProjectCreatePage w req = do {
     u \<leftarrow> currentUser w (reqTime w) req;
     let name = TrimSpace (formValue req ''name'');
     (if name = [] then errTo ''/projects'' ''a project needs a name''
      else (case u of
              None \<Rightarrow> ret Panicked
            | Some user \<Rightarrow> do {
                ws \<leftarrow> userWorkspaceID w user;
                (case ws of
                   None \<Rightarrow> errTo ''/projects'' ''you have no workspace''
                 | Some wsID \<Rightarrow> do {
                     r \<leftarrow> CreateWSProject (uni w) wsID (userId user) name (formValue req ''description'');
                     (case r of
                        Inl e \<Rightarrow> errTo ''/projects'' (errText (uni w) e)
                      | Inr p \<Rightarrow> okTo (projectURL (wpId p) []) ''project created'')
                   })
              }))
   }"

definition handleProjectDeletePage :: "world \<Rightarrow> request \<Rightarrow> handler" where
  "handleProjectDeletePage w req = projectOrNotFoundPage w req (\<lambda>p role user.
     if role \<noteq> RoleOwner \<and> role \<noteq> RoleAdmin then errTo (projectURL (wpId p) []) ''only the owner can delete a project''
     else do {
       r \<leftarrow> DeleteWSProject (wpId p);
       case r of
         Inl _ \<Rightarrow> errTo (projectURL (wpId p) []) ''could not delete project''
       | Inr _ \<Rightarrow> okTo ''/projects'' ''project deleted''
     })"

definition handleProjectUpdatePage :: "world \<Rightarrow> request \<Rightarrow> handler" where
  "handleProjectUpdatePage w req = editorsOnly w req [] (\<lambda>p role user.
     (let name = TrimSpace (formValue req ''name'') in
      if name = [] then errTo (projectURL (wpId p) []) ''a project needs a name''
      else do {
        r \<leftarrow> UpdateWSProject (wpId p) (Some name) (Some (formValue req ''description''));
        case r of
          Inl e \<Rightarrow> errTo (projectURL (wpId p) []) (errText (uni w) e)
        | Inr _ \<Rightarrow> okTo (projectURL (wpId p) []) ''saved''
      }))"

definition filesBack :: "int \<Rightarrow> string \<Rightarrow> string" where
  "filesBack pid f = projectURL pid (''/files?file='' @ urlQuery f)"

definition lenOr0 :: "'a list result \<Rightarrow> nat" where
  "lenOr0 r = (case r of Inl _ \<Rightarrow> 0 | Inr xs \<Rightarrow> length xs)"

definition renderOverviewPage :: "world \<Rightarrow> request \<Rightarrow> handler" where
  "renderOverviewPage w req = projectOrNotFoundPage w req (\<lambda>p role user. do {
     pp \<leftarrow> newProjectPage w req p role ''overview'';
     fs \<leftarrow> ListWSFiles (wpId p);
     vs \<leftarrow> ListWSVersions (wpId p);
     ds \<leftarrow> ListWSDeployments (wpId p);
     ts \<leftarrow> ListWSTriggers (wpId p);
     es \<leftarrow> ListWSExecutions (wpId p) 5 0;
     ret (Rendered 200 (OverviewPage pp (lenOr0 fs) (lenOr0 vs) (lenOr0 ds) (lenOr0 ts) (case es of Inl _ \<Rightarrow> [] | Inr xs \<Rightarrow> xs)))
   })"

definition handleProjectPage :: "world \<Rightarrow> request \<Rightarrow> handler" where
  "handleProjectPage w req =
     (let f = queryOf req ''file'' in
      if f \<noteq> [] then redirect (filesBack (pathID req) f) else renderOverviewPage w req)"

section \<open>Files\<close>

definition newFileTemplate :: string where
  "newFileTemplate =
     ''workflow: NewWorkflow'' @ [nl, nl] @ ''step first:'' @ [nl] @ ''    emit'' @ [nl] @
     ''        value = '' @ [quote] @ ''hello'' @ [quote] @ [nl] @ ''end'' @ [nl]"

definition sanitizeFileName :: "string \<Rightarrow> string" where
  "sanitizeFileName raw =
     (let name = after_last CHR ''/'' (TrimSpace raw) in
      if name \<noteq> [] \<and> \<not> HasSuffix name ''.fc'' then name @ ''.fc'' else name)"

definition filesPageData :: "world \<Rightarrow> request \<Rightarrow> WSProject \<Rightarrow> role \<Rightarrow> runResult option \<Rightarrow> string \<Rightarrow> page stm" where
  "filesPageData w req p role result selectedName = do {
     pp \<leftarrow> newProjectPage w req p role ''files'';
     fs \<leftarrow> ListWSFiles (wpId p);
     ret (case fs of
            Inl e \<Rightarrow> Inl e
          | Inr xs \<Rightarrow>
              (let named = (if selectedName = [] then None else List.find (\<lambda>f. fName f = selectedName) xs);
                   selected = (case named of Some f \<Rightarrow> Some f | None \<Rightarrow> (case xs of [] \<Rightarrow> None | f # _ \<Rightarrow> Some f))
               in Inr (FilesPage pp xs selected result)))
   }"

definition renderFilesPage :: "world \<Rightarrow> request \<Rightarrow> nat \<Rightarrow> WSProject \<Rightarrow> role \<Rightarrow> runResult option \<Rightarrow> string \<Rightarrow> handler" where
  "renderFilesPage w req status p role result selectedName = do {
     r \<leftarrow> filesPageData w req p role result selectedName;
     case r of
       Inl _ \<Rightarrow> errorReply w req 500 ''Error'' ''could not load project''
     | Inr page \<Rightarrow> ret (Rendered status page)
   }"

definition handleProjectFilesPage :: "world \<Rightarrow> request \<Rightarrow> handler" where
  "handleProjectFilesPage w req = projectOrNotFoundPage w req (\<lambda>p role user.
     renderFilesPage w req 200 p role None (queryOf req ''file''))"

definition handleNewFilePage :: "world \<Rightarrow> request \<Rightarrow> handler" where
  "handleNewFilePage w req = editorsOnly w req ''/files'' (\<lambda>p role user.
     (let name = sanitizeFileName (formValue req ''name''); back = projectURL (wpId p) ''/files'' in
      if name = [] then errTo back ''a file needs a name''
      else do {
        r \<leftarrow> UpsertWSFile (wpId p) name newFileTemplate;
        case r of
          Inl _ \<Rightarrow> errTo back ''could not create file''
        | Inr _ \<Rightarrow> redirect (filesBack (wpId p) name @ ''&ok='' @ urlQuery ''file created'')
      }))"

text \<open>The name in the editor's form, or the name in the path when it is left empty.\<close>

definition postedName :: "request \<Rightarrow> string" where
  "postedName req =
     (let name = sanitizeFileName (formValue req ''name'') in if name = [] then pathValue req ''name'' else name)"

text \<open>
  What saving and running share: the content is written under the posted name, and a changed name
  drops the old file. \<open>k\<close> continues when the whole went well.
\<close>

definition saveBuffer :: "request \<Rightarrow> WSProject \<Rightarrow> string \<Rightarrow> handler \<Rightarrow> handler" where
  "saveBuffer req p buffer k =
     (let oldName = pathValue req ''name''; name = postedName req; back = filesBack (wpId p) name in
      if length buffer > maxSourceBytes then redirect (back @ ''&err='' @ urlQuery ''file too large'')
      else do {
        r \<leftarrow> UpsertWSFile (wpId p) name buffer;
        case r of
          Inl _ \<Rightarrow> redirect (back @ ''&err='' @ urlQuery ''could not save file'')
        | Inr _ \<Rightarrow>
            if name \<noteq> oldName then do {
              d \<leftarrow> DeleteWSFile (wpId p) oldName;
              case d of
                Inl _ \<Rightarrow> redirect (back @ ''&err='' @ urlQuery ''renamed, but could not remove the old file'')
              | Inr _ \<Rightarrow> k
            }
            else k
      })"

definition handleSaveFilePage :: "world \<Rightarrow> request \<Rightarrow> handler" where
  "handleSaveFilePage w req = editorsOnly w req ''/files'' (\<lambda>p role user.
     saveBuffer req p (formValue req ''content'')
       (redirect (filesBack (wpId p) (postedName req) @ ''&ok='' @ urlQuery ''file saved'')))"

definition handleDeleteFilePage :: "world \<Rightarrow> request \<Rightarrow> handler" where
  "handleDeleteFilePage w req = editorsOnly w req ''/files'' (\<lambda>p role user. do {
     r \<leftarrow> DeleteWSFile (wpId p) (pathValue req ''name'');
     case r of
       Inl _ \<Rightarrow> errTo (projectURL (wpId p) ''/files'') ''could not delete file''
     | Inr _ \<Rightarrow> okTo (projectURL (wpId p) ''/files'') ''file deleted''
   })"

definition busyText :: string where
  "busyText = ''the engine is busy '' @ [CHR 0xE2, CHR 0x80, CHR 0x94] @ '' try again shortly''"

text \<open>The run itself, after the buffer has been saved.\<close>

definition runAndRender :: "world \<Rightarrow> request \<Rightarrow> WSProject \<Rightarrow> role \<Rightarrow> User \<Rightarrow> handler" where
  "runAndRender w req p role user = do {
     g \<leftarrow> GetWSFile (wpId p) (postedName req);
     case g of
       Inl e \<Rightarrow>
         if errors_Is e ErrNotFound then errorReply w req 404 ''Not found'' ''file not found''
         else errorReply w req 500 ''Error'' ''could not look up file''
     | Inr f \<Rightarrow>
         (let outcome = engineRun w (fContent f) (actorFor (Some user) (Some p)) in
          if (case outcome of Inl e \<Rightarrow> \<not> errors_Is e ErrBusy \<and> clientGone w | Inr _ \<Rightarrow> False) then ret Silent
          else do {
            x \<leftarrow> recordExecution w p (Some f) None ''project-run'' None None (Some user)
                  (case outcome of Inl _ \<Rightarrow> None | Inr r \<Rightarrow> Some r) (case outcome of Inl e \<Rightarrow> Some e | Inr _ \<Rightarrow> None);
            case x of
              Inl _ \<Rightarrow> errorReply w req 500 ''Error'' ''could not record execution''
            | Inr entry \<Rightarrow>
                (case outcome of
                   Inl _ \<Rightarrow> errorReply w req 503 ''Busy'' busyText
                 | Inr r \<Rightarrow>
                     renderFilesPage w req 200 p role (Some \<lparr>rrResult = r, rrExecutionID = exId entry\<rparr>) (postedName req))
          })
   }"

definition handleRunFilePage :: "world \<Rightarrow> request \<Rightarrow> handler" where
  "handleRunFilePage w req = editorsOnly w req ''/files'' (\<lambda>p role user.
     (case postContent req of
        None \<Rightarrow> runAndRender w req p role user
      | Some buffer \<Rightarrow> saveBuffer req p buffer (runAndRender w req p role user)))"

section \<open>Versions\<close>

text \<open>A section page: the project page, then the lists it shows, each with its own failure.\<close>

definition listed :: "world \<Rightarrow> request \<Rightarrow> string \<Rightarrow> 'a stm \<Rightarrow> ('a \<Rightarrow> handler) \<Rightarrow> handler" where
  "listed w req msg m k = do {
     r \<leftarrow> m;
     case r of Inl _ \<Rightarrow> errorReply w req 500 ''Error'' msg | Inr x \<Rightarrow> k x
   }"

definition handleProjectVersionsPage :: "world \<Rightarrow> request \<Rightarrow> handler" where
  "handleProjectVersionsPage w req = projectOrNotFoundPage w req (\<lambda>p role user. do {
     pp \<leftarrow> newProjectPage w req p role ''versions'';
     listed w req ''could not load versions'' (ListWSVersions (wpId p)) (\<lambda>vs. ret (Rendered 200 (VersionsPage pp vs)))
   })"

definition versionsBack :: "int \<Rightarrow> string" where
  "versionsBack pid = projectURL pid ''/versions''"

definition handleCreateVersionPage :: "world \<Rightarrow> request \<Rightarrow> handler" where
  "handleCreateVersionPage w req = editorsOnly w req ''/versions'' (\<lambda>p role user. do {
     r \<leftarrow> CreateWSVersion (wpId p) (formValue req ''label'');
     case r of
       Inl e \<Rightarrow> errTo (versionsBack (wpId p)) (errText (uni w) e)
     | Inr _ \<Rightarrow> okTo (versionsBack (wpId p)) ''version saved''
   })"

definition handleRestoreVersionPage :: "world \<Rightarrow> request \<Rightarrow> handler" where
  "handleRestoreVersionPage w req = editorsOnly w req ''/versions'' (\<lambda>p role user.
     (case Atoi (pathValue req ''number'') of
        None \<Rightarrow> errTo (versionsBack (wpId p)) ''bad version number''
      | Some number \<Rightarrow> do {
          g \<leftarrow> GetWSVersionByNumber (wpId p) number;
          (case g of
             Inl _ \<Rightarrow> errTo (versionsBack (wpId p)) ''version not found''
           | Inr v \<Rightarrow> do {
               r \<leftarrow> RestoreWSVersion (wpId p) (vId v);
               (case r of
                  Inl _ \<Rightarrow> errTo (versionsBack (wpId p)) ''could not restore version''
                | Inr _ \<Rightarrow> okTo (versionsBack (wpId p)) ''version restored'')
             })
        }))"

section \<open>Deployments\<close>

definition handleProjectDeploymentsPage :: "world \<Rightarrow> request \<Rightarrow> handler" where
  "handleProjectDeploymentsPage w req = projectOrNotFoundPage w req (\<lambda>p role user. do {
     pp \<leftarrow> newProjectPage w req p role ''deployments'';
     listed w req ''could not load deployments'' (ListWSDeployments (wpId p)) (\<lambda>ds.
     listed w req ''could not load files'' (ListWSFiles (wpId p)) (\<lambda>fs.
     ret (Rendered 200 (DeploymentsPage pp ds fs))))
   })"

definition deploymentsBack :: "int \<Rightarrow> string" where
  "deploymentsBack pid = projectURL pid ''/deployments''"

definition handleCreateDeploymentPage :: "world \<Rightarrow> request \<Rightarrow> handler" where
  "handleCreateDeploymentPage w req = editorsOnly w req ''/deployments'' (\<lambda>p role user. do {
     g \<leftarrow> GetWSFile (wpId p) (formValue req ''fileName'');
     case g of
       Inl e \<Rightarrow>
         if errors_Is e ErrNotFound then errTo (deploymentsBack (wpId p)) ''file not found''
         else errTo (deploymentsBack (wpId p)) ''could not look up file''
     | Inr f \<Rightarrow> do {
         r \<leftarrow> CreateWSDeployment (rnd w) (wpId p) (fId f) None;
         case r of
           Inl e \<Rightarrow> errTo (deploymentsBack (wpId p)) (errText (uni w) e)
         | Inr _ \<Rightarrow> okTo (deploymentsBack (wpId p)) ''deployment created''
       }
   })"

definition mutateWSDeployment :: "world \<Rightarrow> request \<Rightarrow> (int \<Rightarrow> bool \<Rightarrow> unit stm) \<Rightarrow> handler" where
  "mutateWSDeployment w req fn = editorsOnly w req ''/deployments'' (\<lambda>p role user.
     (case ParseInt64 (pathValue req ''depId'') of
        None \<Rightarrow> errTo (deploymentsBack (wpId p)) ''bad deployment id''
      | Some depID \<Rightarrow> do {
          g \<leftarrow> GetWSDeployment depID;
          (case g of
             Inl _ \<Rightarrow> errTo (deploymentsBack (wpId p)) ''deployment not found''
           | Inr dep \<Rightarrow> do {
               r \<leftarrow> fn depID (depEnabled dep);
               (case r of
                  Inl _ \<Rightarrow> errTo (deploymentsBack (wpId p)) ''could not update deployment''
                | Inr _ \<Rightarrow> okTo (deploymentsBack (wpId p)) ''saved'')
             })
        }))"

definition handleToggleDeploymentPage :: "world \<Rightarrow> request \<Rightarrow> handler" where
  "handleToggleDeploymentPage w req =
     mutateWSDeployment w req (\<lambda>depID enabled. SetWSDeploymentEnabled depID (\<not> enabled))"

definition handleDeleteDeploymentPage :: "world \<Rightarrow> request \<Rightarrow> handler" where
  "handleDeleteDeploymentPage w req = mutateWSDeployment w req (\<lambda>depID _. DeleteWSDeployment depID)"

section \<open>Triggers\<close>

definition handleProjectTriggersPage :: "world \<Rightarrow> request \<Rightarrow> handler" where
  "handleProjectTriggersPage w req = projectOrNotFoundPage w req (\<lambda>p role user. do {
     pp \<leftarrow> newProjectPage w req p role ''triggers'';
     listed w req ''could not load triggers'' (ListWSTriggers (wpId p)) (\<lambda>ts.
     listed w req ''could not load files'' (ListWSFiles (wpId p)) (\<lambda>fs.
     ret (Rendered 200 (TriggersPage pp ts fs))))
   })"

definition triggersBack :: "int \<Rightarrow> string" where
  "triggersBack pid = projectURL pid ''/triggers''"

text \<open>The schedule a form asks for: a message, or the interval and the time of day.\<close>

definition formSchedule :: "request \<Rightarrow> string + (int option \<times> string)" where
  "formSchedule req =
     (let scheduleType = formValue req ''scheduleType'' in
      if scheduleType = ''interval'' then
        (case Atoi (formValue req ''intervalSeconds'') of
           None \<Rightarrow> Inl ''interval triggers need a positive interval in seconds''
         | Some n \<Rightarrow>
             if n < 1 then Inl ''interval triggers need a positive interval in seconds'' else Inr (Some n, []))
      else if scheduleType = ''daily'' then
        (let d = TrimSpace (formValue req ''dailyTimeUTC'') in
         if d = [] then Inl ''daily triggers need a time (UTC, HH:MM)'' else Inr (None, d))
      else Inl ''schedule type must be interval or daily'')"

text \<open>The call of \<open>NextRun\<close> dereferences the interval, which only the interval schedule sets.\<close>

definition handleCreateTriggerPage :: "world \<Rightarrow> request \<Rightarrow> handler" where
  "handleCreateTriggerPage w req = editorsOnly w req ''/triggers'' (\<lambda>p role user.
     (let backErr = errTo (triggersBack (wpId p)); scheduleType = formValue req ''scheduleType'' in do {
        g \<leftarrow> GetWSFile (wpId p) (formValue req ''fileName'');
        case g of
          Inl e \<Rightarrow> if errors_Is e ErrNotFound then backErr ''file not found'' else backErr ''could not look up file''
        | Inr f \<Rightarrow>
            (case formSchedule req of
               Inl msg \<Rightarrow> backErr msg
             | Inr (interval, daily) \<Rightarrow>
                 (case interval of
                    None \<Rightarrow> ret Panicked
                  | Some n \<Rightarrow>
                      (case NextRun (reqTime w) scheduleType n daily of
                         Inl e \<Rightarrow> backErr (errText (uni w) e)
                       | Inr nxt \<Rightarrow> do {
                           r \<leftarrow> CreateWSTrigger
                             \<lparr>ntProject = wpId p, ntFile = fId f, ntVersion = None, ntScheduleType = scheduleType,
                              ntIntervalSeconds = interval, ntDailyTimeUTC = daily, ntNextRunAt = FormatTime nxt\<rparr>;
                           (case r of
                              Inl e \<Rightarrow> backErr (errText (uni w) e)
                            | Inr _ \<Rightarrow> okTo (triggersBack (wpId p)) ''trigger created'')
                         })))
      }))"

definition mutateWSTrigger :: "world \<Rightarrow> request \<Rightarrow> (int \<Rightarrow> bool \<Rightarrow> unit stm) \<Rightarrow> handler" where
  "mutateWSTrigger w req fn = editorsOnly w req ''/triggers'' (\<lambda>p role user.
     (case ParseInt64 (pathValue req ''trigId'') of
        None \<Rightarrow> errTo (triggersBack (wpId p)) ''bad trigger id''
      | Some trigID \<Rightarrow> do {
          g \<leftarrow> GetWSTrigger trigID;
          (case g of
             Inl _ \<Rightarrow> errTo (triggersBack (wpId p)) ''trigger not found''
           | Inr t \<Rightarrow> do {
               r \<leftarrow> fn trigID (trEnabled t);
               (case r of
                  Inl _ \<Rightarrow> errTo (triggersBack (wpId p)) ''could not update trigger''
                | Inr _ \<Rightarrow> okTo (triggersBack (wpId p)) ''saved'')
             })
        }))"

definition handleToggleTriggerPage :: "world \<Rightarrow> request \<Rightarrow> handler" where
  "handleToggleTriggerPage w req = mutateWSTrigger w req (\<lambda>trigID enabled. SetWSTriggerEnabled trigID (\<not> enabled))"

definition handleDeleteTriggerPage :: "world \<Rightarrow> request \<Rightarrow> handler" where
  "handleDeleteTriggerPage w req = mutateWSTrigger w req (\<lambda>trigID _. DeleteWSTrigger trigID)"

section \<open>Key/value entries, executions and logs\<close>

definition handleProjectKVPage :: "world \<Rightarrow> request \<Rightarrow> handler" where
  "handleProjectKVPage w req = projectOrNotFoundPage w req (\<lambda>p role user. do {
     pp \<leftarrow> newProjectPage w req p role ''kv'';
     listed w req ''could not load kv'' (ListWSKV (wpId p)) (\<lambda>ks. ret (Rendered 200 (KVPage pp ks)))
   })"

definition handleDeleteKVPage :: "world \<Rightarrow> request \<Rightarrow> handler" where
  "handleDeleteKVPage w req = editorsOnly w req ''/kv'' (\<lambda>p role user. do {
     r \<leftarrow> DeleteWSKV (wpId p) (pathValue req ''key'');
     case r of
       Inl _ \<Rightarrow> errTo (projectURL (wpId p) ''/kv'') ''could not delete kv entry''
     | Inr _ \<Rightarrow> okTo (projectURL (wpId p) ''/kv'') ''kv entry deleted''
   })"

definition handleProjectExecutionsPage :: "world \<Rightarrow> request \<Rightarrow> handler" where
  "handleProjectExecutionsPage w req = projectOrNotFoundPage w req (\<lambda>p role user. do {
     pp \<leftarrow> newProjectPage w req p role ''executions'';
     listed w req ''could not load executions'' (ListWSExecutions (wpId p) 50 0) (\<lambda>es. ret (Rendered 200 (ExecutionsPage pp es)))
   })"

definition handleExecutionPage :: "world \<Rightarrow> request \<Rightarrow> handler" where
  "handleExecutionPage w req = projectOrNotFoundPage w req (\<lambda>p role user.
     (case ParseInt64 (pathValue req ''execId'') of
        None \<Rightarrow> ret NotFoundReply
      | Some execID \<Rightarrow> do {
          g \<leftarrow> GetWSExecution execID;
          (case g of
             Inl e \<Rightarrow>
               if errors_Is e ErrNotFound then errorReply w req 404 ''Not found'' ''execution not found''
               else errorReply w req 500 ''Error'' ''could not look up execution''
           | Inr entry \<Rightarrow>
               if exProject entry \<noteq> wpId p then errorReply w req 404 ''Not found'' ''execution not found''
               else do {
                 c \<leftarrow> ListExecutionAppCalls (exId entry);
                 pp \<leftarrow> newProjectPage w req p role ''executions'';
                 ret (Rendered 200 (ExecutionPage pp entry (case c of Inl _ \<Rightarrow> [] | Inr cs \<Rightarrow> cs)))
               })
        }))"

text \<open>The entries of the three log files that belong to the project, newest first, at most 100.\<close>

definition projectEntries :: "world \<Rightarrow> int \<Rightarrow> string \<Rightarrow> logEntry list" where
  "projectEntries w pid app =
     map (\<lambda>e. \<lparr>leApp = app, leWhen = (case logWhen w (Time e) of None \<Rightarrow> Time e | Some t \<Rightarrow> t), leExecID = ExecID e, leEntry = e\<rparr>)
       (filter (\<lambda>e. ProjectID e = pid) (Tail (unmarshalEntry w) 200 (logFile w app)))"

definition projectLog :: "world \<Rightarrow> int \<Rightarrow> logEntry list" where
  "projectLog w pid =
     take 100 (sort_desc (\<lambda>l. Time (leEntry l)) (concat (map (projectEntries w pid) [''mail'', ''http'', ''logger''])))"

definition handleProjectLogsPage :: "world \<Rightarrow> request \<Rightarrow> handler" where
  "handleProjectLogsPage w req = projectOrNotFoundPage w req (\<lambda>p role user. do {
     pp \<leftarrow> newProjectPage w req p role ''logs'';
     ret (Rendered 200 (LogsPage pp (projectLog w (wpId p))))
   })"

section \<open>The routes\<close>

datatype pageRoute =
    GetProjects | PostProjects | GetProjectHome | GetFiles | GetVersions | GetLogs | GetTriggers | GetExecutions
  | GetDeployments | GetKV | PostUpdate | PostDelete | PostNewFile | PostSaveFile | PostRunFile | PostDeleteFile
  | PostVersion | PostRestore | PostDeployment | PostToggleDeployment | PostDeleteDeployment
  | PostTrigger | PostToggleTrigger | PostDeleteTrigger | GetOneExecution | PostDeleteKV

fun pageHandler :: "pageRoute \<Rightarrow> world \<Rightarrow> request \<Rightarrow> handler" where
  "pageHandler GetProjects = handleProjectsPage"
| "pageHandler PostProjects = handleProjectCreatePage"
| "pageHandler GetProjectHome = handleProjectPage"
| "pageHandler GetFiles = handleProjectFilesPage"
| "pageHandler GetVersions = handleProjectVersionsPage"
| "pageHandler GetLogs = handleProjectLogsPage"
| "pageHandler GetTriggers = handleProjectTriggersPage"
| "pageHandler GetExecutions = handleProjectExecutionsPage"
| "pageHandler GetDeployments = handleProjectDeploymentsPage"
| "pageHandler GetKV = handleProjectKVPage"
| "pageHandler PostUpdate = handleProjectUpdatePage"
| "pageHandler PostDelete = handleProjectDeletePage"
| "pageHandler PostNewFile = handleNewFilePage"
| "pageHandler PostSaveFile = handleSaveFilePage"
| "pageHandler PostRunFile = handleRunFilePage"
| "pageHandler PostDeleteFile = handleDeleteFilePage"
| "pageHandler PostVersion = handleCreateVersionPage"
| "pageHandler PostRestore = handleRestoreVersionPage"
| "pageHandler PostDeployment = handleCreateDeploymentPage"
| "pageHandler PostToggleDeployment = handleToggleDeploymentPage"
| "pageHandler PostDeleteDeployment = handleDeleteDeploymentPage"
| "pageHandler PostTrigger = handleCreateTriggerPage"
| "pageHandler PostToggleTrigger = handleToggleTriggerPage"
| "pageHandler PostDeleteTrigger = handleDeleteTriggerPage"
| "pageHandler GetOneExecution = handleExecutionPage"
| "pageHandler PostDeleteKV = handleDeleteKVPage"

definition servePage :: "pageRoute \<Rightarrow> world \<Rightarrow> request \<Rightarrow> handler" where
  "servePage route w req = requireUserPage w req (pageHandler route w req)"

section \<open>Pages that only read\<close>

lemma reads_chrome [reads_intros]:
  "reads (basePage w req title)" "reads (appPage w req title q ro sect)" "reads (errorReply w req n title msg)"
  "reads (newProjectPage w req p ro sect)" "reads (errTo url msg)" "reads (okTo url msg)"
proof -
  note c = reads_currentUser
  show b: "reads (basePage w req title)" for title unfolding basePage_def Let_def by (intro reads_intros c)
  show a: "reads (appPage w req title q ro sect)" for title q
    unfolding appPage_def by (intro reads_intros b)
  show "reads (errorReply w req n title msg)" unfolding errorReply_def by (intro reads_intros b)
  show "reads (newProjectPage w req p ro sect)" unfolding newProjectPage_def by (intro reads_intros a)
  show "reads (errTo url msg)" "reads (okTo url msg)" unfolding errTo_def okTo_def by (intro reads_intros)+
qed

lemma reads_gates [reads_intros]:
  "(\<And>p role user. reads (k p role user)) \<Longrightarrow> reads (projectOrNotFoundPage w req k)"
  "reads m \<Longrightarrow> (\<And>x. reads (g x)) \<Longrightarrow> reads (listed w req msg m g)"
  "reads (renderFilesPage w req n p ro res sel)"
proof -
  show "(\<And>p role user. reads (k p role user)) \<Longrightarrow> reads (projectOrNotFoundPage w req k)"
    unfolding projectOrNotFoundPage_def by (intro reads_intros reads_resolve)
  show "reads m \<Longrightarrow> (\<And>x. reads (g x)) \<Longrightarrow> reads (listed w req msg m g)"
    unfolding listed_def by (intro reads_intros)
  show "reads (renderFilesPage w req n p ro res sel)"
    unfolding renderFilesPage_def filesPageData_def by (intro reads_intros)
qed

definition getRoute :: "pageRoute \<Rightarrow> bool" where
  "getRoute route \<longleftrightarrow> route \<in> {GetProjects, GetProjectHome, GetFiles, GetVersions, GetLogs, GetTriggers, GetExecutions,
     GetDeployments, GetKV, GetOneExecution}"

lemmas getPages = handleProjectsPage_def handleProjectPage_def renderOverviewPage_def handleProjectFilesPage_def
  handleProjectVersionsPage_def handleProjectLogsPage_def handleProjectTriggersPage_def handleProjectExecutionsPage_def
  handleProjectDeploymentsPage_def handleProjectKVPage_def handleExecutionPage_def Let_def

lemma reads_getPages:
  "reads (handleProjectsPage w req)" "reads (handleProjectPage w req)" "reads (handleProjectFilesPage w req)"
  "reads (handleProjectVersionsPage w req)" "reads (handleProjectLogsPage w req)" "reads (handleProjectTriggersPage w req)"
  "reads (handleProjectExecutionsPage w req)" "reads (handleProjectDeploymentsPage w req)" "reads (handleProjectKVPage w req)"
  "reads (handleExecutionPage w req)"
  unfolding getPages by (intro reads_intros)+

lemma reads_pages: "getRoute route \<Longrightarrow> reads (pageHandler route w req)"
  by (cases route) (simp_all add: getRoute_def reads_getPages)

section \<open>The constraints are kept\<close>

lemma wf_pageGate [inv_intros]:
  "(\<And>p role user. preserves wfdb (k p role user)) \<Longrightarrow> preserves wfdb (projectOrNotFoundPage w req k)"
  "(\<And>p role user. preserves wfdb (k p role user)) \<Longrightarrow> preserves wfdb (editorsOnly w req sect k)"
proof -
  show p: "(\<And>p role user. preserves wfdb (k p role user)) \<Longrightarrow> preserves wfdb (projectOrNotFoundPage w req k)" for k
    unfolding projectOrNotFoundPage_def by (intro inv_intros wf_reads [OF reads_resolve] wf_reads [OF reads_chrome(3)])
  show "(\<And>p role user. preserves wfdb (k p role user)) \<Longrightarrow> preserves wfdb (editorsOnly w req sect k)"
    unfolding editorsOnly_def by (intro p inv_intros wf_reads [OF reads_chrome(5)])
qed

lemmas wf_chrome = wf_reads [OF reads_chrome(1)] wf_reads [OF reads_chrome(2)] wf_reads [OF reads_chrome(3)]
  wf_reads [OF reads_chrome(4)] wf_reads [OF reads_chrome(5)] wf_reads [OF reads_chrome(6)] wf_reads [OF reads_gates(3)]

declare wf_chrome [inv_intros]

lemma wf_saveBuffer [inv_intros]: "preserves wfdb k \<Longrightarrow> preserves wfdb (saveBuffer req p buffer k)"
  unfolding saveBuffer_def Let_def by (intro inv_intros)

lemma wf_runAndRender [inv_intros]: "preserves wfdb (runAndRender w req p role user)"
  unfolding runAndRender_def Let_def by (intro inv_intros)

lemma wf_mutate [inv_intros]:
  "(\<And>i b. preserves wfdb (fn i b)) \<Longrightarrow> preserves wfdb (mutateWSDeployment w req fn)"
  "(\<And>i b. preserves wfdb (fn i b)) \<Longrightarrow> preserves wfdb (mutateWSTrigger w req fn)"
  unfolding mutateWSDeployment_def mutateWSTrigger_def by (intro inv_intros; assumption)+

lemmas postPages = handleProjectCreatePage_def handleProjectUpdatePage_def handleProjectDeletePage_def
  handleNewFilePage_def handleSaveFilePage_def handleRunFilePage_def handleDeleteFilePage_def handleCreateVersionPage_def
  handleRestoreVersionPage_def handleCreateDeploymentPage_def handleToggleDeploymentPage_def handleDeleteDeploymentPage_def
  handleCreateTriggerPage_def handleToggleTriggerPage_def handleDeleteTriggerPage_def handleDeleteKVPage_def Let_def

lemma wf_postPages:
  "preserves wfdb (handleProjectCreatePage w req)" "preserves wfdb (handleProjectUpdatePage w req)"
  "preserves wfdb (handleProjectDeletePage w req)" "preserves wfdb (handleNewFilePage w req)"
  "preserves wfdb (handleSaveFilePage w req)" "preserves wfdb (handleRunFilePage w req)"
  "preserves wfdb (handleDeleteFilePage w req)" "preserves wfdb (handleCreateVersionPage w req)"
  "preserves wfdb (handleRestoreVersionPage w req)" "preserves wfdb (handleCreateDeploymentPage w req)"
  "preserves wfdb (handleToggleDeploymentPage w req)" "preserves wfdb (handleDeleteDeploymentPage w req)"
  "preserves wfdb (handleCreateTriggerPage w req)" "preserves wfdb (handleToggleTriggerPage w req)"
  "preserves wfdb (handleDeleteTriggerPage w req)" "preserves wfdb (handleDeleteKVPage w req)"
  unfolding postPages by (intro inv_intros)+

lemma wf_pageHandler: "preserves wfdb (pageHandler route w req)"
proof (cases "getRoute route")
  case True
  then show ?thesis by (rule wf_reads [OF reads_pages])
next
  case False
  then show ?thesis by (cases route) (simp_all add: getRoute_def wf_postPages)
qed

lemma wf_servePage [inv_intros]: "preserves wfdb (servePage route w req)"
  unfolding servePage_def requireUserPage_def by (intro inv_intros wf_pageHandler)

section \<open>Writes need a role\<close>

lemma page_opens:
  assumes "realFaults s"
  shows "(\<exists>r fs. run_state (projectOrNotFoundPage w req k) s = (r, s\<lparr>faults := fs\<rparr>)) \<or>
      (\<exists>p role user fs. mayAct w req s p role user \<and> set fs \<subseteq> set (faults s) \<and>
         run_state (projectOrNotFoundPage w req k) s = run_state (k p role user) (s\<lparr>faults := fs\<rparr>))"
proof -
  obtain r s1 where r: "run_state (resolveWSProject w req) s = (r, s1)" by (cases "run_state (resolveWSProject w req) s")
  obtain fs where fs: "set fs \<subseteq> set (faults s)" "s1 = s\<lparr>faults := fs\<rparr>" by (rule readsD [OF reads_resolve r])
  show ?thesis
  proof (cases r)
    case (Inl e)
    obtain status msg where e: "e = (status, msg)" by (cases e)
    define m where "m = (if status = 401 then redirect ''/login'' else errorReply w req status ''Not found'' msg)"
    have "reads m" unfolding m_def by (intro reads_intros)
    obtain y s2 where y: "run_state m s1 = (y, s2)" by (cases "run_state m s1")
    obtain gs where "s2 = s1\<lparr>faults := gs\<rparr>" by (rule readsD [OF \<open>reads m\<close> y])
    then have "run_state (projectOrNotFoundPage w req k) s = (y, s\<lparr>faults := gs\<rparr>)"
      using r Inl e y fs by (simp add: projectOrNotFoundPage_def m_def)
    then show ?thesis by blast
  next
    case (Inr x)
    then obtain p role user where x: "r = Inr (p, role, user)" by (cases x) auto
    with resolve_Inr [OF assms] r have "mayAct w req s p role user" by blast
    moreover have "run_state (projectOrNotFoundPage w req k) s = run_state (k p role user) (s\<lparr>faults := fs\<rparr>)"
      using r x fs by (simp add: projectOrNotFoundPage_def)
    ultimately show ?thesis using fs(1) by blast
  qed
qed

interpretation pageGate: project_gate projectOrNotFoundPage "\<lambda>role. True"
  by unfold_locales (use page_opens in blast, intro inv_intros)

text \<open>A form that turns callers away by a test on the role, with a redirect.\<close>

lemma page_test_opens:
  assumes "realFaults s" and "\<And>p role user. k p role user = (if ok role then h p role user else redirect (url p))"
  shows "(\<exists>r fs. run_state (projectOrNotFoundPage w req k) s = (r, s\<lparr>faults := fs\<rparr>)) \<or>
      (\<exists>p role user fs. mayAct w req s p role user \<and> ok role \<and> set fs \<subseteq> set (faults s) \<and>
         run_state (projectOrNotFoundPage w req k) s = run_state (h p role user) (s\<lparr>faults := fs\<rparr>))"
  using page_opens [OF assms(1), of w req k]
proof (elim disjE exE conjE)
  fix p role user fs
  assume m: "mayAct w req s p role user" "set fs \<subseteq> set (faults s)"
    "run_state (projectOrNotFoundPage w req k) s = run_state (k p role user) (s\<lparr>faults := fs\<rparr>)"
  show ?thesis
  proof (cases "ok role")
    case True
    with m(3) assms(2) have "run_state (projectOrNotFoundPage w req k) s = run_state (h p role user) (s\<lparr>faults := fs\<rparr>)"
      by simp
    with m True show ?thesis by blast
  next
    case False
    with m(3) assms(2) have "run_state (projectOrNotFoundPage w req k) s = (SeeOther (url p), s\<lparr>faults := fs\<rparr>)"
      by simp
    then show ?thesis by blast
  qed
qed blast

lemma editors_open:
  assumes "realFaults s"
  shows "(\<exists>r fs. run_state (editorsOnly w req sect k) s = (r, s\<lparr>faults := fs\<rparr>)) \<or>
      (\<exists>p role user fs. mayAct w req s p role user \<and> pageMayEdit role \<and> set fs \<subseteq> set (faults s) \<and>
         run_state (editorsOnly w req sect k) s = run_state (k p role user) (s\<lparr>faults := fs\<rparr>))"
  unfolding editorsOnly_def
  by (rule page_test_opens [where url = "\<lambda>p. projectURL (wpId p) sect @ ''?err='' @ urlQuery ''you have view-only access''",
      OF assms]) (simp add: errTo_def)

interpretation formGate: project_gate "\<lambda>w req k. editorsOnly w req sect k" pageMayEdit for sect
  by unfold_locales (use editors_open in blast, intro inv_intros)

interpretation ownerForm: project_gate
  "\<lambda>w req k. projectOrNotFoundPage w req (\<lambda>p role user.
     if role \<noteq> RoleOwner \<and> role \<noteq> RoleAdmin then errTo (projectURL (wpId p) []) ''only the owner can delete a project''
     else k p role user)"
  "\<lambda>role. role = RoleOwner \<or> role = RoleAdmin"
  by unfold_locales
    (rule page_test_opens [where url = "\<lambda>p. projectURL (wpId p) [] @ ''?err='' @ urlQuery ''only the owner can delete a project''"],
     assumption, simp add: errTo_def, intro inv_intros)

definition pageAllowed :: "pageRoute \<Rightarrow> world \<Rightarrow> request \<Rightarrow> db \<Rightarrow> bool" where
  "pageAllowed route w req s \<longleftrightarrow>
     (if route = PostProjects then \<exists>user. identified w (reqTime w) req s user
      else \<exists>p role user. mayAct w req s p role user \<and>
        (if route = PostDelete then role = RoleOwner \<or> role = RoleAdmin
         else role = RoleEditor \<or> role = RoleOwner \<or> role = RoleAdmin))"

lemma pageAllowed_faults [simp]: "pageAllowed route w req (s\<lparr>faults := fs\<rparr>) = pageAllowed route w req s"
  by (simp add: pageAllowed_def)

lemma create_page_allowed:
  assumes "tables (snd (run_state (handleProjectCreatePage w req) s)) \<noteq> tables s"
  shows "\<exists>user. identified w (reqTime w) req s user"
proof -
  obtain ou s1 where u: "run_state (currentUser w (reqTime w) req) s = (ou, s1)" by (cases "run_state (currentUser w (reqTime w) req) s")
  have t: "tables s1 = tables s" using reads_tables [OF reads_currentUser, of w "reqTime w" req s] u by simp
  show ?thesis
  proof (cases ou)
    case None
    then show ?thesis using assms u t by (simp add: handleProjectCreatePage_def Let_def errTo_def split: if_splits)
  next
    case (Some us)
    then show ?thesis using currentUser_Some u by blast
  qed
qed

lemma form_handlers:
  assumes "realFaults s"
    and "\<exists>h \<in> {handleProjectUpdatePage, handleNewFilePage, handleSaveFilePage, handleRunFilePage, handleDeleteFilePage,
            handleCreateVersionPage, handleRestoreVersionPage, handleCreateDeploymentPage, handleToggleDeploymentPage,
            handleDeleteDeploymentPage, handleCreateTriggerPage, handleToggleTriggerPage, handleDeleteTriggerPage,
            handleDeleteKVPage}. tables (snd (run_state (h w req) s)) \<noteq> tables s"
  shows "\<exists>p role user. mayAct w req s p role user \<and> pageMayEdit role"
  using assms(2) unfolding bex_simps postPages mutateWSDeployment_def mutateWSTrigger_def
  by (elim disjE FalseE) (erule formGate.changes_need [OF assms(1)])+

lemma page_changes:
  assumes "realFaults s" and c: "tables (snd (run_state (pageHandler route w req) s)) \<noteq> tables s"
  shows "pageAllowed route w req s"
proof -
  have ng: "\<not> getRoute route" using c reads_tables [OF reads_pages] by blast
  consider "route = PostProjects" | "route = PostDelete" | "route \<noteq> PostProjects" "route \<noteq> PostDelete" by blast
  then show ?thesis
  proof cases
    case 1
    then show ?thesis using create_page_allowed c by (simp add: pageAllowed_def)
  next
    case 2
    then show ?thesis
      using ownerForm.changes_need [OF assms(1) c [unfolded 2 pageHandler.simps handleProjectDeletePage_def]]
      by (auto simp: pageAllowed_def)
  next
    case 3
    have "\<exists>p role user. mayAct w req s p role user \<and> pageMayEdit role"
      using ng 3 c by (intro form_handlers [OF assms(1)]) (cases route; simp add: getRoute_def)
    then show ?thesis using 3 by (auto simp: pageAllowed_def pageMayEdit_def)
  qed
qed

lemma requireUserPage_tables:
  obtains fs where "set fs \<subseteq> set (faults s)"
    "tables (snd (run_state (requireUserPage w req h) s)) = tables s \<or>
     snd (run_state (requireUserPage w req h) s) = snd (run_state h (s\<lparr>faults := fs\<rparr>))"
proof -
  obtain u s1 where u: "run_state (currentUser w (gateTime w) req) s = (u, s1)" by (cases "run_state (currentUser w (gateTime w) req) s")
  obtain fs where fs: "set fs \<subseteq> set (faults s)" "s1 = s\<lparr>faults := fs\<rparr>" by (rule readsD [OF reads_currentUser u])
  show ?thesis
    by (rule that [OF fs(1)]) (use u fs in \<open>auto simp: requireUserPage_def tables_def\<close>)
qed

text \<open>
  C3: who can change what through the pages. Over all page routes, and whatever statements fail: if a
  request changes any table, then the caller is a known user whose role on the project of the path
  may edit it (owner or administrator of the workspace for deleting it); creating a project needs a
  known user, and the pages that are fetched change nothing.
\<close>

theorem pages_write_need_role:
  assumes "realFaults s" and "tables (snd (run_state (servePage route w req) s)) \<noteq> tables s"
  shows "pageAllowed route w req s \<and> \<not> getRoute route"
proof -
  obtain fs where fs: "set fs \<subseteq> set (faults s)"
    "tables (snd (run_state (servePage route w req) s)) = tables s \<or>
     snd (run_state (servePage route w req) s) = snd (run_state (pageHandler route w req) (s\<lparr>faults := fs\<rparr>))"
    unfolding servePage_def by (rule requireUserPage_tables)
  define s1 where "s1 = s\<lparr>faults := fs\<rparr>"
  have "realFaults s1" unfolding s1_def by (rule realFaults_rest [OF assms(1) fs(1)])
  moreover have c: "tables (snd (run_state (pageHandler route w req) s1)) \<noteq> tables s1"
    using fs(2) assms(2) by (auto simp: tables_def s1_def)
  ultimately have "pageAllowed route w req s1" by (rule page_changes)
  moreover have "\<not> getRoute route" using c reads_tables [OF reads_pages] by blast
  ultimately show ?thesis by (simp add: s1_def)
qed

theorem pages_write_need_role_witness:
  "(\<exists>r s'. run_state (servePage PostDelete sampleWorld (requestBy 2 [(''id'', ''1'')])) teamDB = (r, s') \<and>
      map pId (projects s') = [2]) \<and>
   pageAllowed PostDelete sampleWorld (requestBy 2 [(''id'', ''1'')]) teamDB"
proof -
  define req where "req = requestBy 2 [(''id'', ''1'')]"
  obtain p user where r: "run_state (resolveWSProject sampleWorld req) teamDB = (Inr (p, RoleOwner, user), teamDB)" "wpId p = 1"
    using resolve_requestBy [of 2 "[(''id'', ''1'')]"] by (auto simp: req_def)
  obtain u where u: "run_state (currentUser sampleWorld 0 req) teamDB = (Some u, teamDB)"
    using currentUser_requestBy [of 2] by (auto simp: req_def)
  have f: "faults teamDB = []" by (simp add: teamDB_def emptyDB_def)
  have g: "gateTime sampleWorld = 0" by (simp add: sampleWorld_def)
  define t where "t = dropProjects (\<lambda>p. pId p = 1) teamDB"
  have t: "versionRefsOK t" "map pId (projects t) = [2]"
    by (simp_all add: t_def versionRefsOK_def hasVersion_def dropProjects_def dropFiles_def dropVersions_def dropTriggers_def
        dropDeployments_def dropExecutions_def Let_def teamDB_def emptyDB_def)
  have "run_state (DeleteWSProject 1) teamDB = (Inr (), t)"
    using f t by (simp add: DeleteWSProject_def run_orWrap checkedDelete_def exec_clean wrap_def t_def [symmetric])
  then have run: "run_state (servePage PostDelete sampleWorld req) teamDB =
      (SeeOther (''/projects?ok='' @ urlQuery ''project deleted''), t)"
    using r u g by (simp add: servePage_def requireUserPage_def handleProjectDeletePage_def projectOrNotFoundPage_def okTo_def)
  have "map pId (projects teamDB) = [1, 2]" by (simp add: teamDB_def)
  with t(2) have "tables t \<noteq> tables teamDB" by (auto simp: tables_def dest: arg_cong [where f = projects])
  moreover have "realFaults teamDB" using f by (simp add: realFaults_def)
  ultimately have "pageAllowed PostDelete sampleWorld req teamDB"
    using pages_write_need_role [of teamDB PostDelete sampleWorld req] run by simp
  with run t show ?thesis by (auto simp: req_def)
qed

section \<open>Daily triggers\<close>

text \<open>
  C38: the form for a daily trigger panics. When an editor posts a daily schedule for a file that
  exists, with a time of day, the handler dereferences the interval that only interval schedules
  set: no trigger can be created, whatever the time.
\<close>

theorem daily_trigger_panics:
  assumes "faults s = []" and "run_state (resolveWSProject w req) s = (Inr (p, role, user), s)" and "pageMayEdit role"
    and "\<exists>f \<in> set (files s). fProject f = wpId p \<and> fName f = formValue req ''fileName''"
    and "formValue req ''scheduleType'' = ''daily''" and "TrimSpace (formValue req ''dailyTimeUTC'') \<noteq> []"
  shows "run_state (handleCreateTriggerPage w req) s = (Panicked, s)"
proof -
  obtain f where "List.find (\<lambda>f. fProject f = wpId p \<and> fName f = formValue req ''fileName'') (files s) = Some f"
    using assms(4) by (cases "List.find (\<lambda>f. fProject f = wpId p \<and> fName f = formValue req ''fileName'') (files s)")
      (auto simp: find_None_iff_ball)
  then have "run_state (GetWSFile (wpId p) (formValue req ''fileName'')) s = (Inr f, s)"
    using assms(1) by (simp add: GetWSFile_def query_clean row_def)
  then show ?thesis
    using assms(2,3,5,6) by (simp add: handleCreateTriggerPage_def editorsOnly_def projectOrNotFoundPage_def formSchedule_def Let_def)
qed

lemma resolve_formValue: "resolveWSProject w (req\<lparr>formValue := g\<rparr>) = resolveWSProject w req"
proof -
  have u: "userFromSession w t (req\<lparr>formValue := g\<rparr>) = userFromSession w t req" for t by (simp add: userFromSession_def)
  have v: "userFromServiceToken w (req\<lparr>formValue := g\<rparr>) = userFromServiceToken w req"
    by (simp add: userFromServiceToken_def bearerOK_def Let_def cong: option.case_cong)
  have n: "pathInt64Value (req\<lparr>formValue := g\<rparr>) n = pathInt64Value req n" for n by (simp add: pathInt64Value_def)
  show ?thesis unfolding resolveWSProject_def currentUser_def u v n ..
qed

text \<open>User 2 asks for 09:30 every day for the file of project 2.\<close>

theorem daily_trigger_panics_witness:
  "run_state (handleCreateTriggerPage sampleWorld ((requestBy 2 [(''id'', ''2'')])\<lparr>formValue := (\<lambda>n.
      if n = ''fileName'' then ''a.fc'' else if n = ''scheduleType'' then ''daily'' else ''09:30'')\<rparr>)) teamDB = (Panicked, teamDB)"
proof -
  define req where "req = (requestBy 2 [(''id'', ''2'')])\<lparr>formValue := (\<lambda>n.
      if n = ''fileName'' then ''a.fc'' else if n = ''scheduleType'' then ''daily'' else ''09:30'')\<rparr>"
  have f: "faults teamDB = []" by (simp add: teamDB_def emptyDB_def)
  define req2 where "req2 = requestBy 2 [(''id'', ''2'')]"
  obtain u where u: "run_state (currentUser sampleWorld 0 req2) teamDB = (Some u, teamDB)" "userId u = 2"
    using currentUser_requestBy [of 2] by (auto simp: req2_def)
  have "pathInt64Value req2 ''id'' = Some 2"
    by (simp add: req2_def pathInt64Value_def requestBy_def ParseInt64_def parse_uint_def digits_val_def digit_val_def is_digit_def)
  moreover obtain p where p: "run_state (GetWSProject 2) teamDB = (Inr p, teamDB)" "wpId p = 2"
    by (simp add: GetWSProject_def query_clean teamDB_def emptyDB_def row_def scanWSProject_def)
  moreover have "roleIn teamDB 2 2 = Some RoleOwner" by (simp add: roleIn_def teamDB_def role_defs)
  moreover have "RoleOwner \<noteq> []" "reqTime sampleWorld = 0" by (simp_all add: role_defs sampleWorld_def)
  ultimately have "run_state (resolveWSProject sampleWorld req2) teamDB = (Inr (p, RoleOwner, u), teamDB)"
    using u f by (simp add: resolveWSProject_def EffectiveProjectRole_clean)
  moreover have "resolveWSProject sampleWorld req = resolveWSProject sampleWorld req2"
    by (simp add: req_def req2_def resolve_formValue)
  ultimately have r: "run_state (resolveWSProject sampleWorld req) teamDB = (Inr (p, RoleOwner, u), teamDB)" by simp
  have fl: "\<exists>f \<in> set (files teamDB). fProject f = wpId p \<and> fName f = formValue req ''fileName''"
    using p(2) by (simp add: req_def teamDB_def)
  have t: "TrimSpace (formValue req ''dailyTimeUTC'') \<noteq> []"
    by (simp add: req_def TrimSpace_def rune_chunks.simps decode_rune.simps IsSpace_def)
  from daily_trigger_panics [OF f r _ fl _ t] show ?thesis by (simp add: pageMayEdit_def req_def)
qed

end
