(* ===== verification/Scheduler.thy ===== *)
theory Scheduler
  imports RunRecords
begin

text \<open>
  The scheduler of server/internal/scheduler/scheduler.go: the due triggers are fired one after the
  other, each run is recorded and the trigger is given its next time, and old executions are pruned.
  The world of a run holds the outcome of the engine, the time at which it finished and the order in
  which Go ranges over a map; the instant \<open>now\<close> is read once per tick. A loop that does not return
  is the value None.
\<close>

section \<open>Firing\<close>

definition resolveSource :: "Trigger \<Rightarrow> string stm" where
  "resolveSource t =
     (case trVersion t of
        Some vid \<Rightarrow> GetWSVersionFileContent vid (trFileName t)
      | None \<Rightarrow> andThen (GetWSFile (trProject t) (trFileName t)) (\<lambda>f. ret (Inr (fContent f))))"

text \<open>Runs are attributed to the creator of the project.\<close>

definition triggerActor :: "Trigger \<Rightarrow> (db, Actor) state" where
  "triggerActor t = do {
     g \<leftarrow> GetWSProject (trProject t);
     case g of
       Inl _ \<Rightarrow> ret noActor
     | Inr p \<Rightarrow>
         (let actor = noActor\<lparr>ActorProjectID := wpId p\<rparr> in
          if 0 < wpCreatedBy p then do {
            u \<leftarrow> GetUser (wpCreatedBy p);
            ret (case u of
                Inl _ \<Rightarrow> actor\<lparr>ActorUserID := wpCreatedBy p\<rparr>
              | Inr x \<Rightarrow> actor\<lparr>ActorUserID := wpCreatedBy p, ActorEmail := userEmail x\<rparr>)
          }
          else ret actor)
   }"

definition transcript :: "int \<Rightarrow> int option \<Rightarrow> AppCall list \<Rightarrow> appCallRow list" where
  "transcript execID userID calls =
     map (\<lambda>c. \<lparr>acId = 0, acExecution = execID, acUser = userID,
                acApp = (if AcName c = ''MailApp.sendEmail'' \<or> AcName c = ''MailApp.read'' then ''mail'' else ''http''),
                acName = AcName c, acStatus = AcStatus c, acRequest = AcRequest c, acResponse = AcResponse c,
                acDurationMs = AcDurationMs c, acCreatedAt = []\<rparr>)
       (filter (\<lambda>c. AcName c = ''MailApp.sendEmail'' \<or> AcName c = ''MailApp.read'' \<or> AcName c = ''UrlFetchApp.fetch'') calls)"

definition recordAppCalls :: "int \<Rightarrow> int option \<Rightarrow> Result option \<Rightarrow> (db, unit) state" where
  "recordAppCalls execID userID result =
     (case result of
        None \<Rightarrow> ret ()
      | Some r \<Rightarrow>
          (let calls = transcript execID userID (resAppCalls r) in
           if calls = [] then ret () else do { _ \<leftarrow> RecordAppCalls calls; ret () }))"

definition reschedule :: "Trigger \<Rightarrow> time \<Rightarrow> (db, unit option) state" where
  "reschedule t now =
     (let prev = (case ParseTime (trNextRunAt t) of Inl _ \<Rightarrow> now | Inr x \<Rightarrow> x);
          interval = (case trIntervalSeconds t of None \<Rightarrow> 0 | Some n \<Rightarrow> n)
      in case AdvancePastNow prev now (trScheduleType t) interval (trDailyTimeUTC t) of
           None \<Rightarrow> ret None
         | Some r \<Rightarrow>
             (case r of
                Inl _ \<Rightarrow> do { _ \<leftarrow> SetWSTriggerEnabled (trId t) False; ret (Some ()) }
              | Inr nxt \<Rightarrow> do { _ \<leftarrow> RecordWSTriggerRun (trId t) (FormatTime now) (FormatTime nxt); ret (Some ()) }))"

text \<open>What is kept of a run; every failure is only logged.\<close>

definition recordRun :: "world \<Rightarrow> Trigger \<Rightarrow> time \<Rightarrow> int option \<Rightarrow> Result result \<Rightarrow> (db, unit) state" where
  "recordRun w t now actorID outcome =
     (let result = (case outcome of Inl _ \<Rightarrow> None | Inr r \<Rightarrow> Some r);
          ne = \<lparr>neProject = trProject t, neFile = Some (trFile t), neFileName = trFileName t, neVersion = trVersion t,
                neSource = ''trigger'', neDeployment = None, neTrigger = Some (trId t),
                neStartedAt = FormatTime now, neFinishedAt = FormatTime (finishTime w),
                neSummary = Summary result, neErr = (case outcome of Inl e \<Rightarrow> Some e | Inr _ \<Rightarrow> None)\<rparr>
      in do {
        x \<leftarrow> RecordWSSExecution (uni w) ne actorID;
        case x of
          Inl _ \<Rightarrow> ret ()
        | Inr entry \<Rightarrow> do {
            _ \<leftarrow> (case outcome of
                     Inl _ \<Rightarrow> ret ()
                   | Inr r \<Rightarrow>
                       (case resRun r of
                          None \<Rightarrow> ret ()
                        | Some run \<Rightarrow> upsertKVs (trProject t) (exId entry) (rangeOrder w (storePairs (Stderr run)))));
            recordAppCalls (exId entry) actorID result
          }
      })"

definition fire :: "world \<Rightarrow> Trigger \<Rightarrow> time \<Rightarrow> (db, unit option) state" where
  "fire w t now = do {
     src \<leftarrow> resolveSource t;
     case src of
       Inl _ \<Rightarrow> reschedule t now
     | Inr source \<Rightarrow> do {
         actor \<leftarrow> triggerActor t;
         _ \<leftarrow> recordRun w t now (if 0 < ActorUserID actor then Some (ActorUserID actor) else None) (engineRun w source actor);
         reschedule t now
       }
   }"

text \<open>The k-th run of a tick meets the k-th world.\<close>

fun fireAll :: "(nat \<Rightarrow> world) \<Rightarrow> nat \<Rightarrow> time \<Rightarrow> Trigger list \<Rightarrow> (db, unit option) state" where
  "fireAll ws k now [] = ret (Some ())"
| "fireAll ws k now (t # ts) = do {
     r \<leftarrow> fire (ws k) t now;
     case r of None \<Rightarrow> ret None | Some _ \<Rightarrow> fireAll ws (k + 1) now ts
   }"

definition fireDue :: "(nat \<Rightarrow> world) \<Rightarrow> time \<Rightarrow> (db, unit option) state" where
  "fireDue ws now = do {
     due \<leftarrow> WSDueTriggers (FormatTime now);
     case due of Inl _ \<Rightarrow> ret (Some ()) | Inr ts \<Rightarrow> fireAll ws 0 now ts
   }"

definition RetentionKeepPerProject :: int where
  "RetentionKeepPerProject = 500"

definition prune :: "(db, unit) state" where
  "prune = do { _ \<leftarrow> PruneWSExecutions RetentionKeepPerProject; ret () }"

text \<open>
  \<open>Run\<close>: the ticks of the two tickers in the order in which the loop receives them, until \<open>done\<close> is
  closed.
\<close>

datatype tick = Due "nat \<Rightarrow> world" time | Retention

fun runScheduler :: "tick list \<Rightarrow> (db, unit option) state" where
  "runScheduler [] = ret (Some ())"
| "runScheduler (Due ws now # rest) = do {
     r \<leftarrow> fireDue ws now;
     case r of None \<Rightarrow> ret None | Some _ \<Rightarrow> runScheduler rest
   }"
| "runScheduler (Retention # rest) = do { _ \<leftarrow> prune; runScheduler rest }"

section \<open>The tables stay well formed\<close>

lemma wf_reschedule [inv_intros]: "preserves wfdb (reschedule t now)"
  unfolding reschedule_def by (intro inv_intros)

lemma wf_resolveSource [inv_intros]: "preserves wfdb (resolveSource t)"
  unfolding resolveSource_def by (intro inv_intros)

lemma wf_triggerActor [inv_intros]: "preserves wfdb (triggerActor t)"
  unfolding triggerActor_def by (intro inv_intros)

lemma wf_recordRun [inv_intros]: "preserves wfdb (recordRun w t now a out)"
  unfolding recordRun_def recordAppCalls_def by (intro inv_intros)

lemma wf_fire [inv_intros]: "preserves wfdb (fire w t now)"
  unfolding fire_def by (intro inv_intros)

lemma wf_fireAll [inv_intros]: "preserves wfdb (fireAll ws k now ts)"
  by (induction ts arbitrary: k) (auto intro!: inv_intros)

lemma wf_fireDue [inv_intros]: "preserves wfdb (fireDue ws now)"
  unfolding fireDue_def by (intro inv_intros)

lemma wf_prune [inv_intros]: "preserves wfdb prune"
  unfolding prune_def by (intro inv_intros)

lemma wf_runScheduler [inv_intros]: "preserves wfdb (runScheduler ticks)"
  by (induction ticks rule: runScheduler.induct) (auto intro!: inv_intros)

section \<open>A tick that goes well\<close>

lemma transcript_callRows: "transcript execID userID calls = callRows execID userID calls"
  unfolding transcript_def callRows_def by (auto simp: appRecordable_def appFamily_def intro!: map_cong filter_cong)

text \<open>
  With a working database, recording a run leaves the triggers and the files alone. The observation
  is that the fault script is empty and the two tables are what they were.
\<close>

definition undisturbed :: "triggerRow list \<Rightarrow> fileRow list \<Rightarrow> db \<Rightarrow> bool" where
  "undisturbed T F s \<longleftrightarrow> faults s = [] \<and> triggers s = T \<and> files s = F"

lemma undisturbed_exec:
  "(\<And>s. undisturbed T F s \<Longrightarrow> undisturbed T F (snd (f s))) \<Longrightarrow> preserves (undisturbed T F) (exec f)"
  by (auto simp: preserves_def undisturbed_def exec_clean)

lemma undisturbed_reads: "reads m \<Longrightarrow> preserves (undisturbed T F) m"
  unfolding preserves_def
proof (intro allI impI)
  fix s assume m: "reads m" and u: "undisturbed T F s"
  obtain fs where "set fs \<subseteq> set (faults s)" "snd (run_state m s) = s\<lparr>faults := fs\<rparr>"
    using m unfolding reads_def by blast
  then show "undisturbed T F (snd (run_state m s))" using u by (simp add: undisturbed_def)
qed

lemma undisturbed_record: "preserves (undisturbed T F) (recordRun w t now a out)"
proof -
  have i: "preserves (undisturbed T F) (insertExecution ne xf a)" for ne xf
    unfolding insertExecution_def by (rule undisturbed_exec) (auto simp: Let_def undisturbed_def)
  have k: "preserves (undisturbed T F) (UpsertWSKV pid key v src)" for pid key v src
    unfolding UpsertWSKV_def upsertKV_def orWrap_def
    by (intro inv_intros undisturbed_exec) (auto simp: Let_def undisturbed_def split: option.split)
  have c: "preserves (undisturbed T F) (insertAppCall x)" for x
    unfolding insertAppCall_def by (rule undisturbed_exec) (auto simp: Let_def undisturbed_def)
  have ks: "preserves (undisturbed T F) (upsertKVs pid eid xs)" for pid eid xs
    by (induction pid eid xs rule: upsertKVs.induct) (auto intro!: inv_intros k)
  have cs: "preserves (undisturbed T F) (RecordAppCalls xs)" for xs
    by (induction xs) (auto simp: orWrap_def intro!: inv_intros preserves_andThen c)
  have r: "preserves (undisturbed T F) (RecordWSSExecution U ne a)" for U ne
    unfolding RecordWSSExecution_def orWrap_def
    by (intro preserves_andThen inv_intros i undisturbed_reads reads_intros)
  show ?thesis unfolding recordRun_def recordAppCalls_def by (intro inv_intros r ks cs)
qed

lemma undisturbed_actor: "preserves (undisturbed T F) (triggerActor t)"
  unfolding triggerActor_def by (intro undisturbed_reads reads_intros)

lemma undisturbed_source: "preserves (undisturbed T F) (resolveSource t)"
  unfolding resolveSource_def by (intro undisturbed_reads reads_intros)

section \<open>The next time lies ahead\<close>

lemma FormatTime_later:
  assumes "now < x" and "nsPerSecond dvd x"
  shows "FormatTime now < FormatTime x"
proof -
  obtain q where q: "x = nsPerSecond * q" using assms(2) by (elim dvdE)
  have "now div nsPerSecond < q"
  proof (rule ccontr)
    assume "\<not> now div nsPerSecond < q"
    then have "nsPerSecond * q \<le> nsPerSecond * (now div nsPerSecond)" by (intro mult_left_mono) (simp_all add: nsPerSecond_def)
    also have "\<dots> \<le> now" using pos_mod_sign [of nsPerSecond now] mult_div_mod_eq [of nsPerSecond now] by (simp add: nsPerSecond_def)
    finally show False using assms(1) q by simp
  qed
  then show ?thesis by (simp add: FormatTime_def q nsPerSecond_def)
qed

lemma NextRun_ahead:
  assumes "sched \<noteq> ''interval''" and "NextRun now sched n d = Inr x"
  shows "now < x \<and> nsPerSecond dvd x"
proof -
  from assms obtain h m where hm: "parseHHMM d = Inr (h, m)" and s: "sched = ''daily''"
    by (auto simp: NextRun_def split: if_splits sum.splits)
  define D where "D = now div nsPerDay * nsPerDay"
  define o1 where "o1 = (int h * 3600 + int m * 60) * nsPerSecond"
  have x: "x = (if \<not> D + o1 > now then D + o1 + nsPerDay else D + o1)"
    using assms(2) s hm by (auto simp: NextRun_def Let_def D_def o1_def split: if_splits)
  have "now < D + nsPerDay" "0 \<le> o1"
    using div_mult_mod_eq [of now nsPerDay] pos_mod_bound [of nsPerDay now]
    by (simp_all add: D_def o1_def nsPerDay_def nsPerSecond_def)
  then have "now < x" using x by auto
  moreover have "nsPerSecond dvd nsPerDay" "nsPerSecond dvd D" "nsPerSecond dvd o1"
    by (simp_all add: D_def o1_def nsPerDay_def)
  then have "nsPerSecond dvd x" by (simp add: x)
  ultimately show ?thesis by simp
qed

text \<open>Whatever the trigger, \<open>AdvancePastNow\<close> returns, with an error or a later second.\<close>

lemma advance_ahead:
  assumes "fits n"
  shows "\<exists>r. AdvancePastNow (p * nsPerSecond) now sched (case n of None \<Rightarrow> 0 | Some i \<Rightarrow> i) d = Some r \<and>
    (\<forall>x. r = Inr x \<longrightarrow> FormatTime now < FormatTime x)"
proof (cases "sched = ''interval''")
  case False
  then show ?thesis using NextRun_ahead FormatTime_later by (auto simp: AdvancePastNow_def)
next
  case True
  define i where "i = (case n of None \<Rightarrow> 0 | Some i \<Rightarrow> i)"
  show ?thesis
  proof (cases "0 < i")
    case False
    then show ?thesis using True by (simp add: AdvancePastNow_def i_def [symmetric])
  next
    case pos: True
    then have "i < 2 ^ 31" using assms by (auto simp: fits_def int4_def i_def split: option.splits)
    then have st: "seconds i = i * nsPerSecond" using pos by (simp add: seconds_eq)
    have step: "0 < i * nsPerSecond" using pos by (simp add: nsPerSecond_def)
    define x where "x = firstAfter (p * nsPerSecond) now (i * nsPerSecond)"
    have "nsPerSecond dvd x" by (simp add: x_def firstAfter_def)
    with firstAfter_props(1) [OF step] have "FormatTime now < FormatTime x"
      by (intro FormatTime_later) (simp_all add: x_def)
    moreover have "AdvancePastNow (p * nsPerSecond) now sched i d = Some (Inr x)"
      using True pos st stepPast_eq [OF step] by (simp add: AdvancePastNow_def x_def)
    ultimately show ?thesis by (simp add: i_def)
  qed
qed

text \<open>A trigger that has been dealt with at \<open>now\<close>: it is disabled, or its next time is later.\<close>

definition dealt :: "time \<Rightarrow> triggerRow \<Rightarrow> bool" where
  "dealt now t \<longleftrightarrow> \<not> tEnabled t \<or> FormatTime now < tNextRunAt t \<and> tLastRunAt t = Some (FormatTime now)"

lemma reschedule_clean:
  assumes "fits (trIntervalSeconds t)" and "undisturbed T F s"
  shows "\<exists>g s'. run_state (reschedule t now) s = (Some (), s') \<and>
    undisturbed (alter (\<lambda>x. tId x = trId t) g T) F s' \<and> (\<forall>x. tId (g x) = tId x \<and> dealt now (g x))"
proof -
  have f: "faults s = []" and T: "triggers s = T" "files s = F" using assms(2) by (simp_all add: undisturbed_def)
  obtain r where r: "AdvancePastNow (trNextRunAt t * nsPerSecond) now (trScheduleType t)
      (case trIntervalSeconds t of None \<Rightarrow> 0 | Some i \<Rightarrow> i) (trDailyTimeUTC t) = Some r"
    "\<And>x. r = Inr x \<Longrightarrow> FormatTime now < FormatTime x"
    using advance_ahead [OF assms(1)] by blast
  show ?thesis
  proof (cases r)
    case (Inl e)
    then show ?thesis
      using f T r(1)
      by (intro exI [of _ "\<lambda>x :: triggerRow. x\<lparr>tEnabled := False, tUpdatedAt := clk s\<rparr>"])
        (simp add: reschedule_def ParseTime_def Let_def SetWSTriggerEnabled_def update_clean undisturbed_def dealt_def)
  next
    case (Inr x)
    then show ?thesis
      using f T r
      by (intro exI [of _ "\<lambda>y :: triggerRow. y\<lparr>tLastRunAt := Some (FormatTime now), tNextRunAt := FormatTime x, tUpdatedAt := clk s\<rparr>"])
        (simp add: reschedule_def ParseTime_def Let_def RecordWSTriggerRun_def update_clean undisturbed_def dealt_def)
  qed
qed

lemma fire_clean:
  assumes "fits (trIntervalSeconds t)" and "undisturbed T F s"
  shows "\<exists>g s'. run_state (fire w t now) s = (Some (), s') \<and>
    undisturbed (alter (\<lambda>x. tId x = trId t) g T) F s' \<and> (\<forall>x. tId (g x) = tId x \<and> dealt now (g x))"
proof -
  obtain src s1 where s1: "run_state (resolveSource t) s = (src, s1)" by (cases "run_state (resolveSource t) s")
  have u1: "undisturbed T F s1" by (rule preservesD_eq [OF undisturbed_source assms(2) s1])
  show ?thesis
  proof (cases src)
    case (Inl e)
    with s1 have "run_state (fire w t now) s = run_state (reschedule t now) s1" by (simp add: fire_def)
    with reschedule_clean [OF assms(1) u1, of now] show ?thesis by simp
  next
    case (Inr source)
    obtain actor s2 where s2: "run_state (triggerActor t) s1 = (actor, s2)" by (cases "run_state (triggerActor t) s1")
    have u2: "undisturbed T F s2" by (rule preservesD_eq [OF undisturbed_actor u1 s2])
    define a where "a = (if 0 < ActorUserID actor then Some (ActorUserID actor) else None)"
    obtain v s3 where s3: "run_state (recordRun w t now a (engineRun w source actor)) s2 = (v, s3)"
      by (cases "run_state (recordRun w t now a (engineRun w source actor)) s2")
    have u3: "undisturbed T F s3" by (rule preservesD_eq [OF undisturbed_record u2 s3])
    have "run_state (fire w t now) s = run_state (reschedule t now) s3"
      using Inr s1 s2 s3 by (simp add: fire_def a_def)
    with reschedule_clean [OF assms(1) u3, of now] show ?thesis by simp
  qed
qed

lemma fireAll_clean:
  assumes "\<forall>t \<in> set ts. fits (trIntervalSeconds t)" and "undisturbed T F s"
  shows "\<exists>g s'. run_state (fireAll ws k now ts) s = (Some (), s') \<and> undisturbed (map g T) F s' \<and>
    (\<forall>x. tId (g x) = tId x \<and> (if tId x \<in> trId ` set ts then dealt now (g x) else g x = x))"
  using assms
proof (induction ts arbitrary: k s T)
  case Nil
  then show ?case by (intro exI [of _ id]) simp
next
  case (Cons t ts)
  have n: "fits (trIntervalSeconds t)" using Cons.prems(1) by simp
  obtain g s1 where g: "run_state (fire (ws k) t now) s = (Some (), s1)"
    "undisturbed (alter (\<lambda>x. tId x = trId t) g T) F s1" "\<And>x. tId (g x) = tId x" "\<And>x. dealt now (g x)"
    using fire_clean [OF n Cons.prems(2), of "ws k" now] by blast
  define g1 where "g1 x = (if tId x = trId t then g x else x)" for x
  have a: "alter (\<lambda>x. tId x = trId t) g T = map g1 T" by (simp add: alter_def g1_def)
  obtain h s2 where h: "run_state (fireAll ws (k + 1) now ts) s1 = (Some (), s2)"
    "undisturbed (map h (map g1 T)) F s2" "\<And>x. tId (h x) = tId x"
    "\<And>x. if tId x \<in> trId ` set ts then dealt now (h x) else h x = x"
    using Cons.IH [of "map g1 T" s1 "k + 1"] Cons.prems(1) g(2) a by auto
  have "if tId x \<in> trId ` set (t # ts) then dealt now ((h \<circ> g1) x) else (h \<circ> g1) x = x" for x
    using h(4) [of "g1 x"] g(3,4) by (auto simp: g1_def split: if_splits)
  moreover have "tId ((h \<circ> g1) x) = tId x" for x using h(3) g(3) by (simp add: g1_def)
  ultimately have all: "\<forall>x. tId ((h \<circ> g1) x) = tId x \<and>
      (if tId x \<in> trId ` set (t # ts) then dealt now ((h \<circ> g1) x) else (h \<circ> g1) x = x)"
    by blast
  have "run_state (fireAll ws k now (t # ts)) s = (Some (), s2)" using g(1) h(1) by simp
  moreover have "undisturbed (map (h \<circ> g1) T) F s2" using h(2) by simp
  ultimately show ?case using all by blast
qed

lemma due_listed:
  "\<exists>f \<in> set (files s). fId f = tFile t \<Longrightarrow> t \<in> set (triggers s) \<Longrightarrow> P t \<Longrightarrow> tId t \<in> trId ` set (wsTriggerQuery P s)"
  by (force simp: wsTriggerQuery_def scanTrigger_def image_iff)

lemma listed_due:
  "x \<in> set (wsTriggerQuery P s) \<Longrightarrow> \<exists>t \<in> set (triggers s). P t \<and> trId x = tId t \<and> trIntervalSeconds x = tInterval t"
  by (auto simp: wsTriggerQuery_def scanTrigger_def)

text \<open>
  C20: no trigger is left behind. A tick on a working database ends, whatever the programs did, and
  after it no trigger is due any more: each trigger that was due has been given a later time, with
  the instant of the tick as its last run, or has been disabled because no next time exists; no
  other trigger is touched and none is lost.
\<close>

theorem fireDue_progress:
  assumes "ready s" and "run_state (fireDue ws now) s = (r, s')"
  shows "r = Some () \<and> run_state (WSDueTriggers (FormatTime now)) s' = (Inr [], s') \<and>
    list_all2 (\<lambda>t t'. tId t' = tId t \<and>
        (t' = t \<or> tEnabled t \<and> tNextRunAt t \<le> FormatTime now \<and>
          (\<not> tEnabled t' \<or> FormatTime now < tNextRunAt t' \<and> tLastRunAt t' = Some (FormatTime now))))
      (triggers s) (triggers s')"
proof -
  have f: "faults s = []" and w: "wfdb s" using assms(1) by (simp_all add: ready_def)
  define P where "P = (\<lambda>t :: triggerRow. tEnabled t \<and> tNextRunAt t \<le> FormatTime now)"
  have d: "run_state (WSDueTriggers (FormatTime now)) q = (Inr (wsTriggerQuery P q), q)" if "faults q = []" for q
    using that by (simp add: WSDueTriggers_def run_orWrap query_clean wrap_def P_def)
  have n: "\<forall>t \<in> set (wsTriggerQuery P s). fits (trIntervalSeconds t)"
    using w by (auto simp: wfdb_def list_all_iff dest!: listed_due)
  have u: "undisturbed (triggers s) (files s) s" using f by (simp add: undisturbed_def)
  obtain g s2 where g: "run_state (fireAll ws 0 now (wsTriggerQuery P s)) s = (Some (), s2)"
    "undisturbed (map g (triggers s)) (files s) s2" "\<And>x. tId (g x) = tId x"
    "\<And>x. if tId x \<in> trId ` set (wsTriggerQuery P s) then dealt now (g x) else g x = x"
    using fireAll_clean [OF n u, of ws 0 now] by blast
  have e: "r = Some ()" "s' = s2" using assms(2) d [OF f] g(1) by (simp_all add: fireDue_def)
  have T: "triggers s2 = map g (triggers s)" "files s2 = files s" "faults s2 = []"
    using g(2) by (simp_all add: undisturbed_def)
  have k: "keyed tId (seqTrigger (seqs s)) (triggers s)" using w by (simp add: wfdb_def)
  have due: "P t" if t: "t \<in> set (triggers s)" and l: "tId t \<in> trId ` set (wsTriggerQuery P s)" for t
  proof -
    obtain t1 where "t1 \<in> set (triggers s)" "P t1" "tId t1 = tId t" using l by (auto dest!: listed_due)
    then show ?thesis using k t by (auto simp: keyed_def distinct_map dest: inj_onD)
  qed
  have "wsTriggerQuery P s2 = []"
  proof (rule ccontr)
    assume "wsTriggerQuery P s2 \<noteq> []"
    then obtain t fl where t: "t \<in> set (triggers s)" "P (g t)" "fl \<in> set (files s)" "fId fl = tFile (g t)"
      unfolding wsTriggerQuery_def using T by (force simp: filter_empty_conv)
    show False
    proof (cases "tId t \<in> trId ` set (wsTriggerQuery P s)")
      case True
      then have "dealt now (g t)" using g(4) [of t] by simp
      with t(2) show False by (auto simp: dealt_def P_def)
    next
      case False
      then have "g t = t" using g(4) [of t] by simp
      with t False due_listed [of s t P] show False by auto
    qed
  qed
  then have "run_state (WSDueTriggers (FormatTime now)) s' = (Inr [], s')" using d [OF T(3)] e by simp
  moreover have "g t = t \<or> P t \<and> dealt now (g t)" if "t \<in> set (triggers s)" for t
    using g(4) [of t] due [OF that] by (cases "tId t \<in> trId ` set (wsTriggerQuery P s)") auto
  then have "list_all2 (\<lambda>t t'. tId t' = tId t \<and> (t' = t \<or> P t \<and> dealt now t')) (triggers s) (triggers s')"
    using g(3) by (simp add: e T list_all2_conv_all_nth)
  ultimately show ?thesis using e by (simp add: P_def dealt_def conj_assoc)
qed

text \<open>A trigger that is late by several intervals, and one whose time of day cannot be read.\<close>

definition lateDB :: db where
  "lateDB = teamDB\<lparr>triggers :=
     [\<lparr>tId = 3, tProject = 2, tFile = 5, tVersion = None, tScheduleType = ''interval'', tInterval = Some 60, tDailyTime = None,
       tEnabled = True, tNextRunAt = 10, tLastRunAt = None, tCreatedAt = [], tUpdatedAt = []\<rparr>,
      \<lparr>tId = 4, tProject = 2, tFile = 5, tVersion = None, tScheduleType = ''daily'', tInterval = None, tDailyTime = Some ''9h'',
       tEnabled = True, tNextRunAt = 10, tLastRunAt = None, tCreatedAt = [], tUpdatedAt = []\<rparr>],
     seqs := (seqs teamDB)\<lparr>seqTrigger := 4\<rparr>\<rparr>"

theorem fireDue_progress_witness:
  "length (wsTriggerQuery (\<lambda>t. tEnabled t \<and> tNextRunAt t \<le> 500) lateDB) = 2 \<and>
   (\<exists>s'. run_state (fireDue (\<lambda>_. sampleWorld) (500 * nsPerSecond)) lateDB = (Some (), s') \<and>
     run_state (WSDueTriggers 500) s' = (Inr [], s') \<and> map tId (triggers s') = [3, 4])"
proof -
  have ready: "ready lateDB"
    by (simp add: ready_def wfdb_def lateDB_def teamDB_def emptyDB_def keyed_def uniq_def fits_def int4_def)
  obtain r s' where run: "run_state (fireDue (\<lambda>_. sampleWorld) (500 * nsPerSecond)) lateDB = (r, s')"
    by (cases "run_state (fireDue (\<lambda>_. sampleWorld) (500 * nsPerSecond)) lateDB")
  have F: "FormatTime (500 * nsPerSecond) = 500" by (simp add: FormatTime_def nsPerSecond_def)
  have ids: "list_all2 (\<lambda>t t'. tId t' = tId t \<and> Q t t') xs ys \<Longrightarrow> map tId ys = map tId xs" for Q xs ys
    by (induction rule: list_all2_induct) auto
  note P = fireDue_progress [OF ready run, unfolded F]
  then have "map tId (triggers s') = map tId (triggers lateDB)" by (elim conjE) (erule ids)
  then have "map tId (triggers s') = [3, 4]" by (simp add: lateDB_def)
  moreover have "length (wsTriggerQuery (\<lambda>t. tEnabled t \<and> tNextRunAt t \<le> 500) lateDB) = 2"
    by (simp add: wsTriggerQuery_def lateDB_def teamDB_def)
  ultimately show ?thesis using P run by simp
qed

end
