(* ===== verification/AdminSite.thy ===== *)
theory AdminSite
  imports RunRecords
begin

text \<open>
  The administration area, server/cmd/admin: its own login gated on the allowlist of
  administrators (auth.go), the settings, quota, audit and allowlist pages (pages.go), the log
  viewer (applog.go) and the table of routes (main.go). A handler runs on the settings manager
  beside the database and yields the data of a page or a redirect; the request to the app's
  internal reload endpoint is an answer of the environment.
\<close>

section \<open>Pages and replies\<close>

record adminPage =
  apTitle :: string
  apFlash :: string
  apFlashOK :: bool
  apRail :: "(string \<times> string) option"

datatype adminView =
    AdminLoginView adminPage
  | HomeView adminPage bool bool bool Quotas int
  | MailView adminPage Mail
  | HTTPView adminPage HTTP
  | LoggerView adminPage LoggerGroup
  | LogView adminPage string "Entry list" string
  | QuotasView adminPage string int "(User \<times> AppQuota option) list"
  | UsersView adminPage "User list"
  | AuditView adminPage "AuditEntry list"
  | GeneralView adminPage Run
  | AdministratorsView adminPage "Administrator list" int

datatype adminReply = AdminView adminView | AdminSeeOther string | AdminPanic

type_synonym adminHandler = "adminReply mgr"

text \<open>
  What the environment contributes: the world of the request (with the administrators' session
  key), the JSON codec of the settings, the address of the app and its answers to a reload request
  (the status, or a transport error), and the random bytes of a new token.
\<close>

record adminWorld =
  reqWorld :: world
  codec :: decoders
  encMail :: "Mail \<Rightarrow> string result"
  encHTTP :: "HTTP \<Rightarrow> string result"
  encLogger :: "LoggerGroup \<Rightarrow> string result"
  encRun :: "Run \<Rightarrow> string result"
  internalURL :: string
  reloadStatus :: "string \<Rightarrow> int result"
  tokenBytes :: "bytes result"

definition adminBase :: "request \<Rightarrow> string \<Rightarrow> adminPage" where
  "adminBase req title =
     (let okFlash = queryOf req ''ok''; errFlash = queryOf req ''err'' in
      \<lparr>apTitle = title, apFlash = (if errFlash \<noteq> [] then errFlash else okFlash), apFlashOK = (okFlash \<noteq> []), apRail = None\<rparr>)"

definition adminShell :: "request \<Rightarrow> string \<Rightarrow> string \<Rightarrow> string \<Rightarrow> adminPage" where
  "adminShell req title area sect = (adminBase req title)\<lparr>apRail := Some (area, sect)\<rparr>"

definition view :: "adminView \<Rightarrow> adminHandler" where
  "view v = ret (AdminView v)"

definition adminErr :: "string \<Rightarrow> string \<Rightarrow> adminHandler" where
  "adminErr back msg = ret (AdminSeeOther (back @ ''?err='' @ queryEscape msg))"

definition adminOk :: "string \<Rightarrow> string \<Rightarrow> adminHandler" where
  "adminOk back msg = ret (AdminSeeOther (back @ ''?ok='' @ queryEscape msg))"

definition adminLoginPage :: "request \<Rightarrow> adminReply" where
  "adminLoginPage req = AdminView (AdminLoginView (adminBase req ''Log in''))"

section \<open>Session and login\<close>

definition adminSessionCookieName :: string where "adminSessionCookieName = ''pg_admin_session''"
definition adminSessionTTL :: time where "adminSessionTTL = 12 * 3600 * nsPerSecond"
definition adminStateCookieName :: string where "adminStateCookieName = ''pg_admin_oidc_state''"
definition adminNonceCookieName :: string where "adminNonceCookieName = ''pg_admin_oidc_nonce''"

definition adminCallbackURL :: "string \<Rightarrow> bool \<Rightarrow> request \<Rightarrow> string" where
  "adminCallbackURL override trustProxy req =
     (if override \<noteq> [] then override
      else
        (let scheme = (if isTLS req then ''https'' else ''http'');
             proto = headerOf req ''X-Forwarded-Proto'';
             scheme = (if trustProxy \<and> proto \<noteq> [] then proto else scheme)
         in scheme @ ''://'' @ hostName req @ ''/admin/api/auth/callback''))"

definition adminLoginStart :: "idp option \<Rightarrow> string \<Rightarrow> bool \<Rightarrow> world \<Rightarrow> request \<Rightarrow> cookie list \<times> adminReply" where
  "adminLoginStart provider override trustProxy w req =
     (case provider of
        None \<Rightarrow> ([], AdminSeeOther (''/admin/login?err='' @ queryEscape starting))
      | Some P \<Rightarrow>
          (let state = randomToken (rnd w 0); nonce = randomToken (rnd w 1) in
           ([shortCookie adminStateCookieName state, shortCookie adminNonceCookieName nonce],
            AdminSeeOther (authCodeURL P state (adminCallbackURL override trustProxy req) nonce))))"

definition setAdminSession :: "world \<Rightarrow> time \<Rightarrow> int \<Rightarrow> cookie" where
  "setAdminSession w now adminID =
     \<lparr>ckName = adminSessionCookieName,
      ckValue = sessionValue (mac w) (secret w) adminID (unixTime (now + adminSessionTTL)),
      ckMaxAge = adminSessionTTL div nsPerSecond, ckHttpOnly = True, ckLax = True\<rparr>"

text \<open>\<open>lower\<close> of the SQL is the lower-casing of the database, here the one of the Unicode tables.\<close>

definition adminAuthCallback ::
  "idp option \<Rightarrow> string \<Rightarrow> bool \<Rightarrow> world \<Rightarrow> request \<Rightarrow> (db, cookie list \<times> adminReply) state" where
  "adminAuthCallback provider override trustProxy w req =
     (let failed = (\<lambda>cookies msg. ret (cookies, AdminSeeOther (''/admin/login?err='' @ queryEscape msg))) in
      case callbackClaims provider adminStateCookieName adminNonceCookieName (adminCallbackURL override trustProxy req) req of
        (cookies, Inl msg) \<Rightarrow> failed cookies msg
      | (cookies, Inr cl) \<Rightarrow> do {
          g \<leftarrow> FindAdministratorForLogin (ToLower (uni w)) (clSub cl) (clEmail cl);
          case g of
            Inl e \<Rightarrow>
              if e = ErrNotFound then failed cookies ''this account is not an administrator''
              else failed cookies ''could not check the allowlist''
          | Inr admin \<Rightarrow> do {
              u \<leftarrow> UpsertAdministratorLogin (admId admin) (clSub cl) (clName cl) (clPicture cl);
              case u of
                Inl _ \<Rightarrow> failed cookies ''could not record login''
              | Inr _ \<Rightarrow> ret (cookies @ [setAdminSession w (reqTime w) (admId admin)], AdminSeeOther ''/admin'')
            }
        })"

definition adminLogout :: "cookie list \<times> adminReply" where
  "adminLogout = ([clearedCookie adminSessionCookieName], AdminSeeOther ''/admin/login'')"

definition currentAdministrator :: "world \<Rightarrow> time \<Rightarrow> request \<Rightarrow> (db, Administrator option) state" where
  "currentAdministrator w now req =
     (case cookieOf req adminSessionCookieName of
        None \<Rightarrow> ret None
      | Some v \<Rightarrow>
     (case openSession (mac w) (secret w) (unixTime now) v of
        None \<Rightarrow> ret None
      | Some adminID \<Rightarrow> do {
          r \<leftarrow> GetAdministrator adminID;
          ret (case r of Inl _ \<Rightarrow> None | Inr a \<Rightarrow> Some a)
        }))"

definition requireAdminPage :: "adminWorld \<Rightarrow> request \<Rightarrow> adminHandler \<Rightarrow> adminHandler" where
  "requireAdminPage W req nxt = do {
     a \<leftarrow> onStore (currentAdministrator (reqWorld W) (gateTime (reqWorld W)) req);
     if a \<noteq> None then nxt else ret (AdminSeeOther ''/admin/login'')
   }"

section \<open>Forms\<close>

definition formInt :: "request \<Rightarrow> string \<Rightarrow> int \<Rightarrow> int" where
  "formInt req key fallback =
     (let v = TrimSpace (formValue req key) in
      if v \<noteq> [] then (case Atoi v of None \<Rightarrow> fallback | Some n \<Rightarrow> if 0 < n then n else fallback) else fallback)"

definition splitLines :: "string \<Rightarrow> string list" where
  "splitLines s = filter (\<lambda>line. line \<noteq> []) (map TrimSpace (Split nl s))"

lemma FieldsFunc_shorter: "dropWhile sep s \<noteq> [] \<Longrightarrow> length (dropWhile (\<lambda>c. \<not> sep c) (dropWhile sep s)) < length s"
proof -
  assume ne: "dropWhile sep s \<noteq> []"
  then obtain c t where ct: "dropWhile sep s = c # t" by (cases "dropWhile sep s") auto
  then have "\<not> sep c" using hd_dropWhile [OF ne] by simp
  then have "length (dropWhile (\<lambda>c. \<not> sep c) (dropWhile sep s)) \<le> length t" by (simp add: ct length_dropWhile_le)
  moreover have "length (dropWhile sep s) \<le> length s" by (rule length_dropWhile_le)
  ultimately show ?thesis by (simp add: ct)
qed

text \<open>\<open>strings.FieldsFunc\<close>: the maximal runs of bytes that do not separate.\<close>

function FieldsFunc :: "(char \<Rightarrow> bool) \<Rightarrow> string \<Rightarrow> string list" where
  "FieldsFunc sep s =
     (let t = dropWhile sep s in
      if t = [] then [] else takeWhile (\<lambda>c. \<not> sep c) t # FieldsFunc sep (dropWhile (\<lambda>c. \<not> sep c) t))"
  by pat_completeness auto

termination
  by (relation "measure (length \<circ> snd)") (simp, simp del: dropWhile_eq_Nil_conv add: FieldsFunc_shorter)

declare FieldsFunc.simps [simp del]

definition parseEmailList :: "string \<Rightarrow> string list" where
  "parseEmailList s =
     filter (\<lambda>part. part \<noteq> [])
       (map TrimSpace (FieldsFunc (\<lambda>c. c = CHR '','' \<or> c = nl \<or> c = CHR '' '' \<or> c = CHR 0x09) s))"

section \<open>Saving settings and telling the app\<close>

text \<open>
  The request to the app's reload endpoint with a token: None when it was accepted. A missing token
  is no error; only whether there was one is looked at.
\<close>

definition notifyAppReloadWithToken :: "adminWorld \<Rightarrow> string \<Rightarrow> goerr option" where
  "notifyAppReloadWithToken W tok =
     (if internalURL W = [] then None
      else (case reloadStatus W tok of
              Inl e \<Rightarrow> Some e
            | Inr status \<Rightarrow> if 300 \<le> status then Some (Msg (''unexpected HTTP status '' @ itoa_int status)) else None))"

definition notifyAppReload :: "adminWorld \<Rightarrow> goerr option mgr" where
  "notifyAppReload W =
     (if internalURL W = [] then ret None
      else do {
        t \<leftarrow> onStore (GetSetting KeyServiceToken);
        case t of
          Inl e \<Rightarrow> ret (Some e)
        | Inr tok \<Rightarrow> if tok = [] then ret None else ret (notifyAppReloadWithToken W tok)
      })"

definition saveGroup :: "adminWorld \<Rightarrow> ('v \<Rightarrow> string result) \<Rightarrow> string \<Rightarrow> 'v \<Rightarrow> string \<Rightarrow> string \<Rightarrow> adminHandler" where
  "saveGroup W enc key grp back okMsg = do {
     e \<leftarrow> SaveGroup (codec W) enc key grp 0;
     case e of
       Some e \<Rightarrow> adminErr back (errText (uni (reqWorld W)) e)
     | None \<Rightarrow> do {
         n \<leftarrow> notifyAppReload W;
         adminOk back (if n \<noteq> None then okMsg @ '' (app will pick it up within a minute)'' else okMsg)
       }
   }"

definition handleAdminHomePage :: "request \<Rightarrow> adminHandler" where
  "handleAdminHomePage req = do {
     snap \<leftarrow> Current;
     n \<leftarrow> onStore CountAdministrators;
     view (HomeView (adminShell req ''Administration'' [] []) (MailEnabled (MailCfg snap)) (HTTPEnabled (HTTPCfg snap))
       (LoggerEnabled (LoggerCfg snap)) (QuotasCfg snap) (case n of Inl _ \<Rightarrow> 0 | Inr k \<Rightarrow> k))
   }"

definition handleAdminMailPage :: "request \<Rightarrow> adminHandler" where
  "handleAdminMailPage req = do {
     snap \<leftarrow> Current;
     view (MailView (adminShell req ''Mail app'' ''mail'' ''config'') (MailCfg snap))
   }"

definition handleAdminMailSave :: "adminWorld \<Rightarrow> request \<Rightarrow> adminHandler" where
  "handleAdminMailSave W req = do {
     snap \<leftarrow> Current;
     let m = (MailCfg snap)\<lparr>MailEnabled := (formValue req ''enabled'' = ''on''), MailFrom := TrimSpace (formValue req ''from'')\<rparr>;
     saveGroup W (encMail W) KeyMail m ''/admin/mail'' ''mail settings saved''
   }"

definition handleAdminHTTPPage :: "request \<Rightarrow> adminHandler" where
  "handleAdminHTTPPage req = do {
     snap \<leftarrow> Current;
     view (HTTPView (adminShell req ''HTTP app'' ''http'' ''config'') (HTTPCfg snap))
   }"

definition handleAdminHTTPSave :: "adminWorld \<Rightarrow> request \<Rightarrow> adminHandler" where
  "handleAdminHTTPSave W req = do {
     snap \<leftarrow> Current;
     let old = HTTPCfg snap;
     let h = old\<lparr>HTTPEnabled := (formValue req ''enabled'' = ''on''),
                 AllowedDomains := splitLines (formValue req ''allowedDomains''),
                 TimeoutSeconds := formInt req ''timeoutSeconds'' (TimeoutSeconds old),
                 ResponseCapBytes := formInt req ''responseCapBytes'' (ResponseCapBytes old)\<rparr>;
     saveGroup W (encHTTP W) KeyHTTP h ''/admin/http'' ''http settings saved''
   }"

definition handleAdminLoggerPage :: "request \<Rightarrow> adminHandler" where
  "handleAdminLoggerPage req = do {
     snap \<leftarrow> Current;
     view (LoggerView (adminShell req ''Logger app'' ''logger'' ''config'') (LoggerCfg snap))
   }"

definition handleAdminLoggerSave :: "adminWorld \<Rightarrow> request \<Rightarrow> adminHandler" where
  "handleAdminLoggerSave W req = do {
     snap \<leftarrow> Current;
     let l = (LoggerCfg snap)\<lparr>LoggerEnabled := (formValue req ''enabled'' = ''on'')\<rparr>;
     saveGroup W (encLogger W) KeyLogger l ''/admin/logger'' ''logger settings saved''
   }"

section \<open>Logs\<close>

definition tailAppLog :: "world \<Rightarrow> string \<Rightarrow> string \<Rightarrow> Entry list" where
  "tailAppLog w app userFilter =
     (let entries = Tail (unmarshalEntry w) 100 (logFile w app) in
      if userFilter = [] then entries
      else
        (let needle = ToLower (uni w) (TrimSpace userFilter)
         in filter (\<lambda>e. Contains (ToLower (uni w) (Entry.User e)) needle) entries))"

definition renderAppLogPage :: "adminWorld \<Rightarrow> request \<Rightarrow> string \<Rightarrow> string \<Rightarrow> adminHandler" where
  "renderAppLogPage W req app title =
     view (LogView (adminShell req title app ''logs'') app (tailAppLog (reqWorld W) app (queryOf req ''user'')) (queryOf req ''user''))"

definition handleAdminMailLogsPage :: "adminWorld \<Rightarrow> request \<Rightarrow> adminHandler" where
  "handleAdminMailLogsPage W req = renderAppLogPage W req ''mail'' ''Mail app logs''"

definition handleAdminHTTPLogsPage :: "adminWorld \<Rightarrow> request \<Rightarrow> adminHandler" where
  "handleAdminHTTPLogsPage W req = renderAppLogPage W req ''http'' ''HTTP app logs''"

definition handleAdminLoggerLogsPage :: "adminWorld \<Rightarrow> request \<Rightarrow> adminHandler" where
  "handleAdminLoggerLogsPage W req = renderAppLogPage W req ''logger'' ''Logger app logs''"

section \<open>Quotas\<close>

definition handleAdminQuotasPage :: "request \<Rightarrow> adminHandler" where
  "handleAdminQuotasPage req = do {
     snap \<leftarrow> Current;
     let app = (if queryOf req ''app'' = [] then ''mail'' else queryOf req ''app'');
     us \<leftarrow> onStore ListUsers;
     qs \<leftarrow> onStore (ListAppQuotas app);
     let us = (case us of Inl _ \<Rightarrow> [] | Inr xs \<Rightarrow> xs);
     let qs = (case qs of Inl _ \<Rightarrow> [] | Inr xs \<Rightarrow> xs);
     view (QuotasView (adminShell req ''Rate limits'' app ''quotas'') app (QuotasKeyFor app (QuotasCfg snap))
       (map (\<lambda>u. (u, List.find (\<lambda>q. aqUser q = userId u) qs)) us))
   }"

definition quotasBack :: "string \<Rightarrow> string \<Rightarrow> string \<Rightarrow> adminHandler" where
  "quotasBack app kind msg =
     ret (AdminSeeOther (''/admin/quotas?app='' @ queryEscape app @ ''&'' @ kind @ ''='' @ queryEscape msg))"

definition handleAdminQuotaSave :: "adminWorld \<Rightarrow> request \<Rightarrow> adminHandler" where
  "handleAdminQuotaSave W req =
     (let app = formValue req ''app''; bad = quotasBack app ''err'' ''bad user'' in
      case ParseInt64 (formValue req ''userId'') of
        None \<Rightarrow> bad
      | Some userID \<Rightarrow>
          if userID \<le> 0 \<or> app = [] then bad
          else
            (let v = TrimSpace (formValue req ''callsPerMinute'');
                 calls = (if v = [] then None
                          else (case Atoi v of None \<Rightarrow> None | Some n \<Rightarrow> if 0 \<le> n then Some n else None));
                 q = \<lparr>aqUser = userID, aqUserEmail = [], aqApp = app, aqCallsPerMinute = calls,
                      aqEnabled = (formValue req ''enabled'' = ''on'')\<rparr>
             in do {
               r \<leftarrow> onStore (UpsertAppQuota q);
               (case r of
                  Inl e \<Rightarrow> quotasBack app ''err'' (errText (uni (reqWorld W)) e)
                | Inr _ \<Rightarrow> quotasBack app ''ok'' ''quota saved'')
             }))"

definition handleAdminQuotaDelete :: "adminWorld \<Rightarrow> request \<Rightarrow> adminHandler" where
  "handleAdminQuotaDelete W req =
     (let app = formValue req ''app''; bad = quotasBack app ''err'' ''bad user'' in
      case ParseInt64 (formValue req ''userId'') of
        None \<Rightarrow> bad
      | Some userID \<Rightarrow>
          if app = [] then bad
          else do {
            r \<leftarrow> onStore (DeleteAppQuota userID app);
            (case r of
               Inl e \<Rightarrow> quotasBack app ''err'' (errText (uni (reqWorld W)) e)
             | Inr _ \<Rightarrow> quotasBack app ''ok'' ''quota removed'')
          })"

section \<open>System pages\<close>

definition handleAdminUsersPage :: "request \<Rightarrow> adminHandler" where
  "handleAdminUsersPage req = do {
     us \<leftarrow> onStore ListUsers;
     view (UsersView (adminShell req ''Users'' ''system'' ''users'') (case us of Inl _ \<Rightarrow> [] | Inr xs \<Rightarrow> xs))
   }"

definition handleAdminExecutionsPage :: "request \<Rightarrow> adminHandler" where
  "handleAdminExecutionsPage req = do {
     a \<leftarrow> onStore (ListWSAudit 100);
     view (AuditView (adminShell req ''Executions'' ''system'' ''executions'') (case a of Inl _ \<Rightarrow> [] | Inr xs \<Rightarrow> xs))
   }"

definition handleAdminGeneralPage :: "request \<Rightarrow> adminHandler" where
  "handleAdminGeneralPage req = do {
     snap \<leftarrow> Current;
     view (GeneralView (adminShell req ''General'' ''system'' ''general'') (RunCfg snap))
   }"

definition emDash :: string where
  "emDash = [CHR 0xE2, CHR 0x80, CHR 0x94]"

definition handleAdminGeneralSave :: "adminWorld \<Rightarrow> request \<Rightarrow> adminHandler" where
  "handleAdminGeneralSave W req = do {
     snap \<leftarrow> Current;
     let old = RunCfg snap;
     let run = \<lparr>RunTimeoutSeconds = formInt req ''timeoutSeconds'' (RunTimeoutSeconds old),
                MaxConcurrent = formInt req ''maxConcurrent'' (MaxConcurrent old),
                RatePerMinute = formInt req ''ratePerMinute'' (RatePerMinute old),
                RateBurst = formInt req ''rateBurst'' (RateBurst old),
                DeployRatePerMinute = formInt req ''deployRatePerMinute'' (DeployRatePerMinute old),
                DeployRateBurst = formInt req ''deployRateBurst'' (DeployRateBurst old),
                OutputCapBytes = formInt req ''outputCapBytes'' (OutputCapBytes old)\<rparr>;
     saveGroup W (encRun W) KeyRun run ''/admin/general'' (''saved '' @ emDash @ '' sandbox limits apply after the app restarts'')
   }"

definition handleAdminRotateServiceToken :: "adminWorld \<Rightarrow> adminHandler" where
  "handleAdminRotateServiceToken W = do {
     t \<leftarrow> onStore (RotateInternal KeyServiceToken (tokenBytes W));
     case t of
       Inl e \<Rightarrow> adminErr ''/admin/general'' (errText (uni (reqWorld W)) e)
     | Inr tok \<Rightarrow>
         (let msg = ''new service token: '' @ tok in
          adminOk ''/admin/general''
            (if notifyAppReloadWithToken W tok \<noteq> None then msg @ '' (the app refreshes its copy within a minute)'' else msg))
   }"

section \<open>The allowlist\<close>

text \<open>The page reads the id of the current administrator through a pointer that may be nil.\<close>

definition handleAdminAdministratorsPage :: "adminWorld \<Rightarrow> request \<Rightarrow> adminHandler" where
  "handleAdminAdministratorsPage W req = do {
     a \<leftarrow> onStore ListAdministrators;
     me \<leftarrow> onStore (currentAdministrator (reqWorld W) (reqTime (reqWorld W)) req);
     (case me of
        None \<Rightarrow> ret AdminPanic
      | Some m \<Rightarrow>
          view (AdministratorsView (adminShell req ''Administrators'' ''system'' ''administrators'')
            (case a of Inl _ \<Rightarrow> [] | Inr xs \<Rightarrow> xs) (admId m)))
   }"

definition handleAdminAdministratorAdd :: "adminWorld \<Rightarrow> request \<Rightarrow> adminHandler" where
  "handleAdminAdministratorAdd W req =
     (let email = TrimSpace (formValue req ''email''); back = ''/admin/administrators'' in
      if email = [] \<or> \<not> Contains email ''@'' then adminErr back ''an email address is required''
      else do {
        r \<leftarrow> onStore (AddAdministrator (ToLower (uni (reqWorld W))) email (TrimSpace (formValue req ''name'')));
        (case r of
           Inl e \<Rightarrow> adminErr back (errText (uni (reqWorld W)) e)
         | Inr _ \<Rightarrow> adminOk back (email @ '' allowlisted '' @ emDash @ '' they can sign in on their next login''))
      })"

definition handleAdminAdministratorRemove :: "adminWorld \<Rightarrow> request \<Rightarrow> adminHandler" where
  "handleAdminAdministratorRemove W req = do {
     me \<leftarrow> onStore (currentAdministrator (reqWorld W) (reqTime (reqWorld W)) req);
     let back = ''/admin/administrators'';
     (case ParseInt64 (formValue req ''id'') of
        None \<Rightarrow> adminErr back ''bad administrator''
      | Some i \<Rightarrow>
          if i \<le> 0 then adminErr back ''bad administrator''
          else if map_option admId me = Some i then adminErr back ''you cannot remove yourself''
          else do {
            c \<leftarrow> onStore CountAdministrators;
            let n = (case c of Inl _ \<Rightarrow> 0 | Inr k \<Rightarrow> k);
            (if n \<le> 1 then adminErr back ''the last administrator cannot be removed''
             else do {
               r \<leftarrow> onStore (RemoveAdministrator i);
               (case r of
                  Inl e \<Rightarrow> adminErr back (errText (uni (reqWorld W)) e)
                | Inr _ \<Rightarrow> adminOk back ''administrator removed'')
             })
          })
   }"

section \<open>The routes\<close>

datatype adminRoute =
    AdminHome | AdminMail | AdminMailSave | AdminMailLogs | AdminHTTPPage | AdminHTTPSave | AdminHTTPLogs
  | AdminLoggerPage | AdminLoggerSave | AdminLoggerLogs | AdminQuotas | AdminQuotaSave | AdminQuotaDelete
  | AdminUsers | AdminExecutions | AdminGeneral | AdminGeneralSave | AdminRotate
  | AdminAdministrators | AdminAdd | AdminRemove

fun adminHandlerOf :: "adminRoute \<Rightarrow> adminWorld \<Rightarrow> request \<Rightarrow> adminHandler" where
  "adminHandlerOf AdminHome W req = handleAdminHomePage req"
| "adminHandlerOf AdminMail W req = handleAdminMailPage req"
| "adminHandlerOf AdminMailSave W req = handleAdminMailSave W req"
| "adminHandlerOf AdminMailLogs W req = handleAdminMailLogsPage W req"
| "adminHandlerOf AdminHTTPPage W req = handleAdminHTTPPage req"
| "adminHandlerOf AdminHTTPSave W req = handleAdminHTTPSave W req"
| "adminHandlerOf AdminHTTPLogs W req = handleAdminHTTPLogsPage W req"
| "adminHandlerOf AdminLoggerPage W req = handleAdminLoggerPage req"
| "adminHandlerOf AdminLoggerSave W req = handleAdminLoggerSave W req"
| "adminHandlerOf AdminLoggerLogs W req = handleAdminLoggerLogsPage W req"
| "adminHandlerOf AdminQuotas W req = handleAdminQuotasPage req"
| "adminHandlerOf AdminQuotaSave W req = handleAdminQuotaSave W req"
| "adminHandlerOf AdminQuotaDelete W req = handleAdminQuotaDelete W req"
| "adminHandlerOf AdminUsers W req = handleAdminUsersPage req"
| "adminHandlerOf AdminExecutions W req = handleAdminExecutionsPage req"
| "adminHandlerOf AdminGeneral W req = handleAdminGeneralPage req"
| "adminHandlerOf AdminGeneralSave W req = handleAdminGeneralSave W req"
| "adminHandlerOf AdminRotate W req = handleAdminRotateServiceToken W"
| "adminHandlerOf AdminAdministrators W req = handleAdminAdministratorsPage W req"
| "adminHandlerOf AdminAdd W req = handleAdminAdministratorAdd W req"
| "adminHandlerOf AdminRemove W req = handleAdminAdministratorRemove W req"

definition serveAdmin :: "adminRoute \<Rightarrow> adminWorld \<Rightarrow> request \<Rightarrow> adminHandler" where
  "serveAdmin route W req = requireAdminPage W req (adminHandlerOf route W req)"

section \<open>What every handler keeps of the database\<close>

definition onDB :: "(db \<Rightarrow> bool) \<Rightarrow> Snapshot \<times> db \<Rightarrow> bool" where
  "onDB P st \<longleftrightarrow> P (snd st)"

lemma onDB_store [inv_intros]: "preserves P m \<Longrightarrow> preserves (onDB P) (onStore m)"
  by (auto simp: preserves_def onDB_def onStore_def split: prod.split)

lemma onDB_install [inv_intros]: "preserves (onDB P) (install snap)" "preserves (onDB P) Current"
  by (auto simp: preserves_def onDB_def install_def Current_def)

lemma onDB_loadGroup:
  "preserves P (GetSettingJSON dec key v) \<Longrightarrow> (\<And>x. preserves (onDB P) (k x)) \<Longrightarrow> preserves (onDB P) (loadGroup dec key v k)"
  unfolding loadGroup_def by (intro inv_intros)

lemma onDB_small [inv_intros]:
  "preserves (onDB P) (view v)" "preserves (onDB P) (adminErr back msg)" "preserves (onDB P) (adminOk back msg)"
  "preserves (onDB P) (quotasBack app kind msg)"
  unfolding view_def adminErr_def adminOk_def quotasBack_def by (intro inv_intros)+

lemmas adminHandlers = handleAdminHomePage_def handleAdminMailPage_def handleAdminMailSave_def handleAdminHTTPPage_def
  handleAdminHTTPSave_def handleAdminLoggerPage_def handleAdminLoggerSave_def handleAdminMailLogsPage_def
  handleAdminHTTPLogsPage_def handleAdminLoggerLogsPage_def renderAppLogPage_def handleAdminQuotasPage_def
  handleAdminQuotaSave_def handleAdminQuotaDelete_def handleAdminUsersPage_def handleAdminExecutionsPage_def
  handleAdminGeneralPage_def handleAdminGeneralSave_def handleAdminRotateServiceToken_def
  handleAdminAdministratorsPage_def handleAdminAdministratorAdd_def

text \<open>
  The statements the area issues, for any invariant they keep one by one. An interface: what the
  store promises is the assumptions, what the handlers keep is proved once. \<open>lower\<close> is the function
  of that name of the database.
\<close>

locale admin_store =
  fixes P :: "db \<Rightarrow> bool" and lower :: "string \<Rightarrow> string"
  assumes ignores: "ignores_faults P"
    and put_keeps: "preserves P (PutSetting key v by)"
    and quota_keeps: "preserves P (UpsertAppQuota q)" "preserves P (DeleteAppQuota i app)"
    and add_keeps: "preserves P (AddAdministrator lower email name)"
    and login_keeps: "preserves P (UpsertAdministratorLogin i sub name pic)"
    and remove_keeps: "P s \<Longrightarrow> 1 < length (admins s) \<Longrightarrow> P (snd (run_state (RemoveAdministrator i) s))"
begin

lemma reads_keep: "reads m \<Longrightarrow> preserves P m"
  unfolding preserves_def by (metis ignores ignores_faults_def reads_def)

lemmas look_keeps = settingReads_reads [THEN reads_keep] userReads_reads(1) [THEN reads_keep] runReads_reads(9) [THEN reads_keep]

lemma load_keeps: "preserves (onDB P) (Load D)"
  unfolding Load_def by (intro onDB_loadGroup look_keeps inv_intros)

lemma save_keeps: "preserves (onDB P) (SaveGroup D enc key v by)"
  unfolding SaveGroup_def by (intro inv_intros load_keeps put_keeps)

lemma notify_keeps: "preserves (onDB P) (notifyAppReload W)"
  unfolding notifyAppReload_def by (intro inv_intros look_keeps)

lemma saveGroup_keeps: "preserves (onDB P) (saveGroup W enc key grp back msg)"
  unfolding saveGroup_def by (intro inv_intros save_keeps notify_keeps)

lemma current_keeps: "preserves P (currentAdministrator w now req)"
  unfolding currentAdministrator_def by (intro inv_intros look_keeps)

lemma rotate_keeps: "preserves P (RotateInternal key b)"
  unfolding RotateInternal_def by (intro inv_intros put_keeps)

lemma guarded_remove:
  assumes "\<And>r. preserves (onDB P) (k r)"
  shows "preserves (onDB P) (onStore CountAdministrators \<bind> (\<lambda>c.
    if (case c of Inl _ \<Rightarrow> 0 | Inr n \<Rightarrow> n) \<le> 1 then adminErr back msg else onStore (RemoveAdministrator i) \<bind> k))"
  unfolding preserves_def
proof (intro allI impI)
  fix st :: "Snapshot \<times> db"
  assume st: "onDB P st"
  obtain c s1 where c: "run_state CountAdministrators (snd st) = (c, s1)" by (cases "run_state CountAdministrators (snd st)")
  have s1: "P s1" using preservesD_eq [OF look_keeps(7) _ c] st by (simp add: onDB_def)
  have big: "1 < length (admins s1)" if "c = Inr n" "1 < n" for n
    using c that by (auto simp: CountAdministrators_def elim!: query_Inr)
  show "onDB P (snd (run_state (onStore CountAdministrators \<bind> (\<lambda>c.
    if (case c of Inl _ \<Rightarrow> 0 | Inr n \<Rightarrow> n) \<le> 1 then adminErr back msg else onStore (RemoveAdministrator i) \<bind> k)) st))"
  proof (cases "(case c of Inl _ \<Rightarrow> 0 | Inr n \<Rightarrow> n) \<le> 1")
    case True
    then show ?thesis using c s1 by (cases st) (simp add: onStore_def adminErr_def onDB_def)
  next
    case False
    then have "1 < length (admins s1)" using big by (cases c) auto
    then have "onDB P (fst st, snd (run_state (RemoveAdministrator i) s1))" using remove_keeps [OF s1] by (simp add: onDB_def)
    then have "onDB P (snd (run_state (k (fst (run_state (RemoveAdministrator i) s1))) (fst st, snd (run_state (RemoveAdministrator i) s1))))"
      by (rule preservesD [OF assms])
    then show ?thesis using c False by (cases st) (simp add: onStore_def case_prod_beta)
  qed
qed

lemma removal_keeps: "preserves (onDB P) (handleAdminAdministratorRemove W req)"
  unfolding handleAdminAdministratorRemove_def Let_def
  by (intro preserves_bind preserves_if preserves_case_option guarded_remove onDB_store onDB_small current_keeps preserves_case_sum)

lemma handlers_keep:
  assumes "ToLower (uni (reqWorld W)) = lower"
  shows "preserves (onDB P) (adminHandlerOf route W req)"
  by (cases route)
    (simp_all only: adminHandlerOf.simps adminHandlers removal_keeps,
     (intro inv_intros saveGroup_keeps look_keeps current_keeps rotate_keeps quota_keeps add_keeps [folded assms])+)

lemma serve_keeps: "ToLower (uni (reqWorld W)) = lower \<Longrightarrow> preserves (onDB P) (serveAdmin route W req)"
  unfolding serveAdmin_def requireAdminPage_def by (intro inv_intros handlers_keep current_keeps)

lemma callback_keeps: "preserves P (adminAuthCallback provider override trustProxy w req)"
  unfolding adminAuthCallback_def Let_def by (intro inv_intros look_keeps login_keeps)

end

interpretation wfAdmin: admin_store wfdb lower for lower
  by unfold_locales (intro ignores_wfdb inv_intros | rule preservesD, intro inv_intros, assumption)+

section \<open>The allowlist is never emptied\<close>

definition hasAdmin :: "db \<Rightarrow> bool" where
  "hasAdmin s \<longleftrightarrow> wfdb s \<and> admins s \<noteq> []"

lemma hasAdminI: "preserves wfdb m \<Longrightarrow> (\<And>s. admins s \<noteq> [] \<Longrightarrow> admins (snd (run_state m s)) \<noteq> []) \<Longrightarrow> preserves hasAdmin m"
  by (simp add: preserves_def hasAdmin_def)

lemma ignores_hasAdmin: "ignores_faults hasAdmin"
  by (simp add: ignores_faults_def hasAdmin_def)

lemma keeps_hasAdmin: "preserves wfdb m \<Longrightarrow> keeps admins m \<Longrightarrow> preserves hasAdmin m"
  by (rule hasAdminI) (simp_all add: keepsD)

lemma nonempty_exec: "(\<And>s. admins s \<noteq> [] \<Longrightarrow> admins (snd (f s)) \<noteq> []) \<Longrightarrow> preserves (\<lambda>s. admins s \<noteq> []) (exec f)"
  by (rule preserves_exec) (simp_all add: ignores_faults_def)

lemma hasAdmin_add: "preserves hasAdmin (AddAdministrator lower email name)"
proof -
  have "preserves (\<lambda>s. admins s \<noteq> []) (insertAdministrator lower email name)"
    unfolding insertAdministrator_def by (rule nonempty_exec) (simp add: Let_def)
  moreover have "preserves (\<lambda>s. admins s \<noteq> []) (GetAdministrator i)" for i
    unfolding GetAdministrator_def by (rule preserves_query) (simp add: ignores_faults_def)
  ultimately have "preserves (\<lambda>s. admins s \<noteq> []) (AddAdministrator lower email name)"
    unfolding AddAdministrator_def by (intro inv_intros)
  then show ?thesis by (intro hasAdminI inv_intros) (simp add: preserves_def)
qed

lemma hasAdmin_login: "preserves hasAdmin (UpsertAdministratorLogin i sub name pic)"
proof -
  have "preserves (\<lambda>s. admins s \<noteq> []) (UpsertAdministratorLogin i sub name pic)"
    unfolding UpsertAdministratorLogin_def by (intro inv_intros nonempty_exec) (simp add: alter_def)
  then show ?thesis by (intro hasAdminI inv_intros) (simp add: preserves_def)
qed

lemma two_rows:
  assumes "uniq key xs" and "1 < length xs"
  shows "filter (\<lambda>x. key x \<noteq> i) xs \<noteq> []"
proof -
  obtain a b ys where "xs = a # b # ys" using assms(2) by (cases xs; cases "tl xs") auto
  with assms(1) show ?thesis by (auto simp: uniq_def)
qed

lemma hasAdmin_remove:
  assumes "hasAdmin s" and "1 < length (admins s)"
  shows "hasAdmin (snd (run_state (RemoveAdministrator i) s))"
proof -
  have u: "uniq aId (admins s)" using assms(1) wfdb_keys(12) by (simp add: hasAdmin_def)
  have "admins (snd (run_state (RemoveAdministrator i) s)) \<noteq> []"
    using two_rows [OF u assms(2), of i] assms(1)
    by (auto simp: RemoveAdministrator_def run_orWrap update_def run_exec hasAdmin_def split: list.split option.split prod.split)
  moreover have "wfdb (snd (run_state (RemoveAdministrator i) s))"
    using assms(1) by (intro preservesD [OF wf_RemoveAdministrator]) (simp add: hasAdmin_def)
  ultimately show ?thesis by (simp add: hasAdmin_def)
qed

lemma admins_untouched:
  "keeps admins (PutSetting key v by)" "keeps admins (UpsertAppQuota q)" "keeps admins (DeleteAppQuota i app)"
  unfolding PutSetting_def UpsertAppQuota_def DeleteAppQuota_def putSetting_def upsertQuota_def
  by (intro keeps_intros keeps_exec keeps_update; simp add: ignores_faults_def Let_def)+

interpretation allowlist: admin_store hasAdmin lower for lower
  by unfold_locales
    (rule ignores_hasAdmin hasAdmin_add hasAdmin_login hasAdmin_remove admins_untouched [THEN keeps_hasAdmin [rotated]] | assumption | intro inv_intros)+
text \<open>A sequence of requests to the area, each with the world it meets, sign-ins included.\<close>

datatype adminRequest = AreaRequest adminRoute adminWorld request | SignIn "idp option" string bool world request

fun serveArea :: "adminRequest list \<Rightarrow> unit mgr" where
  "serveArea [] = ret ()"
| "serveArea (AreaRequest route W req # rs) = do { _ \<leftarrow> serveAdmin route W req; serveArea rs }"
| "serveArea (SignIn provider override trustProxy w req # rs) =
     do { _ \<leftarrow> onStore (adminAuthCallback provider override trustProxy w req); serveArea rs }"

text \<open>
  the allowlist is never emptied. Whatever requests the administration area serves, one after
  the other, and whichever of their statements fail, an allowlist with a row keeps a row, and the
  constraints of the database hold: removing the last administrator is refused, and only a row that
  was counted among at least two others can go.
\<close>

theorem allowlist_never_emptied:
  assumes "wfdb s" and "admins s \<noteq> []" and "run_state (serveArea rs) (snap, s) = (u, (snap', s'))"
  shows "admins s' \<noteq> [] \<and> wfdb s'"
proof -
  have "preserves (onDB hasAdmin) (serveArea rs)"
    by (induction rs rule: serveArea.induct)
      (simp_all, (intro inv_intros allowlist.serve_keeps [OF refl] allowlist.callback_keeps; assumption)+)
  then have "onDB hasAdmin (snap', s')" by (rule preservesD_eq [OF _ _ assms(3)]) (use assms in \<open>simp add: onDB_def hasAdmin_def\<close>)
  then show ?thesis by (simp add: onDB_def hasAdmin_def)
qed

section \<open>Who may use the area\<close>

definition adminMayAct :: "world \<Rightarrow> request \<Rightarrow> db \<Rightarrow> bool" where
  "adminMayAct w req s \<longleftrightarrow>
     (case cookieOf req adminSessionCookieName of
        None \<Rightarrow> False
      | Some v \<Rightarrow> (case openSession (mac w) (secret w) (unixTime (gateTime w)) v of
          None \<Rightarrow> False
        | Some i \<Rightarrow> hasId aId (admins s) i))"

lemma GetAdministrator_Inr: "run_state (GetAdministrator i) s = (Inr a, s') \<Longrightarrow> hasId aId (admins s) i"
  unfolding GetAdministrator_def
  by (elim query_Inr) (auto simp: row_def hasId_def list_ex_iff find_Some_iff intro!: bexI [OF _ nth_mem] split: option.splits)

lemma currentAdministrator_Some:
  assumes "run_state (currentAdministrator w (gateTime w) req) s = (Some a, s')"
  shows "adminMayAct w req s"
  using assms GetAdministrator_Inr
  by (fastforce simp: currentAdministrator_def adminMayAct_def split: option.splits prod.splits sum.splits)

lemma reads_currentAdministrator: "reads (currentAdministrator w now req)"
  unfolding currentAdministrator_def by (intro reads_intros)

text \<open>
  C17: the area is closed to everyone who is not on the allowlist now. Without a session cookie that
  is signed, unexpired and names a row of the allowlist at the moment of the request, every route
  answers with the redirect to the login page and leaves the settings and every table alone.
\<close>

theorem admin_area_closed:
  assumes "\<not> adminMayAct (reqWorld W) req s"
  shows "\<exists>fs. run_state (serveAdmin route W req) (snap, s) = (AdminSeeOther ''/admin/login'', (snap, s\<lparr>faults := fs\<rparr>))"
proof -
  obtain me s1 where c: "run_state (currentAdministrator (reqWorld W) (gateTime (reqWorld W)) req) s = (me, s1)"
    by (cases "run_state (currentAdministrator (reqWorld W) (gateTime (reqWorld W)) req) s")
  have "me = None" using currentAdministrator_Some c assms by (cases me) auto
  moreover obtain fs where "s1 = s\<lparr>faults := fs\<rparr>" by (rule readsD [OF reads_currentAdministrator c])
  ultimately show ?thesis using c by (auto simp: serveAdmin_def requireAdminPage_def onStore_def)
qed
text \<open>The session of the administrator with this id, and the id posted by the form.\<close>

definition adminBy :: "int \<Rightarrow> string \<Rightarrow> request" where
  "adminBy i posted =
     \<lparr>cookieOf = (\<lambda>n. if n = adminSessionCookieName then Some (sessionValue (mac sampleWorld) (secret sampleWorld) i 100) else None),
      headerOf = (\<lambda>_. []), urlPath = [], hostName = ''host'', isTLS = False, pathValue = (\<lambda>_. []),
      queryOf = (\<lambda>_. []), formValue = (\<lambda>n. if n = ''id'' then posted else []), postContent = None, reqBody = []\<rparr>"

definition sampleAdmin :: adminWorld where
  "sampleAdmin = \<lparr>reqWorld = sampleWorld, codec = mailDecoders, encMail = (\<lambda>_. Inr []), encHTTP = (\<lambda>_. Inr []),
     encLogger = (\<lambda>_. Inr []), encRun = (\<lambda>_. Inr []), internalURL = [], reloadStatus = (\<lambda>_. Inr 204), tokenBytes = Inr []\<rparr>"

lemma currentAdministrator_adminBy:
  assumes "i \<in> {1, 2}" and "faults s = []"
  shows "run_state (currentAdministrator sampleWorld 0 (adminBy i posted)) s =
    (map_option scanAdministrator (List.find (\<lambda>a. aId a = i) (admins s)), s)"
proof -
  have "openSession (mac sampleWorld) (secret sampleWorld) (unixTime 0)
      (sessionValue (mac sampleWorld) (secret sampleWorld) i 100) = Some i"
    using assms(1) by (subst openSession_value) (auto simp: unixTime_def)
  then show ?thesis
    using assms(2) by (simp add: currentAdministrator_def adminBy_def GetAdministrator_def query_clean row_def split: option.split)
qed

text \<open>Administrator 1 removes administrator 2.\<close>

definition annAlone :: db where
  "annAlone = adminDB\<lparr>admins := filter (\<lambda>a. aId a \<noteq> 2) (admins adminDB)\<rparr>"

lemma remove_two:
  "\<exists>r. run_state (serveAdmin AdminRemove sampleAdmin (adminBy 1 ''2'')) (snap, adminDB) = (r, (snap, annAlone))"
proof -
  have f: "faults adminDB = []" by (simp add: adminDB_def emptyDB_def)
  have t: "gateTime sampleWorld = 0" "reqTime sampleWorld = 0" "reqWorld sampleAdmin = sampleWorld"
    by (simp_all add: sampleWorld_def sampleAdmin_def)
  have me: "\<exists>m. run_state (currentAdministrator sampleWorld 0 (adminBy 1 ''2'')) adminDB = (Some m, adminDB) \<and> admId m = 1"
    using currentAdministrator_adminBy [of 1 adminDB "''2''"] f by (simp add: adminDB_def scanAdministrator_def)
  have i: "ParseInt64 (formValue (adminBy 1 ''2'') ''id'') = Some 2"
    by (simp add: adminBy_def ParseInt64_def parse_uint_def digits_val_def digit_val_def is_digit_def)
  have c: "run_state CountAdministrators adminDB = (Inr 2, adminDB)"
    using f by (simp add: CountAdministrators_def query_clean) (simp add: adminDB_def)
  have rm: "run_state (RemoveAdministrator 2) adminDB = (Inr (), annAlone)"
    using f by (simp add: RemoveAdministrator_def clean_runs annAlone_def wrap_def)
  show ?thesis
    using me i c rm t by (auto simp: serveAdmin_def requireAdminPage_def onStore_def handleAdminAdministratorRemove_def adminOk_def Let_def)
qed

theorem allowlist_never_emptied_witness:
  "\<exists>u. run_state (serveArea [AreaRequest AdminRemove sampleAdmin (adminBy 1 ''2'')]) (defaults, adminDB) = (u, (defaults, annAlone)) \<and>
     map aId (admins annAlone) = [1] \<and> wfdb annAlone"
proof -
  obtain u where u: "run_state (serveArea [AreaRequest AdminRemove sampleAdmin (adminBy 1 ''2'')]) (defaults, adminDB) = (u, (defaults, annAlone))"
    using remove_two [of defaults] by auto
  have "wfdb adminDB" "admins adminDB \<noteq> []" by (simp_all add: wfdb_def adminDB_def emptyDB_def keyed_def uniq_def)
  with allowlist_never_emptied [OF _ _ u] have "wfdb annAlone" by blast
  with u show ?thesis by (simp add: annAlone_def adminDB_def)
qed

theorem admin_area_closed_witness:
  "(\<exists>r. run_state (serveAdmin AdminRemove sampleAdmin (adminBy 1 ''2'')) (defaults, adminDB) = (r, (defaults, annAlone))) \<and>
   adminMayAct sampleWorld (adminBy 2 ''1'') adminDB \<and>
   (\<exists>fs. run_state (serveAdmin AdminRemove sampleAdmin (adminBy 2 ''1'')) (defaults, annAlone) =
     (AdminSeeOther ''/admin/login'', (defaults, annAlone\<lparr>faults := fs\<rparr>)))"
proof (intro conjI)
  have o: "openSession (mac sampleWorld) (secret sampleWorld) (unixTime 0)
      (sessionValue (mac sampleWorld) (secret sampleWorld) 2 100) = Some 2"
    by (subst openSession_value) (auto simp: unixTime_def)
  have t: "gateTime sampleWorld = 0" "reqWorld sampleAdmin = sampleWorld" by (simp_all add: sampleWorld_def sampleAdmin_def)
  have may: "adminMayAct sampleWorld (adminBy 2 ''1'') s = hasId aId (admins s) 2" for s
    using o t by (simp add: adminMayAct_def adminBy_def)
  show "\<exists>r. run_state (serveAdmin AdminRemove sampleAdmin (adminBy 1 ''2'')) (defaults, adminDB) = (r, (defaults, annAlone))"
    by (rule remove_two)
  show "adminMayAct sampleWorld (adminBy 2 ''1'') adminDB" unfolding may by (simp add: hasId_def adminDB_def)
  have "\<not> adminMayAct (reqWorld sampleAdmin) (adminBy 2 ''1'') annAlone" unfolding t may by (simp add: hasId_def annAlone_def list_ex_iff)
  then show "\<exists>fs. run_state (serveAdmin AdminRemove sampleAdmin (adminBy 2 ''1'')) (defaults, annAlone) =
     (AdminSeeOther ''/admin/login'', (defaults, annAlone\<lparr>faults := fs\<rparr>))"
    by (rule admin_area_closed)
qed
section \<open>Two removals at the same time\<close>

text \<open>
  The handler in two parts: its checks, up to the count of the administrators, and the statement that
  deletes. Requests are served concurrently, so the parts of two requests may alternate.
\<close>

definition removalChecked :: "adminWorld \<Rightarrow> request \<Rightarrow> (string + int) mgr" where
  "removalChecked W req = do {
     me \<leftarrow> onStore (currentAdministrator (reqWorld W) (reqTime (reqWorld W)) req);
     case ParseInt64 (formValue req ''id'') of
       None \<Rightarrow> ret (Inl ''bad administrator'')
     | Some i \<Rightarrow>
         if i \<le> 0 then ret (Inl ''bad administrator'')
         else if map_option admId me = Some i then ret (Inl ''you cannot remove yourself'')
         else do {
           c \<leftarrow> onStore CountAdministrators;
           ret (if (case c of Inl _ \<Rightarrow> 0 | Inr k \<Rightarrow> k) \<le> 1 then Inl ''the last administrator cannot be removed'' else Inr i)
         }
   }"

definition removalDone :: "adminWorld \<Rightarrow> string + int \<Rightarrow> adminHandler" where
  "removalDone W verdict =
     (case verdict of
        Inl msg \<Rightarrow> adminErr ''/admin/administrators'' msg
      | Inr i \<Rightarrow> do {
          r \<leftarrow> onStore (RemoveAdministrator i);
          case r of
            Inl e \<Rightarrow> adminErr ''/admin/administrators'' (errText (uni (reqWorld W)) e)
          | Inr _ \<Rightarrow> adminOk ''/admin/administrators'' ''administrator removed''
        })"

lemma removal_parts: "handleAdminAdministratorRemove W req = do { c \<leftarrow> removalChecked W req; removalDone W c }"
  by (rule state.expand, rule ext)
    (simp add: handleAdminAdministratorRemove_def removalChecked_def removalDone_def Let_def del: map_option_eq_Some split: option.split prod.split)

lemma checked_other:
  assumes "i \<in> {1, 2}" and "ParseInt64 posted = Some j" and "0 < j" and "i \<noteq> j"
  shows "run_state (removalChecked sampleAdmin (adminBy i posted)) (snap, adminDB) = (Inr j, (snap, adminDB))"
proof -
  have f: "faults adminDB = []" by (simp add: adminDB_def emptyDB_def)
  have t: "reqTime sampleWorld = 0" "reqWorld sampleAdmin = sampleWorld" by (simp_all add: sampleWorld_def sampleAdmin_def)
  have c: "run_state CountAdministrators adminDB = (Inr 2, adminDB)"
    using f by (simp add: CountAdministrators_def query_clean) (simp add: adminDB_def)
  have "formValue (adminBy i posted) ''id'' = posted" by (simp add: adminBy_def)
  moreover have "map_option admId (map_option scanAdministrator (List.find (\<lambda>a. aId a = i) (admins adminDB))) = Some i"
    using assms(1) by (auto simp: adminDB_def scanAdministrator_def)
  ultimately show ?thesis
    using assms(2-4) currentAdministrator_adminBy [OF assms(1) f, of posted] c
    by (simp add: removalChecked_def onStore_def t del: map_option_eq_Some)
qed

text \<open>
  C36: two removals at the same time empty the allowlist. The handler is its checks followed by the
  delete; when the two administrators there are remove each other and both checks come before both
  deletes, both requests succeed and nobody can enter the administration area any more.
\<close>

theorem removals_race:
  "handleAdminAdministratorRemove W req = do { c \<leftarrow> removalChecked W req; removalDone W c } \<and>
   (\<exists>s'. run_state (do {
        c1 \<leftarrow> removalChecked sampleAdmin (adminBy 1 ''2'');
        c2 \<leftarrow> removalChecked sampleAdmin (adminBy 2 ''1'');
        r1 \<leftarrow> removalDone sampleAdmin c1;
        r2 \<leftarrow> removalDone sampleAdmin c2;
        ret [r1, r2]
      }) (snap, adminDB) =
      (replicate 2 (AdminSeeOther (''/admin/administrators?ok='' @ queryEscape ''administrator removed'')), (snap, s')) \<and> length (admins adminDB) = 2 \<and> admins s' = [])"
proof -
  have p: "ParseInt64 ''2'' = Some 2" "ParseInt64 ''1'' = Some 1"
    by (simp_all add: ParseInt64_def parse_uint_def digits_val_def digit_val_def is_digit_def)
  have c: "run_state (removalChecked sampleAdmin (adminBy 1 ''2'')) (snap, adminDB) = (Inr 2, (snap, adminDB))"
    "run_state (removalChecked sampleAdmin (adminBy 2 ''1'')) (snap, adminDB) = (Inr 1, (snap, adminDB))"
    by (rule checked_other; simp add: p)+
  have f: "faults adminDB = []" by (simp add: adminDB_def emptyDB_def)
  have r: "run_state (RemoveAdministrator 2) adminDB = (Inr (), annAlone)"
    "run_state (RemoveAdministrator 1) annAlone = (Inr (), annAlone\<lparr>admins := []\<rparr>)"
    using f by (simp_all add: RemoveAdministrator_def clean_runs annAlone_def wrap_def adminDB_def emptyDB_def)
  have d: "run_state (removalDone sampleAdmin (Inr 2)) (snap, adminDB) =
      (AdminSeeOther (''/admin/administrators?ok='' @ queryEscape ''administrator removed''), (snap, annAlone))"
    "run_state (removalDone sampleAdmin (Inr 1)) (snap, annAlone) =
      (AdminSeeOther (''/admin/administrators?ok='' @ queryEscape ''administrator removed''), (snap, annAlone\<lparr>admins := []\<rparr>))"
    by (simp_all add: removalDone_def onStore_def r adminOk_def)
  have "length (admins adminDB) = 2" by (simp add: adminDB_def)
  then show ?thesis by (intro conjI removal_parts exI [of _ "annAlone\<lparr>admins := []\<rparr>"]) (simp_all add: c d eval_nat_numeral)
qed

end
