(* ===== verification/Migrate.thy ===== *)
theory Migrate
  imports GoText
begin

text \<open>
  Connecting to the database and bringing its schema up to date: server/internal/db/db.go and
  migrate.go. What the SQL of a migration file does to the database is an argument (\<open>runSQL\<close>), as
  are the embedded files; the bookkeeping in \<open>schema_migrations\<close>, the transactions and every way a
  statement can fail are modelled.
\<close>

section \<open>The server\<close>

text \<open>
  The outcome of a statement: it succeeds, it fails, or it takes effect and the connection is lost
  before the answer arrives.
\<close>

datatype outcome = Succeeds | Fails goerr | Lost goerr

text \<open>\<open>applied\<close> is the column of \<open>schema_migrations\<close>, None before that table exists.\<close>

record 'd server =
  schemaOf :: 'd
  applied :: "int list option"
  script :: "outcome list"

definition stmt :: "('d server \<Rightarrow> 'a result \<times> 'd server) \<Rightarrow> ('d server, 'a result) state" where
  "stmt f = State (\<lambda>s.
     case script s of
       [] \<Rightarrow> f s
     | Succeeds # os \<Rightarrow> f (s\<lparr>script := os\<rparr>)
     | Fails e # os \<Rightarrow> (Inl e, s\<lparr>script := os\<rparr>)
     | Lost e # os \<Rightarrow> (Inl e, snd (f (s\<lparr>script := os\<rparr>))))"

record migration =
  migVersion :: int
  migName :: string

definition atVersion :: "string \<Rightarrow> migration \<Rightarrow> string" where
  "atVersion what m = what @ '' migration '' @ itoa_int (migVersion m)"

section \<open>The embedded files\<close>

text \<open>The entries of the directory: name, and whether it is a directory.\<close>

definition parseEntry :: "string \<Rightarrow> migration result" where
  "parseEntry name =
     (case IndexByte CHR ''_'' name of
        None \<Rightarrow> Inl (Fmt ''migration file %q does not start with NNNN_'' [name])
      | Some i \<Rightarrow>
          (case Atoi (take i name) of
             None \<Rightarrow> Inl (Fmt ''migration file %q has a non-numeric version prefix: %w'' [name])
           | Some v \<Rightarrow> Inr \<lparr>migVersion = v, migName = name\<rparr>))"

fun parseEntries :: "(string \<times> bool) list \<Rightarrow> migration list result" where
  "parseEntries [] = Inr []"
| "parseEntries ((name, isDir) # es) =
     (if isDir then parseEntries es
      else (case parseEntry name of
              Inl e \<Rightarrow> Inl e
            | Inr m \<Rightarrow> map_sum id (\<lambda>ms. m # ms) (parseEntries es)))"

section \<open>Applying\<close>

text \<open>The insert into \<open>schema_migrations\<close>, whose primary key is the version.\<close>

definition recorded :: "migration \<Rightarrow> 'd server \<Rightarrow> int list result" where
  "recorded m s =
     (case applied s of
        None \<Rightarrow> Inl (PgError ''42P01'')
      | Some vs \<Rightarrow> if migVersion m \<in> set vs then Inl (PgError ''23505'') else Inr (vs @ [migVersion m]))"

text \<open>
  One transaction: what its statements would change is kept aside and installed by the commit; when
  one of them fails it is dropped.
\<close>

definition applyOne ::
  "(string \<Rightarrow> 'd \<Rightarrow> 'd result) \<Rightarrow> migration \<Rightarrow> string \<Rightarrow> ('d server, goerr option) state" where
  "applyOne runSQL m sql = do {
     b \<leftarrow> stmt (\<lambda>s. (Inr (), s));
     case b of
       Inl e \<Rightarrow> ret (Some (Wrap (atVersion ''begin'' m) e))
     | Inr _ \<Rightarrow> do {
         x \<leftarrow> stmt (\<lambda>s. (runSQL sql (schemaOf s), s));
         case x of
           Inl e \<Rightarrow> ret (Some (Wrap (''apply migration '' @ migName m) e))
         | Inr d \<Rightarrow> do {
             i \<leftarrow> stmt (\<lambda>s. (recorded m s, s));
             case i of
               Inl e \<Rightarrow> ret (Some (Wrap (atVersion ''record'' m) e))
             | Inr vs \<Rightarrow> do {
                 c \<leftarrow> stmt (\<lambda>s. (Inr (), s\<lparr>schemaOf := d, applied := Some vs\<rparr>));
                 case c of
                   Inl e \<Rightarrow> ret (Some (Wrap (atVersion ''commit'' m) e))
                 | Inr _ \<Rightarrow> ret None
               }
           }
       }
   }"

fun applyAll ::
  "(string \<Rightarrow> 'd \<Rightarrow> 'd result) \<Rightarrow> (string \<Rightarrow> string result) \<Rightarrow> migration list \<Rightarrow> ('d server, goerr option) state" where
  "applyAll runSQL readFile [] = ret None"
| "applyAll runSQL readFile (m # ms) = do {
     n \<leftarrow> stmt (\<lambda>s. (case applied s of
             None \<Rightarrow> Inl (PgError ''42P01'')
           | Some vs \<Rightarrow> Inr (count_list vs (migVersion m)), s));
     case n of
       Inl e \<Rightarrow> ret (Some (Wrap (atVersion ''check'' m) e))
     | Inr k \<Rightarrow>
         if 0 < k then applyAll runSQL readFile ms
         else (case readFile (''migrations/'' @ migName m) of
                 Inl e \<Rightarrow> ret (Some (Wrap (''read migration '' @ migName m) e))
               | Inr sql \<Rightarrow> do {
                   e \<leftarrow> applyOne runSQL m sql;
                   case e of Some e \<Rightarrow> ret (Some e) | None \<Rightarrow> applyAll runSQL readFile ms
                 })
   }"

text \<open>
  \<open>sort.Slice\<close> is an insertion sort on the few files there are, so it is stable; versions that are
  distinct have one order only.
\<close>

definition migrate ::
  "(string \<Rightarrow> 'd \<Rightarrow> 'd result) \<Rightarrow> (string \<Rightarrow> string result) \<Rightarrow> (string \<times> bool) list result \<Rightarrow> ('d server, goerr option) state" where
  "migrate runSQL readFile readDir = do {
     t \<leftarrow> stmt (\<lambda>s. (Inr (), s\<lparr>applied := Some (case applied s of None \<Rightarrow> [] | Some vs \<Rightarrow> vs)\<rparr>));
     case t of
       Inl e \<Rightarrow> ret (Some (Wrap ''create schema_migrations'' e))
     | Inr _ \<Rightarrow>
         (case readDir of
            Inl e \<Rightarrow> ret (Some (Wrap ''read embedded migrations'' e))
          | Inr entries \<Rightarrow>
              (case parseEntries entries of
                 Inl e \<Rightarrow> ret (Some e)
               | Inr ms \<Rightarrow> applyAll runSQL readFile (sort_key migVersion ms)))
   }"

text \<open>
  Opening yields the bound on the number of connections. \<open>parseDSN\<close> is the check of the data source
  name by the driver; closing the pool after a failure leaves nothing behind.
\<close>

definition Open ::
  "(string \<Rightarrow> 'd \<Rightarrow> 'd result) \<Rightarrow> (string \<Rightarrow> string result) \<Rightarrow> (string \<times> bool) list result \<Rightarrow> (string \<Rightarrow> goerr option) \<Rightarrow>
    string \<Rightarrow> int \<Rightarrow> ('d server, int result) state" where
  "Open runSQL readFile readDir parseDSN dsn maxOpen =
     (case parseDSN dsn of
        Some e \<Rightarrow> ret (Inl (Wrap ''open database'' e))
      | None \<Rightarrow> do {
          p \<leftarrow> stmt (\<lambda>s. (Inr (), s));
          case p of
            Inl e \<Rightarrow> ret (Inl (Wrap ''reach database'' e))
          | Inr _ \<Rightarrow> do {
              e \<leftarrow> migrate runSQL readFile readDir;
              case e of
                Some e \<Rightarrow> ret (Inl (Wrap ''migrate'' e))
              | None \<Rightarrow> ret (Inr (if maxOpen \<le> 0 then 8 else maxOpen))
            }
        })"
section \<open>Every boot moves along the same path\<close>

text \<open>What a list of migrations makes of a schema when nothing fails.\<close>

fun migrated :: "(string \<Rightarrow> 'd \<Rightarrow> 'd result) \<Rightarrow> (string \<Rightarrow> string result) \<Rightarrow> migration list \<Rightarrow> 'd \<Rightarrow> 'd option" where
  "migrated runSQL readFile [] d = Some d"
| "migrated runSQL readFile (m # ms) d =
     (case readFile (''migrations/'' @ migName m) of
        Inl e \<Rightarrow> None
      | Inr sql \<Rightarrow> (case runSQL sql d of Inl e \<Rightarrow> None | Inr d' \<Rightarrow> migrated runSQL readFile ms d'))"

lemma migrated_append:
  "migrated runSQL readFile (xs @ ys) d =
    (case migrated runSQL readFile xs d of None \<Rightarrow> None | Some d' \<Rightarrow> migrated runSQL readFile ys d')"
  by (induction xs arbitrary: d) (auto split: sum.splits)

lemma migrated_prefix: "migrated runSQL readFile ms d = Some c \<Longrightarrow> \<exists>d'. migrated runSQL readFile (take k ms) d = Some d'"
  using migrated_append [of runSQL readFile "take k ms" "drop k ms" d] by (cases "migrated runSQL readFile (take k ms) d") simp_all

text \<open>The database after the first \<open>k\<close> migrations, started from \<open>d\<close>.\<close>

definition inStep :: "(string \<Rightarrow> 'd \<Rightarrow> 'd result) \<Rightarrow> (string \<Rightarrow> string result) \<Rightarrow> migration list \<Rightarrow> 'd \<Rightarrow> nat \<Rightarrow> 'd server \<Rightarrow> bool" where
  "inStep runSQL readFile ms d k s \<longleftrightarrow>
     k \<le> length ms \<and> migrated runSQL readFile (take k ms) d = Some (schemaOf s) \<and>
     applied s = Some (map migVersion (take k ms))"

lemma inStep_script [simp]: "inStep runSQL readFile ms d k (s\<lparr>script := os\<rparr>) = inStep runSQL readFile ms d k s"
  by (simp add: inStep_def)

lemma stmt_cases:
  assumes "run_state (stmt f) s = (r, s')"
  obtains (ended) os where "(r, s') = f (s\<lparr>script := os\<rparr>)"
  | (failed) e os where "r = Inl e" "s' = s\<lparr>script := os\<rparr>" "script s \<noteq> []"
  | (lost) e os where "r = Inl e" "s' = snd (f (s\<lparr>script := os\<rparr>))" "script s \<noteq> []"
proof (cases "script s")
  case Nil
  then have e: "s\<lparr>script := []\<rparr> = s" by simp
  have "f s = (r, s')" using assms Nil by (simp add: stmt_def)
  then show ?thesis by (intro that(1) [of "[]"]) (simp only: e)
next
  case (Cons o1 os)
  then show ?thesis
    using assms that(1) [of os] that(2) [of _ os] that(3) [of _ os] by (cases o1) (auto simp: stmt_def)
qed

text \<open>A statement that writes nothing can only answer or fail.\<close>

lemma look_cases:
  assumes "run_state (stmt (\<lambda>s. (f s, s))) s = (r, s')" and "\<And>os. f (s\<lparr>script := os\<rparr>) = f s"
  obtains os where "s' = s\<lparr>script := os\<rparr>" "\<And>x. r = Inr x \<Longrightarrow> f s = Inr x"
  using assms(1)
proof (cases rule: stmt_cases)
  case (ended os)
  then show ?thesis using that [of os] assms(2) by simp
next
  case (failed e os)
  then show ?thesis using that [of os] by simp
next
  case (lost e os)
  then show ?thesis using that [of os] by simp
qed

lemma applyOne_step:
  fixes s :: "'d server"
  assumes "inStep runSQL readFile ms d k s" and "k < length ms" and "readFile (''migrations/'' @ migName (ms ! k)) = Inr sql"
    and "run_state (applyOne runSQL (ms ! k) sql) s = (r, s')"
  shows "inStep runSQL readFile ms d (Suc k) s' \<or> r \<noteq> None \<and> inStep runSQL readFile ms d k s'"
proof -
  have step: "inStep runSQL readFile ms d (Suc k) (s\<lparr>script := os, schemaOf := c, applied := Some vs\<rparr>)"
    if "runSQL sql (schemaOf s) = Inr c" "recorded (ms ! k) s = Inr vs" for c vs os
    using that assms(1-3) by (auto simp: inStep_def recorded_def take_Suc_conv_app_nth migrated_append split: if_splits)
  obtain b s1 where b: "run_state (stmt (\<lambda>s :: 'd server. (Inr (), s))) s = (b, s1)"
    by (cases "run_state (stmt (\<lambda>s :: 'd server. (Inr (), s))) s")
  obtain os1 where s1: "s1 = s\<lparr>script := os1\<rparr>" by (rule look_cases [OF b]) simp
  obtain x s2 where x: "run_state (stmt (\<lambda>s. (runSQL sql (schemaOf s), s))) s1 = (x, s2)"
    by (cases "run_state (stmt (\<lambda>s. (runSQL sql (schemaOf s), s))) s1")
  obtain os2 where s2: "s2 = s\<lparr>script := os2\<rparr>" "\<And>c. x = Inr c \<Longrightarrow> runSQL sql (schemaOf s) = Inr c"
    by (rule look_cases [OF x]) (simp_all add: s1)
  obtain i s3 where i: "run_state (stmt (\<lambda>s. (recorded (ms ! k) s, s))) s2 = (i, s3)"
    by (cases "run_state (stmt (\<lambda>s. (recorded (ms ! k) s, s))) s2")
  obtain os3 where s3: "s3 = s\<lparr>script := os3\<rparr>" "\<And>vs. i = Inr vs \<Longrightarrow> recorded (ms ! k) s = Inr vs"
    by (rule look_cases [OF i]) (simp_all add: s2 recorded_def)
  show ?thesis
  proof (cases "\<exists>u c vs. b = Inr u \<and> x = Inr c \<and> i = Inr vs")
    case False
    then have "r \<noteq> None \<and> (\<exists>os. s' = s\<lparr>script := os\<rparr>)"
      using assms(4) b x i s1 s2(1) s3(1) by (auto simp: applyOne_def split: sum.splits)
    then show ?thesis using assms(1) by auto
  next
    case True
    then obtain c vs where all: "b = Inr ()" "x = Inr c" "i = Inr vs" by auto
    obtain z s4 where z: "run_state (stmt (\<lambda>s. (Inr (), s\<lparr>schemaOf := c, applied := Some vs\<rparr>))) s3 = (z, s4)"
      by (cases "run_state (stmt (\<lambda>s. (Inr (), s\<lparr>schemaOf := c, applied := Some vs\<rparr>))) s3")
    have r: "s' = s4 \<and> (r = None \<longleftrightarrow> z = Inr ())"
      using assms(4) b x i z all by (auto simp: applyOne_def split: sum.splits)
    from z show ?thesis
      using r assms(1) step [OF s2(2) s3(2)] all s3(1) by (cases rule: stmt_cases) auto
  qed
qed

lemma applyAll_step:
  assumes "inStep runSQL readFile ms d k s" and "i \<le> k" and "distinct (map migVersion ms)"
    and "run_state (applyAll runSQL readFile (drop i ms)) s = (r, s')"
  shows "\<exists>j \<ge> k. inStep runSQL readFile ms d j s' \<and> (r = None \<longrightarrow> j = length ms)"
  using assms(1,2,4)
proof (induction "length ms - i" arbitrary: i k s)
  case 0
  then have "k = length ms" "drop i ms = []" by (auto simp: inStep_def)
  then show ?case using 0 by auto
next
  case (Suc n)
  then have i: "i < length ms" by simp
  define m where "m = ms ! i"
  have d: "drop i ms = m # drop (Suc i) ms" using i by (simp add: m_def Cons_nth_drop_Suc)
  define look where "look = (\<lambda>s :: 'a server. case applied s of
      None \<Rightarrow> Inl (PgError ''42P01'') | Some vs \<Rightarrow> Inr (count_list vs (migVersion m)))"
  obtain c s1 where c: "run_state (stmt (\<lambda>s. (look s, s))) s = (c, s1)" by (cases "run_state (stmt (\<lambda>s. (look s, s))) s")
  obtain os where s1: "s1 = s\<lparr>script := os\<rparr>" "\<And>x. c = Inr x \<Longrightarrow> look s = Inr x"
    by (rule look_cases [OF c]) (simp_all add: look_def)
  have at: "inStep runSQL readFile ms d k s1" using Suc.prems(1) s1(1) by simp
  have run: "run_state (case c of Inl e \<Rightarrow> ret (Some (Wrap (atVersion ''check'' m) e))
      | Inr k \<Rightarrow> if 0 < k then applyAll runSQL readFile (drop (Suc i) ms)
         else (case readFile (''migrations/'' @ migName m) of
                 Inl e \<Rightarrow> ret (Some (Wrap (''read migration '' @ migName m) e))
               | Inr sql \<Rightarrow> do {
                   e \<leftarrow> applyOne runSQL m sql;
                   case e of Some e \<Rightarrow> ret (Some e) | None \<Rightarrow> applyAll runSQL readFile (drop (Suc i) ms)
                 })) s1 = (r, s')"
    using Suc.prems(3) c unfolding d applyAll.simps look_def by simp
  show ?case
  proof (cases c)
    case (Inl e)
    then show ?thesis using run at by auto
  next
    case (Inr n1)
    have look: "Some (map migVersion (take k ms)) = applied s" "n1 = count_list (map migVersion (take k ms)) (migVersion m)"
      using s1(2) [OF Inr] Suc.prems(1) by (auto simp: look_def inStep_def)
    show ?thesis
    proof (cases "0 < n1")
      case True
      have "i < k"
      proof (rule ccontr)
        assume "\<not> i < k"
        then have "k = i" using Suc.prems(2) by simp
        moreover have "migVersion m \<notin> set (map migVersion (take i ms))"
          using assms(3) i distinct_take [of "map migVersion ms" "Suc i"] by (simp add: m_def take_map take_Suc_conv_app_nth)
        ultimately show False using True look(2) by (metis count_list_0_iff less_irrefl)
      qed
      moreover have "run_state (applyAll runSQL readFile (drop (Suc i) ms)) s1 = (r, s')" using run Inr True by simp
      ultimately show ?thesis using Suc.hyps(1) [of "Suc i" k s1] Suc.hyps(2) at by simp
    next
      case False
      have k: "k = i"
      proof (rule ccontr)
        assume "k \<noteq> i"
        then have "m \<in> set (take k ms)" using Suc.prems(2) i by (auto simp: m_def in_set_conv_nth intro!: exI [of _ i])
        then show False using False look(2) by (metis count_list_0_iff gr0I image_eqI list.set_map)
      qed
      show ?thesis
      proof (cases "readFile (''migrations/'' @ migName m)")
        case (Inl e)
        then show ?thesis using run at \<open>c = Inr n1\<close> False by auto
      next
        case (Inr sql)
        obtain e s2 where e: "run_state (applyOne runSQL m sql) s1 = (e, s2)" by (cases "run_state (applyOne runSQL m sql) s1")
        have st: "inStep runSQL readFile ms d (Suc k) s2 \<or> e \<noteq> None \<and> inStep runSQL readFile ms d k s2"
          using applyOne_step [OF at _ _ e [unfolded m_def k [symmetric]]] i k Inr by (simp add: m_def)
        show ?thesis
        proof (cases e)
          case (Some x)
          then show ?thesis using run e st Inr \<open>c = Inr n1\<close> False by (auto intro: le_SucI)
        next
          case None
          then have "run_state (applyAll runSQL readFile (drop (Suc i) ms)) s2 = (r, s')" "inStep runSQL readFile ms d (Suc k) s2"
            using run e st Inr \<open>c = Inr n1\<close> False by auto
          moreover have "n = length ms - Suc i" using Suc.hyps(2) by simp
          ultimately show ?thesis using Suc.hyps(1) [of "Suc i" "Suc k" s2] k by (auto dest: Suc_leD)
        qed
      qed
    qed
  qed
qed

section \<open>A boot on a working server\<close>

lemma stmt_clean: "script s = [] \<Longrightarrow> run_state (stmt f) s = f s"
  by (simp add: stmt_def)

lemma applyOne_clean:
  assumes "script s = []" and "runSQL sql (schemaOf s) = Inr c" and "applied s = Some vs" and "migVersion m \<notin> set vs"
  shows "run_state (applyOne runSQL m sql) s = (None, s\<lparr>schemaOf := c, applied := Some (vs @ [migVersion m])\<rparr>)"
  using assms by (simp add: applyOne_def stmt_clean recorded_def)

lemma applyAll_skips:
  assumes "script s = []" and "applied s = Some vs" and "set (map migVersion pre) \<subseteq> set vs"
  shows "run_state (applyAll runSQL readFile (pre @ rest)) s = run_state (applyAll runSQL readFile rest) s"
  using assms(3) by (induction pre) (simp_all add: stmt_clean assms(1,2) count_list_0_iff)

lemma applyAll_clean:
  assumes "script s = []" and "applied s = Some vs" and "migrated runSQL readFile ms (schemaOf s) = Some c"
    and "distinct (map migVersion ms)" and "set vs \<inter> set (map migVersion ms) = {}"
  shows "run_state (applyAll runSQL readFile ms) s = (None, s\<lparr>schemaOf := c, applied := Some (vs @ map migVersion ms)\<rparr>)"
  using assms
proof (induction ms arbitrary: s vs)
  case Nil
  then show ?case by (cases s) simp
next
  case (Cons m ms)
  then obtain sql d where sql: "readFile (''migrations/'' @ migName m) = Inr sql" "runSQL sql (schemaOf s) = Inr d"
    "migrated runSQL readFile ms d = Some c" by (auto split: sum.splits)
  define s1 where "s1 = s\<lparr>schemaOf := d, applied := Some (vs @ [migVersion m])\<rparr>"
  have "run_state (applyOne runSQL m sql) s = (None, s1)"
    unfolding s1_def by (rule applyOne_clean) (use Cons.prems sql in simp_all)
  moreover have "run_state (applyAll runSQL readFile ms) s1 = (None, s1\<lparr>schemaOf := c, applied := Some ((vs @ [migVersion m]) @ map migVersion ms)\<rparr>)"
    by (rule Cons.IH) (use Cons.prems sql in \<open>auto simp: s1_def\<close>)
  moreover have "count_list vs (migVersion m) = 0" using Cons.prems(5) by (auto simp: count_list_0_iff)
  ultimately show ?case using Cons.prems(1,2) sql(1) by (simp add: stmt_clean s1_def)
qed

text \<open>A boot with the outcomes of its statements, and a history of boots.\<close>

definition boot ::
  "(string \<Rightarrow> 'd \<Rightarrow> 'd result) \<Rightarrow> (string \<Rightarrow> string result) \<Rightarrow> (string \<times> bool) list result \<Rightarrow> 'd server \<Rightarrow> outcome list \<Rightarrow> 'd server" where
  "boot runSQL readFile readDir s os = snd (run_state (migrate runSQL readFile readDir) (s\<lparr>script := os\<rparr>))"

text \<open>Where a boot can leave a database: on the path of one undisturbed run, the bookkeeping table maybe still missing at its start.\<close>

definition onPath :: "(string \<Rightarrow> 'd \<Rightarrow> 'd result) \<Rightarrow> (string \<Rightarrow> string result) \<Rightarrow> migration list \<Rightarrow> 'd \<Rightarrow> 'd server \<Rightarrow> bool" where
  "onPath runSQL readFile ms d s \<longleftrightarrow>
     applied s = None \<and> schemaOf s = d \<or> (\<exists>k. inStep runSQL readFile ms d k s)"

lemma boot_onPath:
  assumes "parseEntries entries = Inr ps" and "distinct (map migVersion ps)"
    and "onPath runSQL readFile (sort_key migVersion ps) d s"
  shows "onPath runSQL readFile (sort_key migVersion ps) d (boot runSQL readFile (Inr entries) s os)"
proof -
  define ms where "ms = sort_key migVersion ps"
  have dist: "distinct (map migVersion ms)" using assms(2) by (simp add: ms_def distinct_map inj_on_def)
  define ensured where "ensured = (\<lambda>s :: 'a server. s\<lparr>applied := Some (case applied s of None \<Rightarrow> [] | Some vs \<Rightarrow> vs)\<rparr>)"
  have ensure: "\<exists>k. inStep runSQL readFile ms d k (ensured (s\<lparr>script := os\<rparr>))" for os
    using assms(3) by (auto simp: onPath_def ensured_def ms_def [symmetric] inStep_def intro: exI [of _ 0])
  obtain t s1 where t: "run_state (stmt (\<lambda>s :: 'a server. (Inr (), ensured s))) (s\<lparr>script := os\<rparr>) = (t, s1)"
    by (cases "run_state (stmt (\<lambda>s :: 'a server. (Inr (), ensured s))) (s\<lparr>script := os\<rparr>)")
  have s1: "(\<exists>k. inStep runSQL readFile ms d k s1) \<or> (\<exists>e os. t = Inl e \<and> s1 = s\<lparr>script := os\<rparr>)"
    using t by (cases rule: stmt_cases) (use ensure in auto)
  show ?thesis
  proof (cases t)
    case (Inl e)
    then have "boot runSQL readFile (Inr entries) s os = s1" using t by (simp add: boot_def migrate_def ensured_def)
    then show ?thesis using s1 assms(3) by (auto simp: onPath_def ms_def)
  next
    case (Inr u)
    then obtain k where k: "inStep runSQL readFile ms d k s1" using s1 by auto
    obtain r s2 where r: "run_state (applyAll runSQL readFile (drop 0 ms)) s1 = (r, s2)"
      by (cases "run_state (applyAll runSQL readFile (drop 0 ms)) s1")
    have "boot runSQL readFile (Inr entries) s os = s2"
      using t r Inr assms(1) by (simp add: boot_def migrate_def ensured_def ms_def)
    then show ?thesis using applyAll_step [OF k _ dist r] by (auto simp: onPath_def ms_def)
  qed
qed

text \<open>
  C18: an interrupted migration is resumed, not repeated. Let the embedded files have distinct
  versions and apply to the fresh schema in order. Then however many boots there were before,
  whichever of their statements failed, and even where a commit went through but its answer was
  lost, a boot on a working server succeeds and leaves exactly the schema and the bookkeeping of one
  undisturbed boot: every migration has been applied once, in the order of its version.
\<close>

theorem migrate_resumes:
  assumes "parseEntries entries = Inr ps" and "distinct (map migVersion ps)"
    and "applied s0 = None" and "migrated runSQL readFile (sort_key migVersion ps) (schemaOf s0) = Some c"
  shows "run_state (migrate runSQL readFile (Inr entries)) ((foldl (boot runSQL readFile (Inr entries)) s0 oss)\<lparr>script := []\<rparr>) =
    (None, \<lparr>schemaOf = c, applied = Some (map migVersion (sort_key migVersion ps)), script = []\<rparr>)"
proof -
  define ms where "ms = sort_key migVersion ps"
  have dist: "distinct (map migVersion ms)" using assms(2) by (simp add: ms_def distinct_map inj_on_def)
  have "onPath runSQL readFile ms (schemaOf s0) (foldl (boot runSQL readFile (Inr entries)) s0 oss)"
    by (induction oss rule: rev_induct) (simp_all add: onPath_def [of _ _ _ _ s0] assms(3) ms_def boot_onPath [OF assms(1,2)])
  then obtain s where s: "s = (foldl (boot runSQL readFile (Inr entries)) s0 oss)\<lparr>script := []\<rparr>" "onPath runSQL readFile ms (schemaOf s0) s"
    by (simp add: onPath_def)
  then obtain k where k: "k \<le> length ms" "migrated runSQL readFile (take k ms) (schemaOf s0) = Some (schemaOf s)"
    "(case applied s of None \<Rightarrow> [] | Some vs \<Rightarrow> vs) = map migVersion (take k ms)"
    by (force simp: onPath_def inStep_def)
  define s1 where "s1 = s\<lparr>applied := Some (map migVersion (take k ms))\<rparr>"
  have rest: "migrated runSQL readFile (drop k ms) (schemaOf s) = Some c"
    using assms(4) migrated_append [of runSQL readFile "take k ms" "drop k ms" "schemaOf s0"] k(2) by (simp add: ms_def)
  have "set (map migVersion (take k ms)) \<inter> set (map migVersion (drop k ms)) = {}"
    using dist by (metis append_take_drop_id distinct_append map_append)
  moreover have "distinct (map migVersion (drop k ms))" using dist by (simp add: drop_map [symmetric])
  ultimately have "run_state (applyAll runSQL readFile (drop k ms)) s1 =
      (None, s1\<lparr>schemaOf := c, applied := Some (map migVersion (take k ms) @ map migVersion (drop k ms))\<rparr>)"
    by (intro applyAll_clean) (use rest s in \<open>simp_all add: s1_def\<close>)
  moreover have "run_state (applyAll runSQL readFile (take k ms @ drop k ms)) s1 = run_state (applyAll runSQL readFile (drop k ms)) s1"
    by (rule applyAll_skips) (use s in \<open>auto simp: s1_def\<close>)
  moreover have "map migVersion (take k ms) @ map migVersion (drop k ms) = map migVersion ms" by (simp flip: map_append)
  ultimately have "run_state (applyAll runSQL readFile ms) s1 = (None, s1\<lparr>schemaOf := c, applied := Some (map migVersion ms)\<rparr>)"
    by simp
  moreover have "script s = []" using s(1) by simp
  ultimately show ?thesis
    using assms(1) k(3) by (simp add: migrate_def stmt_clean s(1) [symmetric] s1_def ms_def)
qed

text \<open>
  The two files of the repository, listed with a directory, over a database that is the list of the
  texts applied to it. The answer to the first commit is lost, and the second boot fails.
\<close>

theorem migrate_resumes_witness:
  "run_state (migrate (\<lambda>sql d. Inr (d @ [sql])) (\<lambda>name. Inr name)
      (Inr [(''0001_workspaces_users.sql'', False), (''0002_apps_admin.sql'', False), (''old'', True)]))
     ((foldl (boot (\<lambda>sql d. Inr (d @ [sql])) (\<lambda>name. Inr name)
        (Inr [(''0001_workspaces_users.sql'', False), (''0002_apps_admin.sql'', False), (''old'', True)]))
       \<lparr>schemaOf = [], applied = None, script = []\<rparr>
       [replicate 5 Succeeds @ [Lost ErrNotFound], [Fails ErrNotFound]])\<lparr>script := []\<rparr>) =
   (None, \<lparr>schemaOf = [''migrations/0001_workspaces_users.sql'', ''migrations/0002_apps_admin.sql''], applied = Some [1, 2], script = []\<rparr>)"
proof -
  define ps where "ps = [\<lparr>migVersion = 1, migName = ''0001_workspaces_users.sql''\<rparr>, \<lparr>migVersion = 2, migName = ''0002_apps_admin.sql''\<rparr>]"
  have "parseEntry ''0001_workspaces_users.sql'' = Inr (ps ! 0)" "parseEntry ''0002_apps_admin.sql'' = Inr (ps ! 1)"
    by (simp_all add: ps_def parseEntry_def IndexByte_def ParseInt64_def parse_uint_def digits_val_def digit_val_def is_digit_def)
  then have "parseEntries [(''0001_workspaces_users.sql'', False), (''0002_apps_admin.sql'', False), (''old'', True)] = Inr ps"
    by (simp add: ps_def)
  then have "run_state (migrate (\<lambda>sql d. Inr (d @ [sql])) (\<lambda>name. Inr name)
      (Inr [(''0001_workspaces_users.sql'', False), (''0002_apps_admin.sql'', False), (''old'', True)]))
     ((foldl (boot (\<lambda>sql d. Inr (d @ [sql])) (\<lambda>name. Inr name)
        (Inr [(''0001_workspaces_users.sql'', False), (''0002_apps_admin.sql'', False), (''old'', True)]))
       \<lparr>schemaOf = [], applied = None, script = []\<rparr>
       [replicate 5 Succeeds @ [Lost ErrNotFound], [Fails ErrNotFound]])\<lparr>script := []\<rparr>) =
   (None, \<lparr>schemaOf = [''migrations/0001_workspaces_users.sql'', ''migrations/0002_apps_admin.sql''],
      applied = Some (map migVersion (sort_key migVersion ps)), script = []\<rparr>)"
    by (rule migrate_resumes) (simp_all add: ps_def)
  moreover have "map migVersion (sort_key migVersion ps) = [1, 2]" by (simp add: ps_def)
  ultimately show ?thesis by simp
qed

end
