(* ===== verification/Startup.thy ===== *)
theory Startup
  imports AdminSite RateLimit Migrate
begin

unbundle bit_operations_syntax

text \<open>
  How the two binaries come up: server/main.go (newServerFromEnv, the checks of the file system, the
  health probe) and server/cmd/admin/main.go, with the background loops of the settings refresh
  (internalapi.go) and of the rate limiter (ratelimit.go). The environment variables, the file system
  and the outcome of opening the database (theory Migrate) are what the process is started with.
\<close>

section \<open>The checks of the file system\<close>

record fileSystem =
  statPath :: "string \<Rightarrow> (bool \<times> 32 word) result"
  mkdirAll :: "string \<Rightarrow> goerr option"
  mkdirTemp :: "string \<Rightarrow> string result"
  removeAll :: "string \<Rightarrow> goerr option"

text \<open>\<open>Stat\<close> tells whether the path is a directory, and its mode; 0o111 is 73.\<close>

definition checkExecutable :: "fileSystem \<Rightarrow> string \<Rightarrow> goerr option" where
  "checkExecutable fs path =
     (case statPath fs path of
        Inl e \<Rightarrow> Some e
      | Inr (isDir, mode) \<Rightarrow> if isDir \<or> mode AND 73 = 0 then Some (Msg (path @ '' is not executable'')) else None)"

definition checkWritableDir :: "fileSystem \<Rightarrow> string \<Rightarrow> goerr option" where
  "checkWritableDir fs path =
     (case mkdirAll fs path of
        Some e \<Rightarrow> Some e
      | None \<Rightarrow>
          (case mkdirTemp fs path of
             Inl e \<Rightarrow> Some (Wrap (''work dir '' @ path @ '' is not writable'') e)
           | Inr probe \<Rightarrow> removeAll fs probe))"

section \<open>The playground server\<close>

record playground =
  pgTrustProxy :: bool
  pgRedirect :: string
  pgSecret :: string
  pgToken :: string
  pgInternalAddr :: string
  pgTimeout :: int
  pgQueueWait :: int
  pgOutputLimit :: int
  pgSlots :: pool
  pgLimiter :: rateLimiter

datatype 'p startup = StartFailed goerr | StartPanicked | Started 'p

record launch =
  getenv :: "string \<Rightarrow> string"
  disk :: fileSystem
  openDB :: "string \<Rightarrow> int \<Rightarrow> goerr option"

definition startManager :: "unit mgr" where
  "startManager = State (\<lambda>(cur, s). ((), NewManager s))"

text \<open>\<open>engine.New\<close> makes a channel of \<open>MaxConcurrent\<close> slots, which panics on a negative number.\<close>

definition newServerFromEnv :: "launch \<Rightarrow> decoders \<Rightarrow> bytes result \<Rightarrow> bytes result \<Rightarrow> playground startup mgr" where
  "newServerFromEnv proc D rnd32 rnd24 =
     (let get = getenv proc; compilerPath = env get ''FLOWCODE_FCC'' ''/usr/local/bin/fcc'';
          runnerPath = env get ''FLOWCODE_RUNNER'' ''/usr/local/bin/fcplay'';
          workDir = env get ''PLAYGROUND_WORKDIR'' ''/run/play''; dsn = get ''DATABASE_URL'';
          failed = (\<lambda>e. ret (StartFailed e)) in
      if get ''OIDC_ISSUER'' = [] \<or> get ''OIDC_CLIENT_ID'' = [] \<or> get ''OIDC_CLIENT_SECRET'' = []
      then failed (Msg ''OIDC_ISSUER, OIDC_CLIENT_ID and OIDC_CLIENT_SECRET are required'')
      else if dsn = [] then failed (Msg ''DATABASE_URL is required'')
      else
        (case checkExecutable (disk proc) compilerPath of Some e \<Rightarrow> failed e | None \<Rightarrow>
        (case checkExecutable (disk proc) runnerPath of Some e \<Rightarrow> failed e | None \<Rightarrow>
        (case checkWritableDir (disk proc) workDir of Some e \<Rightarrow> failed e | None \<Rightarrow>
        (case openDB proc dsn 10 of Some e \<Rightarrow> failed (Wrap ''open database'' e) | None \<Rightarrow> do {
          startManager;
          l \<leftarrow> Load D;
          case l of Some e \<Rightarrow> failed (Wrap ''load settings'' e) | None \<Rightarrow> do {
          k \<leftarrow> onStore (EnsureInternal KeySessionSecret rnd32);
          case k of Inl e \<Rightarrow> failed (Wrap ''ensure session secret'' e) | Inr sessionSecret \<Rightarrow> do {
          t \<leftarrow> onStore (EnsureInternal KeyServiceToken rnd24);
          case t of Inl e \<Rightarrow> failed (Wrap ''ensure service token'' e) | Inr tok \<Rightarrow> do {
          snap \<leftarrow> Current;
          let run = RunCfg snap;
          case newPool (seconds 5) (MaxConcurrent run) of None \<Rightarrow> ret StartPanicked | Some slots \<Rightarrow>
            ret (Started \<lparr>pgTrustProxy = (env get ''TRUST_PROXY'' [] = ''1''), pgRedirect = get ''OIDC_REDIRECT_URL'',
              pgSecret = sessionSecret, pgToken = tok, pgInternalAddr = env get ''INTERNAL_ADDR'' [],
              pgTimeout = seconds (RunTimeoutSeconds run), pgQueueWait = seconds 5, pgOutputLimit = OutputCapBytes run,
              pgSlots = slots,
              pgLimiter = newRateLimiter (DeployRatePerMinute run) (DeployRateBurst run) (seconds 600)\<rparr>)
          }}}})))))"

section \<open>The administration server\<close>

record adminServer =
  asTrustProxy :: bool
  asRedirect :: string
  asSecret :: string
  asInternalURL :: string

definition newAdminServerFromEnv :: "launch \<Rightarrow> (string \<Rightarrow> string) \<Rightarrow> decoders \<Rightarrow> bytes result \<Rightarrow> adminServer startup mgr" where
  "newAdminServerFromEnv proc lower D rnd32 =
     (let get = getenv proc; dsn = get ''DATABASE_URL''; failed = (\<lambda>e. ret (StartFailed e)) in
      if get ''OIDC_ISSUER'' = [] \<or> get ''OIDC_CLIENT_ID'' = [] \<or> get ''OIDC_CLIENT_SECRET'' = []
      then failed (Msg ''OIDC_ISSUER, OIDC_CLIENT_ID and OIDC_CLIENT_SECRET are required (the administration area uses its own OIDC client)'')
      else if dsn = [] then failed (Msg ''DATABASE_URL is required'')
      else
        (case openDB proc dsn 4 of Some e \<Rightarrow> failed e | None \<Rightarrow> do {
          startManager;
          l \<leftarrow> Load D;
          case l of Some e \<Rightarrow> failed e | None \<Rightarrow> do {
          k \<leftarrow> onStore (EnsureInternal KeyAdminSessionSecret rnd32);
          case k of Inl e \<Rightarrow> failed e | Inr adminSecret \<Rightarrow>
            (let srv = \<lparr>asTrustProxy = (env get ''TRUST_PROXY'' [] = ''1''), asRedirect = get ''OIDC_REDIRECT_URL'',
                        asSecret = adminSecret, asInternalURL = TrimRight_char CHR ''/'' (get ''APP_INTERNAL_URL'')\<rparr>;
                 emails = parseEmailList (get ''ADMIN_EMAILS'') in
             if emails = [] then ret (Started srv)
             else do {
               n \<leftarrow> onStore (SeedAdministrators lower emails);
               case snd n of Some e \<Rightarrow> failed e | None \<Rightarrow> ret (Started srv)
             })
          }}))"

section \<open>Health\<close>

text \<open>Status code, status and error of the probe; \<open>ping\<close> is the answer of the database.\<close>

definition handleHealth :: "unicode \<Rightarrow> fileSystem \<Rightarrow> string list \<Rightarrow> goerr option \<Rightarrow> int \<times> string \<times> string option" where
  "handleHealth U fs binaries ping =
     (case List.find (\<lambda>p. checkExecutable fs p \<noteq> None) binaries of
        Some p \<Rightarrow> (503, ''unhealthy'', map_option (errText U) (checkExecutable fs p))
      | None \<Rightarrow>
          (case ping of
             Some e \<Rightarrow> (503, ''unhealthy'', Some (''database: '' @ errText U e))
           | None \<Rightarrow> (200, ''ok'', None)))"

definition adminHealth :: "unicode \<Rightarrow> goerr option \<Rightarrow> int \<times> string \<times> string option" where
  "adminHealth U ping =
     (case ping of
        Some e \<Rightarrow> (503, ''unhealthy'', Some (''database: '' @ errText U e))
      | None \<Rightarrow> (200, ''ok'', None))"

section \<open>The background loops\<close>

text \<open>One refresh per tick; a failed one is only logged.\<close>

fun refreshSettingsLoop :: "decoders \<Rightarrow> nat \<Rightarrow> string option \<Rightarrow> string option mgr" where
  "refreshSettingsLoop D 0 cached = ret cached"
| "refreshSettingsLoop D (Suc ticks) cached = do {
     r \<leftarrow> refreshSettings D cached;
     refreshSettingsLoop D ticks (snd r)
   }"

text \<open>The times of the ticks of the rate limiter.\<close>

fun sweepLoop :: "int list \<Rightarrow> rateLimiter \<Rightarrow> rateLimiter" where
  "sweepLoop [] rl = rl"
| "sweepLoop (now # ticks) rl = sweepLoop ticks (sweep now rl)"
section \<open>A restart keeps the secrets\<close>

lemma EnsureInternal_present:
  "faults s = [] \<Longrightarrow> settingOf s key = Some v \<Longrightarrow> v \<noteq> [] \<Longrightarrow> run_state (EnsureInternal key r) s = (Inr v, s)"
  by (simp add: EnsureInternal_def GetSetting_clean)

lemma EnsureInternal_run:
  assumes "faults s = []" and "raw \<noteq> []"
  obtains v s' where "run_state (EnsureInternal key (Inr raw)) s = (Inr v, s')" "faults s' = []" "v \<noteq> []"
    "settingOf s' = (settingOf s)(key \<mapsto> v)"
proof (cases "case settingOf s key of None \<Rightarrow> [] | Some v \<Rightarrow> v")
  case Nil
  have "hasRef uId (users s) (if 0 < (0 :: int) then Some 0 else None)" by (simp add: hasRef_def)
  from PutSetting_clean [OF assms(1) this, of key "hex_encode raw"] obtain s1
    where p: "run_state (PutSetting key (hex_encode raw) 0) s = (Inr (), s1)" "faults s1 = []"
      "settingOf s1 = (settingOf s)(key \<mapsto> hex_encode raw)" by metis
  have "hex_encode raw \<noteq> []" using assms(2) length_hex_encode [of raw] by (metis length_0_conv mult_eq_0_iff zero_neq_numeral)
  moreover have "run_state (EnsureInternal key (Inr raw)) s = (Inr (hex_encode raw), s1)"
    using assms(1) Nil p(1) by (simp add: EnsureInternal_def GetSetting_clean andThen_def)
  ultimately show ?thesis using that p(2,3) by blast
next
  case (Cons c t)
  then have k: "settingOf s key = Some (c # t)" by (auto split: option.splits)
  then have "settingOf s = (settingOf s)(key \<mapsto> c # t)" by auto
  then show ?thesis using that [OF EnsureInternal_present [OF assms(1) k]] assms(1) by simp
qed

text \<open>The process is started in an environment where every check succeeds.\<close>

definition bootable :: "launch \<Rightarrow> bool" where
  "bootable proc \<longleftrightarrow>
     (let get = getenv proc in
      get ''OIDC_ISSUER'' \<noteq> [] \<and> get ''OIDC_CLIENT_ID'' \<noteq> [] \<and> get ''OIDC_CLIENT_SECRET'' \<noteq> [] \<and> get ''DATABASE_URL'' \<noteq> [] \<and>
      checkExecutable (disk proc) (env get ''FLOWCODE_FCC'' ''/usr/local/bin/fcc'') = None \<and>
      checkExecutable (disk proc) (env get ''FLOWCODE_RUNNER'' ''/usr/local/bin/fcplay'') = None \<and>
      checkWritableDir (disk proc) (env get ''PLAYGROUND_WORKDIR'' ''/run/play'') = None \<and>
      openDB proc (get ''DATABASE_URL'') 10 = None)"

lemma start_clean:
  assumes "bootable proc" and "faults s = []" and "storedSnapshot D (settingOf s) = Some snap"
    and "run_state (EnsureInternal KeySessionSecret r1) s = (Inr secret1, s1)"
    and "run_state (EnsureInternal KeyServiceToken r2) s1 = (Inr tok, s2)" and "0 \<le> MaxConcurrent (RunCfg snap)"
  shows "\<exists>srv. run_state (newServerFromEnv proc D r1 r2) (cur, s) = (Started srv, (snap, s2)) \<and>
    pgSecret srv = secret1 \<and> pgToken srv = tok \<and> concurrency (pgSlots srv) = nat (MaxConcurrent (RunCfg snap))"
proof -
  obtain zero where z: "run_state startManager (cur, s) = ((), (zero, s))" by (simp add: startManager_def NewManager_def)
  have l: "run_state (Load D) (zero, s) = (None, (snap, s))" by (rule Load_clean [OF assms(2,3)])
  show ?thesis
    using assms(1,4-6) by (simp add: newServerFromEnv_def bootable_def Let_def z l onStore_def Current_def newPool_def)
qed

text \<open>
  C33: a restart keeps every session and every token. When the environment is in order and the stored
  settings decode, the server starts with them; its session secret and its service token are not empty
  and are the ones in the database afterwards. Started again later on a database with these settings,
  it has the same secret and the same token whatever the random generator delivers, and writes nothing.
\<close>

theorem restart_keeps_secrets:
  assumes "bootable proc" and "faults s = []" and "storedSnapshot D (settingOf s) = Some snap"
    and "0 \<le> MaxConcurrent (RunCfg snap)" and "b1 \<noteq> []" and "b2 \<noteq> []"
  shows "\<exists>srv s'. run_state (newServerFromEnv proc D (Inr b1) (Inr b2)) (cur, s) = (Started srv, (snap, s')) \<and>
    pgSecret srv \<noteq> [] \<and> pgToken srv \<noteq> [] \<and>
    settingOf s' = (settingOf s)(KeySessionSecret \<mapsto> pgSecret srv, KeyServiceToken \<mapsto> pgToken srv) \<and>
    (\<forall>s2 cur2 r1 r2. faults s2 = [] \<and> settingOf s2 = settingOf s' \<longrightarrow>
       (\<exists>srv2. run_state (newServerFromEnv proc D r1 r2) (cur2, s2) = (Started srv2, (snap, s2)) \<and>
          pgSecret srv2 = pgSecret srv \<and> pgToken srv2 = pgToken srv))"
proof -
  obtain v1 s1 where v1: "run_state (EnsureInternal KeySessionSecret (Inr b1)) s = (Inr v1, s1)" "faults s1 = []" "v1 \<noteq> []"
    "settingOf s1 = (settingOf s)(KeySessionSecret \<mapsto> v1)" by (rule EnsureInternal_run [OF assms(2,5)])
  obtain v2 s' where v2: "run_state (EnsureInternal KeyServiceToken (Inr b2)) s1 = (Inr v2, s')" "faults s' = []" "v2 \<noteq> []"
    "settingOf s' = (settingOf s1)(KeyServiceToken \<mapsto> v2)" by (rule EnsureInternal_run [OF v1(2) assms(6)])
  have set: "settingOf s' = (settingOf s)(KeySessionSecret \<mapsto> v1, KeyServiceToken \<mapsto> v2)" using v1(4) v2(4) by simp
  obtain srv where srv: "run_state (newServerFromEnv proc D (Inr b1) (Inr b2)) (cur, s) = (Started srv, (snap, s'))"
    "pgSecret srv = v1" "pgToken srv = v2"
    using start_clean [OF assms(1-3) v1(1) v2(1) assms(4)] by blast
  have again: "\<exists>srv2. run_state (newServerFromEnv proc D r1 r2) (cur2, s2) = (Started srv2, (snap, s2)) \<and>
      pgSecret srv2 = v1 \<and> pgToken srv2 = v2"
    if s2: "faults s2 = []" "settingOf s2 = settingOf s'" for s2 cur2 r1 r2
  proof -
    have "run_state (EnsureInternal KeySessionSecret r1) s2 = (Inr v1, s2)"
      by (rule EnsureInternal_present [OF s2(1)]) (simp_all add: s2(2) set v1(3) key_defs)
    moreover have "run_state (EnsureInternal KeyServiceToken r2) s2 = (Inr v2, s2)"
      by (rule EnsureInternal_present [OF s2(1)]) (simp_all add: s2(2) set v2(3))
    moreover have "storedSnapshot D (settingOf s2) = Some snap"
      using assms(3) by (simp add: storedSnapshot_def s2(2) set groupOf_other key_defs)
    ultimately show ?thesis using start_clean [OF assms(1) s2(1)] assms(4) by blast
  qed
  show ?thesis using srv v1(3) v2(3) set again by (intro exI [of _ srv] exI [of _ s']) auto
qed

definition sampleProcess :: launch where
  "sampleProcess = \<lparr>getenv = (\<lambda>_. ''x''), disk = \<lparr>statPath = (\<lambda>_. Inr (False, 0x1ED)), mkdirAll = (\<lambda>_. None),
     mkdirTemp = (\<lambda>p. Inr p), removeAll = (\<lambda>_. None)\<rparr>, openDB = (\<lambda>_ _. None)\<rparr>"

theorem restart_keeps_secrets_witness:
  "\<exists>srv s'. run_state (newServerFromEnv sampleProcess mailDecoders (Inr ''k'') (Inr ''t'')) (defaults, emptyDB) = (Started srv, (defaults, s')) \<and>
     pgSecret srv \<noteq> [] \<and> settingOf s' KeySessionSecret = Some (pgSecret srv)"
proof -
  have "bootable sampleProcess"
    by (simp add: bootable_def sampleProcess_def checkExecutable_def checkWritableDir_def)
  moreover have "faults emptyDB = []" by (simp add: emptyDB_def)
  moreover have "storedSnapshot mailDecoders (settingOf emptyDB) = Some defaults"
    by (simp add: storedSnapshot_def groupOf_def settingOf_def emptyDB_def)
  moreover have "0 \<le> MaxConcurrent (RunCfg defaults)" by (simp add: defaults_def)
  ultimately show ?thesis
    using restart_keeps_secrets [of sampleProcess emptyDB mailDecoders defaults "''k''" "''t''" defaults]
    by (fastforce simp: key_defs)
qed

end
