(* ===== verification/Isolation.thy ===== *)
theory Isolation
  imports Pages
begin

text \<open>
  What a request to one project leaves of the others: an interface for invariants of the database
  that the statements about a permitted project keep, proved for all JSON and page handlers at once,
  and its instance for the contents of another project.
\<close>

section \<open>Invariants through a gate\<close>

context project_gate
begin

lemma preserves_gated:
  assumes "realFaults s" and "ignores_faults P" and "P s"
    and "\<And>p role user. mayAct w req s p role user \<Longrightarrow> preserves P (k p role user)"
  shows "P (snd (run_state (gate w req k) s))"
  using gate_opens [OF assms(1), of w req k]
proof (elim disjE exE conjE)
  fix r fs
  assume "run_state (gate w req k) s = (r, s\<lparr>faults := fs\<rparr>)"
  then show ?thesis using assms(2,3) by (simp add: ignores_faults_def)
next
  fix p role user fs
  assume "mayAct w req s p role user" "run_state (gate w req k) s = run_state (k p role user) (s\<lparr>faults := fs\<rparr>)"
  then show ?thesis using preservesD [OF assms(4)] assms(2,3) by (simp add: ignores_faults_def)
qed

end

section \<open>The interface\<close>

text \<open>
  An invariant and the projects whose statements keep it. The statements on deployments and triggers
  go by the id of the row alone.
\<close>

locale project_frame =
  fixes P :: "db \<Rightarrow> bool" and acts :: "int \<Rightarrow> bool"
  assumes ignores: "ignores_faults P"
    and project_keeps: "acts i \<Longrightarrow> preserves P (UpdateWSProject i n d)" "acts i \<Longrightarrow> preserves P (DeleteWSProject i)"
    and file_keeps: "acts i \<Longrightarrow> preserves P (UpsertWSFile i name c)" "acts i \<Longrightarrow> preserves P (DeleteWSFile i name)"
    and version_keeps: "acts i \<Longrightarrow> preserves P (CreateWSVersion i label)"
    and deployment_keeps: "acts i \<Longrightarrow> preserves P (CreateWSDeployment r i f vid)"
      "preserves P (SetWSDeploymentEnabled j b)" "preserves P (DeleteWSDeployment j)"
    and trigger_keeps: "acts (ntProject nt) \<Longrightarrow> preserves P (CreateWSTrigger nt)"
      "preserves P (SetWSTriggerEnabled j b)" "preserves P (DeleteWSTrigger j)"
    and run_keeps: "acts (neProject ne) \<Longrightarrow> preserves P (RecordWSSExecution U ne a)"
      "acts i \<Longrightarrow> preserves P (UpsertWSKV i key val src)" "acts i \<Longrightarrow> preserves P (DeleteWSKV i key)" "preserves P (RecordAppCalls cs)"
begin

lemma reads_keep: "reads m \<Longrightarrow> preserves P m"
  unfolding preserves_def by (metis ignores ignores_faults_def reads_def)

lemmas look_keeps = reads_small [THEN reads_keep] fileReads_reads [THEN reads_keep] runReads_reads [THEN reads_keep]
  settingReads_reads [THEN reads_keep] reads_chrome [THEN reads_keep] reads_gates(3) [THEN reads_keep]

lemma decode_keeps: "(\<And>v. preserves P (k v)) \<Longrightarrow> preserves P (decodeJSON dec req n k)"
  by (auto simp: decodeJSON_def split: parsed.split intro!: inv_intros look_keeps)

lemma path_keeps: "(\<And>v. preserves P (k v)) \<Longrightarrow> preserves P (pathInt64 req name k)"
  unfolding pathInt64_def Let_def by (intro inv_intros look_keeps)

lemma role_keeps: "preserves P k \<Longrightarrow> preserves P (requireRole role need k)"
  unfolding requireRole_def by (intro inv_intros look_keeps)

lemma withVersion_keeps: "(\<And>v. preserves P (k v)) \<Longrightarrow> preserves P (withVersion req p k)"
  unfolding withVersion_def pathInt_def by (intro inv_intros path_keeps look_keeps)

lemma restore_keeps: "acts i \<Longrightarrow> preserves P (RestoreWSVersion i v)"
proof -
  assume i: "acts i"
  have "preserves P (upsertAll i snaps)" for snaps
    by (induction snaps) (auto intro!: inv_intros file_keeps i)
  then show ?thesis unfolding RestoreWSVersion_def by (intro inv_intros ignores)
qed

lemma record_keeps: "acts (wpId p) \<Longrightarrow> preserves P (recordExecution w p f v src dep trig actor result e)"
proof -
  assume p: "acts (wpId p)"
  have "preserves P (upsertKVs (wpId p) eid xs)" for eid xs
    by (induction "wpId p" eid xs rule: upsertKVs.induct) (auto intro!: inv_intros run_keeps p)
  then show ?thesis
    unfolding recordExecution_def Let_def by (intro inv_intros run_keeps) (simp_all add: p)
qed

lemmas body_keeps = decode_keeps path_keeps role_keeps withVersion_keeps restore_keeps record_keeps project_keeps file_keeps
  version_keeps deployment_keeps trigger_keeps run_keeps look_keeps

lemma api_bodies:
  assumes "realFaults s" and "P s" and acts: "\<And>p role user. mayAct w req s p role user \<Longrightarrow> acts (wpId p)"
  shows
    "P (snd (run_state (handleUpdateProject w req) s))" "P (snd (run_state (handleDeleteProject w req) s))"
    "P (snd (run_state (handleSaveFile w req) s))" "P (snd (run_state (handleDeleteFile w req) s))"
    "P (snd (run_state (handleRunFile w req) s))" "P (snd (run_state (handleCreateVersion w req) s))"
    "P (snd (run_state (handleRestoreVersion w req) s))" "P (snd (run_state (handleCreateDeployment w req) s))"
    "P (snd (run_state (handleUpdateDeployment w req) s))" "P (snd (run_state (handleDeleteDeployment w req) s))"
    "P (snd (run_state (handleCreateTrigger w req) s))" "P (snd (run_state (handleUpdateTrigger w req) s))"
    "P (snd (run_state (handleDeleteTrigger w req) s))" "P (snd (run_state (handleDeleteKV w req) s))"
  unfolding apiHandlers
  by (intro apiGate.preserves_gated [OF assms(1) ignores assms(2)] inv_intros body_keeps ignores; (drule acts; simp)?)+

lemma api_frame:
  assumes "realFaults s" and "P s" and "route \<noteq> CreateProject"
    and "\<And>p role user. mayAct w req s p role user \<Longrightarrow> acts (wpId p)"
  shows "P (snd (run_state (apiHandler route w req) s))"
proof (cases "readOnly route")
  case True
  then show ?thesis by (intro preservesD [OF reads_keep [OF reads_api]] assms(2))
next
  case False
  note api_bodies [OF assms(1,2,4)]
  with False assms(3) show ?thesis by (cases route) simp_all
qed

lemma serve_frame:
  assumes "realFaults s" and "P s" and "route \<noteq> CreateProject"
    and "\<And>p role user. mayAct w req s p role user \<Longrightarrow> acts (wpId p)"
  shows "P (snd (run_state (serveApi route w req) s))"
proof -
  obtain u s1 where u: "run_state (currentUser w (gateTime w) req) s = (u, s1)" by (cases "run_state (currentUser w (gateTime w) req) s")
  obtain fs where fs: "set fs \<subseteq> set (faults s)" "s1 = s\<lparr>faults := fs\<rparr>" by (rule readsD [OF reads_currentUser u])
  have s1: "realFaults s1" "P s1" using realFaults_rest [OF assms(1) fs(1)] assms(2) ignores fs(2) by (simp_all add: ignores_faults_def)
  have "P (snd (run_state (apiHandler route w req) s1))" by (rule api_frame [OF s1 assms(3)]) (use assms(4) fs(2) in simp)
  then show ?thesis using u s1(2) by (simp add: serveApi_def requireUser_def writeError_def)
qed

lemma buffer_keeps: "acts (wpId p) \<Longrightarrow> preserves P k \<Longrightarrow> preserves P (saveBuffer req p buffer k)"
  unfolding saveBuffer_def Let_def by (intro inv_intros body_keeps)

lemma runPage_keeps: "acts (wpId p) \<Longrightarrow> preserves P (runAndRender w req p role user)"
  unfolding runAndRender_def Let_def by (intro inv_intros body_keeps)

lemma page_bodies:
  assumes "realFaults s" and "P s" and acts: "\<And>p role user. mayAct w req s p role user \<Longrightarrow> acts (wpId p)"
  shows
    "P (snd (run_state (handleProjectUpdatePage w req) s))" "P (snd (run_state (handleProjectDeletePage w req) s))"
    "P (snd (run_state (handleNewFilePage w req) s))" "P (snd (run_state (handleSaveFilePage w req) s))"
    "P (snd (run_state (handleRunFilePage w req) s))" "P (snd (run_state (handleDeleteFilePage w req) s))"
    "P (snd (run_state (handleCreateVersionPage w req) s))" "P (snd (run_state (handleRestoreVersionPage w req) s))"
    "P (snd (run_state (handleCreateDeploymentPage w req) s))" "P (snd (run_state (handleToggleDeploymentPage w req) s))"
    "P (snd (run_state (handleDeleteDeploymentPage w req) s))" "P (snd (run_state (handleCreateTriggerPage w req) s))"
    "P (snd (run_state (handleToggleTriggerPage w req) s))" "P (snd (run_state (handleDeleteTriggerPage w req) s))"
    "P (snd (run_state (handleDeleteKVPage w req) s))"
  unfolding postPages mutateWSDeployment_def mutateWSTrigger_def
  by (intro formGate.preserves_gated [OF assms(1) ignores assms(2)] pageGate.preserves_gated [OF assms(1) ignores assms(2)]
    inv_intros buffer_keeps runPage_keeps body_keeps ignores; (drule acts; simp)?)+

lemma page_frame:
  assumes "realFaults s" and "P s" and "route \<noteq> PostProjects"
    and "\<And>p role user. mayAct w req s p role user \<Longrightarrow> acts (wpId p)"
  shows "P (snd (run_state (pageHandler route w req) s))"
proof (cases "getRoute route")
  case True
  then show ?thesis by (intro preservesD [OF reads_keep [OF reads_pages]] assms(2))
next
  case False
  note page_bodies [OF assms(1,2,4)]
  with False assms(3) show ?thesis by (cases route) (simp_all add: getRoute_def)
qed

lemma servePage_frame:
  assumes "realFaults s" and "P s" and "route \<noteq> PostProjects"
    and "\<And>p role user. mayAct w req s p role user \<Longrightarrow> acts (wpId p)"
  shows "P (snd (run_state (servePage route w req) s))"
proof -
  obtain u s1 where u: "run_state (currentUser w (gateTime w) req) s = (u, s1)" by (cases "run_state (currentUser w (gateTime w) req) s")
  obtain fs where fs: "set fs \<subseteq> set (faults s)" "s1 = s\<lparr>faults := fs\<rparr>" by (rule readsD [OF reads_currentUser u])
  have s1: "realFaults s1" "P s1" using realFaults_rest [OF assms(1) fs(1)] assms(2) ignores fs(2) by (simp_all add: ignores_faults_def)
  have "P (snd (run_state (pageHandler route w req) s1))" by (rule page_frame [OF s1 assms(3)]) (use assms(4) fs(2) in simp)
  then show ?thesis using u s1(2) by (simp add: servePage_def requireUserPage_def)
qed

end
section \<open>The contents of another project\<close>

text \<open>
  What can be read of project \<open>q\<close>: its row, its files, its saved versions with the files they froze,
  its store and its shares.
\<close>

definition snapshots :: "int \<Rightarrow> db \<Rightarrow> versionFileRow list" where
  "snapshots q s = filter (\<lambda>f. list_ex (\<lambda>v. vProject v = q \<and> vId v = vfVersion f) (versions s)) (versionFiles s)"

type_synonym projectContents =
  "projectRow list \<times> fileRow list \<times> (versionRow list \<times> versionFileRow list) \<times> (string \<times> string) list \<times> shareRow list"

definition projectData :: "int \<Rightarrow> db \<Rightarrow> projectContents" where
  "projectData q s =
     (filter (\<lambda>p. pId p = q) (projects s), filter (\<lambda>f. fProject f = q) (files s),
      (filter (\<lambda>v. vProject v = q) (versions s), snapshots q s),
      map (\<lambda>k. (kKey k, kValue k)) (filter (\<lambda>k. kProject k = q) (kvs s)), filter (\<lambda>h. sProject h = q) (shares s))"

lemmas data_defs = projectData_def snapshots_def

text \<open>The data of \<open>q\<close> is \<open>d\<close> in a database that satisfies its constraints, and \<open>Q\<close> holds.\<close>

definition holding :: "int \<Rightarrow> projectContents \<Rightarrow> (db \<Rightarrow> bool) \<Rightarrow> db \<Rightarrow> bool" where
  "holding q d Q s \<longleftrightarrow> wfdb s \<and> projectData q s = d \<and> Q s"

abbreviation untouched where
  "untouched q d \<equiv> holding q d (\<lambda>_. True)"

lemma projectData_faults [simp]: "projectData q (s\<lparr>faults := fs\<rparr>) = projectData q s"
  by (simp add: data_defs)

lemma ignores_untouched: "ignores_faults (untouched q d)"
  by (simp add: ignores_faults_def holding_def)

lemma holding_exec:
  assumes "preserves wfdb (exec f)" and "ignores_faults Q"
    and "\<And>s. wfdb s \<Longrightarrow> Q s \<Longrightarrow> projectData q (snd (f s)) = projectData q s \<and> Q (snd (f s))"
  shows "preserves (holding q d Q) (exec f)"
  unfolding preserves_def
proof (intro allI impI)
  fix s
  assume "holding q d Q s"
  then have s: "wfdb s" "projectData q s = d" "Q s" by (simp_all add: holding_def)
  have "wfdb (s\<lparr>faults := fs\<rparr>)" "Q (s\<lparr>faults := fs\<rparr>)" for fs using s assms(2) by (simp_all add: ignores_faults_def)
  from assms(3) [OF this] assms(3) [OF s(1,3)] s(2,3) assms(2)
  have "projectData q (snd (run_state (exec f) s)) = d" "Q (snd (run_state (exec f) s))"
    by (simp_all add: run_exec ignores_faults_def split: list.split option.split)
  then show "holding q d Q (snd (run_state (exec f) s))"
    using preservesD [OF assms(1) s(1)] by (simp add: holding_def)
qed

lemma untouched_exec:
  assumes "preserves wfdb (exec f)" and "\<And>s. wfdb s \<Longrightarrow> projectData q (snd (f s)) = projectData q s"
  shows "preserves (untouched q d) (exec f)"
  by (rule holding_exec [OF assms(1)]) (simp_all add: ignores_faults_def assms(2))

lemma filter_alter_other:
  "(\<And>x. x \<in> set xs \<Longrightarrow> Q x \<Longrightarrow> \<not> R x) \<Longrightarrow> (\<And>x. x \<in> set xs \<Longrightarrow> Q x \<Longrightarrow> \<not> R (f x)) \<Longrightarrow>
    filter R (alter Q f xs) = filter R xs"
  by (induction xs) (auto simp: alter_def)

lemma filter_both: "(\<And>x. R x \<Longrightarrow> \<not> Q x) \<Longrightarrow> filter (\<lambda>x. \<not> Q x \<and> R x) xs = filter R xs"
  by (induction xs) auto

lemma data_drops [simp]:
  "projectData q (dropDeployments A s) = projectData q s" "projectData q (dropTriggers B s) = projectData q s"
  "projectData q (dropExecutions C s) = projectData q s"
  by (simp_all add: data_defs dropDeployments_def dropTriggers_def dropExecutions_def Let_def filter_map comp_def)

lemma data_dropFiles: "(\<And>f. fProject f = q \<Longrightarrow> \<not> A f) \<Longrightarrow> projectData q (dropFiles A s) = projectData q s"
  by (simp add: data_defs dropFiles_def dropDeployments_def dropTriggers_def Let_def filter_both)

lemma data_dropVersions:
  assumes "uniq vId (versions s)" and "\<And>v. vProject v = q \<Longrightarrow> \<not> A v"
  shows "projectData q (dropVersions A s) = projectData q s"
proof -
  have "snapshots q (dropVersions A s) = snapshots q s"
    unfolding snapshots_def dropVersions_def Let_def
  proof (simp, rule filter_cong [OF refl])
    fix f
    show "((\<forall>v \<in> set (versions s). A v \<longrightarrow> vId v \<noteq> vfVersion f) \<and>
        list_ex (\<lambda>v. vProject v = q \<and> vId v = vfVersion f) (filter (\<lambda>v. \<not> A v) (versions s))) =
      list_ex (\<lambda>v. vProject v = q \<and> vId v = vfVersion f) (versions s)"
      using assms uniqD [OF assms(1)] by (auto simp: list_ex_iff) metis
  qed
  with assms(2) show ?thesis by (simp add: projectData_def) (simp add: dropVersions_def Let_def filter_both)
qed

lemma versions_kept:
  "versions (dropDeployments D s) = versions s" "versions (dropTriggers T s) = versions s" "versions (dropExecutions E s) = versions s"
  "versions (dropFiles F s) = versions s"
  by (simp_all add: dropDeployments_def dropTriggers_def dropExecutions_def dropFiles_def Let_def)

lemma data_dropProject: "wfdb s \<Longrightarrow> i \<noteq> q \<Longrightarrow> projectData q (dropProjects (\<lambda>p. pId p = i) s) = projectData q s"
proof -
  assume wf: "wfdb s" and iq: "i \<noteq> q"
  define gone where "gone = (\<lambda>j. \<exists>p \<in> set (projects s). pId p = i \<and> pId p = j)"
  have g: "\<not> gone q" using iq by (auto simp: gone_def)
  define s1 where "s1 = dropVersions (\<lambda>v. gone (vProject v)) (dropExecutions (\<lambda>e. gone (eProject e))
      (dropTriggers (\<lambda>t. gone (tProject t)) (dropDeployments (\<lambda>d. gone (dProject d)) (dropFiles (\<lambda>f. gone (fProject f)) s))))"
  have "projectData q s1 = projectData q s"
    unfolding s1_def using g wfdb_keys(7) [OF wf]
    by (subst data_dropVersions) (simp_all add: versions_kept data_dropFiles)
  moreover have "dropProjects (\<lambda>p. pId p = i) s =
      s1\<lparr>projects := filter (\<lambda>p. \<not> pId p = i) (projects s1), kvs := filter (\<lambda>k. \<not> gone (kProject k)) (kvs s1),
         shares := filter (\<lambda>h. \<not> gone (sProject h)) (shares s1)\<rparr>"
    unfolding dropProjects_def Let_def s1_def gone_def by simp
  moreover have "filter (\<lambda>p. \<not> pId p = i \<and> pId p = q) ps = filter (\<lambda>p. pId p = q) ps" for ps :: "projectRow list"
    by (rule filter_both) (use iq in auto)
  moreover have "filter (\<lambda>k. \<not> gone (kProject k) \<and> kProject k = q) ks = filter (\<lambda>k. kProject k = q) ks" for ks :: "kvRow list"
    by (rule filter_both) (use g in auto)
  moreover have "filter (\<lambda>h. \<not> gone (sProject h) \<and> sProject h = q) hs = filter (\<lambda>h. sProject h = q) hs" for hs :: "shareRow list"
    by (rule filter_both) (use g in auto)
  ultimately show ?thesis by (simp add: data_defs)
qed

lemma untouched_update:
  "preserves wfdb (update f) \<Longrightarrow> (\<And>s. wfdb s \<Longrightarrow> projectData q (f s) = projectData q s) \<Longrightarrow> preserves (untouched q d) (update f)"
  unfolding update_def by (rule untouched_exec) simp_all

lemma untouched_setProject:
  "i \<noteq> q \<Longrightarrow> (\<And>p. pId (f p) = pId p) \<Longrightarrow> preserves wfdb (setProject i f) \<Longrightarrow> preserves (untouched q d) (setProject i f)"
  unfolding setProject_def by (rule untouched_update, assumption) (simp add: data_defs, rule filter_alter_other; simp)

lemma untouched_touch: "i \<noteq> q \<Longrightarrow> preserves (untouched q d) (touchWSProject i)"
  unfolding touchWSProject_def by (rule untouched_setProject) (simp_all add: wf_setProject)

lemma untouched_UpdateWSProject: "i \<noteq> q \<Longrightarrow> preserves (untouched q d) (UpdateWSProject i n dsc)"
  unfolding UpdateWSProject_def GetWSProject_def
  by (intro inv_intros untouched_setProject wf_setProject ignores_untouched) simp_all

lemma untouched_DeleteWSProject: "i \<noteq> q \<Longrightarrow> preserves (untouched q d) (DeleteWSProject i)"
  unfolding DeleteWSProject_def checkedDelete_def
  by (intro inv_intros untouched_exec wf_exec) (simp_all add: wf_dropProjects data_dropProject)

lemma untouched_DeleteWSFile: "i \<noteq> q \<Longrightarrow> preserves (untouched q d) (DeleteWSFile i name)"
  unfolding DeleteWSFile_def
  by (intro inv_intros untouched_update untouched_touch wf_update wf_dropFiles) (auto simp: data_dropFiles)

lemma untouched_insertVersion: "i \<noteq> q \<Longrightarrow> preserves (untouched q d) (insertVersion i n l)"
  unfolding insertVersion_def by (rule untouched_exec [OF wf_insertVersion [unfolded insertVersion_def]])
    (simp add: Let_def data_defs)

text \<open>The files of a new version: its id is larger than those of the versions of \<open>q\<close>.\<close>

definition notOf :: "int \<Rightarrow> int \<Rightarrow> db \<Rightarrow> bool" where
  "notOf q vid s \<longleftrightarrow> \<not> list_ex (\<lambda>v. vProject v = q \<and> vId v = vid) (versions s)"

lemma holding_insertVersionFiles: "preserves (holding q d (notOf q vid)) (insertVersionFiles vid fs)"
proof -
  have "preserves (holding q d (notOf q vid)) (insertVersionFile vid f)" for f
    unfolding insertVersionFile_def
  proof (rule holding_exec [OF wf_insertVersionFile [unfolded insertVersionFile_def]])
    show "ignores_faults (notOf q vid)" by (simp add: ignores_faults_def notOf_def)
  next
    fix s :: db
    assume "notOf q vid s"
    then show "projectData q (snd (if \<not> hasId vId (versions s) vid then (Inl foreignKeyViolation, s)
         else (Inr (), s\<lparr>versionFiles := versionFiles s @ [\<lparr>vfVersion = vid, vfName = fName f, vfContent = fContent f\<rparr>]\<rparr>))) =
        projectData q s \<and>
      notOf q vid (snd (if \<not> hasId vId (versions s) vid then (Inl foreignKeyViolation, s)
         else (Inr (), s\<lparr>versionFiles := versionFiles s @ [\<lparr>vfVersion = vid, vfName = fName f, vfContent = fContent f\<rparr>]\<rparr>)))"
      by (simp add: data_defs notOf_def)
  qed
  then show ?thesis by (induction fs) (auto intro!: inv_intros simp: ignores_faults_def holding_def)
qed

lemma untouched_version:
  assumes "i \<noteq> q"
  shows "preserves (untouched q d) (andThen (orWrap msg (insertVersion i n l)) (\<lambda>vid. andThen (insertVersionFiles vid fs) (\<lambda>_. ret (Inr vid))))"
  unfolding preserves_def
proof (intro allI impI)
  fix s
  assume s: "untouched q d s"
  obtain r s1 where r: "run_state (insertVersion i n l) s = (r, s1)" by (cases "run_state (insertVersion i n l) s")
  have u1: "untouched q d s1" using preservesD_eq [OF untouched_insertVersion [OF assms] s r] .
  show "untouched q d (snd (run_state (andThen (orWrap msg (insertVersion i n l)) (\<lambda>vid. andThen (insertVersionFiles vid fs) (\<lambda>_. ret (Inr vid)))) s))"
  proof (cases r)
    case (Inr vid)
    have old: "\<forall>v \<in> set (versions s). vId v \<le> seqVersion (seqs s)" using s unfolding holding_def wfdb_def keyed_def by blast
    have "vid = seqVersion (seqs s) + 1 \<and> (\<exists>v. vProject v = i \<and> versions s1 = versions s @ [v])"
      using r Inr by (auto simp: insertVersion_def run_exec Let_def split: list.splits option.splits if_splits)
    then have "notOf q vid s1" using old assms by (fastforce simp: notOf_def list_ex_iff)
    then have "holding q d (notOf q vid) s1" using u1 by (simp add: holding_def)
    then have "holding q d (notOf q vid) (snd (run_state (insertVersionFiles vid fs) s1))" by (rule preservesD [OF holding_insertVersionFiles])
    then have "untouched q d (snd (run_state (insertVersionFiles vid fs) s1))" by (simp add: holding_def)
    then show ?thesis using r Inr by (cases "run_state (insertVersionFiles vid fs) s1")
      (auto simp: run_andThen run_orWrap wrap_def split: sum.split)
  qed (use u1 r in \<open>simp add: run_andThen run_orWrap wrap_def\<close>)
qed

lemma untouched_insertFile: "i \<noteq> q \<Longrightarrow> preserves (untouched q d) (insertFile i name c pos)"
  unfolding insertFile_def by (rule untouched_exec [OF wf_insertFile [unfolded insertFile_def]])
    (simp add: Let_def data_defs)

lemma untouched_calls: "preserves (untouched q d) (RecordAppCalls cs)"
proof -
  have "preserves (untouched q d) (insertAppCall c)" for c
    unfolding insertAppCall_def by (rule untouched_exec [OF wf_insertAppCall [unfolded insertAppCall_def]])
      (simp add: Let_def data_defs)
  then show ?thesis by (induction cs) (auto intro!: inv_intros)
qed

lemma untouched_inserts:
  "preserves (untouched q d) (insertDeployment i f slug v)" "preserves (untouched q d) (insertTrigger nt)"
  "preserves (untouched q d) (insertExecution ne xf a)"
  unfolding insertDeployment_def insertTrigger_def insertExecution_def
  by (rule untouched_exec [OF wf_insertDeployment [unfolded insertDeployment_def]]
        untouched_exec [OF wf_insertTrigger [unfolded insertTrigger_def]]
        untouched_exec [OF wf_insertExecution [unfolded insertExecution_def]], simp add: Let_def data_defs)+

lemma untouched_kv:
  assumes "i \<noteq> q"
  shows "preserves (untouched q d) (UpsertWSKV i key val src)" "preserves (untouched q d) (DeleteWSKV i key)"
proof -
  have "preserves (untouched q d) (upsertKV i key val src)"
    unfolding upsertKV_def
  proof (rule untouched_exec [OF wf_upsertKV [unfolded upsertKV_def]])
    fix s :: db
    have "filter (\<lambda>k. kProject k = q) (alter (\<lambda>k. kProject k = i \<and> kKey k = key)
        (\<lambda>k. k\<lparr>kValue := val, kUpdatedAt := clk s, kSourceExecution := src\<rparr>) (kvs s)) = filter (\<lambda>k. kProject k = q) (kvs s)"
      by (rule filter_alter_other) (use assms in auto)
    then show "projectData q (snd (let same = \<lambda>k. kProject k = i \<and> kKey k = key
        in if \<not> hasRef eId (executions s) src then (Inl foreignKeyViolation, s)
           else if list_ex same (kvs s)
                then (Inr (), s\<lparr>kvs := alter same (\<lambda>k. k\<lparr>kValue := val, kUpdatedAt := clk s, kSourceExecution := src\<rparr>) (kvs s)\<rparr>)
           else if hasId pId (projects s) i
                then (Inr (), s\<lparr>kvs := kvs s @ [\<lparr>kProject = i, kKey = key, kValue = val, kUpdatedAt = clk s, kSourceExecution = src\<rparr>]\<rparr>)
                else (Inl foreignKeyViolation, s))) = projectData q s"
      using assms by (simp add: Let_def data_defs)
  qed
  then show "preserves (untouched q d) (UpsertWSKV i key val src)" unfolding UpsertWSKV_def by (intro inv_intros)
  have "filter (\<lambda>k. \<not> (kProject k = i \<and> kKey k = key) \<and> kProject k = q) ks = filter (\<lambda>k. kProject k = q) ks" for ks :: "kvRow list"
    by (rule filter_both) (use assms in auto)
  then show "preserves (untouched q d) (DeleteWSKV i key)"
    unfolding DeleteWSKV_def by (intro untouched_update wf_DeleteWSKV [unfolded DeleteWSKV_def]) (simp add: data_defs)
qed
text \<open>
  Saving a file goes by the id that the lookup returned: the primary key makes it an id of the
  project's own file.
\<close>

lemma untouched_UpsertWSFile:
  assumes "i \<noteq> q"
  shows "preserves (untouched q d) (UpsertWSFile i name c)"
  unfolding preserves_def
proof (intro allI impI)
  fix s
  assume s: "untouched q d s"
  obtain r s1 where g: "run_state (GetWSFile i name) s = (r, s1)" by (cases "run_state (GetWSFile i name) s")
  obtain fs where s1: "s1 = s\<lparr>faults := fs\<rparr>" by (rule readsD [OF fileReads_reads(3) g])
  have u1: "untouched q d s1" using s s1 ignores_untouched by (simp add: ignores_faults_def)
  show "untouched q d (snd (run_state (UpsertWSFile i name c) s))"
  proof (cases r)
    case (Inr f)
    define Q :: "db \<Rightarrow> bool" where "Q = (\<lambda>s. \<forall>g \<in> set (files s). fId g = fId f \<longrightarrow> fProject g \<noteq> q)"
    obtain gs where "row (\<lambda>f. fProject f = i \<and> fName f = name) (files (s\<lparr>faults := gs\<rparr>)) = Inr f"
      using g Inr unfolding GetWSFile_def by (auto elim!: query_Inr)
    then have f: "f \<in> set (files s1)" "fProject f = i"
      using find_SomeD [of "\<lambda>f. fProject f = i \<and> fName f = name" "files s" f] s1 by (auto simp: row_Inr_find)
    have "uniq fId (files s1)" using u1 wfdb_keys(5) by (simp add: holding_def)
    then have Q: "Q s1" using f assms by (auto simp: Q_def dest: uniqD)
    have iQ: "ignores_faults Q" by (simp add: ignores_faults_def Q_def)
    have "preserves (holding q d Q) (setContent (fId f) c)"
      unfolding setContent_def update_def
    proof (rule holding_exec [OF _ iQ])
      show "preserves wfdb (exec (\<lambda>s. (Inr (), s\<lparr>files := alter (\<lambda>g. fId g = fId f) (\<lambda>g. g\<lparr>fContent := c, fUpdatedAt := clk s\<rparr>) (files s)\<rparr>)))"
        using wf_setContent [of "fId f" c] by (simp add: setContent_def update_def)
    next
      fix s :: db
      assume "Q s"
      then have "filter (\<lambda>g. fProject g = q) (alter (\<lambda>g. fId g = fId f) (\<lambda>g. g\<lparr>fContent := c, fUpdatedAt := clk s\<rparr>) (files s)) =
          filter (\<lambda>g. fProject g = q) (files s)"
        by (intro filter_alter_other) (auto simp: Q_def)
      moreover have "Q (s\<lparr>files := alter (\<lambda>g. fId g = fId f) (\<lambda>g. g\<lparr>fContent := c, fUpdatedAt := clk s\<rparr>) (files s)\<rparr>)"
        using \<open>Q s\<close> by (auto simp: Q_def set_alter)
      ultimately show "projectData q (snd (Inr (), s\<lparr>files := alter (\<lambda>g. fId g = fId f) (\<lambda>g. g\<lparr>fContent := c, fUpdatedAt := clk s\<rparr>) (files s)\<rparr>)) =
          projectData q s \<and> Q (snd (Inr (), s\<lparr>files := alter (\<lambda>g. fId g = fId f) (\<lambda>g. g\<lparr>fContent := c, fUpdatedAt := clk s\<rparr>) (files s)\<rparr>))"
        by (simp add: data_defs)
    qed
    then have set: "untouched q d (snd (run_state (setContent (fId f) c) s1))"
      using u1 Q by (auto simp: preserves_def holding_def)
    have rest: "preserves (untouched q d) (andThen (orWrap ''update ws file'' (State (\<lambda>s'. (r, s')))) (\<lambda>_. do {
         _ \<leftarrow> touchWSProject i;
         GetWSFileByID (fId f)
       }))" for r :: "unit result"
      unfolding GetWSFileByID_def by (intro inv_intros untouched_touch assms ignores_untouched) (simp add: preserves_def)
    obtain r2 s2 where r2: "run_state (setContent (fId f) c) s1 = (r2, s2)" by (cases "run_state (setContent (fId f) c) s1")
    have "run_state (UpsertWSFile i name c) s = run_state (andThen (orWrap ''update ws file'' (State (\<lambda>s'. (r2, s')))) (\<lambda>_. do {
         _ \<leftarrow> touchWSProject i;
         GetWSFileByID (fId f)
       })) s2"
      using g Inr r2 by (simp add: UpsertWSFile_def run_andThen run_orWrap)
    then show ?thesis using preservesD [OF rest, of s2 r2] set r2 by simp
  next
    case (Inl e)
    define m where "m = (if e \<noteq> ErrNotFound then ret (Inl (Wrap ''get ws file'' e))
         else andThen (orWrap ''compute next position'' (nextPosition i)) (\<lambda>nextPos.
           andThen (orWrap ''insert ws file'' (insertFile i name c nextPos)) (\<lambda>j. do {
             _ \<leftarrow> touchWSProject i;
             GetWSFileByID j
           })))"
    have "preserves (untouched q d) m"
      unfolding m_def nextPosition_def GetWSFileByID_def
      by (intro inv_intros untouched_insertFile untouched_touch assms ignores_untouched)
    then show ?thesis using g Inl u1 by (simp add: UpsertWSFile_def m_def preserves_def)
  qed
qed

lemma untouched_CreateWSVersion:
  assumes "i \<noteq> q"
  shows "preserves (untouched q d) (CreateWSVersion i label)"
proof -
  define body where "body = (\<lambda>fs. andThen (orWrap ''compute next version number'' (nextNumber i)) (\<lambda>number.
    andThen (orWrap ''insert ws version'' (insertVersion i number label)) (\<lambda>vid.
    andThen (insertVersionFiles vid fs) (\<lambda>_. ret (Inr vid)))))"
  have b: "preserves (untouched q d) (body fs)" for fs
    unfolding body_def nextNumber_def
    by (rule preserves_andThen) (intro inv_intros ignores_untouched untouched_version assms)+
  have wf: "preserves wfdb (transaction (body fs))" for fs
    unfolding body_def by (intro inv_intros wf_transaction wf_insertVersion wf_insertVersionFiles seq_insertVersion
      seq_insertVersionFiles seq_nextNumber)
  have "preserves (untouched q d) (transaction (body fs))" for fs
    unfolding preserves_def
  proof (intro allI impI)
    fix s
    assume s: "untouched q d s"
    have c: "preserves (untouched q d) (andThen (body fs) (\<lambda>x. andThen (orWrap ''commit'' (query (\<lambda>_. Inr ()))) (\<lambda>_. ret (Inr x))))"
      by (intro inv_intros b ignores_untouched)
    show "untouched q d (snd (run_state (transaction (body fs)) s))"
    proof (cases rule: transaction_cases [of "body fs" s])
      case (began e fs')
      then show ?thesis using s by (simp add: holding_def)
    next
      case (failed e fs' s1)
      then show ?thesis using preservesD [OF wf, of s fs] s by (simp add: holding_def data_defs)
    next
      case (ended fs')
      then show ?thesis using preservesD [OF c, of "s\<lparr>faults := fs'\<rparr>"] s ignores_untouched [of q d] by (simp add: ignores_faults_def)
    qed
  qed
  then show ?thesis
    unfolding CreateWSVersion_def ListWSFiles_def GetWSVersion_def body_def by (intro inv_intros ignores_untouched)
qed

interpretation otherProject: project_frame "untouched q d" "\<lambda>i. i \<noteq> q" for q d
proof unfold_locales
  show "preserves (untouched q d) (CreateWSDeployment r i f vid)" for r i f vid
    unfolding CreateWSDeployment_def GetWSDeployment_def by (intro inv_intros untouched_inserts ignores_untouched)
  show "preserves (untouched q d) (CreateWSTrigger nt)" for nt
    unfolding CreateWSTrigger_def GetWSTrigger_def by (intro inv_intros untouched_inserts ignores_untouched)
  show "preserves (untouched q d) (RecordWSSExecution U ne a)" for U ne a
    unfolding RecordWSSExecution_def GetWSExecution_def by (intro inv_intros untouched_inserts ignores_untouched)
  show "preserves (untouched q d) (SetWSDeploymentEnabled j b)" "preserves (untouched q d) (SetWSTriggerEnabled j b)" for j b
    using wf_SetWSDeploymentEnabled [of j b] wf_SetWSTriggerEnabled [of j b]
    by (simp_all add: SetWSDeploymentEnabled_def SetWSTriggerEnabled_def untouched_update data_defs)
  show "preserves (untouched q d) (DeleteWSDeployment j)" "preserves (untouched q d) (DeleteWSTrigger j)" for j
    using wf_DeleteWSDeployment [of j] wf_DeleteWSTrigger [of j]
    by (simp_all add: DeleteWSDeployment_def DeleteWSTrigger_def untouched_update)
qed (simp_all add: ignores_untouched untouched_UpdateWSProject untouched_DeleteWSProject untouched_UpsertWSFile
  untouched_DeleteWSFile untouched_CreateWSVersion untouched_kv untouched_calls)
section \<open>Creating a project\<close>

abbreviation standing where
  "standing q d \<equiv> holding q d (\<lambda>s. hasId pId (projects s) q)"

lemma ignores_standing: "ignores_faults (standing q d)" "ignores_faults (\<lambda>s. hasId pId (projects s) q)"
  by (simp_all add: ignores_faults_def holding_def)

lemma standing_exec:
  assumes "preserves wfdb (exec f)"
    and "\<And>s. wfdb s \<Longrightarrow> hasId pId (projects s) q \<Longrightarrow> projectData q (snd (f s)) = projectData q s"
    and "\<And>s. hasId pId (projects s) q \<Longrightarrow> hasId pId (projects (snd (f s))) q"
  shows "preserves (standing q d) (exec f)"
  by (rule holding_exec [OF assms(1) ignores_standing(2)]) (simp add: assms(2,3))

text \<open>The id of a new project is larger than every id there is.\<close>

lemma standing_insertProject: "preserves (standing q d) (insertProject wid u slug name dsc)"
  unfolding insertProject_def
proof (rule standing_exec [OF wf_insertProject [unfolded insertProject_def]])
  fix s :: db
  assume s: "wfdb s" "hasId pId (projects s) q"
  then have "q \<noteq> seqProject (seqs s) + 1" by (auto simp: wfdb_def keyed_def hasId_def list_ex_iff)
  then show "projectData q (snd (let i = seqProject (seqs s) + 1; s1 = s\<lparr>seqs := seqs s\<lparr>seqProject := i\<rparr>\<rparr>
     in if list_ex (\<lambda>p. pWorkspace p = wid \<and> pSlug p = slug) (projects s) then (Inl uniqueViolation, s1)
        else if hasId wId (workspaces s) wid \<and> hasId uId (users s) u
        then (Inr i, s1\<lparr>projects := projects s @
               [\<lparr>pId = i, pWorkspace = wid, pCreatedBy = Some u, pSlug = slug, pName = name,
                 pDescription = dsc, pCreatedAt = clk s, pUpdatedAt = clk s\<rparr>]\<rparr>)
        else (Inl foreignKeyViolation, s1))) = projectData q s"
    by (simp add: Let_def data_defs)
qed (simp add: Let_def hasId_snoc)

lemma standing_workspace:
  "preserves (standing q d) (insertWorkspace slug name)" "preserves (standing q d) (upsertMember wid uid r)"
  unfolding insertWorkspace_def upsertMember_def
  by (rule standing_exec [OF wf_insertWorkspace [unfolded insertWorkspace_def]]
        standing_exec [OF wf_upsertMember [unfolded upsertMember_def]]; simp add: Let_def data_defs)+

lemma standing_reads: "reads m \<Longrightarrow> preserves (standing q d) m"
  unfolding preserves_def by (metis ignores_standing(1) ignores_faults_def reads_def)

lemma standing_userWorkspaceID: "preserves (standing q d) (userWorkspaceID w user)"
  unfolding userWorkspaceID_def ensureWorkspace_def CreateWorkspace_def AddWorkspaceMember_def Let_def GetWorkspace_def
  by (intro inv_intros standing_workspace standing_reads userReads_reads ignores_standing)

lemma standing_CreateWSProject: "preserves (standing q d) (CreateWSProject U wid u name dsc)"
  unfolding CreateWSProject_def Let_def GetWSProject_def by (intro inv_intros standing_insertProject ignores_standing)

lemma standing_decode: "(\<And>v. preserves (standing q d) (k v)) \<Longrightarrow> preserves (standing q d) (decodeJSON dec req n k)"
  by (auto simp: decodeJSON_def split: parsed.split intro!: inv_intros standing_reads reads_small)

lemma standing_create:
  "preserves (standing q d) (serveApi CreateProject w req)" "preserves (standing q d) (servePage PostProjects w req)"
proof -
  have small: "preserves (standing q d) (writeError n msg)" for n msg by (intro standing_reads reads_small)
  have c: "preserves (standing q d) (currentUser w t req)" for t by (intro standing_reads reads_currentUser)
  have to: "preserves (standing q d) (errTo url msg)" "preserves (standing q d) (okTo url msg)" for url msg
    by (intro standing_reads reads_chrome)+
  show "preserves (standing q d) (serveApi CreateProject w req)"
    unfolding serveApi_def requireUser_def apiHandler.simps handleCreateProject_def
    by (intro inv_intros standing_decode standing_userWorkspaceID standing_CreateWSProject small c)
  show "preserves (standing q d) (servePage PostProjects w req)"
    unfolding servePage_def requireUserPage_def pageHandler.simps handleProjectCreatePage_def
    by (intro inv_intros standing_userWorkspaceID standing_CreateWSProject to c)
qed

section \<open>Isolation\<close>

text \<open>
  C4: projects are isolated from each other. Whatever a request to the JSON API or to a page does,
  and whichever of its statements fail, the row, the files, the saved versions with the files they froze,
  the store and the shares of every project other than the one its path names are left exactly as they were, also where
  the request deletes its project, restores a version, runs a program or creates a project.
\<close>

theorem other_projects_untouched:
  assumes "wfdb s" and "realFaults s" and "pathInt64Value req ''id'' \<noteq> Some q" and "hasId pId (projects s) q"
  shows "projectData q (snd (run_state (serveApi route w req) s)) = projectData q s \<and>
    projectData q (snd (run_state (servePage page w req) s)) = projectData q s"
proof -
  have u: "untouched q (projectData q s) s" and st: "standing q (projectData q s) s"
    using assms(1,4) by (simp_all add: holding_def)
  have acts: "mayAct w req s p role user \<Longrightarrow> wpId p \<noteq> q" for p role user using assms(3) by (auto simp: mayAct_def)
  have "projectData q (snd (run_state (serveApi route w req) s)) = projectData q s"
  proof (cases "route = CreateProject")
    case True
    then show ?thesis using preservesD [OF standing_create(1) st] by (simp add: holding_def)
  next
    case False
    then show ?thesis using otherProject.serve_frame [OF assms(2) u False acts] by (simp add: holding_def)
  qed
  moreover have "projectData q (snd (run_state (servePage page w req) s)) = projectData q s"
  proof (cases "page = PostProjects")
    case True
    then show ?thesis using preservesD [OF standing_create(2) st] by (simp add: holding_def)
  next
    case False
    then show ?thesis using otherProject.servePage_frame [OF assms(2) u False acts] by (simp add: holding_def)
  qed
  ultimately show ?thesis by blast
qed

text \<open>User 2 deletes project 1; project 2 keeps its row and its file.\<close>

theorem other_projects_untouched_witness:
  "map fContent (fst (snd (projectData 2 (snd (run_state (serveApi DeleteProject sampleWorld (requestBy 2 [(''id'', ''1'')])) teamDB))))) = [''x'']"
proof -
  have i: "pathInt64Value (requestBy 2 [(''id'', ''1'')]) ''id'' = Some 1"
    by (simp add: pathInt64Value_def requestBy_def ParseInt64_def parse_uint_def digits_val_def digit_val_def is_digit_def)
  have "wfdb teamDB" "realFaults teamDB" using ready_teamDB by (simp_all add: ready_def realFaults_def)
  moreover have "hasId pId (projects teamDB) 2" by (simp add: hasId_def teamDB_def)
  ultimately have "projectData 2 (snd (run_state (serveApi DeleteProject sampleWorld (requestBy 2 [(''id'', ''1'')])) teamDB)) = projectData 2 teamDB"
    using other_projects_untouched [of teamDB "requestBy 2 [(''id'', ''1'')]" 2 DeleteProject sampleWorld GetProjects] i by simp
  then show ?thesis by (simp add: data_defs teamDB_def)
qed

end
