(* ===== verification/System.thy ===== *)
theory System
  imports Isolation Scheduler Startup
begin

text \<open>
  The whole system: the playground server (its cached settings and service token), the administration
  server (its cached settings) and the database they share, as one transition relation over requests,
  background ticks and restarts, and the invariants of its reachable states.
\<close>

section \<open>Steps\<close>

record system =
  appUp :: bool
  appSnap :: Snapshot
  appToken :: "string option"
  admUp :: bool
  admSnap :: Snapshot
  sysDB :: db

text \<open>
  Every step may meet any faults of its statements; between steps the clock of the database runs on.
  Requests are served one at a time: a request is one transition. A server that is up may stop at any
  time. A boot, of a server that is up or down, ends with the server up, or down when it failed or
  panicked, and whatever it had written by then, an internal token or some of the administrators of the
  environment, stays in the database. A process killed in the middle of a request is a step whose remaining
  statements all fail. \<open>lower\<close> is the function of that name of the database.
\<close>

definition faulty :: "(goerr option) list \<Rightarrow> system \<Rightarrow> db" where
  "faulty fs y = (sysDB y)\<lparr>faults := fs\<rparr>"

definition onDatabase :: "(db, 'a) state \<Rightarrow> (goerr option) list \<Rightarrow> system \<Rightarrow> system" where
  "onDatabase m fs y = y\<lparr>sysDB := snd (run_state m (faulty fs y))\<rparr>"

definition bootedApp :: "playground startup \<Rightarrow> Snapshot \<Rightarrow> db \<Rightarrow> system \<Rightarrow> system" where
  "bootedApp out snap s y =
     (case out of
        Started srv \<Rightarrow> y\<lparr>appUp := True, appToken := Some (pgToken srv), appSnap := snap, sysDB := s\<rparr>
      | _ \<Rightarrow> y\<lparr>appUp := False, sysDB := s\<rparr>)"

definition bootedAdmin :: "adminServer startup \<Rightarrow> Snapshot \<Rightarrow> db \<Rightarrow> system \<Rightarrow> system" where
  "bootedAdmin out snap s y =
     (case out of
        Started srv \<Rightarrow> y\<lparr>admUp := True, admSnap := snap, sysDB := s\<rparr>
      | _ \<Rightarrow> y\<lparr>admUp := False, sysDB := s\<rparr>)"

inductive serverStep :: "decoders \<Rightarrow> (string \<Rightarrow> string) \<Rightarrow> system \<Rightarrow> system \<Rightarrow> bool" for D lower where
  api: "appUp y \<Longrightarrow> serviceToken w = appToken y \<Longrightarrow> Some ErrNotFound \<notin> set fs \<Longrightarrow>
    serverStep D lower y (onDatabase (serveApi route w req) fs y)"
| page: "appUp y \<Longrightarrow> serviceToken w = appToken y \<Longrightarrow> Some ErrNotFound \<notin> set fs \<Longrightarrow>
    serverStep D lower y (onDatabase (servePage route w req) fs y)"
| deploy: "appUp y \<Longrightarrow> serverStep D lower y (onDatabase (handleDeploy w req) fs y)"
| login: "appUp y \<Longrightarrow> serverStep D lower y (onDatabase (handleAuthCallback provider override trustProxy w req) fs y)"
| schedule: "appUp y \<Longrightarrow> serverStep D lower y (onDatabase (runScheduler [t]) fs y)"
| reload: "appUp y \<Longrightarrow>
    run_state (handleInternalReload D U req (appToken y)) (appSnap y, faulty fs y) = ((resp, tok), (snap, s)) \<Longrightarrow>
    serverStep D lower y (y\<lparr>appToken := tok, appSnap := snap, sysDB := s\<rparr>)"
| refresh: "appUp y \<Longrightarrow> run_state (refreshSettings D (appToken y)) (appSnap y, faulty fs y) = ((e, tok), (snap, s)) \<Longrightarrow>
    serverStep D lower y (y\<lparr>appToken := tok, appSnap := snap, sysDB := s\<rparr>)"
| boot: "run_state (newServerFromEnv proc D r1 r2) (appSnap y, faulty fs y) = (out, (snap, s)) \<Longrightarrow>
    serverStep D lower y (bootedApp out snap s y)"
| stop: "serverStep D lower y (y\<lparr>appUp := False\<rparr>)"
| admin: "admUp y \<Longrightarrow> codec W = D \<Longrightarrow> ToLower (uni (reqWorld W)) = lower \<Longrightarrow>
    run_state (serveAdmin aroute W req) (admSnap y, faulty fs y) = (reply, (snap, s)) \<Longrightarrow>
    serverStep D lower y (y\<lparr>admSnap := snap, sysDB := s\<rparr>)"
| adminLogin: "admUp y \<Longrightarrow> serverStep D lower y (onDatabase (adminAuthCallback provider override trustProxy w req) fs y)"
| adminBoot: "run_state (newAdminServerFromEnv proc lower D r1) (admSnap y, faulty fs y) = (aout, (snap, s)) \<Longrightarrow>
    serverStep D lower y (bootedAdmin aout snap s y)"
| adminStop: "serverStep D lower y (y\<lparr>admUp := False\<rparr>)"
| clockTick: "serverStep D lower y (y\<lparr>sysDB := (sysDB y)\<lparr>clk := t\<rparr>\<rparr>)"

inductive reachable :: "decoders \<Rightarrow> (string \<Rightarrow> string) \<Rightarrow> system \<Rightarrow> system \<Rightarrow> bool" for D lower y0 where
  start: "reachable D lower y0 y0"
| step: "reachable D lower y0 y \<Longrightarrow> serverStep D lower y y' \<Longrightarrow> reachable D lower y0 y'"

lemma booted_db [simp]: "sysDB (bootedApp out snap s y) = s" "sysDB (bootedAdmin aout snap s y) = s"
  by (simp_all add: bootedApp_def bootedAdmin_def split: startup.split)

section \<open>Invariants of the settings side\<close>

context admin_store
begin

lemma ensure_keeps: "preserves P (EnsureInternal key r)"
  unfolding EnsureInternal_def by (intro inv_intros look_keeps put_keeps)

lemma refresh_keeps: "preserves (onDB P) (refreshSettings D cached)"
  unfolding refreshSettings_def by (intro inv_intros load_keeps look_keeps)

lemma reload_keeps: "preserves (onDB P) (handleInternalReload D U req cached)"
  unfolding handleInternalReload_def by (intro inv_intros refresh_keeps look_keeps)

lemma start_keeps: "preserves (onDB P) startManager"
  by (auto simp: preserves_def onDB_def startManager_def NewManager_def)

lemma seed_keeps: "preserves P (SeedAdministrators lower emails)"
proof -
  have "preserves P (seedLoop lower es n)" for es n
    by (induction es arbitrary: n) (auto intro!: inv_intros add_keeps)
  then show ?thesis unfolding SeedAdministrators_def by (intro inv_intros look_keeps)
qed

lemma server_keeps: "preserves (onDB P) (newServerFromEnv proc D r1 r2)"
  unfolding newServerFromEnv_def Let_def by (intro inv_intros start_keeps load_keeps ensure_keeps)

lemma adminServer_keeps: "preserves (onDB P) (newAdminServerFromEnv proc lower D r1)"
  unfolding newAdminServerFromEnv_def Let_def by (intro inv_intros start_keeps load_keeps ensure_keeps seed_keeps)

end

section \<open>Invariants of the system\<close>

text \<open>An invariant that the statements of all components keep, whichever project they are about.\<close>

locale system_inv = adm: admin_store P lower + prj: project_frame P "\<lambda>_. True" for P lower +
  assumes create_keeps: "preserves P (CreateWSProject U wid u name dsc)"
    and user_keeps: "preserves P (UpsertUserBySubject sub email uname pic)"
    and workspace_keeps: "preserves P (CreateWorkspace U wname)" "preserves P (AddWorkspaceMember wid u r)"
    and trigger_run_keeps: "preserves P (RecordWSTriggerRun j t1 t2)"
    and prune_keeps: "preserves P (PruneWSExecutions n)"
    and clock_keeps: "P s \<Longrightarrow> P (s\<lparr>clk := now\<rparr>)"
begin

lemmas more_looks = userReads_reads [THEN prj.reads_keep] reads_currentUser [THEN prj.reads_keep]

lemma ensureWorkspace_keeps: "preserves P (ensureWorkspace w user)"
  unfolding ensureWorkspace_def Let_def by (intro inv_intros workspace_keeps more_looks)

lemma userWorkspaceID_keeps: "preserves P (userWorkspaceID w user)"
  unfolding userWorkspaceID_def by (intro inv_intros ensureWorkspace_keeps)

lemma api_keeps:
  assumes "realFaults s" and "P s"
  shows "P (snd (run_state (serveApi route w req) s))"
proof (cases "route = CreateProject")
  case True
  have "preserves P (serveApi CreateProject w req)"
    unfolding serveApi_def requireUser_def apiHandler.simps handleCreateProject_def
    by (intro inv_intros prj.decode_keeps userWorkspaceID_keeps create_keeps prj.look_keeps more_looks)
  then show ?thesis using assms(2) True by (simp add: preserves_def)
next
  case False
  then show ?thesis using prj.serve_frame [OF assms] by simp
qed

lemma page_keeps:
  assumes "realFaults s" and "P s"
  shows "P (snd (run_state (servePage route w req) s))"
proof (cases "route = PostProjects")
  case True
  have "preserves P (servePage PostProjects w req)"
    unfolding servePage_def requireUserPage_def pageHandler.simps handleProjectCreatePage_def Let_def
    by (intro inv_intros userWorkspaceID_keeps create_keeps prj.look_keeps more_looks)
  then show ?thesis using assms(2) True by (simp add: preserves_def)
next
  case False
  then show ?thesis using prj.servePage_frame [OF assms] by simp
qed

lemma deploy_keeps: "preserves P (handleDeploy w req)"
  unfolding handleDeploy_def resolveDeploymentSource_def ownerActor_def
  by (intro inv_intros prj.look_keeps more_looks prj.record_keeps TrueI)

lemma login_keeps: "preserves P (handleAuthCallback provider override trustProxy w req)"
  unfolding handleAuthCallback_def loginUser_def by (intro inv_intros user_keeps ensureWorkspace_keeps)

lemma scheduler_keeps: "preserves P (runScheduler ticks)"
proof -
  have kv: "preserves P (upsertKVs pid eid xs)" for pid eid xs
    by (induction pid eid xs rule: upsertKVs.induct) (auto intro!: inv_intros prj.run_keeps)
  have "preserves P (fire w t now)" for w t now
    unfolding fire_def recordRun_def recordAppCalls_def reschedule_def triggerActor_def resolveSource_def Let_def
    by (intro inv_intros kv prj.run_keeps prj.trigger_keeps trigger_run_keeps prj.look_keeps more_looks TrueI)
  then have "preserves P (fireAll ws k now ts)" for ws k now ts
    by (induction ts arbitrary: k) (auto intro!: inv_intros)
  then have "preserves P (fireDue ws now)" for ws now
    unfolding fireDue_def by (intro inv_intros prj.look_keeps)
  then show ?thesis
    by (induction ticks rule: runScheduler.induct) (auto simp: prune_def intro!: inv_intros prune_keeps)
qed

lemma faulty_keeps: "P (sysDB y) \<Longrightarrow> P (faulty fs y)"
  using adm.ignores by (simp add: faulty_def ignores_faults_def)

lemma faulty_real: "Some ErrNotFound \<notin> set fs \<Longrightarrow> realFaults (faulty fs y)"
  by (simp add: faulty_def realFaults_def)

lemma on_keeps: "preserves P m \<Longrightarrow> P (sysDB y) \<Longrightarrow> P (sysDB (onDatabase m fs y))"
  by (simp add: onDatabase_def preservesD faulty_keeps)

lemma mgr_keeps:
  "preserves (onDB P) m \<Longrightarrow> P (sysDB y) \<Longrightarrow> run_state m (snap0, faulty fs y) = (r, (snap, s)) \<Longrightarrow> P s"
  using preservesD_eq [of "onDB P" m "(snap0, faulty fs y)" r "(snap, s)"] by (simp add: onDB_def faulty_keeps)

lemma step_keeps:
  assumes "serverStep D lower y y'" and "P (sysDB y)"
  shows "P (sysDB y')"
  using assms(1)
proof (cases rule: serverStep.cases)
  case (api w fs route req)
  then show ?thesis using api_keeps [OF faulty_real faulty_keeps] assms(2) by (simp add: onDatabase_def)
next
  case (page w fs route req)
  then show ?thesis using page_keeps [OF faulty_real faulty_keeps] assms(2) by (simp add: onDatabase_def)
next
  case (clockTick t)
  then show ?thesis using clock_keeps assms(2) by simp
next
  case (deploy w req fs)
  then show ?thesis by (simp only:) (rule on_keeps [OF deploy_keeps assms(2)])
next
  case (login provider override trustProxy w req fs)
  then show ?thesis by (simp only:) (rule on_keeps [OF login_keeps assms(2)])
next
  case (schedule t fs)
  then show ?thesis by (simp only:) (rule on_keeps [OF scheduler_keeps assms(2)])
next
  case (adminLogin provider override trustProxy w req fs)
  then show ?thesis by (simp only:) (rule on_keeps [OF adm.callback_keeps assms(2)])
next
  case (reload U req fs resp tok snap s)
  from mgr_keeps [OF adm.reload_keeps assms(2) reload(3)] show ?thesis by (simp add: reload(1))
next
  case (refresh fs e tok snap s)
  from mgr_keeps [OF adm.refresh_keeps assms(2) refresh(3)] show ?thesis by (simp add: refresh(1))
next
  case (boot proc r1 r2 fs out snap s)
  from mgr_keeps [OF adm.server_keeps assms(2) boot(2)] show ?thesis by (simp add: boot(1))
next
  case (admin W aroute req fs reply snap s)
  from mgr_keeps [OF adm.serve_keeps [OF admin(4)] assms(2) admin(5)] show ?thesis by (simp add: admin(1))
next
  case (adminBoot proc r1 fs aout snap s)
  from mgr_keeps [OF adm.adminServer_keeps assms(2) adminBoot(2)] show ?thesis by (simp add: adminBoot(1))
qed (simp_all add: assms(2))

lemma reachable_keeps: "reachable D lower y0 y \<Longrightarrow> P (sysDB y0) \<Longrightarrow> P (sysDB y)"
  by (induction rule: reachable.induct) (auto intro: step_keeps)

end
section \<open>The constraints of the database, and a usable administration area\<close>

interpretation wfSystem: system_inv wfdb lower for lower
  by unfold_locales (intro inv_intros | simp add: ignores_wfdb | simp add: wfdb_def)+

lemma admins_drop [simp]:
  "admins (dropDeployments D s) = admins s" "admins (dropTriggers T s) = admins s" "admins (dropExecutions E s) = admins s"
  "admins (dropVersions V s) = admins s" "admins (dropFiles F s) = admins s" "admins (dropProjects R s) = admins s"
  by (simp_all add: dropDeployments_def dropTriggers_def dropExecutions_def dropVersions_def dropFiles_def dropProjects_def Let_def)

lemma admins_view: "ignores_faults admins"
  by (simp add: ignores_faults_def)

lemma keeps_admins_transaction: "keeps admins m \<Longrightarrow> keeps admins (transaction m)"
  unfolding keeps_def
proof
  fix s
  assume m: "\<forall>s. admins (snd (run_state m s)) = admins s"
  have c: "keeps admins (andThen m (\<lambda>x. andThen (orWrap ''commit'' (query (\<lambda>_. Inr ()))) (\<lambda>_. ret (Inr x))))"
    using m by (intro keeps_intros admins_view) (simp add: keeps_def)
  show "admins (snd (run_state (transaction m) s)) = admins s"
    by (cases rule: transaction_cases [of m s]) (simp_all add: keepsD [OF c])
qed

lemma admins_statements:
  "keeps admins (setProject i f)" "keeps admins (setContent i c)" "keeps admins (insertProject wid u slug name dsc)"
  "keeps admins (insertFile i name c pos)" "keeps admins (insertVersion i n label)" "keeps admins (insertVersionFile vid fr)"
  "keeps admins (insertDeployment i fid slug vo)" "keeps admins (insertTrigger nt)" "keeps admins (insertExecution ne xf a)"
  "keeps admins (upsertKV i key val src)" "keeps admins (insertAppCall ac)" "keeps admins (upsertUser sub email uname pic)"
  "keeps admins (insertWorkspace slug name)" "keeps admins (upsertMember wid u r)"
  unfolding setProject_def setContent_def insertProject_def insertFile_def insertVersion_def insertVersionFile_def insertDeployment_def
    insertTrigger_def insertExecution_def upsertKV_def insertAppCall_def upsertUser_def insertWorkspace_def upsertMember_def
  by (intro keeps_exec keeps_update admins_view; simp add: Let_def)+

lemma admins_loops: "keeps admins (insertVersionFiles vid fs)" "keeps admins (RecordAppCalls cs)"
proof -
  show "keeps admins (insertVersionFiles vid fs)"
    by (induction fs) (auto intro!: keeps_intros admins_statements)
  show "keeps admins (RecordAppCalls cs)"
    by (induction cs) (auto intro!: keeps_intros admins_statements)
qed

lemmas admins_intros = keeps_intros admins_statements admins_loops keeps_admins_transaction admins_view

lemma admins_operations:
  "keeps admins (UpdateWSProject i n dd)" "keeps admins (DeleteWSProject i)" "keeps admins (UpsertWSFile i name c)"
  "keeps admins (DeleteWSFile i name)" "keeps admins (CreateWSVersion i label)" "keeps admins (CreateWSDeployment rr i f vo)"
  "keeps admins (SetWSDeploymentEnabled j b)" "keeps admins (DeleteWSDeployment j)" "keeps admins (CreateWSTrigger nt)"
  "keeps admins (SetWSTriggerEnabled j b)" "keeps admins (DeleteWSTrigger j)" "keeps admins (RecordWSSExecution U ne a)"
  "keeps admins (UpsertWSKV i key val src)" "keeps admins (DeleteWSKV i key)" "keeps admins (CreateWSProject U wid u name d)"
  "keeps admins (UpsertUserBySubject sub email uname pic)" "keeps admins (CreateWorkspace U wname)"
  "keeps admins (AddWorkspaceMember wid u r)" "keeps admins (RecordWSTriggerRun j t1 t2)" "keeps admins (PruneWSExecutions m)"
  unfolding UpdateWSProject_def DeleteWSProject_def UpsertWSFile_def DeleteWSFile_def CreateWSVersion_def CreateWSDeployment_def
    SetWSDeploymentEnabled_def DeleteWSDeployment_def CreateWSTrigger_def SetWSTriggerEnabled_def DeleteWSTrigger_def
    RecordWSSExecution_def UpsertWSKV_def DeleteWSKV_def CreateWSProject_def UpsertUserBySubject_def CreateWorkspace_def
    AddWorkspaceMember_def RecordWSTriggerRun_def PruneWSExecutions_def touchWSProject_def Let_def fileReads runReads
    GetUserBySubject_def GetWorkspace_def
  by (intro admins_intros keeps_exec keeps_update keeps_checkedDelete; simp)+

interpretation adminSystem: system_inv hasAdmin lower for lower
  by unfold_locales
    (intro ignores_hasAdmin admins_loops(2) [THEN keeps_hasAdmin [rotated]] admins_operations [THEN keeps_hasAdmin [rotated]] inv_intros | simp add: hasAdmin_def wfdb_def)+
text \<open>
  C16: an administration area that somebody can enter stays so. No sequence of requests, logins,
  ticks, reloads, stops and boots of the two servers, boots that fail on the way included, empties an allowlist that has a row: the area
  refuses to remove the last administrator, and nothing else removes one.
\<close>

theorem allowlist_reachable:
  assumes "reachable D lower y0 y" and "wfdb (sysDB y0)" and "admins (sysDB y0) \<noteq> []"
  shows "admins (sysDB y) \<noteq> []"
  using adminSystem.reachable_keeps [OF assms(1)] assms(2,3) by (simp add: hasAdmin_def)

section \<open>A run of the system\<close>

text \<open>User 2 creates a project while the second statement fails, and the scheduler ticks.\<close>

definition sampleSystem :: "db \<Rightarrow> system" where
  "sampleSystem s = \<lparr>appUp = True, appSnap = defaults, appToken = serviceToken sampleWorld, admUp = True, admSnap = defaults, sysDB = s\<rparr>"

definition createdDespiteFault :: system where
  "createdDespiteFault =
     onDatabase (serveApi CreateProject sampleWorld (requestBy 2 [])) [None, Some (Msg ''connection reset'')] (sampleSystem teamDB)"

lemma reachable_created: "reachable D lower (sampleSystem teamDB) createdDespiteFault"
  unfolding createdDespiteFault_def
  by (intro reachable.step [OF reachable.start] serverStep.api) (simp_all add: sampleSystem_def)

text \<open>Administrator 1 removes the other one, then the scheduler ticks.\<close>

theorem allowlist_reachable_witness:
  "\<forall>w fs. reachable (codec sampleAdmin) (ToLower (uni sampleWorld)) (sampleSystem adminDB) (onDatabase (runScheduler [w]) fs (sampleSystem annAlone)) \<and>
     admins (sysDB (onDatabase (runScheduler [w]) fs (sampleSystem annAlone))) \<noteq> []"
proof (intro allI)
  fix w fs
  have "faults adminDB = []" by (simp add: adminDB_def emptyDB_def)
  then have f: "faulty [] (sampleSystem adminDB) = adminDB" by (simp add: faulty_def sampleSystem_def)
  have c: "admSnap (sampleSystem adminDB) = defaults" by (simp add: sampleSystem_def)
  obtain r where "run_state (serveAdmin AdminRemove sampleAdmin (adminBy 1 ''2'')) (defaults, adminDB) = (r, (defaults, annAlone))"
    using remove_two [of defaults] by blast
  then have "serverStep (codec sampleAdmin) (ToLower (uni sampleWorld)) (sampleSystem adminDB) ((sampleSystem adminDB)\<lparr>admSnap := defaults, sysDB := annAlone\<rparr>)"
    using serverStep.admin [OF _ refl, of "sampleSystem adminDB" sampleAdmin _ AdminRemove "adminBy 1 ''2''" "[]"]
    by (simp only: f c) (simp add: sampleSystem_def sampleAdmin_def)
  moreover have "(sampleSystem adminDB)\<lparr>admSnap := defaults, sysDB := annAlone\<rparr> = sampleSystem annAlone" by (simp add: sampleSystem_def)
  ultimately have first: "serverStep (codec sampleAdmin) (ToLower (uni sampleWorld)) (sampleSystem adminDB) (sampleSystem annAlone)" by simp
  have "appUp (sampleSystem annAlone)" by (simp add: sampleSystem_def)
  then have "reachable (codec sampleAdmin) (ToLower (uni sampleWorld)) (sampleSystem adminDB) (onDatabase (runScheduler [w]) fs (sampleSystem annAlone))"
    by (rule reachable.step [OF reachable.step [OF reachable.start first] serverStep.schedule])
  moreover have "wfdb (sysDB (sampleSystem adminDB))" "admins (sysDB (sampleSystem adminDB)) \<noteq> []"
    by (simp_all add: sampleSystem_def wfdb_def adminDB_def emptyDB_def keyed_def uniq_def)
  ultimately show "reachable (codec sampleAdmin) (ToLower (uni sampleWorld)) (sampleSystem adminDB) (onDatabase (runScheduler [w]) fs (sampleSystem annAlone)) \<and>
     admins (sysDB (onDatabase (runScheduler [w]) fs (sampleSystem annAlone))) \<noteq> []" using allowlist_reachable by blast
qed

end
