(* ===== verification/Lifecycle.thy ===== *)
theory Lifecycle
  imports GoText
begin

text \<open>
  The life of a process: \<open>main\<close> of server/main.go and of server/cmd/admin/main.go as a step relation
  over the events the goroutines of the process can take part in (listeners, requests, the scheduler,
  the signal and the graceful shutdown with its deadline), the discovery loop \<open>newAuth\<close> of auth.go and
  the request log.
\<close>

section \<open>States\<close>

datatype phase = Booting | Serving | Stopping | Draining | DrainingInternal | Closing | Gone

text \<open>The phases in the order \<open>main\<close> runs through them.\<close>

fun phaseNo :: "phase \<Rightarrow> nat" where
  "phaseNo Booting = 0"
| "phaseNo Serving = 1"
| "phaseNo Stopping = 2"
| "phaseNo Draining = 3"
| "phaseNo DrainingInternal = 4"
| "phaseNo Closing = 5"
| "phaseNo Gone = 6"

lemma phaseNo_inject [simp]: "phaseNo p = phaseNo q \<longleftrightarrow> p = q"
  by (cases p; cases q) simp_all

instantiation phase :: linorder
begin

definition less_eq_phase :: "phase \<Rightarrow> phase \<Rightarrow> bool" where
  "less_eq_phase p q \<longleftrightarrow> phaseNo p \<le> phaseNo q"

definition less_phase :: "phase \<Rightarrow> phase \<Rightarrow> bool" where
  "less_phase p q \<longleftrightarrow> phaseNo p < phaseNo q"

instance
  by standard (auto simp: less_eq_phase_def less_phase_def)

end

text \<open>
  \<open>told\<close>: the channel \<open>done\<close> is closed. \<open>looping\<close>, \<open>firing\<close>: the scheduler's goroutine runs its loop, and is
  inside a tick. \<open>overdue\<close>: the context of the shutdown has expired. \<open>exitCode\<close>: None while the
  process lives. The counts are the requests in flight on each listener.
\<close>

record process =
  phaseOf :: phase
  listening :: bool
  internalUp :: bool
  inFlight :: nat
  internalInFlight :: nat
  told :: bool
  looping :: bool
  firing :: bool
  overdue :: bool
  dbOpen :: bool
  exitCode :: "int option"

text \<open>Whether the binary runs the background loops, and has an internal listener configured.\<close>

record binary =
  hasLoops :: bool
  hasInternal :: bool

definition newProcess :: process where
  "newProcess = \<lparr>phaseOf = Booting, listening = False, internalUp = False, inFlight = 0, internalInFlight = 0,
     told = False, looping = False, firing = False, overdue = False, dbOpen = False, exitCode = None\<rparr>"

definition exitWith :: "int \<Rightarrow> process \<Rightarrow> process" where
  "exitWith n y = y\<lparr>phaseOf := Gone, listening := False, internalUp := False, dbOpen := False, exitCode := Some n\<rparr>"

section \<open>Steps\<close>

text \<open>
  \<open>log.Fatalf\<close> ends the process with code 1, in \<open>main\<close> when the start fails and in the goroutine of a
  listener when listening fails. A listener that comes up after its \<open>Shutdown\<close> closes at once.
  The scheduler's \<open>select\<close> may still take a tick when \<open>done\<close> is closed as well, and \<open>main\<close> does not wait
  for it. Each \<open>Shutdown\<close> returns when its requests are finished or the deadline has passed.
\<close>

inductive mainStep :: "binary \<Rightarrow> process \<Rightarrow> process \<Rightarrow> bool" for b where
  bootFails: "phaseOf y = Booting \<Longrightarrow> mainStep b y (exitWith 1 y)"
| boots: "phaseOf y = Booting \<Longrightarrow> mainStep b y (y\<lparr>phaseOf := Serving, dbOpen := True, looping := hasLoops b\<rparr>)"
| listens: "Serving \<le> phaseOf y \<Longrightarrow> phaseOf y < Draining \<Longrightarrow> mainStep b y (y\<lparr>listening := True\<rparr>)"
| listensInternal: "hasInternal b \<Longrightarrow> Serving \<le> phaseOf y \<Longrightarrow> phaseOf y < DrainingInternal \<Longrightarrow> mainStep b y (y\<lparr>internalUp := True\<rparr>)"
| listenFails: "Serving \<le> phaseOf y \<Longrightarrow> phaseOf y < Draining \<or> hasInternal b \<and> phaseOf y < DrainingInternal \<Longrightarrow> mainStep b y (exitWith 1 y)"
| arrives: "listening y \<Longrightarrow> mainStep b y (y\<lparr>inFlight := Suc (inFlight y)\<rparr>)"
| answered: "inFlight y = Suc n \<Longrightarrow> phaseOf y < Gone \<Longrightarrow> mainStep b y (y\<lparr>inFlight := n\<rparr>)"
| pokes: "internalUp y \<Longrightarrow> mainStep b y (y\<lparr>internalInFlight := Suc (internalInFlight y)\<rparr>)"
| poked: "internalInFlight y = Suc n \<Longrightarrow> phaseOf y < Gone \<Longrightarrow> mainStep b y (y\<lparr>internalInFlight := n\<rparr>)"
| ticks: "looping y \<Longrightarrow> \<not> firing y \<Longrightarrow> phaseOf y < Gone \<Longrightarrow> mainStep b y (y\<lparr>firing := True\<rparr>)"
| fired: "firing y \<Longrightarrow> phaseOf y < Gone \<Longrightarrow> mainStep b y (y\<lparr>firing := False\<rparr>)"
| loopEnds: "looping y \<Longrightarrow> \<not> firing y \<Longrightarrow> told y \<Longrightarrow> phaseOf y < Gone \<Longrightarrow> mainStep b y (y\<lparr>looping := False\<rparr>)"
| signalled: "phaseOf y = Serving \<Longrightarrow> mainStep b y (y\<lparr>phaseOf := Stopping, told := True\<rparr>)"
| shuts: "phaseOf y = Stopping \<Longrightarrow> mainStep b y (y\<lparr>phaseOf := Draining, listening := False\<rparr>)"
| deadline: "Stopping \<le> phaseOf y \<Longrightarrow> phaseOf y < Gone \<Longrightarrow> mainStep b y (y\<lparr>overdue := True\<rparr>)"
| drained: "phaseOf y = Draining \<Longrightarrow> inFlight y = 0 \<or> overdue y \<Longrightarrow>
    mainStep b y (if hasInternal b then y\<lparr>phaseOf := DrainingInternal, internalUp := False\<rparr> else y\<lparr>phaseOf := Closing\<rparr>)"
| drainedInternal: "phaseOf y = DrainingInternal \<Longrightarrow> internalInFlight y = 0 \<or> overdue y \<Longrightarrow> mainStep b y (y\<lparr>phaseOf := Closing\<rparr>)"
| closes: "phaseOf y = Closing \<Longrightarrow> mainStep b y (exitWith 0 y)"

inductive lives :: "binary \<Rightarrow> process \<Rightarrow> bool" for b where
  born: "lives b newProcess"
| lived: "lives b y \<Longrightarrow> mainStep b y y' \<Longrightarrow> lives b y'"

inductive_cases mainStepE: "mainStep b y y'"

text \<open>The administration server has no background loop and no internal listener.\<close>

definition adminMainStep :: "process \<Rightarrow> process \<Rightarrow> bool" where
  "adminMainStep = mainStep \<lparr>hasLoops = False, hasInternal = False\<rparr>"

section \<open>Discovery and the request log\<close>

text \<open>
  The discovery loop: the provider once an attempt succeeds, and the seconds slept until then; each
  failed attempt is followed by two. With no further attempt made yet, the login still waits.
\<close>

fun newAuth :: "'p result list \<Rightarrow> 'p option \<times> nat" where
  "newAuth [] = (None, 0)"
| "newAuth (Inr p # attempts) = (Some p, 0)"
| "newAuth (Inl e # attempts) = (case newAuth attempts of (p, slept) \<Rightarrow> (p, slept + 2))"

text \<open>The status is the one written last, 200 when none is; the probe is only logged when it fails.\<close>

definition recordedStatus :: "int list \<Rightarrow> int" where
  "recordedStatus codes = fold (\<lambda>code _. code) codes 200"

definition logRequests :: "string \<Rightarrow> string \<Rightarrow> int list \<Rightarrow> string \<Rightarrow> string option" where
  "logRequests verb path codes took =
     (if path = ''/healthz'' \<and> recordedStatus codes = 200 then None
      else Some (verb @ '' '' @ path @ '' '' @ itoa_int (recordedStatus codes) @ '' '' @ took))"

lemma newAuth_first:
  "newAuth attempts = (map_option projr (List.find (\<lambda>r. \<not> isl r) attempts), 2 * length (takeWhile isl attempts))"
  by (induction attempts rule: newAuth.induct) simp_all

section \<open>What a shutdown leaves behind\<close>

lemmas phase_order = less_eq_phase_def less_phase_def

text \<open>Which part of the process is up in which phase, and what has been waited for.\<close>

definition orderly :: "binary \<Rightarrow> process \<Rightarrow> bool" where
  "orderly b y \<longleftrightarrow>
     (exitCode y = None \<longleftrightarrow> phaseOf y < Gone) \<and> (exitCode y = None \<or> exitCode y = Some 0 \<or> exitCode y = Some 1) \<and>
     (dbOpen y \<longleftrightarrow> Serving \<le> phaseOf y \<and> phaseOf y < Gone) \<and>
     (listening y \<longrightarrow> Serving \<le> phaseOf y \<and> phaseOf y < Draining) \<and>
     (internalUp y \<longrightarrow> hasInternal b \<and> Serving \<le> phaseOf y \<and> phaseOf y < DrainingInternal) \<and>
     (0 < internalInFlight y \<longrightarrow> hasInternal b) \<and>
     (phaseOf y = Booting \<longrightarrow> inFlight y = 0 \<and> internalInFlight y = 0 \<and> \<not> looping y \<and> \<not> firing y \<and> \<not> told y \<and> \<not> overdue y) \<and>
     (phaseOf y = DrainingInternal \<or> phaseOf y = Closing \<or> exitCode y = Some 0 \<longrightarrow> inFlight y = 0 \<or> overdue y) \<and>
     (phaseOf y = Closing \<or> exitCode y = Some 0 \<longrightarrow> internalInFlight y = 0 \<or> overdue y)"

lemma orderly_step:
  assumes "mainStep b y y'" and "orderly b y"
  shows "orderly b y'"
  using assms by (cases rule: mainStep.cases; cases "phaseOf y"; simp add: orderly_def exitWith_def phase_order; blast?)

lemma lives_orderly: "lives b y \<Longrightarrow> orderly b y"
proof (induction rule: lives.induct)
  case born
  show ?case by (simp add: orderly_def newProcess_def phase_order)
next
  case (lived y y')
  then show ?case by (blast intro: orderly_step)
qed

lemma phase_grows: "mainStep b y y' \<Longrightarrow> phaseOf y \<le> phaseOf y'"
  by (erule mainStepE) (auto simp: exitWith_def phase_order)

lemma steps_to: "mainStep b y y' \<Longrightarrow> \<exists>z. rtranclp (mainStep b) y' z \<and> Q z \<Longrightarrow> \<exists>z. rtranclp (mainStep b) y z \<and> Q z"
  by (meson converse_rtranclp_into_rtranclp)

text \<open>Once the deadline may pass, every phase is followed by the next.\<close>

lemma ends_overdue:
  assumes "overdue y" and "Stopping \<le> phaseOf y" and "phaseOf y < Gone"
  shows "\<exists>z. rtranclp (mainStep b) y z \<and> exitCode z = Some 0"
proof -
  have c: "\<exists>z. rtranclp (mainStep b) y z \<and> exitCode z = Some 0" if "phaseOf y = Closing" for y
    by (rule steps_to [OF mainStep.closes [OF that]]) (auto simp: exitWith_def)
  have i: "\<exists>z. rtranclp (mainStep b) y z \<and> exitCode z = Some 0" if "phaseOf y = DrainingInternal" "overdue y" for y
    by (rule steps_to [OF mainStep.drainedInternal [OF that(1)]]) (auto simp: that intro: c)
  have d: "\<exists>z. rtranclp (mainStep b) y z \<and> exitCode z = Some 0" if "phaseOf y = Draining" "overdue y" for y
    by (rule steps_to [OF mainStep.drained [OF that(1)]]) (auto simp: that intro: c i)
  have s: "\<exists>z. rtranclp (mainStep b) y z \<and> exitCode z = Some 0" if "phaseOf y = Stopping" "overdue y" for y
    by (rule steps_to [OF mainStep.shuts [OF that(1)]]) (auto simp: that intro: d)
  show ?thesis using assms(2,3) c [of y] i [OF _ assms(1)] d [OF _ assms(1)] s [OF _ assms(1)]
    by (cases "phaseOf y") (simp_all add: phase_order)
qed

text \<open>
  C24: a shutdown loses no request it had time for, and it ends. A process that exits with code 0 before
  its deadline has answered every request of both listeners; while a request is in flight the database
  is open, unless the deadline has passed or the process died of a listener; and from the signal on the
  process can always reach its end, however long its requests take.
\<close>

theorem graceful_shutdown:
  assumes "lives b y"
  shows "(exitCode y = Some 0 \<and> \<not> overdue y \<longrightarrow> inFlight y = 0 \<and> internalInFlight y = 0) \<and>
    (0 < inFlight y + internalInFlight y \<and> \<not> overdue y \<and> exitCode y \<noteq> Some 1 \<longrightarrow> dbOpen y) \<and>
    (Stopping \<le> phaseOf y \<longrightarrow> (\<exists>z. rtranclp (mainStep b) y z \<and> exitCode z \<noteq> None))"
proof -
  have o: "orderly b y" by (rule lives_orderly [OF assms])
  have "\<exists>z. rtranclp (mainStep b) y z \<and> exitCode z \<noteq> None" if "Stopping \<le> phaseOf y"
  proof (cases "phaseOf y < Gone")
    case True
    show ?thesis
    proof (rule steps_to [OF mainStep.deadline [OF that True]])
      have "\<exists>z. rtranclp (mainStep b) (y\<lparr>overdue := True\<rparr>) z \<and> exitCode z = Some 0"
        by (rule ends_overdue) (use that True in simp_all)
      then show "\<exists>z. rtranclp (mainStep b) (y\<lparr>overdue := True\<rparr>) z \<and> exitCode z \<noteq> None" by (elim exE) (rule exI, auto)
    qed
  next
    case False
    then have "exitCode y \<noteq> None" using o unfolding orderly_def by simp
    then show ?thesis by (intro exI [of _ y] conjI rtranclp.rtrancl_refl)
  qed
  moreover have "0 < inFlight y + internalInFlight y \<and> \<not> overdue y \<and> exitCode y \<noteq> Some 1 \<longrightarrow> dbOpen y"
    using o by (cases "phaseOf y") (simp_all add: orderly_def phase_order, fastforce)
  moreover have "exitCode y = Some 0 \<and> \<not> overdue y \<longrightarrow> inFlight y = 0 \<and> internalInFlight y = 0"
    using o unfolding orderly_def by blast
  ultimately show ?thesis by blast
qed

section \<open>A scheduled run is not waited for\<close>

definition playgroundBinary :: binary where
  "playgroundBinary = \<lparr>hasLoops = True, hasInternal = True\<rparr>"

definition served :: process where
  "served = newProcess\<lparr>phaseOf := Serving, dbOpen := True, looping := True\<rparr>"

lemma run_of_main:
  "lives playgroundBinary served"
  "lives playgroundBinary (served\<lparr>firing := True\<rparr>)"
  "lives playgroundBinary (served\<lparr>firing := True, phaseOf := Stopping, told := True\<rparr>)"
  "lives playgroundBinary (exitWith 0 (served\<lparr>firing := True, told := True\<rparr>))"
proof -
  show s: "lives playgroundBinary served"
    using lives.lived [OF lives.born mainStep.boots [of newProcess playgroundBinary]] by (simp add: served_def playgroundBinary_def newProcess_def)
  show f: "lives playgroundBinary (served\<lparr>firing := True\<rparr>)"
    using lives.lived [OF s mainStep.ticks] by (simp add: served_def newProcess_def phase_order)
  show t: "lives playgroundBinary (served\<lparr>firing := True, phaseOf := Stopping, told := True\<rparr>)"
    using lives.lived [OF f mainStep.signalled] by (simp add: served_def newProcess_def)
  from lives.lived [OF t mainStep.shuts]
  have "lives playgroundBinary (served\<lparr>firing := True, phaseOf := Draining, told := True\<rparr>)" by (simp add: served_def newProcess_def)
  from lives.lived [OF this mainStep.drained]
  have "lives playgroundBinary (served\<lparr>firing := True, phaseOf := DrainingInternal, told := True\<rparr>)"
    by (simp add: served_def newProcess_def playgroundBinary_def)
  from lives.lived [OF this mainStep.drainedInternal]
  have "lives playgroundBinary (served\<lparr>firing := True, phaseOf := Closing, told := True\<rparr>)" by (simp add: served_def newProcess_def)
  from lives.lived [OF this mainStep.closes]
  show "lives playgroundBinary (exitWith 0 (served\<lparr>firing := True, told := True\<rparr>))"
    by (simp add: served_def newProcess_def exitWith_def)
qed

text \<open>
  C37: a graceful shutdown severs a scheduled run. The playground can exit with code 0 before the
  deadline, with no request in flight, while the scheduler is still inside a tick: \<open>main\<close> closes the
  channel of the loop but does not wait for it, so the run is killed with the process and its
  trigger, not rescheduled yet, is due again after the restart.
\<close>

theorem shutdown_severs_tick:
  "\<exists>y. lives playgroundBinary y \<and> exitCode y = Some 0 \<and> \<not> overdue y \<and> inFlight y = 0 \<and> firing y"
  by (intro exI [of _ "exitWith 0 (served\<lparr>firing := True, told := True\<rparr>)"] conjI run_of_main(4))
    (simp_all add: served_def newProcess_def exitWith_def)

text \<open>The signal arrives during a tick: the process can still end.\<close>

theorem graceful_shutdown_witness:
  "\<exists>z. rtranclp (mainStep playgroundBinary) (served\<lparr>firing := True, phaseOf := Stopping, told := True\<rparr>) z \<and> exitCode z \<noteq> None"
  using graceful_shutdown [OF run_of_main(3)] by (simp add: phase_order)

end
