(* ===== verification/Columns.thy ===== *)
theory Columns
  imports GoText
begin

text \<open>
  Column lists of the SQL text: \<open>stringComma\<close> and \<open>trimSpace\<close> of server/internal/store/workspaces.go,
  as the loops they are, and what they compute.
\<close>

section \<open>The loops\<close>

definition isBlank :: "char \<Rightarrow> bool" where
  "isBlank c \<longleftrightarrow> c = CHR '' '' \<or> c = CHR 0x09 \<or> c = CHR 0x0A"

text \<open>The two loops of \<open>trimSpace\<close>: the index of the first byte to keep, and the one after the last.\<close>

function trimFrom :: "string \<Rightarrow> nat \<Rightarrow> nat \<Rightarrow> nat" where
  "trimFrom s i j = (if i < j \<and> isBlank (s ! i) then trimFrom s (Suc i) j else i)"
  by pat_completeness auto
termination by (relation "measure (\<lambda>(s, i, j). j - i)") auto

fun trimTo :: "string \<Rightarrow> nat \<Rightarrow> nat \<Rightarrow> nat" where
  "trimTo s i 0 = 0"
| "trimTo s i (Suc j) = (if i < Suc j \<and> isBlank (s ! j) then trimTo s i j else Suc j)"

definition trimSpace :: "string \<Rightarrow> string" where
  "trimSpace s =
     (let i = trimFrom s 0 (length s);
          j = trimTo s i (length s)
      in take (j - i) (drop i s))"

text \<open>The loop of \<open>stringComma\<close>: \<open>i\<close> runs one past the end, \<open>start\<close> is where the current column begins.\<close>

function commaLoop :: "string \<Rightarrow> string \<Rightarrow> nat \<Rightarrow> nat \<Rightarrow> string \<Rightarrow> string" where
  "commaLoop src prefix i start b =
     (if length src < i then b
      else if i = length src \<or> src ! i = CHR '',''
      then commaLoop src prefix (Suc i) (Suc i)
             ((if b \<noteq> [] then b @ '', '' else b) @ prefix @ trimSpace (take (i - start) (drop start src)))
      else commaLoop src prefix (Suc i) start b)"
  by pat_completeness auto
termination by (relation "measure (\<lambda>(src, prefix, i, start, b). Suc (length src) - i)") auto

definition stringComma :: "string \<Rightarrow> string \<Rightarrow> string" where
  "stringComma cols prefix = commaLoop cols prefix 0 0 []"

declare trimFrom.simps [simp del] commaLoop.simps [simp del]

section \<open>What they compute\<close>

lemma trimFrom_drop: "i \<le> length s \<Longrightarrow> drop (trimFrom s i (length s)) s = dropWhile isBlank (drop i s) \<and> trimFrom s i (length s) \<le> length s"
proof (induction "length s - i" arbitrary: i)
  case 0
  then show ?case by (subst (1 2) trimFrom.simps) simp
next
  case (Suc n)
  then have i: "i < length s" by simp
  from Suc.hyps(1) [of "Suc i"] Suc.hyps(2) i show ?case
    by (subst (1 2) trimFrom.simps) (auto simp: Cons_nth_drop_Suc [symmetric])
qed

lemma trimTo_take: "i \<le> j \<Longrightarrow> j \<le> length s \<Longrightarrow>
    take (trimTo s i j - i) (drop i s) = rev (dropWhile isBlank (rev (take (j - i) (drop i s))))"
proof (induction s i j rule: trimTo.induct)
  case (2 s i j)
  show ?case
  proof (cases "i \<le> j")
    case True
    then have "take (Suc j - i) (drop i s) = take (j - i) (drop i s) @ [s ! j]"
      using "2.prems" by (simp add: Suc_diff_le take_Suc_conv_app_nth)
    then show ?thesis using "2.IH" "2.prems" True by (auto simp: Suc_diff_le)
  next
    case False
    then show ?thesis using "2.prems" by simp
  qed
qed simp

text \<open>\<open>trimSpace\<close> drops the blanks on both sides.\<close>

lemma trimSpace_eq: "trimSpace s = rev (dropWhile isBlank (rev (dropWhile isBlank s)))"
proof -
  have "drop (trimFrom s 0 (length s)) s = dropWhile isBlank s" "trimFrom s 0 (length s) \<le> length s"
    using trimFrom_drop [of 0 s] by simp_all
  moreover from this(1) have "length (dropWhile isBlank s) = length s - trimFrom s 0 (length s)" by (metis length_drop)
  ultimately show ?thesis
    using trimTo_take [of "trimFrom s 0 (length s)" "length s" s] by (simp add: trimSpace_def Let_def)
qed

fun columnsOf :: "string \<Rightarrow> string list" where
  "columnsOf [] = [[]]"
| "columnsOf (c # s) =
     (if c = CHR '','' then [] # columnsOf s
      else (case columnsOf s of [] \<Rightarrow> [[c]] | col # cols \<Rightarrow> (c # col) # cols))"

lemma columnsOf_Nil [simp]: "columnsOf s \<noteq> []"
  by (cases s) (auto split: list.split)

text \<open>What is appended for the columns that are left.\<close>

fun appended :: "string \<Rightarrow> string \<Rightarrow> string list \<Rightarrow> string" where
  "appended prefix b [] = b"
| "appended prefix b (col # cols) = appended prefix ((if b \<noteq> [] then b @ '', '' else b) @ prefix @ trimSpace col) cols"

lemma commaLoop_end: "length src < i \<Longrightarrow> commaLoop src prefix i start b = b"
  by (subst commaLoop.simps) simp

lemma commaLoop_columns:
  assumes "start \<le> i" and "i \<le> length src" and "CHR '','' \<notin> set (take (i - start) (drop start src))"
  shows "commaLoop src prefix i start b =
    appended prefix b ((take (i - start) (drop start src) @ hd (columnsOf (drop i src))) # tl (columnsOf (drop i src)))"
  using assms
proof (induction "length src - i" arbitrary: i start b)
  case 0
  then have "i = length src" by simp
  then show ?case by (subst commaLoop.simps) (simp add: commaLoop_end)
next
  case (Suc n)
  then have i: "i < length src" and n: "n = length src - Suc i" by simp_all
  have d: "drop i src = src ! i # drop (Suc i) src" using i by (simp add: Cons_nth_drop_Suc)
  have t: "take (Suc i - start) (drop start src) = take (i - start) (drop start src) @ [src ! i]"
    using Suc.prems(1) i by (simp add: Suc_diff_le take_Suc_conv_app_nth)
  show ?case
  proof (cases "src ! i = CHR '',''")
    case True
    have "commaLoop src prefix i start b = commaLoop src prefix (Suc i) (Suc i)
        ((if b \<noteq> [] then b @ '', '' else b) @ prefix @ trimSpace (take (i - start) (drop start src)))"
      using i True by (subst commaLoop.simps) simp
    also have "\<dots> = appended prefix ((if b \<noteq> [] then b @ '', '' else b) @ prefix @ trimSpace (take (i - start) (drop start src)))
        (columnsOf (drop (Suc i) src))"
      using Suc.hyps(1) [OF n, of "Suc i"] i by simp
    finally show ?thesis using True by (simp add: d)
  next
    case False
    have "commaLoop src prefix i start b = commaLoop src prefix (Suc i) start b"
      using i False by (subst commaLoop.simps) simp
    also have "\<dots> = appended prefix b ((take (Suc i - start) (drop start src) @ hd (columnsOf (drop (Suc i) src))) # tl (columnsOf (drop (Suc i) src)))"
      using Suc.hyps(1) [OF n, of start] Suc.prems i False by (simp add: t)
    finally show ?thesis using False by (simp add: d t split: list.split)
  qed
qed

lemma appended_join: "b \<noteq> [] \<Longrightarrow> appended prefix b cols = b @ concat (map (\<lambda>col. '', '' @ prefix @ trimSpace col) cols)"
  by (induction cols arbitrary: b) simp_all

text \<open>The columns, each trimmed and prefixed, joined with commas.\<close>

lemma stringComma_columns:
  assumes "prefix \<noteq> []" and "columnsOf cols = first # rest"
  shows "stringComma cols prefix = prefix @ trimSpace first @ concat (map (\<lambda>col. '', '' @ prefix @ trimSpace col) rest)"
  using assms commaLoop_columns [of 0 0 cols prefix "[]"] by (simp add: stringComma_def appended_join)

lemma workspaceColumns_joined:
  "stringComma ''id, slug, name, created_at'' ''w.'' = ''w.id, w.slug, w.name, w.created_at''"
proof -
  have "columnsOf ''id, slug, name, created_at'' = ''id'' # ['' slug'', '' name'', '' created_at'']" by simp
  from stringComma_columns [OF _ this, of "''w.''"] show ?thesis by (simp add: trimSpace_eq isBlank_def)
qed

text \<open>A column that is an expression with a comma is torn apart.\<close>

lemma expression_column_torn:
  "stringComma ''id, COALESCE(last_login_at, 0)'' ''u.'' = ''u.id, u.COALESCE(last_login_at, u.0)''"
proof -
  have "columnsOf ''id, COALESCE(last_login_at, 0)'' = ''id'' # ['' COALESCE(last_login_at'', '' 0)'']" by simp
  from stringComma_columns [OF _ this, of "''u.''"] show ?thesis by (simp add: trimSpace_eq isBlank_def)
qed

end
