(* ===== verification/Runner.thy ===== *)
theory Runner
  imports Bridge KVLog
begin

text \<open>
  The other side of the two formats the server reads: the runner, runner/fcplay.c. Its plugin
  function \<open>bridge_call\<close> over the byte streams of the socket, and \<open>dump_stores\<close>, which writes the lines
  the key/value log is read from. C strings end at the first NUL byte; the log function \<open>fc_log\<close> of the
  flowcode library writes a line after a prefix of its own.
\<close>

definition cstr :: "bytes \<Rightarrow> string" where
  "cstr s = takeWhile (\<lambda>c. c \<noteq> CHR 0x00) s"

section \<open>A call over the bridge\<close>

text \<open>A parameter's value may be a null pointer; the token may be missing.\<close>

record ccall =
  ccName :: string
  ccParams :: "(string \<times> string option) list"
  ccToken :: "bytes option"

definition wr_u32 :: "32 word \<Rightarrow> bytes" where
  "wr_u32 v = map (\<lambda>k. char_of (unat (drop_bit (8 * k) v) mod 256)) [0, 1, 2, 3]"

definition wr_str :: "string \<Rightarrow> bytes" where
  "wr_str s = wr_u32 (word_of_nat (length s)) @ s"

definition callFrame :: "ccall \<Rightarrow> bytes" where
  "callFrame c =
     wr_str (ccName c) @ wr_u32 (word_of_nat (length (ccParams c))) @
     concat (map (\<lambda>(k, v). wr_str k @ wr_str (case v of None \<Rightarrow> [] | Some x \<Rightarrow> x)) (ccParams c)) @
     (case ccToken c of None \<Rightarrow> wr_u32 0 | Some t \<Rightarrow> if t \<noteq> [] then wr_str t else wr_u32 0)"

text \<open>None: the server closed the socket or the read timed out before the bytes were there.\<close>

definition rd_all :: "nat \<Rightarrow> bytes \<Rightarrow> (bytes \<times> bytes) option" where
  "rd_all n s = (if length s < n then None else Some (take n s, drop n s))"

definition rd_u32 :: "bytes \<Rightarrow> (32 word \<times> bytes) option" where
  "rd_u32 s = do { (b, s) \<leftarrow> rd_all 4 s; Some (le32 b, s) }"

definition resultMax :: nat where
  "resultMax = 65536"

text \<open>The loop that drains what exceeds the buffer, 512 bytes at a time.\<close>

function drain :: "nat \<Rightarrow> bytes \<Rightarrow> bytes option" where
  "drain left s =
     (if left = 0 then Some s
      else do { (_, s) \<leftarrow> rd_all (min left 512) s; drain (left - min left 512) s })"
  by pat_completeness auto
termination by (relation "measure fst") auto

declare drain.simps [simp del]

record verdict =
  vOK :: bool
  vStatus :: string
  vResult :: bytes
  vSize :: nat

text \<open>
  A status of 256 bytes or more is cut to 255 and the rest of it is not read; a result beyond the
  buffer is cut and drained.
\<close>

definition readVerdict :: "bytes \<Rightarrow> (verdict \<times> bytes) option" where
  "readVerdict s = do {
     (ok, s) \<leftarrow> rd_all 1 s;
     (status_len, s) \<leftarrow> rd_u32 s;
     let statusLen = (if 256 \<le> unat status_len then 255 else unat status_len);
     (status, s) \<leftarrow> rd_all statusLen s;
     (result_len, s) \<leftarrow> rd_u32 s;
     let rlen = min (unat result_len) resultMax;
     (result, s) \<leftarrow> rd_all rlen s;
     s \<leftarrow> drain (unat result_len - rlen) s;
     Some (\<lparr>vOK = (ok \<noteq> [CHR 0x00]), vStatus = status, vResult = result, vSize = unat result_len\<rparr>, s)
   }"

datatype plugin_result = PluginOK "bytes option" | PluginErr

text \<open>
  One call on a connected socket: what is written, the verdict the plugin returns (an empty result
  leaves the token alone), the line that is logged, and the rest of the stream unless the socket is
  closed after an error.
\<close>

definition bridge_call :: "ccall \<Rightarrow> bytes \<Rightarrow> bytes \<times> plugin_result \<times> string \<times> bytes option" where
  "bridge_call c s =
     (callFrame c,
      (case readVerdict s of
         None \<Rightarrow> (PluginErr, ''app call '' @ ccName c @ '': bridge I/O error'', None)
       | Some (v, rest) \<Rightarrow>
           (if \<not> vOK v then PluginErr else PluginOK (if 0 < vSize v then Some (vResult v) else None),
            ''app call '' @ ccName c @ '' -> '' @ cstr (vStatus v), Some rest)))"

section \<open>The dump of the store\<close>

definition valueDisplay :: nat where
  "valueDisplay = 512"

definition is_synthetic_store_key :: "string \<Rightarrow> bool" where
  "is_synthetic_store_key key \<longleftrightarrow> take 9 key = ''on_error:'' \<or> take 11 key = ''__on_error.''"

definition sanitized :: "char \<Rightarrow> char" where
  "sanitized ch =
     (if ch = quote then CHR 0x27 else if byte ch < 0x20 \<or> byte ch = 0x7F then CHR '' '' else ch)"

definition shown :: "bytes \<Rightarrow> string" where
  "shown raw = map sanitized (take valueDisplay raw) @ (if valueDisplay < length raw then ''...'' else [])"

definition log_store_set :: "string \<Rightarrow> bytes \<Rightarrow> string" where
  "log_store_set key raw = ''store set key = '' @ [quote] @ key @ [quote] @ '' value = '' @ [quote] @ shown raw @ [quote]"

text \<open>The key a STORE with this argument writes; None when it is longer than the VM's buffer.\<close>

definition storeKey :: "bytes \<Rightarrow> string option" where
  "storeKey arg = (if arg = [] then Some ''last_token'' else if 256 \<le> length arg then None else Some (cstr arg))"

text \<open>
  The loop over the instructions, of which only the arguments of the STOREs matter. Up to 64 keys are
  remembered; later ones may be written again.
\<close>

fun dump_stores :: "(string \<rightharpoonup> bytes) \<Rightarrow> string list \<Rightarrow> bytes list \<Rightarrow> string list" where
  "dump_stores state seen [] = []"
| "dump_stores state seen (arg # args) =
     (case storeKey arg of
        None \<Rightarrow> dump_stores state seen args
      | Some key \<Rightarrow>
          if is_synthetic_store_key key \<or> key \<in> set seen then dump_stores state seen args
          else (case state key of None \<Rightarrow> [] | Some v \<Rightarrow> [log_store_set key v]) @
            dump_stores state (if length seen < 64 then seen @ [key] else seen) args)"
section \<open>Resource limits\<close>

text \<open>
  \<open>limit\<close>: the current and the maximal value of a resource, None for infinity, and the value wanted.
\<close>

definition limitTo :: "nat option \<times> nat option \<Rightarrow> nat \<Rightarrow> nat option \<times> nat option" where
  "limitTo rl wanted =
     (case rl of (cur, hard) \<Rightarrow>
       if (case cur of None \<Rightarrow> False | Some c \<Rightarrow> c \<le> wanted) then (cur, hard)
       else (Some (case hard of None \<Rightarrow> wanted | Some m \<Rightarrow> if m < wanted then m else wanted), hard))"

text \<open>A limit is never raised, and is in force afterwards.\<close>

lemma limitTo_lowers:
  "\<exists>c. fst (limitTo (cur, hard) wanted) = Some c \<and> c \<le> wanted \<and> (\<forall>c0. cur = Some c0 \<longrightarrow> c \<le> c0) \<and>
    (\<forall>m. hard = Some m \<and> cur = None \<longrightarrow> c \<le> m)"
  by (cases cur; cases hard) (auto simp: limitTo_def)

section \<open>The two ends agree\<close>

lemma wr_u32_put: "wr_u32 v = put_le32 v"
  by (simp add: wr_u32_def put_le32_def Let_def unat_drop_bit_eq drop_bit_eq_div unat_div)

lemma wr_str_put: "wr_str s = bridgeAppendString [] s"
  by (simp add: wr_str_def wr_u32_put bridgeAppendString_def)

text \<open>What the call means to the server: null values and a missing token are empty.\<close>

definition asRequest :: "ccall \<Rightarrow> bridgeRequest" where
  "asRequest c =
     \<lparr>reqName = ccName c, reqParams = map (\<lambda>(k, v). (k, case v of None \<Rightarrow> [] | Some x \<Rightarrow> x)) (ccParams c),
      reqToken = (case ccToken c of None \<Rightarrow> [] | Some t \<Rightarrow> t)\<rparr>"

lemma callFrame_request: "callFrame c = requestBytes (asRequest c)"
proof -
  have "concat (map (\<lambda>(k, v). wr_str k @ wr_str (case v of None \<Rightarrow> [] | Some x \<Rightarrow> x)) ps) =
      concat (map pairBytes (map (\<lambda>(k, v). (k, case v of None \<Rightarrow> [] | Some x \<Rightarrow> x)) ps))" for ps
    by (induction ps) (auto simp: wr_str_put pairBytes_def)
  moreover have "(case ccToken c of None \<Rightarrow> wr_u32 0 | Some t \<Rightarrow> if t \<noteq> [] then wr_str t else wr_u32 0) =
      bridgeAppendString [] (case ccToken c of None \<Rightarrow> [] | Some t \<Rightarrow> t)"
    by (auto simp: wr_str_put wr_u32_put bridgeAppendString_def split: option.split)
  ultimately show ?thesis by (simp add: callFrame_def requestBytes_def asRequest_def wr_str_put wr_u32_put)
qed

lemma rd_u32_put: "rd_u32 (put_le32 w @ rest) = Some (w, rest)"
  by (simp add: rd_u32_def rd_all_def)

lemma rd_byte: "rd_all (Suc 0) (c # s) = Some ([c], s)"
  by (simp add: rd_all_def)

lemma drain_eq: "drain n s = (if length s < n then None else Some (drop n s))"
proof (induction n s rule: drain.induct)
  case (1 left s)
  show ?case
  proof (cases "left = 0")
    case False
    then have m: "0 < min left 512" "min left 512 \<le> left" by simp_all
    show ?thesis
    proof (cases "length s < min left 512")
      case True
      then show ?thesis using False m by (simp add: drain.simps [of left s] rd_all_def)
    next
      case enough: False
      then have r: "rd_all (min left 512) s = Some (take (min left 512) s, drop (min left 512) s)" by (simp add: rd_all_def)
      have "drain (left - min left 512) (drop (min left 512) s) =
          (if length (drop (min left 512) s) < left - min left 512 then None
           else Some (drop (left - min left 512) (drop (min left 512) s)))"
        using "1.IH" [OF False r] by blast
      then show ?thesis using False r m enough by (auto simp: drain.simps [of left s] drop_drop)
    qed
  qed (simp add: drain.simps [of 0 s])
qed

lemma readVerdict_response:
  assumes "length status < 256" and "length result < 4294967296"
  shows "readVerdict (writeBridgeResponse ok status result @ rest) =
    Some (\<lparr>vOK = ok, vStatus = status, vResult = take resultMax result, vSize = length result\<rparr>, rest)"
proof -
  have s: "unat (word_of_nat (length status) :: 32 word) = length status" using assms(1) by (intro unat_of_nat32) simp
  have r: "unat (word_of_nat (length result) :: 32 word) = length result" using assms(2) by (intro unat_of_nat32) simp
  define tl1 where "tl1 = put_le32 (word_of_nat (length result)) @ result @ rest"
  have w: "writeBridgeResponse ok status result @ rest = (if ok then CHR 0x01 else CHR 0x00) # put_le32 (word_of_nat (length status)) @ status @ tl1"
    by (simp add: writeBridgeResponse_def bridgeAppendString_def tl1_def)
  have "rd_all (min (length result) resultMax) (result @ rest) =
      Some (take resultMax result, drop (min (length result) resultMax) (result @ rest))"
    by (auto simp: rd_all_def min_def)
  moreover have "drain (length result - min (length result) resultMax) (drop (min (length result) resultMax) (result @ rest)) = Some rest"
    by (simp add: drain_eq drop_drop min_def)
  moreover have "rd_all (length status) (status @ tl1) = Some (status, tl1)" by (simp add: rd_all_def)
  ultimately show ?thesis
    unfolding w using assms(1)
    by (simp add: readVerdict_def rd_u32_put s rd_byte Let_def) (simp add: tl1_def rd_u32_put r)
qed
section \<open>A run's calls over one connection\<close>

text \<open>
  The specification: the calls are made on the app service directly, one after the other, with what
  the program gave, null values and a missing token being empty.
\<close>

definition givenParams :: "ccall \<Rightarrow> params" where
  "givenParams c = map (\<lambda>(k, v). (k, case v of None \<Rightarrow> [] | Some x \<Rightarrow> x)) (ccParams c)"

definition givenToken :: "ccall \<Rightarrow> bytes" where
  "givenToken c = (case ccToken c of None \<Rightarrow> [] | Some t \<Rightarrow> t)"

type_synonym outcome = "Outcome \<times> goerr option \<times> effect list"

fun directCalls ::
  "unicode \<Rightarrow> (nat \<Rightarrow> Snapshot \<times> callenv) \<Rightarrow> Actor \<Rightarrow> nat \<Rightarrow> ccall list \<Rightarrow> service \<Rightarrow> outcome list \<times> service" where
  "directCalls U envs actor n [] st = ([], st)"
| "directCalls U envs actor n (c # cs) st =
     (case Call U (snd (envs n)) (fst (envs n)) actor (ccName c) (givenParams c) (givenToken c) st of
        (r, st1) \<Rightarrow> (case directCalls U envs actor (n + 1) cs st1 of (rs, st2) \<Rightarrow> (r # rs, st2)))"

text \<open>What the program should learn of a call, and what the transcript of the run should hold.\<close>

definition verdictOf :: "outcome \<Rightarrow> verdict" where
  "verdictOf r = (case r of (out, err, es) \<Rightarrow>
     \<lparr>vOK = (err = None), vStatus = OutStatus out, vResult = take resultMax (OutResult out), vSize = length (OutResult out)\<rparr>)"

definition pluginOf :: "outcome \<Rightarrow> plugin_result" where
  "pluginOf r = (case r of (out, err, es) \<Rightarrow>
     if err \<noteq> None then PluginErr else if OutResult out = [] then PluginOK None else PluginOK (Some (take resultMax (OutResult out))))"

definition recorded :: "(nat \<Rightarrow> Snapshot \<times> callenv) \<Rightarrow> nat \<Rightarrow> ccall \<Rightarrow> outcome \<Rightarrow> AppCall" where
  "recorded envs n c r = (case r of (out, err, es) \<Rightarrow>
     \<lparr>AcName = ccName c, AcStatus = OutStatus out, AcRequest = OutRequest out, AcResponse = OutResponse out,
      AcDurationMs = callMs (snd (envs n))\<rparr>)"

fun transcriptOf :: "(nat \<Rightarrow> Snapshot \<times> callenv) \<Rightarrow> nat \<Rightarrow> ccall list \<Rightarrow> outcome list \<Rightarrow> AppCall list" where
  "transcriptOf envs n (c # cs) (r # rs) = recorded envs n c r # transcriptOf envs (n + 1) cs rs"
| "transcriptOf envs n _ _ = []"

text \<open>The runner's side: the calls in order, each on what the one before left on the socket.\<close>

fun pluginCalls :: "ccall list \<Rightarrow> bytes \<Rightarrow> plugin_result list \<times> bytes option" where
  "pluginCalls [] s = ([], Some s)"
| "pluginCalls (c # cs) s =
     (case bridge_call c s of
        (_, r, _, None) \<Rightarrow> ([r], None)
      | (_, r, _, Some rest) \<Rightarrow> (case pluginCalls cs rest of (rs, left) \<Rightarrow> (r # rs, left)))"

lemma Call_failed_empty: "Call U cenv snap actor name ps token st = ((out, Some err, es), st') \<Longrightarrow> OutResult out = []"
  by (auto simp: Call_eq Let_def outcomeOf_def split: sum.splits)

lemma answer_call:
  assumes "Call U (snd (envs (callsMade b))) (fst (envs (callsMade b))) actor (ccName c) (givenParams c) (givenToken c) (svc b) = ((out, err, es), st)"
  shows "answer U envs actor (asRequest c) b =
    (writeBridgeResponse (err = None) (OutStatus out) (OutResult out),
     b\<lparr>callsMade := callsMade b + 1, appCalls := appCalls b @ [recorded envs (callsMade b) c (out, err, es)], svc := st\<rparr>)"
proof -
  have "err \<noteq> None \<Longrightarrow> OutResult out = []" using assms by (auto dest: Call_failed_empty)
  then show ?thesis
    using assms by (cases "envs (callsMade b)") (auto simp: answer_def asRequest_def givenParams_def givenToken_def recorded_def Let_def)
qed

lemma answer_frame:
  assumes "answer U envs actor req b = (frame, b')"
  obtains ok result ac where "frame = writeBridgeResponse ok (AcStatus ac) result" "appCalls b' = appCalls b @ [ac]"
    "AcName ac = reqName req"
proof -
  obtain snap cenv where e: "envs (callsMade b) = (snap, cenv)" by (cases "envs (callsMade b)")
  obtain outcome err es st where c: "Call U cenv snap actor (reqName req) (reqParams req) (reqToken req) (svc b) = ((outcome, err, es), st)"
    by (cases "Call U cenv snap actor (reqName req) (reqParams req) (reqToken req) (svc b)") auto
  let ?ac = "\<lparr>AcName = reqName req, AcStatus = OutStatus outcome, AcRequest = OutRequest outcome,
    AcResponse = OutResponse outcome, AcDurationMs = callMs cenv\<rparr>"
  have "frame = writeBridgeResponse (err = None) (AcStatus ?ac) (if err = None then OutResult outcome else [])"
    "appCalls b' = appCalls b @ [?ac]"
    using assms by (auto simp: answer_def e c Let_def)
  then show thesis by (rule that) simp
qed

lemma requestsOf_frames: "list_all sendable rs \<Longrightarrow> requestsOf (concat (map requestBytes rs)) = rs"
proof (induction rs)
  case Nil
  have "readBridgeRequest [] = None" by (simp add: readBridgeRequest_def readBridgeString_def readU32_def)
  then show ?case by (simp add: requestsOf.simps [of "[]"])
next
  case (Cons r rs)
  then show ?case using request.dec_enc [of r "concat (map requestBytes rs)"] by (simp add: requestsOf.simps [of "requestBytes r @ _"])
qed

lemma session_refines:
  assumes "answerAll U envs actor (map asRequest cs) b = (frames, b')" and "list_all (\<lambda>f. length f < 4294967296) frames"
    and "list_all (\<lambda>ac. length (AcStatus ac) < 256) (drop (length (appCalls b)) (appCalls b'))"
    and "directCalls U envs actor (callsMade b) cs (svc b) = (outs, st)"
  shows "decodeN readVerdict (length cs) (concat frames) = Some (map verdictOf outs, []) \<and>
    pluginCalls cs (concat frames) = (map pluginOf outs, Some []) \<and>
    appCalls b' = appCalls b @ transcriptOf envs (callsMade b) cs outs \<and> svc b' = st \<and> callsMade b' = callsMade b + length cs"
  using assms
proof (induction cs arbitrary: b frames outs)
  case (Cons c cs)
  obtain out err es st1 where c: "Call U (snd (envs (callsMade b))) (fst (envs (callsMade b))) actor (ccName c) (givenParams c)
      (givenToken c) (svc b) = ((out, err, es), st1)"
    by (cases "Call U (snd (envs (callsMade b))) (fst (envs (callsMade b))) actor (ccName c) (givenParams c) (givenToken c) (svc b)") auto
  define f where "f = writeBridgeResponse (err = None) (OutStatus out) (OutResult out)"
  define ac where "ac = recorded envs (callsMade b) c (out, err, es)"
  define b1 where "b1 = b\<lparr>callsMade := callsMade b + 1, appCalls := appCalls b @ [ac], svc := st1\<rparr>"
  have a: "answer U envs actor (asRequest c) b = (f, b1)" using answer_call [where envs = envs and b = b and c = c, OF c] by (simp add: f_def b1_def ac_def)
  obtain fs where fs: "answerAll U envs actor (map asRequest cs) b1 = (fs, b')" "frames = f # fs"
    using Cons.prems(1) a by (auto split: prod.splits)
  obtain rs where rs: "directCalls U envs actor (callsMade b1) cs (svc b1) = (rs, st)" "outs = (out, err, es) # rs"
    using Cons.prems(4) c by (auto simp: b1_def split: prod.splits)
  obtain more where more: "appCalls b' = appCalls b1 @ more"
    using answerAll_appCalls [of U envs actor "map asRequest cs" b1] fs(1) by auto
  have d: "drop (length (appCalls b)) (appCalls b') = ac # more" "drop (length (appCalls b1)) (appCalls b') = more"
    using more by (simp_all add: b1_def)
  have IH: "decodeN readVerdict (length cs) (concat fs) = Some (map verdictOf rs, []) \<and>
      pluginCalls cs (concat fs) = (map pluginOf rs, Some []) \<and>
      appCalls b' = appCalls b1 @ transcriptOf envs (callsMade b1) cs rs \<and> svc b' = st \<and> callsMade b' = callsMade b1 + length cs"
    by (rule Cons.IH [OF fs(1) _ _ rs(1)]) (use Cons.prems(2,3) fs(2) d in simp_all)
  have "length (OutResult out) < 4294967296" using Cons.prems(2) fs(2) by (simp add: f_def writeBridgeResponse_def bridgeAppendString_def)
  moreover have "length (OutStatus out) < 256" using Cons.prems(3) unfolding d by (simp add: ac_def recorded_def)
  ultimately have v: "readVerdict (f @ concat fs) = Some (verdictOf (out, err, es), concat fs)"
    unfolding f_def by (subst readVerdict_response) (simp_all add: verdictOf_def)
  then have "bridge_call c (f @ concat fs) =
      (callFrame c, pluginOf (out, err, es), ''app call '' @ ccName c @ '' -> '' @ cstr (OutStatus out), Some (concat fs))"
    by (simp add: bridge_call_def verdictOf_def pluginOf_def)
  with v IH fs(2) rs(2) show ?case by (simp add: b1_def ac_def)
qed simp

text \<open>
  C8: both ends of the bridge agree. When a program makes up to 256 calls within the limits of the
  format over the bridge, everything is as if it had made them on the app service directly, in their
  order and with the names, parameters and tokens it gave: as long as the statuses stay below 256 bytes
  and the frames below 4 GiB, the runner reads for each call exactly the verdict of the service, whether
  it succeeded, its status, its result up to the runner's buffer of 64 KiB and the size of it, and the
  plugin reports that to the program; the transcript of the run and the state of the service are those
  of the direct calls, and nothing is left on the socket.
\<close>

theorem bridge_session:
  assumes "list_all (\<lambda>c. sendable (asRequest c)) cs" and "length cs \<le> bridgeMaxCalls"
    and "handleBridgeConn U envs actor (concat (map callFrame cs)) b = (frames, b')"
    and "list_all (\<lambda>f. length f < 4294967296) frames"
    and "list_all (\<lambda>ac. length (AcStatus ac) < 256) (drop (length (appCalls b)) (appCalls b'))"
    and "directCalls U envs actor (callsMade b) cs (svc b) = (outs, st)"
  shows "decodeN readVerdict (length cs) (concat frames) = Some (map verdictOf outs, []) \<and>
    pluginCalls cs (concat frames) = (map pluginOf outs, Some []) \<and>
    appCalls b' = appCalls b @ transcriptOf envs (callsMade b) cs outs \<and> svc b' = st \<and> callsMade b' = callsMade b + length cs"
proof -
  have "concat (map callFrame cs) = concat (map requestBytes (map asRequest cs))"
    by (induction cs) (simp_all add: callFrame_request)
  then have rs: "requestsOf (concat (map callFrame cs)) = map asRequest cs"
    using requestsOf_frames [of "map asRequest cs"] assms(1) by (simp add: list_all_iff)
  have "answerAll U envs actor (map asRequest cs) b = (frames, b')"
    using assms(2,3) unfolding handleBridgeConn_def by (subst (asm) connLoop_spec) (simp_all add: rs split: prod.splits)
  from session_refines [OF this assms(4-6)] show ?thesis .
qed
section \<open>A long status\<close>

lemma le32_text: "length s = 4 \<Longrightarrow> (\<And>c. c \<in> set s \<Longrightarrow> 0x20 \<le> byte c) \<Longrightarrow> resultMax \<le> unat (le32 s)"
proof -
  assume l: "length s = 4" and t: "\<And>c. c \<in> set s \<Longrightarrow> 0x20 \<le> byte c"
  let ?n = "byte (s ! 0) + 256 * byte (s ! 1) + 65536 * byte (s ! 2) + 16777216 * byte (s ! 3)"
  have b: "byte c \<le> 255" for c using byte_lt_256 [of c] by linarith
  have "?n < 4294967296" using b [of "s ! 0"] b [of "s ! 1"] b [of "s ! 2"] b [of "s ! 3"] by linarith
  then have "?n < 2 ^ 32" by simp
  then have "unat (le32 s) = ?n" unfolding le32_def by (rule unat_of_nat32)
  moreover have "0x20 \<le> byte (s ! 3)" using t l by simp
  ultimately show ?thesis by (simp add: resultMax_def)
qed

lemma readVerdict_long:
  assumes "259 \<le> length status" and "\<And>c. c \<in> set status \<Longrightarrow> 0x20 \<le> byte c"
    and "length (writeBridgeResponse ok status result) < 65536"
  shows "readVerdict (writeBridgeResponse ok status result) = None"
proof -
  have len: "length status + length result < 65536" using assms(3) by (simp add: writeBridgeResponse_def bridgeAppendString_def)
  then have s: "unat (word_of_nat (length status) :: 32 word) = length status" by (intro unat_of_nat32) simp
  define tl1 where "tl1 = put_le32 (word_of_nat (length result)) @ result"
  have w: "writeBridgeResponse ok status result = (if ok then CHR 0x01 else CHR 0x00) # put_le32 (word_of_nat (length status)) @ status @ tl1"
    by (simp add: writeBridgeResponse_def bridgeAppendString_def tl1_def)
  have cut: "rd_all 255 (status @ tl1) = Some (take 255 status, drop 255 status @ tl1)" using assms(1) by (simp add: rd_all_def)
  define n where "n = le32 (take 4 (drop 255 status))"
  have size: "rd_u32 (drop 255 status @ tl1) = Some (n, drop 259 status @ tl1)"
    using assms(1) by (simp add: rd_u32_def rd_all_def n_def add.commute)
  have "resultMax \<le> unat n"
    unfolding n_def using assms(1,2) by (intro le32_text) (auto dest!: in_set_takeD in_set_dropD)
  then have "rd_all (min (unat n) resultMax) (drop 259 status @ tl1) = None"
    using len assms(1) by (simp add: rd_all_def resultMax_def tl1_def min_def)
  then show ?thesis
    unfolding w using assms(1) by (simp add: readVerdict_def rd_byte rd_u32_put s Let_def cut size)
qed

text \<open>
  C40: a long status loses the verdict. When the status of a call is text of 259 bytes or more, such as
  an error that quotes a long address, the runner takes four bytes of the text for the length of the
  result and waits for bytes that never come: whatever the server did and recorded, and also when the
  call succeeded, the plugin fails with an I/O error and closes the socket.
\<close>

theorem long_status_severs:
  assumes "answer U envs actor req b = (frame, b')" and "259 \<le> length (AcStatus (last (appCalls b')))"
    and "\<And>ch. ch \<in> set (AcStatus (last (appCalls b'))) \<Longrightarrow> 0x20 \<le> byte ch" and "length frame < 65536"
  shows "bridge_call c frame = (callFrame c, PluginErr, ''app call '' @ ccName c @ '': bridge I/O error'', None)"
proof -
  obtain ok result ac where f: "frame = writeBridgeResponse ok (AcStatus ac) result" "appCalls b' = appCalls b @ [ac]"
    by (rule answer_frame [OF assms(1)])
  then have "AcStatus (last (appCalls b')) = AcStatus ac" by simp
  with assms(2-4) f(1) have "readVerdict frame = None" using readVerdict_long [of "AcStatus ac"] by simp
  then show ?thesis by (simp add: bridge_call_def)
qed

section \<open>What the dump says\<close>

definition storeKeys :: "bytes list \<Rightarrow> string set" where
  "storeKeys args = {key. Some key \<in> storeKey ` set args \<and> \<not> is_synthetic_store_key key}"

lemma storeKeys_Nil: "storeKeys [] = {}"
  by (simp add: storeKeys_def)

lemma storeKeys_Cons:
  "storeKeys (arg # args) = (case storeKey arg of None \<Rightarrow> storeKeys args
     | Some key \<Rightarrow> if is_synthetic_store_key key then storeKeys args else insert key (storeKeys args))"
  by (auto simp: storeKeys_def split: option.split)

lemma shown_quote: "quote \<notin> set (shown v)"
  by (auto simp: shown_def sanitized_def quote_def dest!: in_set_takeD split: if_splits)

lemma dump_lines:
  "\<exists>kvs. dump_stores state seen args = map dumpLine kvs \<and>
     (\<forall>(k, w) \<in> set kvs. k \<in> storeKeys args \<and> map_option shown (state k) = Some w) \<and>
     (\<forall>k \<in> storeKeys args - set seen. state k \<noteq> None \<longrightarrow> k \<in> fst ` set kvs)"
proof (induction state seen args rule: dump_stores.induct)
  case (2 state seen arg args)
  show ?case
  proof (cases "storeKey arg")
    case None
    then have "storeKeys (arg # args) = storeKeys args" by (auto simp: storeKeys_def)
    with None "2.IH"(1) [OF None] show ?thesis by simp
  next
    case (Some key)
    show ?thesis
    proof (cases "is_synthetic_store_key key \<or> key \<in> set seen")
      case True
      then have "storeKeys (arg # args) - set seen = storeKeys args - set seen" "storeKeys args \<subseteq> storeKeys (arg # args)"
        using Some by (auto simp: storeKeys_def)
      with Some True "2.IH"(2) [OF Some True] show ?thesis by fastforce
    next
      case False
      then have K: "storeKeys (arg # args) = insert key (storeKeys args)" using Some by (auto simp: storeKeys_def)
      let ?seen = "if length seen < 64 then seen @ [key] else seen"
      have S: "storeKeys args - set seen \<subseteq> insert key (storeKeys args - set ?seen)" by auto
      obtain kvs where kvs: "dump_stores state ?seen args = map dumpLine kvs"
        "\<forall>(k, w) \<in> set kvs. k \<in> storeKeys args \<and> map_option shown (state k) = Some w"
        "\<forall>k \<in> storeKeys args - set ?seen. state k \<noteq> None \<longrightarrow> k \<in> fst ` set kvs"
        using "2.IH"(3) [OF Some False] by blast
      let ?all = "(case state key of None \<Rightarrow> [] | Some v \<Rightarrow> [(key, shown v)]) @ kvs"
      have "dump_stores state seen (arg # args) = map dumpLine ?all"
        using Some False kvs(1) by (simp add: log_store_set_def dumpLine_def split: option.split)
      moreover have "\<forall>(k, w) \<in> set ?all. k \<in> storeKeys (arg # args) \<and> map_option shown (state k) = Some w"
        using kvs(2) K by (cases "state key") auto
      moreover have "\<forall>k \<in> storeKeys (arg # args) - set seen. state k \<noteq> None \<longrightarrow> k \<in> fst ` set ?all"
      proof (intro ballI impI)
        fix k
        assume k: "k \<in> storeKeys (arg # args) - set seen" "state k \<noteq> None"
        show "k \<in> fst ` set ?all"
        proof (cases "k = key")
          case True
          then show ?thesis using k(2) by auto
        next
          case other: False
          then have "k \<in> storeKeys args - set ?seen" using k(1) K S by blast
          then show ?thesis using kvs(3) k(2) by auto
        qed
      qed
      ultimately show ?thesis by blast
    qed
  qed
qed (simp add: storeKeys_def)

text \<open>
  The trace before the dump: whole lines, none of which has the word \<open>store\<close> in any case.
\<close>

definition calm :: "string \<Rightarrow> bool" where
  "calm s \<longleftrightarrow> (s = [] \<or> last s = CHR 0x0A) \<and> list_all (\<lambda>i. lit_ci ''store'' (drop i s) = None) [0..<length s]"

lemma letter_in_line:
  assumes "letter_ci c (u @ CHR 0x0A # t) = Some r" and "c \<in> set ''store''"
  shows "\<exists>u'. letter_ci c (u @ [CHR 0x0A]) = Some (u' @ [CHR 0x0A]) \<and> r = u' @ CHR 0x0A # t"
proof (cases u)
  case Nil
  then show ?thesis using assms by (auto simp: letter_ci_def split: if_splits)
next
  case (Cons a v)
  show ?thesis
  proof (cases "byte a = byte c \<or> byte a + 32 = byte c")
    case True
    then show ?thesis using assms(1) Cons by (auto simp: letter_ci_def)
  next
    case False
    then show ?thesis using assms Cons
      by (cases v) (auto simp: letter_ci_def numeral_2_eq_2 split: if_splits)
  qed
qed

lemma lit_in_line:
  "lit_ci p (u @ CHR 0x0A # t) = Some r \<Longrightarrow> set p \<subseteq> set ''store'' \<Longrightarrow> lit_ci p (u @ [CHR 0x0A]) \<noteq> None"
proof (induction p arbitrary: u)
  case (Cons c p)
  then obtain r1 where r1: "letter_ci c (u @ CHR 0x0A # t) = Some r1" "lit_ci p r1 = Some r" by (auto simp: bind_eq_Some_conv)
  from letter_in_line [OF r1(1)] Cons.prems(2) obtain u'
    where "letter_ci c (u @ [CHR 0x0A]) = Some (u' @ [CHR 0x0A])" "r1 = u' @ CHR 0x0A # t" by auto
  with Cons.IH [of u'] Cons.prems(2) r1(2) show ?case by simp
qed simp

lemma findAll_calm: "calm s \<Longrightarrow> findAll (s @ t) = findAll t"
proof (induction s)
  case (Cons c s)
  have none: "lit_ci ''store'' (drop i (c # s)) = None" if "i < length (c # s)" for i
  proof -
    from Cons.prems have "\<forall>i \<in> set [0..<length (c # s)]. lit_ci ''store'' (drop i (c # s)) = None"
      unfolding calm_def list_all_iff by (rule conjunct2)
    moreover have "i \<in> set [0..<length (c # s)]" using that by (simp only: set_upt atLeastLessThan_iff le0 simp_thms)
    ultimately show ?thesis by (rule bspec)
  qed
  have "list_all (\<lambda>i. lit_ci ''store'' (drop i s) = None) [0..<length s]"
    using none [of "Suc i" for i] by (auto simp: list_all_iff)
  then have "calm s" using Cons.prems by (auto simp: calm_def split: if_splits)
  obtain u where u: "c # s = u @ [CHR 0x0A]" using Cons.prems by (metis append_butlast_last_id calm_def list.distinct(1))
  have "lit_ci ''store'' (c # s) = None" using none [of 0] by simp
  then have "lit_ci ''store'' (u @ CHR 0x0A # t) = None" unfolding u using lit_in_line [of "''store''" u t] by fastforce
  moreover have "c # s @ t = u @ CHR 0x0A # t" using u by (metis append_Cons append_assoc append_Nil)
  ultimately have "lit_ci ''store'' (c # s @ t) = None" by (simp only:)
  then have "storeSetRe (c # s @ t) = None" by (simp add: storeSetRe_def)
  with Cons.IH [OF \<open>calm s\<close>] show ?case by (simp add: findAll.simps [of "c # s @ t"])
qed simp

lemma map_of_consistent:
  assumes "\<forall>(k, w) \<in> set kvs. f k = Some w"
  shows "map_of kvs k = (if k \<in> fst ` set kvs then f k else None)"
  using assms by (induction kvs) auto

text \<open>The trace of a run: what was logged before, and the dump, each line after the log's prefix.\<close>

definition traceOf :: "string \<Rightarrow> string \<Rightarrow> string list \<Rightarrow> string" where
  "traceOf before pre dumped = before @ concat (map (\<lambda>line. pre @ line @ [CHR 0x0A]) dumped)"

lemma trace_extracted:
  assumes "\<And>key. key \<in> storeKeys args \<Longrightarrow> quote \<notin> set key" and "quiet pre" and "calm before"
  shows "ExtractStoreSets (traceOf before pre (dump_stores state [] args)) =
    (\<lambda>key. if key \<in> storeKeys args then map_option shown (state key) else None)"
proof -
  obtain kvs where kvs: "dump_stores state [] args = map dumpLine kvs"
    "\<forall>(k, w) \<in> set kvs. k \<in> storeKeys args \<and> map_option shown (state k) = Some w"
    "\<forall>k \<in> storeKeys args. state k \<noteq> None \<longrightarrow> k \<in> fst ` set kvs"
    using dump_lines [of state "[]" args] by auto
  have "quote \<notin> set k \<and> quote \<notin> set w" if "(k, w) \<in> set kvs" for k w
  proof -
    from kvs(2) that have "k \<in> storeKeys args" "map_option shown (state k) = Some w" by auto
    then show ?thesis using assms(1) shown_quote by auto
  qed
  then have "findAll (concat (map (\<lambda>kv. pre @ dumpLine kv @ [CHR 0x0A]) kvs)) = kvs"
    by (intro findAll_dump [OF _ assms(2)]) (auto simp: list_all_iff)
  then have "ExtractStoreSets (traceOf before pre (dump_stores state [] args)) = map_of (rev kvs)"
    by (simp add: ExtractStoreSets_def traceOf_def findAll_calm [OF assms(3)] kvs(1) foldl_writes comp_def)
  moreover have "map_of (rev kvs) k = (if k \<in> storeKeys args then map_option shown (state k) else None)" for k
    using kvs(2,3) map_of_consistent [of "rev kvs" "\<lambda>k. map_option shown (state k)" k] by (cases "state k") fastforce+
  ultimately show ?thesis by auto
qed

text \<open>
  the server reads off what the program left in its store. From the trace of a run, in which no
  line before the dump has the word \<open>store\<close>, the server extracts exactly the keys of the STORE
  instructions that the run has written, the compiler's own keys left out, each with its final value
  as the dump shows it: without quotes and control characters, and cut after 512 bytes. A program may
  have any number of STOREs, more than the 64 keys the runner remembers.
\<close>

theorem dump_read_back:
  assumes "\<And>key. key \<in> storeKeys args \<Longrightarrow> quote \<notin> set key" and "quiet pre" and "calm before"
  shows "ExtractStoreSets (traceOf before pre (dump_stores state [] args)) =
    (\<lambda>key. if key \<in> storeKeys args then map_option shown (state key) else None)"
  by (rule trace_extracted [OF assms])

text \<open>Only the value is sanitized: a key with a quote makes up an entry of another key.\<close>

lemma quoted_key_forges:
  "ExtractStoreSets (log_store_set (''a'' @ [quote] @ '' value = '' @ [quote] @ ''b'') ''x'') = [''a'' \<mapsto> ''b'']"
proof -
  have l: "log_store_set (''a'' @ [quote] @ '' value = '' @ [quote] @ ''b'') ''x'' =
      dumpLine (''a'', ''b'') @ '' value = '' @ [quote] @ ''x'' @ [quote]"
    by (simp add: log_store_set_def dumpLine_def shown_def sanitized_def valueDisplay_def quote_def)
  have "quiet ('' value = '' @ [quote] @ ''x'' @ [quote])" by (simp add: quiet_def quote_def)
  from findAll_quiet [OF this, of "[]"] have "findAll ('' value = '' @ [quote] @ ''x'' @ [quote]) = []" by (simp add: findAll.simps [of "[]"])
  then have "findAll (log_store_set (''a'' @ [quote] @ '' value = '' @ [quote] @ ''b'') ''x'') = [(''a'', ''b'')]"
    unfolding l by (subst findAll_dumpLine) (simp_all add: quote_def)
  then show ?thesis by (simp add: ExtractStoreSets_def)
qed

section \<open>Concrete runs\<close>

text \<open>Two stores, the second without an argument; the compiler's own key stays out.\<close>

theorem dump_read_back_witness:
  "ExtractStoreSets (traceOf (''vm starting'' @ [CHR 0x0A]) ''[flowcode:INFO] ''
      (dump_stores [''total'' \<mapsto> [CHR ''4'', CHR 0x09], ''last_token'' \<mapsto> ''x'', ''on_error:a'' \<mapsto> ''r''] []
        [''total'', ''on_error:a'', [], ''total'', ''unset''])) ''total'' = Some ''4 ''"
proof -
  let ?args = "[''total'', ''on_error:a'', [], ''total'', ''unset'']"
  have k: "storeKeys ?args = {''total'', ''last_token'', ''total'', ''unset''}"
    by (simp add: storeKeys_Nil storeKeys_Cons storeKey_def cstr_def is_synthetic_store_key_def)
  have "quote \<notin> set key" if "key \<in> storeKeys ?args" for key using that unfolding k by (auto simp: quote_def)
  moreover have "quiet ''[flowcode:INFO] ''" by (simp add: quiet_def)
  moreover have "shown [CHR ''4'', CHR 0x09] = ''4 ''" by (simp add: shown_def sanitized_def valueDisplay_def quote_def)
  moreover have "calm (''vm starting'' @ [CHR 0x0A])" by (simp add: calm_def letter_ci_def upt_rec)
  ultimately show ?thesis using dump_read_back [of ?args "''[flowcode:INFO] ''" "''vm starting'' @ [CHR 0x0A]"] k by simp
qed

text \<open>A call of the logger, and a run that has made none yet.\<close>

definition logCall :: ccall where
  "logCall = \<lparr>ccName = ''Logger.log'', ccParams = [(''level'', None)], ccToken = Some ''hello''\<rparr>"

definition idle :: bridge where
  "idle = \<lparr>callsMade = 0, appCalls = [], svc = freshService\<rparr>"

text \<open>Logging is on for the first call and off for the second.\<close>

definition switchedOff :: "nat \<Rightarrow> Snapshot \<times> callenv" where
  "switchedOff n = (if n = 0 then defaults\<lparr>LoggerCfg := \<lparr>LoggerEnabled = True\<rparr>\<rparr> else defaults, sampleEnv)"

lemma switched_calls:
  obtains o1 es1 st1 o2 e2 st2 where
    "Call plainTables (snd (switchedOff 0)) (fst (switchedOff 0)) sampleActor (ccName logCall) (givenParams logCall) (givenToken logCall) freshService =
      ((o1, None, es1), st1)" "OutStatus o1 = ''logged''" "OutResult o1 = []"
    "Call plainTables (snd (switchedOff 1)) (fst (switchedOff 1)) sampleActor (ccName logCall) (givenParams logCall) (givenToken logCall) st1 =
      ((o2, Some e2, []), st2)" "OutStatus o2 = ''error: logger app is disabled by the administrator''" "OutResult o2 = []"
proof -
  note defs = switchedOff_def Call_def dispatch_def checked_def allowQuota_def window_def logCall_def givenParams_def givenToken_def
      sampleEnv_def sampleNet_def sampleActor_def freshService_def defaults_def pushLoki_def outcomeOf_def family_names
  obtain o1 r1 es1 st1 where c1: "Call plainTables (snd (switchedOff 0)) (fst (switchedOff 0)) sampleActor (ccName logCall)
      (givenParams logCall) (givenToken logCall) freshService = ((o1, r1, es1), st1)"
    by (cases "Call plainTables (snd (switchedOff 0)) (fst (switchedOff 0)) sampleActor (ccName logCall) (givenParams logCall)
      (givenToken logCall) freshService") auto
  have o1: "r1 = None" "OutStatus o1 = ''logged''" "OutResult o1 = []" using c1 by (auto simp: defs Let_def)
  obtain o2 r2 es2 st2 where c2: "Call plainTables (snd (switchedOff 1)) (fst (switchedOff 1)) sampleActor (ccName logCall)
      (givenParams logCall) (givenToken logCall) st1 = ((o2, r2, es2), st2)"
    by (cases "Call plainTables (snd (switchedOff 1)) (fst (switchedOff 1)) sampleActor (ccName logCall) (givenParams logCall)
      (givenToken logCall) st1") auto
  have o2: "\<exists>e2. r2 = Some e2" "es2 = []" "OutStatus o2 = ''error: logger app is disabled by the administrator''" "OutResult o2 = []"
    using c2 by (auto simp: defs Let_def)
  then obtain e2 where "r2 = Some e2" by blast
  with that [of o1 es1 st1 o2 e2 st2] c1 c2 o1 o2 show thesis by simp
qed

theorem bridge_session_witness:
  "\<exists>vs. decodeN readVerdict 2 (concat (fst (handleBridgeConn plainTables switchedOff sampleActor (callFrame logCall @ callFrame logCall) idle))) = Some (vs, []) \<and>
    map vOK vs = [True, False] \<and> map vStatus vs = [''logged'', ''error: logger app is disabled by the administrator''] \<and>
    fst (pluginCalls [logCall, logCall] (concat (fst (handleBridgeConn plainTables switchedOff sampleActor (callFrame logCall @ callFrame logCall) idle)))) =
      [PluginOK None, PluginErr]"
proof -
  obtain o1 es1 st1 o2 e2 st2 where c1:
    "Call plainTables (snd (switchedOff 0)) (fst (switchedOff 0)) sampleActor (ccName logCall) (givenParams logCall) (givenToken logCall) freshService =
      ((o1, None, es1), st1)" and o1: "OutStatus o1 = ''logged''" "OutResult o1 = []" and c2:
    "Call plainTables (snd (switchedOff 1)) (fst (switchedOff 1)) sampleActor (ccName logCall) (givenParams logCall) (givenToken logCall) st1 =
      ((o2, Some e2, []), st2)" and o2: "OutStatus o2 = ''error: logger app is disabled by the administrator''" "OutResult o2 = []"
    by (rule switched_calls)
  define b1 where "b1 = idle\<lparr>callsMade := 1, appCalls := [recorded switchedOff 0 logCall (o1, None, es1)], svc := st1\<rparr>"
  define b2 where "b2 = b1\<lparr>callsMade := 2, appCalls := appCalls b1 @ [recorded switchedOff 1 logCall (o2, Some e2, [])], svc := st2\<rparr>"
  let ?f1 = "writeBridgeResponse True (OutStatus o1) (OutResult o1)" and ?f2 = "writeBridgeResponse False (OutStatus o2) (OutResult o2)"
  have a1: "answer plainTables switchedOff sampleActor (asRequest logCall) idle = (?f1, b1)"
    using answer_call [of plainTables switchedOff idle] c1 by (simp add: idle_def b1_def)
  have a2: "answer plainTables switchedOff sampleActor (asRequest logCall) b1 = (?f2, b2)"
    using answer_call [of plainTables switchedOff b1] c2 by (simp add: b1_def b2_def numeral_2_eq_2)
  have ok: "sendable (asRequest logCall)"
    by (simp add: sendable_def asRequest_def logCall_def frameablePair_def frameable_def)
  have rs: "requestsOf (concat (map callFrame [logCall, logCall])) = [asRequest logCall, asRequest logCall]"
    using requestsOf_frames [of "[asRequest logCall, asRequest logCall]"] ok by (simp add: callFrame_request)
  have run: "handleBridgeConn plainTables switchedOff sampleActor (concat (map callFrame [logCall, logCall])) idle = ([?f1, ?f2], b2)"
    unfolding handleBridgeConn_def by (subst connLoop_spec) (simp_all add: rs [simplified] a1 a2 bridgeMaxCalls_def)
  have direct: "directCalls plainTables switchedOff sampleActor (callsMade idle) [logCall, logCall] (svc idle) =
      ([(o1, None, es1), (o2, Some e2, [])], st2)"
    using c1 c2 by (simp add: idle_def)
  have short: "list_all (\<lambda>f. length f < 4294967296) [?f1, ?f2]" by (simp add: o1 o2 writeBridgeResponse_def bridgeAppendString_def)
  have st: "list_all (\<lambda>ac. length (AcStatus ac) < 256) (drop (length (appCalls idle)) (appCalls b2))"
    by (simp add: idle_def b1_def b2_def recorded_def o1 o2)
  have "decodeN readVerdict (length [logCall, logCall]) (concat [?f1, ?f2]) = Some (map verdictOf [(o1, None, es1), (o2, Some e2, [])], []) \<and>
      pluginCalls [logCall, logCall] (concat [?f1, ?f2]) = (map pluginOf [(o1, None, es1), (o2, Some e2, [])], Some []) \<and>
      appCalls b2 = appCalls idle @ transcriptOf switchedOff (callsMade idle) [logCall, logCall] [(o1, None, es1), (o2, Some e2, [])] \<and>
      svc b2 = st2 \<and> callsMade b2 = callsMade idle + length [logCall, logCall]"
    by (rule bridge_session [OF _ _ run short st direct]) (simp_all add: ok bridgeMaxCalls_def)
  then have d: "decodeN readVerdict (length [logCall, logCall]) (concat [?f1, ?f2]) = Some (map verdictOf [(o1, None, es1), (o2, Some e2, [])], [])"
    and p: "pluginCalls [logCall, logCall] (concat [?f1, ?f2]) = (map pluginOf [(o1, None, es1), (o2, Some e2, [])], Some [])" by blast+
  have two: "length [logCall, logCall] = 2" "callFrame logCall @ callFrame logCall = concat (map callFrame [logCall, logCall])" by simp_all
  show ?thesis unfolding two(2) run fst_conv p using d unfolding two(1)
    by (intro exI [of _ "map verdictOf [(o1, None, es1), (o2, Some e2, [])]"]) (simp add: verdictOf_def pluginOf_def o1 o2)
qed

text \<open>The log store answers with an error of 300 bytes.\<close>

definition wordy :: string where
  "wordy = replicate 300 CHR ''x''"

definition wordyNet :: callenv where
  "wordyNet = sampleEnv\<lparr>net := sampleNet\<lparr>lokiPost := (\<lambda>p. Inl (Msg wordy))\<rparr>\<rparr>"

lemma wordy_text: "length wordy = 300" "c \<in> set wordy \<Longrightarrow> c = CHR ''x''"
  by (simp_all add: wordy_def)

theorem long_status_severs_witness:
  "bridge_call logCall (fst (answer plainTables (\<lambda>_. (defaults\<lparr>LoggerCfg := \<lparr>LoggerEnabled = True\<rparr>\<rparr>, wordyNet)) sampleActor (asRequest logCall) idle)) =
    (callFrame logCall, PluginErr, ''app call Logger.log: bridge I/O error'', None)"
proof -
  obtain frame b' where a: "answer plainTables (\<lambda>_. (defaults\<lparr>LoggerCfg := \<lparr>LoggerEnabled = True\<rparr>\<rparr>, wordyNet)) sampleActor (asRequest logCall) idle = (frame, b')"
    by (cases "answer plainTables (\<lambda>_. (defaults\<lparr>LoggerCfg := \<lparr>LoggerEnabled = True\<rparr>\<rparr>, wordyNet)) sampleActor (asRequest logCall) idle")
  have "frame = writeBridgeResponse False (''error: loki push: '' @ wordy) [] \<and>
      AcStatus (last (appCalls b')) = ''error: loki push: '' @ wordy"
    using a by (auto simp: answer_def Call_def dispatch_def checked_def allowQuota_def window_def Let_def logCall_def asRequest_def outcomeOf_def
        pushLoki_def wordyNet_def sampleEnv_def sampleNet_def sampleActor_def idle_def freshService_def defaults_def family_names
        split: prod.splits)
  then have f: "frame = writeBridgeResponse False (''error: loki push: '' @ wordy) []"
    and st: "AcStatus (last (appCalls b')) = ''error: loki push: '' @ wordy" by blast+
  have "32 \<le> byte ch" if "ch \<in> set (AcStatus (last (appCalls b')))" for ch
    using that unfolding st by (auto dest: wordy_text(2))
  then have "bridge_call logCall frame = (callFrame logCall, PluginErr, ''app call '' @ ccName logCall @ '': bridge I/O error'', None)"
    by (intro long_status_severs [OF a]) (simp_all add: st f wordy_text(1) writeBridgeResponse_def bridgeAppendString_def)
  then show ?thesis by (simp add: a) (simp add: logCall_def)
qed

end
