(* ===== verification/Overrides.thy ===== *)
theory Overrides
  imports AdminSite
begin

text \<open>
  The quota overrides of the administration area end to end: the table app_quotas as a function of
  user and app family (server/internal/store/settings.go), what the form of the area
  (server/cmd/admin/pages.go) writes into it, and what a call of a program
  (server/internal/apps/apps.go), which reads it every time, is then allowed.
\<close>

section \<open>The overrides by user and app\<close>

definition quotaOf :: "db \<Rightarrow> int \<times> string \<Rightarrow> (int option \<times> bool) option" where
  "quotaOf s k = map_option (\<lambda>q. (qCallsPerMinute q, qEnabled q)) (List.find (\<lambda>q. qUser q = fst k \<and> qApp q = snd k) (quotas s))"

lemma UpsertAppQuota_clean:
  assumes "faults s = []" and "hasId uId (users s) (aqUser q)" and "fits (aqCallsPerMinute q)"
  obtains s' where "run_state (UpsertAppQuota q) s = (Inr (), s')" and "faults s' = []" and "users s' = users s"
    and "quotaOf s' = (quotaOf s)((aqUser q, aqApp q) \<mapsto> (aqCallsPerMinute q, aqEnabled q))"
proof -
  let ?same = "\<lambda>x :: quotaRow. qUser x = aqUser q \<and> qApp x = aqApp q"
  let ?new = "\<lparr>qUser = aqUser q, qApp = aqApp q, qCallsPerMinute = aqCallsPerMinute q, qEnabled = aqEnabled q\<rparr>"
  let ?upd = "\<lambda>x :: quotaRow. x\<lparr>qCallsPerMinute := aqCallsPerMinute q, qEnabled := aqEnabled q\<rparr>"
  define s' where "s' = s\<lparr>quotas := if list_ex ?same (quotas s) then alter ?same ?upd (quotas s) else quotas s @ [?new]\<rparr>"
  have run: "run_state (UpsertAppQuota q) s = (Inr (), s')"
    using assms by (simp add: UpsertAppQuota_def upsertQuota_def clean_runs wrap_def s'_def Let_def)
  have old: "List.find (\<lambda>x. qUser x = a \<and> qApp x = b) (alter ?same ?upd (quotas s)) =
      map_option (\<lambda>x. if ?same x then ?upd x else x) (List.find (\<lambda>x. qUser x = a \<and> qApp x = b) (quotas s))" for a b
    by (rule find_alter) simp
  have "quotaOf s' (a, b) = ((quotaOf s)((aqUser q, aqApp q) \<mapsto> (aqCallsPerMinute q, aqEnabled q))) (a, b)" for a b
  proof (cases "List.find (\<lambda>x. qUser x = a \<and> qApp x = b) (quotas s)")
    case None
    then have "(a, b) = (aqUser q, aqApp q) \<Longrightarrow> \<not> list_ex ?same (quotas s)" by (auto simp: find_None_iff_ball list_ex_iff)
    with None show ?thesis by (auto simp: quotaOf_def s'_def find_append old)
  next
    case (Some x)
    then have "(a, b) = (aqUser q, aqApp q) \<Longrightarrow> list_ex ?same (quotas s)" using find_SomeD [OF Some] by (auto simp: list_ex_iff)
    with Some find_SomeD [OF Some] show ?thesis by (auto simp: quotaOf_def s'_def find_append old simp del: map_option_eq_Some)
  qed
  then have "quotaOf s' = (quotaOf s)((aqUser q, aqApp q) \<mapsto> (aqCallsPerMinute q, aqEnabled q))" by (auto intro!: ext)
  with run that show ?thesis using assms(1) by (simp add: s'_def)
qed

lemma DeleteAppQuota_clean:
  assumes "faults s = []"
  obtains s' where "run_state (DeleteAppQuota uid app) s = (Inr (), s')" and "faults s' = []" and "users s' = users s"
    and "quotaOf s' = (quotaOf s)((uid, app) := None)"
proof -
  define s' where "s' = s\<lparr>quotas := filter (\<lambda>q. \<not> (qUser q = uid \<and> qApp q = app)) (quotas s)\<rparr>"
  have "quotaOf s' k = ((quotaOf s)((uid, app) := None)) k" for k
  proof (cases "k = (uid, app)")
    case True
    then show ?thesis by (simp add: quotaOf_def s'_def find_filter find_None_iff_ball)
  next
    case False
    then have "(\<lambda>q :: quotaRow. \<not> (qUser q = uid \<and> qApp q = app) \<and> (qUser q = fst k \<and> qApp q = snd k)) = (\<lambda>q. qUser q = fst k \<and> qApp q = snd k)"
      by (intro ext) (cases k; auto)
    then have "quotaOf s' k = quotaOf s k" unfolding quotaOf_def s'_def by (simp del: de_Morgan_conj not_imp add: find_filter)
    with False show ?thesis by simp
  qed
  then have "quotaOf s' = (quotaOf s)((uid, app) := None)" by (rule ext)
  moreover have "run_state (DeleteAppQuota uid app) s = (Inr (), s')"
    by (simp add: DeleteAppQuota_def update_clean assms s'_def)
  ultimately show ?thesis using that assms by (simp add: s'_def)
qed

lemma EffectiveQuota_clean:
  assumes "faults s = []"
  shows "run_state (EffectiveQuota uid app d) s =
    (Inr (case quotaOf s (uid, app) of
       None \<Rightarrow> (d, True)
     | Some (c, enabled) \<Rightarrow> (case c of Some n \<Rightarrow> if 0 \<le> n then n else d | None \<Rightarrow> d, enabled)), s)"
  using assms by (cases "List.find (\<lambda>q. qUser q = uid \<and> qApp q = app) (quotas s)")
    (auto simp: EffectiveQuota_def query_clean row_def quotaOf_def split: option.split)

section \<open>A saved override binds the calls\<close>

text \<open>
  The calls of a run see the overrides of this database: \<open>allowQuota\<close> reads the table at each of them.
\<close>

definition readsQuotas :: "db \<Rightarrow> call list \<Rightarrow> bool" where
  "readsQuotas s cs \<longleftrightarrow> (\<forall>c \<in> set cs. \<forall>uid app d. effectiveQuota (net (callEnv c)) uid app d = fst (run_state (EffectiveQuota uid app d) s))"

lemma override_limits:
  assumes "readsQuotas s cs" and "faults s = []" and "quotaOf s (uid, app) = Some (Some n, enabled)" and "0 \<le> n"
  shows "limited uid app (nat n) cs"
proof -
  have "fst r = (uid, app) \<longrightarrow> (case snd (snd r) of Inl _ \<Rightarrow> True | Inr q \<Rightarrow> fst q \<le> n)" if "c \<in> set cs" "r \<in> set (callRequest c)" for c r
  proof -
    have e: "effectiveQuota (net (callEnv c)) i a d = fst (run_state (EffectiveQuota i a d) s)" for i a d
      using assms(1) that(1) unfolding readsQuotas_def by blast
    show ?thesis using that(2) assms(3,4)
      by (auto simp: callRequest_def quotaRequest_def Let_def e EffectiveQuota_clean [OF assms(2)] split: if_splits)
  qed
  then have each: "fst r = (uid, app) \<Longrightarrow> snd (snd r) = Inr p \<Longrightarrow> fst p \<le> n" if "c \<in> set cs" "r \<in> set (callRequest c)" for c r p
    using that by fastforce
  show ?thesis unfolding limited_def capped_def list_all_iff
    using each assms(4) by (auto split: sum.split)
qed
lemma grantTimes_disabled:
  "(\<And>r. r \<in> set rs \<Longrightarrow> fst r = k \<Longrightarrow> \<exists>cap. snd (snd r) = Inr (cap, False)) \<Longrightarrow> grantTimes k ws rs = []"
proof (induction k ws rs rule: grantTimes.induct)
  case (2 k ws k' a rs)
  have "\<exists>cap. snd a = Inr (cap, False)" if "k' = k" using "2.prems" [of "(k', a)"] that by simp
  then have "\<not> (k' = k \<and> fst (allowQuota k' a ws) = None)" by (auto simp: allowQuota_def)
  then show ?case using "2.IH" "2.prems" by simp
qed simp

lemma override_disables:
  assumes "readsQuotas s cs" and "faults s = []" and "quotaOf s (uid, app) = Some (c, False)"
  shows "effectTimes U uid app cs st = []"
proof -
  have "\<exists>cap. snd (snd r) = Inr (cap, False)" if cr: "cl \<in> set cs" "r \<in> set (callRequest cl)" "fst r = (uid, app)" for cl r
  proof -
    have e: "effectiveQuota (net (callEnv cl)) i a d = fst (run_state (EffectiveQuota i a d) s)" for i a d
      using assms(1) cr(1) unfolding readsQuotas_def by blast
    show ?thesis using cr(2,3) assms(3)
      by (auto simp: callRequest_def quotaRequest_def Let_def e EffectiveQuota_clean [OF assms(2)] split: if_splits)
  qed
  then have "grantTimes (uid, app) (wins st) (concat (map callRequest cs)) = []"
    by (intro grantTimes_disabled) (auto simp del: split_paired_All)
  with effectTimes_granted [of "\<lambda>t. True" U uid app cs st] show ?thesis by simp
qed

text \<open>
  C15: An administrator's override binds a user's programs from the moment the form is posted: the table
  then holds it and every other override as before; and however many calls of whatever users the
  runs of the app server make from then on, in no minute do more calls of this user in this app
  family reach the outside world than the form allows, and none does when the form switched the app
  off for the user.
\<close>

theorem saved_quota_binds:
  assumes "faults s = []" and "ParseInt64 (formValue req ''userId'') = Some uid" and "0 < uid" and "hasId uId (users s) uid"
    and "formValue req ''app'' \<noteq> []" and "TrimSpace (formValue req ''callsPerMinute'') \<noteq> []"
    and "Atoi (TrimSpace (formValue req ''callsPerMinute'')) = Some n" and "0 \<le> n" and "n < 2 ^ 31"
  shows "\<exists>reply s'. run_state (handleAdminQuotaSave W req) (snap, s) = (reply, (snap, s')) \<and>
    quotaOf s' = (quotaOf s)((uid, formValue req ''app'') \<mapsto> (Some n, formValue req ''enabled'' = ''on'')) \<and>
    (\<forall>U cs st a. readsQuotas s' cs \<and> sorted (map callTime cs) \<longrightarrow>
       length (filter (\<lambda>t. a \<le> t \<and> t < a + minute) (effectTimes U uid (formValue req ''app'') cs st)) \<le>
         (if formValue req ''enabled'' = ''on'' then nat n else 0))"
proof -
  let ?app = "formValue req ''app''" and ?on = "formValue req ''enabled'' = ''on''"
  let ?q = "\<lparr>aqUser = uid, aqUserEmail = [], aqApp = ?app, aqCallsPerMinute = Some n, aqEnabled = ?on\<rparr>"
  have "fits (Some n)" using assms(8,9) by (simp add: fits_def int4_def)
  then obtain s' where s': "run_state (UpsertAppQuota ?q) s = (Inr (), s')" "faults s' = []"
    "quotaOf s' = (quotaOf s)((uid, ?app) \<mapsto> (Some n, ?on))"
    using UpsertAppQuota_clean [OF assms(1), of ?q] assms(4) by auto
  have run: "\<exists>reply. run_state (handleAdminQuotaSave W req) (snap, s) = (reply, (snap, s'))"
    using assms(2,3,5-8) s'(1) by (simp add: handleAdminQuotaSave_def Let_def onStore_def quotasBack_def)
  have "length (filter (\<lambda>t. a \<le> t \<and> t < a + minute) (effectTimes U uid ?app cs st)) \<le> (if ?on then nat n else 0)"
    if cs: "readsQuotas s' cs" "sorted (map callTime cs)" for U cs st a
  proof (cases ?on)
    case True
    with s'(3) have "limited uid ?app (nat n) cs" by (intro override_limits [OF cs(1) s'(2) _ assms(8)]) simp
    with quota_bounds_effects [OF cs(2)] True show ?thesis by simp
  next
    case False
    with s'(3) have "effectTimes U uid ?app cs st = []" by (intro override_disables [OF cs(1) s'(2), where c = "Some n"]) simp
    with False show ?thesis by simp
  qed
  with run s'(3) show ?thesis by blast
qed
text \<open>The form gives user 2 one fetch a minute; two fetches at the same time follow.\<close>

definition quotaForm :: request where
  "quotaForm = (requestBy 1 [])\<lparr>formValue := (\<lambda>k.
     if k = ''userId'' then ''2'' else if k = ''app'' then ''http'' else if k = ''callsPerMinute'' then ''1''
     else if k = ''enabled'' then ''on'' else [])\<rparr>"

definition fetchTwice :: "db \<Rightarrow> call list" where
  "fetchTwice s = replicate 2
     \<lparr>callEnv = sampleEnv\<lparr>net := sampleNet\<lparr>effectiveQuota := (\<lambda>uid app d. fst (run_state (EffectiveQuota uid app d) s))\<rparr>\<rparr>,
      callSnap = defaults, callActor = sampleActor\<lparr>ActorUserID := 2\<rparr>, callName = ''UrlFetchApp.fetch'', callParams = [],
      callToken = ''http://a/''\<rparr>"

theorem saved_quota_binds_witness:
  "\<exists>reply s'. run_state (handleAdminQuotaSave sampleAdmin quotaForm) (defaults, teamDB) = (reply, (defaults, s')) \<and>
     quotaOf s' (2, ''http'') = Some (Some 1, True) \<and>
     length (filter (\<lambda>t. 0 \<le> t \<and> t < 0 + minute) (effectTimes plainTables 2 ''http'' (fetchTwice s') freshService)) \<le> 1"
proof -
  have f: "formValue quotaForm ''userId'' = ''2''" "formValue quotaForm ''app'' = ''http''"
    "formValue quotaForm ''callsPerMinute'' = ''1''" "formValue quotaForm ''enabled'' = ''on''"
    by (simp_all add: quotaForm_def)
  have h: "faults teamDB = []" "ParseInt64 (formValue quotaForm ''userId'') = Some 2" "0 < (2 :: int)" "hasId uId (users teamDB) 2"
    "formValue quotaForm ''app'' \<noteq> []" "TrimSpace (formValue quotaForm ''callsPerMinute'') \<noteq> []"
    "Atoi (TrimSpace (formValue quotaForm ''callsPerMinute'')) = Some 1" "0 \<le> (1 :: int)" "(1 :: int) < 2 ^ 31"
    by (simp_all add: f teamDB_def emptyDB_def hasId_def ParseInt64_def parse_uint_def digits_val_def digit_val_def is_digit_def
        TrimSpace_def rune_chunks.simps decode_rune.simps IsSpace_def)
  obtain reply s' where s': "run_state (handleAdminQuotaSave sampleAdmin quotaForm) (defaults, teamDB) = (reply, (defaults, s'))"
    "quotaOf s' = (quotaOf teamDB)((2, ''http'') \<mapsto> (Some 1, ''on'' = ''on''))"
    and bound: "\<forall>U cs st a. readsQuotas s' cs \<and> sorted (map callTime cs) \<longrightarrow>
       length (filter (\<lambda>t. a \<le> t \<and> t < a + minute) (effectTimes U 2 ''http'' cs st)) \<le>
         (if ''on'' = ''on'' then nat 1 else 0)"
    using saved_quota_binds [OF h, of sampleAdmin defaults] unfolding f by (elim exE conjE) (rule that; assumption)
  have "readsQuotas s' (fetchTwice s')" "sorted (map callTime (fetchTwice s'))"
    by (simp_all add: readsQuotas_def fetchTwice_def callTime_def sampleNet_def freshService_def numeral_2_eq_2)
  with bound have "length (filter (\<lambda>t. 0 \<le> t \<and> t < 0 + minute) (effectTimes plainTables 2 ''http'' (fetchTwice s') freshService)) \<le>
      (if ''on'' = ''on'' then nat 1 else 0)" by blast
  then show ?thesis using s' by auto
qed

end
