(* ===== verification/Slugs.thy ===== *)
theory Slugs
  imports StoreRuns Retry
begin

text \<open>
  The names under which projects and deployments are reached: \<open>CreateWSProject\<close> and
  \<open>CreateWSDeployment\<close> of server/internal/store/workspaces_content.go try candidate slugs until the
  database takes one. Their inserts are instances of the contract of theory Retry, as that of
  \<open>CreateWorkspace\<close> is in theory StoreUsers.
\<close>

section \<open>Projects\<close>

definition projectReady :: "int \<Rightarrow> int \<Rightarrow> db \<Rightarrow> bool" where
  "projectReady wid uid s \<longleftrightarrow> ready s \<and> hasId wId (workspaces s) wid \<and> hasId uId (users s) uid"

definition slugTaken :: "int \<Rightarrow> projectRow list \<Rightarrow> string \<Rightarrow> bool" where
  "slugTaken wid ps slug = list_ex (\<lambda>p. pWorkspace p = wid \<and> pSlug p = slug) ps"

lemma insertProject_taken:
  assumes "projectReady wid uid s" and "slugTaken wid (projects s) slug"
  shows "\<exists>s'. run_state (insertProject wid uid slug name d) s = (Inl uniqueViolation, s') \<and> projectReady wid uid s' \<and>
    projects s' = projects s"
  using assms preservesD [OF wf_insertProject, of s wid uid slug name d]
  by (auto simp: projectReady_def slugTaken_def ready_def insertProject_def exec_clean Let_def)

lemma insertProject_free:
  assumes "projectReady wid uid s" and "\<not> slugTaken wid (projects s) slug"
  shows "\<exists>p s'. run_state (insertProject wid uid slug name d) s = (Inr (pId p), s') \<and> projectReady wid uid s' \<and>
    pWorkspace p = wid \<and> pSlug p = slug \<and> pName p = name \<and> pCreatedBy p = Some uid \<and> projects s' = projects s @ [p]"
  using assms preservesD [OF wf_insertProject, of s wid uid slug name d]
  by (auto simp: projectReady_def slugTaken_def ready_def insertProject_def exec_clean Let_def)

interpretation project_slugs: retry_insert
  "\<lambda>a. insertProject wid uid (attemptSlug base a) name d" "\<lambda>ps a. slugTaken wid ps (attemptSlug base a)" projects "projectReady wid uid"
  for wid uid base name d
  by unfold_locales (use insertProject_taken insertProject_free in blast)+

lemma GetWSProject_last:
  assumes "ready s" and "projects s = ps @ [p]"
  shows "run_state (GetWSProject (pId p)) s = (Inr (scanWSProject p), s)"
proof -
  have "List.find (\<lambda>y. pId y = pId p) (projects s) = Some p"
    using assms by (intro find_key) (auto simp: ready_def wfdb_def keyed_uniq)
  with assms show ?thesis by (simp add: GetWSProject_def query_clean ready_def row_def)
qed

text \<open>
  A new project gets the first candidate slug that is free in its workspace, so its address is
  unique there while another workspace may use the same one; only when 100 candidates are taken does the
  creation fail, and then no project changes.
\<close>

theorem CreateWSProject_slug:
  assumes "projectReady wid uid s"
  shows "(\<exists>k p s'. k < 100 \<and> \<not> slugTaken wid (projects s) (attemptSlug (slugBase U ''project'' name) k) \<and>
            (\<forall>j < k. slugTaken wid (projects s) (attemptSlug (slugBase U ''project'' name) j)) \<and>
            run_state (CreateWSProject U wid uid name d) s = (Inr (scanWSProject p), s') \<and> pWorkspace p = wid \<and>
            pName p = name \<and> pSlug p = attemptSlug (slugBase U ''project'' name) k \<and> projects s' = projects s @ [p]) \<or>
         ((\<forall>j < 100. slugTaken wid (projects s) (attemptSlug (slugBase U ''project'' name) j)) \<and>
            (\<exists>s'. run_state (CreateWSProject U wid uid name d) s =
              (Inl (Fmt ''could not find a unique slug for %q'' [name]), s') \<and> projects s' = projects s))"
proof -
  define base where "base = slugBase U ''project'' name"
  note C = CreateWSProject_def Let_def base_def [symmetric] run_andThen
  from project_slugs.first_free [OF assms, where n = 100 and a = 0 and base = base and name = name and d = d
      and m = "''insert ws project''" and e = "Fmt ''could not find a unique slug for %q'' [name]"]
  show ?thesis
  proof (elim disjE exE conjE)
    fix k s1
    assume k: "k < 100" "\<not> slugTaken wid (projects s) (attemptSlug base (0 + k))"
      "\<forall>j<k. slugTaken wid (projects s) (attemptSlug base (0 + j))"
      and s1: "projectReady wid uid s1" "projects s1 = projects s"
      and r: "run_state (retryUnique 100 0 (\<lambda>a. insertProject wid uid (attemptSlug base a) name d) ''insert ws project''
          (Fmt ''could not find a unique slug for %q'' [name])) s =
        run_state (insertProject wid uid (attemptSlug base (0 + k)) name d) s1"
    obtain p s' where i: "run_state (insertProject wid uid (attemptSlug base k) name d) s1 = (Inr (pId p), s')"
      "projectReady wid uid s'" "pWorkspace p = wid" "pSlug p = attemptSlug base k" "pName p = name" "projects s' = projects s @ [p]"
      using insertProject_free [OF s1(1), of "attemptSlug base k" name d] k(2) s1(2) by auto
    have "ready s'" using i(2) by (simp add: projectReady_def)
    then have "run_state (CreateWSProject U wid uid name d) s = (Inr (scanWSProject p), s')"
      using r i(1) GetWSProject_last [OF _ i(6)] by (simp add: C)
    with k i show ?thesis by (intro disjI1 exI [of _ k] exI [of _ p] exI [of _ s']) (simp add: base_def [symmetric])
  next
    fix s1
    assume "\<forall>j<100. slugTaken wid (projects s) (attemptSlug base (0 + j))"
      and "run_state (retryUnique 100 0 (\<lambda>a. insertProject wid uid (attemptSlug base a) name d) ''insert ws project''
            (Fmt ''could not find a unique slug for %q'' [name])) s =
          (Inl (Fmt ''could not find a unique slug for %q'' [name]), s1)"
      and "projects s1 = projects s"
    then show ?thesis by (intro disjI2) (simp add: C)
  qed
qed

section \<open>Deployments\<close>

definition deployReady :: "int \<Rightarrow> int \<Rightarrow> int option \<Rightarrow> db \<Rightarrow> bool" where
  "deployReady pid fid vid s \<longleftrightarrow>
     ready s \<and> hasId pId (projects s) pid \<and> hasId fId (files s) fid \<and> hasRef vId (versions s) vid"

definition urlTaken :: "deploymentRow list \<Rightarrow> string \<Rightarrow> bool" where
  "urlTaken ds slug = list_ex (\<lambda>d. dSlug d = slug) ds"

lemma insertDeployment_taken:
  assumes "deployReady pid fid vid s" and "urlTaken (deployments s) slug"
  shows "\<exists>s'. run_state (insertDeployment pid fid slug vid) s = (Inl uniqueViolation, s') \<and> deployReady pid fid vid s' \<and>
    deployments s' = deployments s"
  using assms preservesD [OF wf_insertDeployment, of s pid fid slug vid]
  by (auto simp: deployReady_def urlTaken_def ready_def insertDeployment_def exec_clean Let_def)

lemma insertDeployment_free:
  assumes "deployReady pid fid vid s" and "\<not> urlTaken (deployments s) slug"
  shows "\<exists>d s'. run_state (insertDeployment pid fid slug vid) s = (Inr (dId d), s') \<and> deployReady pid fid vid s' \<and>
    dProject d = pid \<and> dFile d = fid \<and> dVersion d = vid \<and> dSlug d = slug \<and> dEnabled d \<and> deployments s' = deployments s @ [d]"
  using assms preservesD [OF wf_insertDeployment, of s pid fid slug vid]
  by (auto simp: deployReady_def urlTaken_def ready_def insertDeployment_def exec_clean Let_def)

interpretation deployment_slugs: retry_insert
  "\<lambda>a. insertDeployment pid fid (randomSlug (bytesOf a)) vid" "\<lambda>ds a. urlTaken ds (randomSlug (bytesOf a))" deployments
  "deployReady pid fid vid"
  for pid fid vid bytesOf
  by unfold_locales (use insertDeployment_taken insertDeployment_free in blast)+

lemma filter_key: "distinct (map key xs) \<Longrightarrow> x \<in> set xs \<Longrightarrow> filter (\<lambda>y. key y = key x) xs = [x]"
proof (induction xs)
  case (Cons y ys)
  then show ?case by (cases "y = x") (auto simp: filter_empty_conv image_iff)
qed simp

lemma GetWSDeployment_last:
  assumes "deployReady pid fid vid s" and "deployments s = ds @ [d]" and "dFile d = fid"
  shows "\<exists>f \<in> set (files s). fId f = fid \<and> run_state (GetWSDeployment (dId d)) s = (Inr (scanDeployment f d), s)"
proof -
  obtain f where f: "f \<in> set (files s)" "fId f = fid" using assms(1) by (auto simp: deployReady_def hasId_def list_ex_iff)
  have u: "distinct (map dId (ds @ [d]))" "distinct (map fId (files s))" and clean: "faults s = []"
    using assms(1,2) by (auto simp: deployReady_def ready_def wfdb_def keyed_def)
  have "filter (\<lambda>x. dId x = dId d) (deployments s) = [d]"
    unfolding assms(2) by (rule filter_key [OF u(1)]) simp
  moreover have "filter (\<lambda>x. fId x = fid) (files s) = [f]" using filter_key [OF u(2) f(1)] f(2) by simp
  ultimately have "wsDeploymentQuery (\<lambda>x. dId x = dId d) s = [scanDeployment f d]"
    using assms(3) by (simp add: wsDeploymentQuery_def)
  then show ?thesis using f clean by (intro bexI [of _ f]) (simp_all add: GetWSDeployment_def query_clean row_def)
qed

text \<open>
  A new deployment gets the first of ten random slugs that no deployment of any project has: it
  cannot take over the address of another one. When all ten are taken it fails and changes none.
\<close>

theorem CreateWSDeployment_slug:
  assumes "deployReady pid fid vid s"
  shows "(\<exists>k f d s'. k < 10 \<and> \<not> urlTaken (deployments s) (randomSlug (bytesOf k)) \<and>
            (\<forall>j < k. urlTaken (deployments s) (randomSlug (bytesOf j))) \<and>
            run_state (CreateWSDeployment bytesOf pid fid vid) s = (Inr (scanDeployment f d), s') \<and> fId f = fid \<and>
            dProject d = pid \<and> dVersion d = vid \<and> dEnabled d \<and> dSlug d = randomSlug (bytesOf k) \<and>
            deployments s' = deployments s @ [d]) \<or>
         ((\<forall>j < 10. urlTaken (deployments s) (randomSlug (bytesOf j))) \<and>
            (\<exists>s'. run_state (CreateWSDeployment bytesOf pid fid vid) s =
              (Inl (Msg ''could not generate a unique deployment slug''), s') \<and> deployments s' = deployments s))"
proof -
  note C = CreateWSDeployment_def run_andThen
  from deployment_slugs.first_free [OF assms, where n = 10 and a = 0 and bytesOf = bytesOf
      and m = "''insert ws deployment''" and e = "Msg ''could not generate a unique deployment slug''"]
  show ?thesis
  proof (elim disjE exE conjE)
    fix k s1
    assume k: "k < 10" "\<not> urlTaken (deployments s) (randomSlug (bytesOf (0 + k)))"
      "\<forall>j<k. urlTaken (deployments s) (randomSlug (bytesOf (0 + j)))"
      and s1: "deployReady pid fid vid s1" "deployments s1 = deployments s"
      and r: "run_state (retryUnique 10 0 (\<lambda>a. insertDeployment pid fid (randomSlug (bytesOf a)) vid) ''insert ws deployment''
          (Msg ''could not generate a unique deployment slug'')) s =
        run_state (insertDeployment pid fid (randomSlug (bytesOf (0 + k))) vid) s1"
    obtain d s' where i: "run_state (insertDeployment pid fid (randomSlug (bytesOf k)) vid) s1 = (Inr (dId d), s')"
      "deployReady pid fid vid s'" "dProject d = pid" "dFile d = fid" "dVersion d = vid" "dSlug d = randomSlug (bytesOf k)"
      "dEnabled d" "deployments s' = deployments s @ [d]"
      using insertDeployment_free [OF s1(1), of "randomSlug (bytesOf k)"] k(2) s1(2) by auto
    obtain f where f: "fId f = fid" "run_state (GetWSDeployment (dId d)) s' = (Inr (scanDeployment f d), s')"
      using GetWSDeployment_last [OF i(2,8,4)] by blast
    have "run_state (CreateWSDeployment bytesOf pid fid vid) s = (Inr (scanDeployment f d), s')" using r i(1) f(2) by (simp add: C)
    with k i f(1) show ?thesis by (intro disjI1 exI [of _ k] exI [of _ f] exI [of _ d] exI [of _ s']) simp
  next
    fix s1
    assume "\<forall>j<10. urlTaken (deployments s) (randomSlug (bytesOf (0 + j)))"
      and "run_state (retryUnique 10 0 (\<lambda>a. insertDeployment pid fid (randomSlug (bytesOf a)) vid) ''insert ws deployment''
          (Msg ''could not generate a unique deployment slug'')) s =
          (Inl (Msg ''could not generate a unique deployment slug''), s1)"
      and "deployments s1 = deployments s"
    then show ?thesis by (intro disjI2) (simp add: C)
  qed
qed

end
