(* ===== verification/Sandbox.thy ===== *)
theory Sandbox
  imports Main
begin

text \<open>
  How a stage that overruns its time is killed: server/internal/engine/sandbox_unix.go and
  sandbox_other.go, over the process table of the operating system. The table maps the identifiers in use
  to process groups; it follows POSIX: a child inherits the group of its parent unless it asks for its own
  when it is started, and an identifier in use, be it of a process, of one that has ended but was not
  reaped, or of a group, is not given out again.
\<close>

section \<open>Processes and groups\<close>

record command =
  cmdSetpgid :: bool
  cmdProcess :: "int option"

text \<open>
  The table, the started child with its descendants, whether the child has ended and whether its
  parent has reaped it, and whether one of them has left its group (\<open>setpgid\<close>, \<open>setsid\<close>).
\<close>

record osState =
  table :: "int \<rightharpoonup> int"
  kids :: "int set"
  zombie :: bool
  reaped :: bool
  escaped :: bool

definition configureSandbox :: "command \<Rightarrow> command" where
  "configureSandbox cmd = cmd\<lparr>cmdSetpgid := True\<rparr>"

text \<open>The start of the command by the server \<open>sv\<close> under the identifier \<open>c\<close>.\<close>

definition spawn :: "command \<Rightarrow> int \<Rightarrow> int \<Rightarrow> (int \<rightharpoonup> int) \<Rightarrow> command \<times> osState" where
  "spawn cmd sv c t =
     (cmd\<lparr>cmdProcess := Some c\<rparr>,
      \<lparr>table = t(c := (if cmdSetpgid cmd then Some c else t sv)), kids = {c}, zombie = False, reaped = False, escaped = False\<rparr>)"

text \<open>What \<open>kill(2)\<close> with a target addresses when \<open>sv\<close> calls it.\<close>

definition signalled :: "int \<Rightarrow> int \<Rightarrow> osState \<Rightarrow> int \<Rightarrow> bool" where
  "signalled sv target s p \<longleftrightarrow> table s p \<noteq> None \<and>
     (if 0 < target then p = target
      else if target = 0 then table s p = table s sv
      else if target = -1 then True
      else table s p = Some (- target))"

text \<open>SIGKILL ends those; the child \<open>c\<close> stays in the table until it is reaped.\<close>

definition sigkill :: "int \<Rightarrow> (int \<Rightarrow> bool) \<Rightarrow> osState \<Rightarrow> osState" where
  "sigkill c X s = s\<lparr>table := (\<lambda>p. if X p \<and> p \<noteq> c then None else table s p),
     kids := {p \<in> kids s. X p \<longrightarrow> p = c}, zombie := (zombie s \<or> X c)\<rparr>"

definition killProcessGroup :: "command \<Rightarrow> int \<Rightarrow> osState \<Rightarrow> osState" where
  "killProcessGroup cmd sv s =
     (case cmdProcess cmd of
        None \<Rightarrow> s
      | Some c \<Rightarrow> if c \<le> 0 then s else sigkill c (signalled sv (- c) s) s)"

text \<open>The build for other systems has no groups: only the child itself is killed.\<close>

definition killProcess :: "command \<Rightarrow> int \<Rightarrow> osState \<Rightarrow> osState" where
  "killProcess cmd sv s =
     (case cmdProcess cmd of None \<Rightarrow> s | Some c \<Rightarrow> sigkill c (\<lambda>p. p = c \<and> table s p \<noteq> None) s)"

section \<open>What can happen while the stage runs\<close>

definition freshId :: "int \<Rightarrow> osState \<Rightarrow> bool" where
  "freshId q s \<longleftrightarrow> 0 < q \<and> table s q = None \<and> (\<forall>p. table s p \<noteq> Some q)"

definition runs :: "int \<Rightarrow> osState \<Rightarrow> int \<Rightarrow> bool" where
  "runs c s p \<longleftrightarrow> p \<in> kids s \<and> (p = c \<longrightarrow> \<not> zombie s)"

inductive osStep :: "int \<Rightarrow> osState \<Rightarrow> osState \<Rightarrow> bool" for c where
  forks: "runs c s p \<Longrightarrow> freshId q s \<Longrightarrow> osStep c s (s\<lparr>table := (table s)(q := table s p), kids := insert q (kids s)\<rparr>)"
| ends: "p \<in> kids s \<Longrightarrow> p \<noteq> c \<Longrightarrow> osStep c s (s\<lparr>table := (table s)(p := None), kids := kids s - {p}\<rparr>)"
| childEnds: "osStep c s (s\<lparr>zombie := True\<rparr>)"
| reaps: "zombie s \<Longrightarrow> \<not> reaped s \<Longrightarrow>
    osStep c s (s\<lparr>table := (table s)(c := None), kids := kids s - {c}, reaped := True\<rparr>)"
| regroups: "runs c s p \<Longrightarrow> osStep c s (s\<lparr>table := (table s)(p \<mapsto> g), escaped := True\<rparr>)"
| othersStart: "freshId q s \<Longrightarrow> g = q \<or> (\<exists>p. p \<notin> kids s \<and> table s p = Some g) \<Longrightarrow>
    osStep c s (s\<lparr>table := (table s)(q \<mapsto> g)\<rparr>)"
| othersEnd: "p \<notin> kids s \<Longrightarrow> osStep c s (s\<lparr>table := (table s)(p := None)\<rparr>)"

text \<open>
  While the child is not reaped and nobody has left, its group is exactly its descendants and itself.
\<close>

definition grouped :: "int \<Rightarrow> osState \<Rightarrow> bool" where
  "grouped c s \<longleftrightarrow> (\<not> reaped s \<longrightarrow> c \<in> kids s) \<and>
     (\<not> reaped s \<and> \<not> escaped s \<longrightarrow> (\<forall>p. table s p = Some c \<longleftrightarrow> p \<in> kids s))"

lemma grouped_spawn:
  assumes "t c = None" and "\<forall>p. t p \<noteq> Some c"
  shows "grouped c (snd (spawn (configureSandbox cmd) sv c t))"
  using assms by (auto simp: grouped_def spawn_def configureSandbox_def)

lemma grouped_step: "osStep c s s' \<Longrightarrow> grouped c s \<Longrightarrow> grouped c s'"
proof (induction rule: osStep.induct)
  case (forks s p q)
  then show ?case by (auto simp: grouped_def freshId_def runs_def)
next
  case (othersStart q s g)
  then have "g \<noteq> c" if "\<not> reaped s" "\<not> escaped s" using that by (auto simp: grouped_def freshId_def)
  moreover have "q \<notin> kids s" if "\<not> reaped s" "\<not> escaped s" proof
    assume "q \<in> kids s"
    then have "table s q = Some c" using othersStart.prems that unfolding grouped_def by blast
    with othersStart.hyps(1) show False by (simp add: freshId_def)
  qed
  ultimately show ?case using othersStart.prems by (auto simp: grouped_def)
qed (auto simp: grouped_def runs_def split: if_splits)

lemma grouped_steps: "rtranclp (osStep c) s s' \<Longrightarrow> grouped c s \<Longrightarrow> grouped c s'"
  by (induction rule: rtranclp_induct) (auto intro: grouped_step)

text \<open>
  C28: An overrunning stage is killed with everything it started and with nothing else. Whatever the
  child forks and whatever the other processes of the system do, when the kill is sent before the child
  is reaped and no descendant has left the group, no process of the stage runs afterwards and every
  other process, the server among them, is as before. Before the fork the kill does nothing.
\<close>

theorem timeout_kills_stage:
  assumes "t 1 \<noteq> None" and "t c = None" and "\<forall>p. t p \<noteq> Some c" and "0 < c"
    and "spawn (configureSandbox cmd) sv c t = (started, s0)" and "rtranclp (osStep c) s0 s"
    and "\<not> reaped s" and "\<not> escaped s"
  shows "(\<forall>p. \<not> runs c (killProcessGroup started sv s) p) \<and>
    (\<forall>p. p \<notin> kids s \<longrightarrow> table (killProcessGroup started sv s) p = table s p) \<and>
    (cmdProcess cmd = None \<longrightarrow> killProcessGroup cmd sv s = s)"
proof -
  have g: "grouped c s" using grouped_steps [OF assms(6)] grouped_spawn [OF assms(2,3), of cmd sv] assms(5) by simp
  have c: "c \<noteq> 1" using assms(1,2) by auto
  have who: "signalled sv (- c) s p \<longleftrightarrow> p \<in> kids s" for p
    using g c assms(4,7,8) by (auto simp: signalled_def grouped_def)
  have "killProcessGroup started sv s = sigkill c (\<lambda>p. p \<in> kids s) s"
    using assms(4,5) by (auto simp: killProcessGroup_def spawn_def who [abs_def])
  moreover have "c \<in> kids s" using g assms(7) by (simp add: grouped_def)
  ultimately show ?thesis by (auto simp: sigkill_def runs_def killProcessGroup_def)
qed

text \<open>The server is process 1; the child 7 forks 8, which outlives it.\<close>

theorem timeout_kills_stage_witness:
  "\<exists>started s0 s. spawn (configureSandbox \<lparr>cmdSetpgid = False, cmdProcess = None\<rparr>) 1 7 [1 \<mapsto> 1] = (started, s0) \<and>
     runs 7 s 8 \<and> \<not> runs 7 (killProcessGroup started 1 s) 8 \<and> table (killProcessGroup started 1 s) 1 = Some 1"
proof -
  let ?cmd = "\<lparr>cmdSetpgid = False, cmdProcess = None\<rparr>"
  obtain started s0 where sp: "spawn (configureSandbox ?cmd) 1 7 [1 \<mapsto> 1] = (started, s0)" by fastforce
  then have s0: "s0 = \<lparr>table = [1 \<mapsto> 1, 7 \<mapsto> 7], kids = {7}, zombie = False, reaped = False, escaped = False\<rparr>"
    by (simp add: spawn_def configureSandbox_def)
  define s1 where "s1 = s0\<lparr>table := (table s0)(8 := table s0 7), kids := insert 8 (kids s0)\<rparr>"
  have "osStep 7 s0 s1" unfolding s1_def by (rule osStep.forks) (auto simp: s0 runs_def freshId_def)
  then have steps: "rtranclp (osStep 7) s0 (s1\<lparr>zombie := True\<rparr>)"
    using osStep.childEnds [of 7 s1] by auto
  have h: "[1 \<mapsto> 1] (1 :: int) \<noteq> None" "[1 \<mapsto> (1 :: int)] (7 :: int) = None" "\<forall>p :: int. [1 \<mapsto> (1 :: int)] p \<noteq> Some 7" "0 < (7 :: int)"
    "\<not> reaped (s1\<lparr>zombie := True\<rparr>)" "\<not> escaped (s1\<lparr>zombie := True\<rparr>)" by (auto simp: s1_def s0)
  note k = timeout_kills_stage [OF h(1-4) sp steps h(5,6)]
  have "runs 7 (s1\<lparr>zombie := True\<rparr>) 8" "1 \<notin> kids (s1\<lparr>zombie := True\<rparr>)" "table (s1\<lparr>zombie := True\<rparr>) 1 = Some 1"
    by (auto simp: runs_def s1_def s0)
  with k sp show ?thesis by metis
qed

end
