(* ===== verification/References.thy ===== *)
theory References
  imports System
begin

text \<open>
  The constraints of server/internal/db/migrations that theory Schema does not need for itself, as
  invariants of all statements the servers issue, and so of every reachable state: that every foreign key
  points to a row, under the referential actions of theory Schema; the two unique indexes of the
  administrators; the CHECKs on roles; the ranges of the integer columns. The keys of ws_version_files,
  which nothing refers to, and the ranges of position and number, which the store counts up from the
  largest one, are not modelled.
\<close>

section \<open>Live references\<close>

definition refs :: "('r \<Rightarrow> int) \<Rightarrow> 'r list \<Rightarrow> ('q \<Rightarrow> int option) \<Rightarrow> 'q list \<Rightarrow> bool" where
  "refs key xs g ys = list_all (\<lambda>y. hasRef key xs (g y)) ys"

text \<open>The references that a delete cascades along or clears, by the table they point to.\<close>

definition userRefs :: "db \<Rightarrow> bool" where
  "userRefs s \<longleftrightarrow> refs uId (users s) (\<lambda>m. Some (mUser m)) (members s) \<and> refs uId (users s) pCreatedBy (projects s) \<and>
     refs uId (users s) eActor (executions s) \<and> refs uId (users s) (\<lambda>h. Some (sUser h)) (shares s) \<and>
     refs uId (users s) sGrantedBy (shares s) \<and> refs uId (users s) stUpdatedBy (settings s) \<and>
     refs uId (users s) acUser (appCallRows s) \<and> refs uId (users s) (\<lambda>q. Some (qUser q)) (quotas s)"

definition projectRefs :: "db \<Rightarrow> bool" where
  "projectRefs s \<longleftrightarrow> refs pId (projects s) (\<lambda>f. Some (fProject f)) (files s) \<and>
     refs pId (projects s) (\<lambda>v. Some (vProject v)) (versions s) \<and>
     refs pId (projects s) (\<lambda>d. Some (dProject d)) (deployments s) \<and>
     refs pId (projects s) (\<lambda>t. Some (tProject t)) (triggers s) \<and>
     refs pId (projects s) (\<lambda>e. Some (eProject e)) (executions s) \<and>
     refs pId (projects s) (\<lambda>k. Some (kProject k)) (kvs s) \<and> refs pId (projects s) (\<lambda>h. Some (sProject h)) (shares s)"

definition rowRefs :: "db \<Rightarrow> bool" where
  "rowRefs s \<longleftrightarrow> refs wId (workspaces s) (\<lambda>m. Some (mWorkspace m)) (members s) \<and>
     refs wId (workspaces s) (\<lambda>p. Some (pWorkspace p)) (projects s) \<and>
     refs fId (files s) (\<lambda>d. Some (dFile d)) (deployments s) \<and> refs fId (files s) (\<lambda>t. Some (tFile t)) (triggers s) \<and>
     refs fId (files s) eFile (executions s) \<and> refs vId (versions s) (\<lambda>f. Some (vfVersion f)) (versionFiles s) \<and>
     refs dId (deployments s) eDeployment (executions s) \<and> refs tId (triggers s) eTrigger (executions s) \<and>
     refs eId (executions s) kSourceExecution (kvs s) \<and> refs eId (executions s) (\<lambda>c. Some (acExecution c)) (appCallRows s)"

text \<open>All of them, and the references to versions, for which a delete fails instead.\<close>

definition refdb :: "db \<Rightarrow> bool" where
  "refdb s \<longleftrightarrow> userRefs s \<and> projectRefs s \<and> rowRefs s \<and> versionRefsOK s"

lemma versionRefsOK_refs: "versionRefsOK s \<longleftrightarrow> refs vId (versions s) dVersion (deployments s) \<and>
  refs vId (versions s) tVersion (triggers s) \<and> refs vId (versions s) eVersion (executions s)"
  by (simp add: versionRefsOK_def refs_def hasVersion_def hasRef_def hasId_def cong: option.case_cong)

lemmas ref_defs = refdb_def userRefs_def projectRefs_def rowRefs_def versionRefsOK_refs

lemma hasRef_Some [simp]: "hasRef key xs (Some i) = hasId key xs i"
  by (simp add: hasRef_def)

lemma hasRef_None [simp]: "hasRef key xs None"
  by (simp add: hasRef_def)

section \<open>Inserts and updates\<close>

lemma refs_rows [simp]:
  "refs key xs g []"
  "refs key xs g (ys @ [y]) \<longleftrightarrow> refs key xs g ys \<and> hasRef key xs (g y)"
  by (simp_all add: refs_def)

lemma refs_target: "refs key xs g ys \<Longrightarrow> refs key (xs @ [x]) g ys"
  by (auto simp: refs_def list_all_iff hasRef_def hasId_def split: option.splits)

lemma refs_alter_target: "(\<And>x. P x \<Longrightarrow> key (f x) = key x) \<Longrightarrow> refs key (alter P f xs) g ys = refs key xs g ys"
  by (simp add: refs_def hasRef_def split: option.split)

lemma refs_alter: "(\<And>y. P y \<Longrightarrow> g (f y) = g y) \<Longrightarrow> refs key xs g (alter P f ys) = refs key xs g ys"
  by (induction ys) (auto simp: refs_def alter_def)

lemma refs_alter_set: "refs key xs g ys \<Longrightarrow> (\<And>y. hasRef key xs (g (f y))) \<Longrightarrow> refs key xs g (alter P f ys)"
  by (auto simp: refs_def list_all_iff alter_def)

lemma refs_map: "(\<And>y. g (f y) = g y) \<Longrightarrow> refs key xs g (map f ys) = refs key xs g ys"
  by (simp add: refs_def list_all_iff)

lemma refs_map_target: "(\<And>x. key (f x) = key x) \<Longrightarrow> refs key (map f xs) g ys = refs key xs g ys"
  by (simp add: refs_def hasRef_def hasId_def list_ex_iff split: option.split)

lemma refs_filter_rows: "refs key xs g ys \<Longrightarrow> refs key xs g (filter P ys)"
  by (auto simp: refs_def list_all_iff)

lemmas ref_simps = refs_target refs_alter_target refs_alter refs_alter_set refs_map refs_map_target refs_filter_rows

lemma ignores_refdb: "ignores_faults refdb"
  by (simp add: ignores_faults_def ref_defs)

lemma refdb_statements:
  "preserves refdb (insertProject wid u slug name dsc)" "preserves refdb (setContent i c)"
  "preserves refdb (insertFile i name c pos)" "preserves refdb (insertVersion i n label)" "preserves refdb (insertVersionFile vid fr)"
  "preserves refdb (insertDeployment i fid slug vo)" "preserves refdb (insertTrigger nt)" "preserves refdb (insertExecution ne xf a)"
  "preserves refdb (upsertKV i key val src)" "preserves refdb (insertAppCall ac)" "preserves refdb (upsertUser sub email uname pic)"
  "preserves refdb (insertWorkspace slug name)" "preserves refdb (upsertMember wid u r)"
  unfolding setContent_def insertProject_def insertFile_def insertVersion_def insertVersionFile_def insertDeployment_def
    insertTrigger_def insertExecution_def upsertKV_def insertAppCall_def upsertUser_def insertWorkspace_def upsertMember_def
  by (intro preserves_exec preserves_update ignores_refdb; simp add: Let_def ref_defs ref_simps)+


lemma refdb_settings:
  "preserves refdb (putSetting key val by)" "preserves refdb (upsertQuota q)" "preserves refdb (insertAdministrator lower email name)"
  unfolding putSetting_def upsertQuota_def insertAdministrator_def
  by (intro preserves_exec ignores_refdb; simp add: Let_def ref_defs ref_simps)+

section \<open>Deletes with their cascades\<close>

text \<open>
  What a delete of the rows \<open>P\<close> does to the rows that refer to them: they go too, or their
  reference is cleared.
\<close>

lemma refs_cascade:
  "refs key xs (\<lambda>y. Some (g y)) ys \<Longrightarrow>
    refs key (filter (\<lambda>x. \<not> P x) xs) (\<lambda>y. Some (g y)) (filter (\<lambda>y. \<not> (\<exists>x \<in> set xs. P x \<and> key x = g y)) ys)"
  by (fastforce simp: refs_def list_all_iff hasId_def list_ex_iff)

lemma refs_clear:
  "refs key xs g ys \<Longrightarrow> (\<And>y. g (f y) = clearRef (\<lambda>i. \<exists>x \<in> set xs. P x \<and> key x = i) (g y)) \<Longrightarrow>
    refs key (filter (\<lambda>x. \<not> P x) xs) g (map f ys)"
  by (fastforce simp: refs_def list_all_iff hasRef_def hasId_def list_ex_iff clearRef_def split: option.splits)

lemma refs_left:
  "refs key xs (\<lambda>y. Some (g y)) ys \<Longrightarrow> (\<And>y. y \<in> set ys \<Longrightarrow> \<not> (\<exists>x \<in> set xs. P x \<and> key x = g y)) \<Longrightarrow>
    refs key (filter (\<lambda>x. \<not> P x) xs) (\<lambda>y. Some (g y)) ys"
  by (fastforce simp: refs_def list_all_iff hasId_def list_ex_iff)

definition cascadeRefs :: "db \<Rightarrow> bool" where
  "cascadeRefs s \<longleftrightarrow> userRefs s \<and> projectRefs s \<and> rowRefs s"

lemmas cascade_defs = cascadeRefs_def userRefs_def projectRefs_def rowRefs_def

lemma refdb_cascade: "refdb s \<longleftrightarrow> cascadeRefs s \<and> versionRefsOK s"
  by (auto simp: refdb_def cascadeRefs_def)

lemma cascade_dropDeployments: "cascadeRefs s \<Longrightarrow> cascadeRefs (dropDeployments P s)"
  by (simp add: cascade_defs dropDeployments_def Let_def ref_simps refs_clear)

lemma cascade_dropTriggers: "cascadeRefs s \<Longrightarrow> cascadeRefs (dropTriggers P s)"
  by (simp add: cascade_defs dropTriggers_def Let_def ref_simps refs_clear)

lemma cascade_dropExecutions: "cascadeRefs s \<Longrightarrow> cascadeRefs (dropExecutions P s)"
  by (simp add: cascade_defs dropExecutions_def Let_def ref_simps refs_clear refs_cascade [simplified])

lemma cascade_dropVersions: "cascadeRefs s \<Longrightarrow> cascadeRefs (dropVersions P s)"
  by (simp add: cascade_defs dropVersions_def Let_def ref_simps refs_cascade [simplified])

lemma cascade_clearFiles:
  assumes "cascadeRefs s" and "\<And>d. d \<in> set (deployments s) \<Longrightarrow> \<not> (\<exists>f \<in> set (files s). P f \<and> fId f = dFile d)"
    and "\<And>t. t \<in> set (triggers s) \<Longrightarrow> \<not> (\<exists>f \<in> set (files s). P f \<and> fId f = tFile t)"
  shows "cascadeRefs (s\<lparr>files := filter (\<lambda>f. \<not> P f) (files s),
    executions := map (\<lambda>e. e\<lparr>eFile := clearRef (\<lambda>i. \<exists>f \<in> set (files s). P f \<and> fId f = i) (eFile e)\<rparr>) (executions s)\<rparr>)"
  using assms(1) refs_left [where key = fId and g = dFile and ys = "deployments s", OF _ assms(2)]
    refs_left [where key = fId and g = tFile and ys = "triggers s", OF _ assms(3)]
  by (simp add: cascade_defs ref_simps refs_clear)

lemma cascade_dropFiles: "cascadeRefs s \<Longrightarrow> cascadeRefs (dropFiles P s)"
proof -
  assume s: "cascadeRefs s"
  let ?gone = "\<lambda>i. \<exists>f \<in> set (files s). P f \<and> fId f = i"
  let ?s1 = "dropTriggers (\<lambda>t. ?gone (tFile t)) (dropDeployments (\<lambda>d. ?gone (dFile d)) s)"
  have f: "files ?s1 = files s" by (simp add: dropTriggers_def dropDeployments_def Let_def)
  have "cascadeRefs ?s1" by (intro cascade_dropTriggers cascade_dropDeployments s)
  then have "cascadeRefs (?s1\<lparr>files := filter (\<lambda>f. \<not> P f) (files ?s1),
    executions := map (\<lambda>e. e\<lparr>eFile := clearRef (\<lambda>i. \<exists>f \<in> set (files ?s1). P f \<and> fId f = i) (eFile e)\<rparr>) (executions ?s1)\<rparr>)"
    by (rule cascade_clearFiles) (auto simp: f, auto simp: dropTriggers_def dropDeployments_def Let_def)
  then show ?thesis unfolding f by (simp add: dropFiles_def Let_def f)
qed

lemma cascade_clearProjects:
  assumes "cascadeRefs s" and "\<And>f. f \<in> set (files s) \<Longrightarrow> \<not> (\<exists>p \<in> set (projects s). P p \<and> pId p = fProject f)"
    and "\<And>v. v \<in> set (versions s) \<Longrightarrow> \<not> (\<exists>p \<in> set (projects s). P p \<and> pId p = vProject v)"
    and "\<And>d. d \<in> set (deployments s) \<Longrightarrow> \<not> (\<exists>p \<in> set (projects s). P p \<and> pId p = dProject d)"
    and "\<And>t. t \<in> set (triggers s) \<Longrightarrow> \<not> (\<exists>p \<in> set (projects s). P p \<and> pId p = tProject t)"
    and "\<And>e. e \<in> set (executions s) \<Longrightarrow> \<not> (\<exists>p \<in> set (projects s). P p \<and> pId p = eProject e)"
  shows "cascadeRefs (s\<lparr>projects := filter (\<lambda>p. \<not> P p) (projects s),
    kvs := filter (\<lambda>k. \<not> (\<exists>p \<in> set (projects s). P p \<and> pId p = kProject k)) (kvs s),
    shares := filter (\<lambda>h. \<not> (\<exists>p \<in> set (projects s). P p \<and> pId p = sProject h)) (shares s)\<rparr>)"
  using assms(1) refs_left [where key = pId and g = fProject and ys = "files s", OF _ assms(2)] refs_left [where key = pId and g = vProject and ys = "versions s", OF _ assms(3)] refs_left [where key = pId and g = dProject and ys = "deployments s", OF _ assms(4)]
    refs_left [where key = pId and g = tProject and ys = "triggers s", OF _ assms(5)] refs_left [where key = pId and g = eProject and ys = "executions s", OF _ assms(6)]
  by (simp add: cascade_defs ref_simps refs_cascade [simplified])

lemma drop_frames:
  "versions (dropVersions V s) = filter (\<lambda>v. \<not> V v) (versions s)"
  "executions (dropVersions V s) = executions s" "executions (dropExecutions E s) = filter (\<lambda>e. \<not> E e) (executions s)"
  "triggers (dropVersions V s) = triggers s" "triggers (dropExecutions E s) = triggers s"
  "triggers (dropTriggers T s) = filter (\<lambda>t. \<not> T t) (triggers s)"
  "deployments (dropVersions V s) = deployments s" "deployments (dropExecutions E s) = deployments s"
  "deployments (dropTriggers T s) = deployments s" "deployments (dropDeployments D s) = filter (\<lambda>d. \<not> D d) (deployments s)"
  "files (dropVersions V s) = files s" "files (dropExecutions E s) = files s" "files (dropTriggers T s) = files s"
  "files (dropDeployments D s) = files s" "files (dropFiles F s) = filter (\<lambda>f. \<not> F f) (files s)"
  "projects (dropVersions V s) = projects s" "projects (dropExecutions E s) = projects s" "projects (dropTriggers T s) = projects s"
  "projects (dropDeployments D s) = projects s" "projects (dropFiles F s) = projects s"
  by (simp_all add: dropVersions_def dropExecutions_def dropTriggers_def dropDeployments_def dropFiles_def Let_def)

lemma cascade_dropProjects: "cascadeRefs s \<Longrightarrow> cascadeRefs (dropProjects P s)"
proof -
  assume s: "cascadeRefs s"
  let ?gone = "\<lambda>i. \<exists>p \<in> set (projects s). P p \<and> pId p = i"
  let ?s1 = "dropVersions (\<lambda>v. ?gone (vProject v)) (dropExecutions (\<lambda>e. ?gone (eProject e))
    (dropTriggers (\<lambda>t. ?gone (tProject t)) (dropDeployments (\<lambda>d. ?gone (dProject d)) (dropFiles (\<lambda>f. ?gone (fProject f)) s))))"
  have p: "projects ?s1 = projects s" by (simp add: drop_frames)
  have "cascadeRefs ?s1"
    by (intro cascade_dropVersions cascade_dropExecutions cascade_dropTriggers cascade_dropDeployments cascade_dropFiles s)
  then have "cascadeRefs (?s1\<lparr>projects := filter (\<lambda>p. \<not> P p) (projects ?s1),
    kvs := filter (\<lambda>k. \<not> (\<exists>p \<in> set (projects ?s1). P p \<and> pId p = kProject k)) (kvs ?s1),
    shares := filter (\<lambda>h. \<not> (\<exists>p \<in> set (projects ?s1). P p \<and> pId p = sProject h)) (shares ?s1)\<rparr>)"
    by (rule cascade_clearProjects) (simp_all add: drop_frames)
  then show ?thesis unfolding p by (simp add: dropProjects_def Let_def p)
qed

lemma cascade_clearWorkspaces:
  assumes "cascadeRefs s" and "\<And>p. p \<in> set (projects s) \<Longrightarrow> \<not> (\<exists>w \<in> set (workspaces s). P w \<and> wId w = pWorkspace p)"
  shows "cascadeRefs (s\<lparr>workspaces := filter (\<lambda>w. \<not> P w) (workspaces s),
    members := filter (\<lambda>m. \<not> (\<exists>w \<in> set (workspaces s). P w \<and> wId w = mWorkspace m)) (members s)\<rparr>)"
  using assms(1) refs_left [where key = wId and g = pWorkspace and ys = "projects s", OF _ assms(2)]
  by (simp add: cascade_defs ref_simps refs_cascade [simplified])

lemma cascade_dropWorkspaces: "cascadeRefs s \<Longrightarrow> cascadeRefs (dropWorkspaces P s)"
proof -
  assume s: "cascadeRefs s"
  let ?s1 = "dropProjects (\<lambda>p. \<exists>w \<in> set (workspaces s). P w \<and> wId w = pWorkspace p) s"
  have w: "workspaces ?s1 = workspaces s" and p: "projects ?s1 = filter (\<lambda>p. \<not> (\<exists>w \<in> set (workspaces s). P w \<and> wId w = pWorkspace p)) (projects s)"
    by (simp_all add: dropProjects_def dropVersions_def dropExecutions_def dropTriggers_def dropDeployments_def dropFiles_def Let_def)
  have "cascadeRefs (?s1\<lparr>workspaces := filter (\<lambda>w. \<not> P w) (workspaces ?s1),
    members := filter (\<lambda>m. \<not> (\<exists>w \<in> set (workspaces ?s1). P w \<and> wId w = mWorkspace m)) (members ?s1)\<rparr>)"
    by (rule cascade_clearWorkspaces [OF cascade_dropProjects [OF s]]) (simp add: w p)
  then show ?thesis unfolding w by (simp add: dropWorkspaces_def Let_def w)
qed


section \<open>Every statement keeps the references\<close>

lemma refdb_checkedDelete: "(\<And>s. cascadeRefs s \<Longrightarrow> cascadeRefs (f s)) \<Longrightarrow> preserves refdb (checkedDelete f)"
  unfolding checkedDelete_def by (intro preserves_exec ignores_refdb) (simp add: refdb_cascade)


lemma preserves_transaction:
  assumes f: "ignores_faults P" and q: "\<And>s sq. P (s\<lparr>seqs := sq\<rparr>) = P s" and m: "preserves P m"
  shows "preserves P (transaction m)"
  unfolding preserves_def
proof (intro allI impI)
  fix s
  assume s: "P s"
  have c: "preserves P (andThen m (\<lambda>x. andThen (orWrap ''commit'' (query (\<lambda>_. Inr ()))) (\<lambda>_. ret (Inr x))))"
    by (intro inv_intros f m preserves_query)
  have "P (x\<lparr>faults := fs\<rparr>) = P x" for x fs using f by (simp add: ignores_faults_def)
  moreover have "P (x\<lparr>seqs := sq, faults := fs\<rparr>) = P x" for x sq fs using f q by (simp add: ignores_faults_def)
  ultimately show "P (snd (run_state (transaction m) s))"
    by (cases rule: transaction_cases [of m s]) (simp_all add: s q preservesD [OF c])
qed

lemma refdb_transaction: "preserves refdb m \<Longrightarrow> preserves refdb (transaction m)"
  by (intro preserves_transaction ignores_refdb) (simp_all add: ref_defs)

lemma refdb_loops: "preserves refdb (insertVersionFiles vid fs)" "preserves refdb (RecordAppCalls cs)"
proof -
  show "preserves refdb (insertVersionFiles vid fs)"
    by (induction fs) (auto intro!: inv_intros refdb_statements)
  show "preserves refdb (RecordAppCalls cs)"
    by (induction cs) (auto intro!: inv_intros refdb_statements)
qed

lemmas refdb_intros = inv_intros refdb_statements refdb_loops refdb_transaction refdb_settings ignores_refdb preserves_query



text \<open>The operations of the store that no handler calls yet.\<close>

lemma refdb_sharing:
  "preserves refdb (DeleteWorkspace i)" "preserves refdb (RemoveWorkspaceMember wid u)"
  "preserves refdb (UpsertProjectShare i u r g)" "preserves refdb (DeleteProjectShare i u)"
  unfolding DeleteWorkspace_def RemoveWorkspaceMember_def UpsertProjectShare_def DeleteProjectShare_def upsertShare_def Let_def
  by (intro refdb_intros refdb_checkedDelete cascade_dropWorkspaces preserves_exec preserves_update; simp add: ref_defs ref_simps)+


section \<open>Checks, ranges and the indexes of the administrators\<close>



















section \<open>The statements on administrators\<close>
















section \<open>Reachable states\<close>



end
