(* ===== verification/Deploys.thy ===== *)
theory Deploys
  imports RunRecords Slugs
begin

text \<open>
  The public deployment endpoint, \<open>handleDeploy\<close> of server/deployments.go: what a slug stands for, and
  that a request to it runs exactly that, whoever sends it.
\<close>

section \<open>What is published\<close>

text \<open>
  The creator of a project answers for its public runs: their quotas and their app calls are the
  creator's.
\<close>

definition ownerOf :: "db \<Rightarrow> projectRow \<Rightarrow> Actor" where
  "ownerOf s p =
     (case pCreatedBy p of
        None \<Rightarrow> noActor
      | Some u \<Rightarrow>
          if u \<le> 0 then noActor
          else (case List.find (\<lambda>x. uId x = u) (users s) of
                  None \<Rightarrow> noActor\<lparr>ActorUserID := u, ActorProjectID := pId p\<rparr>
                | Some x \<Rightarrow> noActor\<lparr>ActorUserID := uId x, ActorEmail := uEmail x, ActorProjectID := pId p\<rparr>))"

text \<open>The text and the actor an enabled slug stands for: the draft, or the file as the pinned version has it.\<close>

definition published :: "db \<Rightarrow> string \<Rightarrow> (string \<times> Actor) option" where
  "published s slug =
     (case List.find (\<lambda>d. dSlug d = slug) (deployments s) of
        None \<Rightarrow> None
      | Some d \<Rightarrow>
          if \<not> dEnabled d then None
          else (case List.find (\<lambda>f. fId f = dFile d) (files s) of
                  None \<Rightarrow> None
                | Some f \<Rightarrow>
                    (case List.find (\<lambda>p. pId p = fProject f) (projects s) of
                       None \<Rightarrow> None
                     | Some p \<Rightarrow>
                         map_option (\<lambda>src. (src, ownerOf s p))
                           (case dVersion d of
                              None \<Rightarrow> Some (fContent f)
                            | Some v \<Rightarrow> map_option vfContent
                                (List.find (\<lambda>x. vfVersion x = v \<and> vfName x = fName f) (versionFiles s))))))"

lemma find_filter_one:
  assumes "uniq key xs"
  shows "filter (\<lambda>x. key x = k) xs = (case List.find (\<lambda>x. key x = k) xs of None \<Rightarrow> [] | Some x \<Rightarrow> [x])"
proof (cases "List.find (\<lambda>x. key x = k) xs")
  case None
  then show ?thesis using None by (simp add: filter_empty_conv) (simp add: find_None_iff_ball)
next
  case (Some x)
  then show ?thesis using find_SomeD [OF Some] filter_key [of key xs x] assms by (auto simp: uniq_def)
qed

lemma run_bySlug:
  assumes "ready s"
  shows "run_state (GetWSDeploymentBySlug slug) s =
    ((case List.find (\<lambda>d. dSlug d = slug) (deployments s) of
        None \<Rightarrow> Inl ErrNotFound
      | Some d \<Rightarrow> (case List.find (\<lambda>f. fId f = dFile d) (files s) of
                    None \<Rightarrow> Inl ErrNotFound | Some f \<Rightarrow> Inr (scanDeployment f d))), s)"
proof -
  have u: "uniq dSlug (deployments s)" "uniq fId (files s)" and f: "faults s = []"
    using assms by (auto simp: ready_def wfdb_def keyed_uniq)
  show ?thesis
    by (simp add: GetWSDeploymentBySlug_def query_clean f row_def wsDeploymentQuery_def find_filter_one [OF u(1)]
        find_filter_one [OF u(2)] split: option.split)
qed

lemma run_ownerActor:
  assumes "ready s"
  shows "run_state (ownerActor (Some (scanWSProject p))) s = (ownerOf s p, s)"
  using assms
  by (auto simp: ownerActor_def scanWSProject_def ownerOf_def GetUser_def query_clean ready_def row_def scanUser_def split: option.split)

section \<open>A request\<close>

lemma deploy_unpublished:
  assumes "ready s" and "published s (pathValue req ''slug'') = None"
  shows "\<exists>code msg. run_state (handleDeploy w req) s = (JSON code (ErrorBody msg), s) \<and> 400 \<le> code"
  using assms
  by (auto simp: handleDeploy_def run_bySlug published_def writeError_def scanDeployment_def resolveDeploymentSource_def
      run_andThen GetWSFileByID_def GetWSProject_def GetWSVersionFileContent_def query_clean ready_def row_def scanWSProject_def
      split: option.splits if_splits)
lemma deploy_published:
  assumes "ready s" and "published s (pathValue req ''slug'') = Some (src, a)"
  shows "case engineRun w src a of
      Inl e \<Rightarrow> \<exists>reply. run_state (handleDeploy w req) s = (reply, s)
    | Inr res \<Rightarrow> \<exists>dep entry s'. run_state (handleDeploy w req) s = (deployReply req dep res entry, s') \<and>
        depSlug dep = pathValue req ''slug''"
proof -
  let ?slug = "pathValue req ''slug''"
  have f0: "faults s = []" using assms(1) by (simp add: ready_def)
  obtain d where d: "List.find (\<lambda>d. dSlug d = ?slug) (deployments s) = Some d" "dEnabled d"
    using assms(2) by (auto simp: published_def split: option.splits if_splits)
  obtain f where f: "List.find (\<lambda>f. fId f = dFile d) (files s) = Some f"
    using assms(2) d by (auto simp: published_def split: option.splits)
  obtain p where p: "List.find (\<lambda>p. pId p = fProject f) (projects s) = Some p"
    using assms(2) d f by (auto simp: published_def split: option.splits)
  have src: "(case dVersion d of None \<Rightarrow> Some (fContent f) | Some v \<Rightarrow> map_option vfContent
      (List.find (\<lambda>x. vfVersion x = v \<and> vfName x = fName f) (versionFiles s))) = Some src" and a: "a = ownerOf s p"
    using assms(2) d f p by (auto simp: published_def)
  let ?dep = "scanDeployment f d"
  have dep: "run_state (GetWSDeploymentBySlug ?slug) s = (Inr ?dep, s)" by (simp add: run_bySlug [OF assms(1)] d f)
  have res: "run_state (resolveDeploymentSource ?dep) s = (Inr (src, f, scanWSProject p), s)"
    using src f p by (cases "dVersion d")
      (auto simp: resolveDeploymentSource_def scanDeployment_def run_andThen GetWSFileByID_def GetWSProject_def
        GetWSVersionFileContent_def query_clean f0 row_def)
  have enabled: "depEnabled ?dep" using d(2) by (simp add: scanDeployment_def)
  note run = handleDeploy_def dep res run_ownerActor [OF assms(1)] a [symmetric]
  show ?thesis
  proof (cases "engineRun w src a")
    case (Inl e)
    then show ?thesis by (simp add: run enabled writeError_def)
  next
    case (Inr result)
    have "\<exists>entry s'. run_state (handleDeploy w req) s = (deployReply req ?dep result entry, s')"
      using Inr by (simp add: run enabled case_prod_beta) blast
    moreover have "depSlug ?dep = ?slug" using find_SomeD [OF d(1)] by (simp add: scanDeployment_def)
    ultimately show ?thesis using Inr by auto
  qed
qed

section \<open>Pinned deployments\<close>

text \<open>Writes to the files of any projects, one after the other.\<close>

definition edited :: "(int \<times> string \<times> string) list \<Rightarrow> db \<Rightarrow> db" where
  "edited es s = fold (\<lambda>(pid, name, code) s. snd (run_state (UpsertWSFile pid name code) s)) es s"

definition pinned :: "db \<Rightarrow> string \<Rightarrow> bool" where
  "pinned s slug \<longleftrightarrow> (\<exists>d. List.find (\<lambda>d. dSlug d = slug) (deployments s) = Some d \<and> dVersion d \<noteq> None)"

text \<open>What a pinned slug is published from, as a view that a write to a file keeps.\<close>

definition pinView :: "db \<Rightarrow> deploymentRow list \<times> versionFileRow list \<times> userRow list" where
  "pinView s = (deployments s, versionFiles s, users s)"

lemma keeps_pinView: "keeps pinView (UpsertWSFile pid name code)"
  unfolding UpsertWSFile_def touchWSProject_def setProject_def setContent_def insertFile_def nextPosition_def fileReads
  by (intro keeps_intros keeps_exec keeps_update; simp add: pinView_def ignores_faults_def Let_def)

text \<open>The file and the creator of its project, as far as a pinned slug depends on them.\<close>

definition fileStands :: "int \<Rightarrow> string \<Rightarrow> int \<Rightarrow> int option \<Rightarrow> db \<Rightarrow> bool" where
  "fileStands i name q creator s \<longleftrightarrow>
     (\<exists>f. List.find (\<lambda>f. fId f = i) (files s) = Some f \<and> fName f = name \<and> fProject f = q) \<and>
     (\<exists>p. List.find (\<lambda>p. pId p = q) (projects s) = Some p \<and> pCreatedBy p = creator)"

lemma ignores_fileStands: "ignores_faults (fileStands i name q creator)"
  by (simp add: ignores_faults_def fileStands_def)

lemma fileStands_statements:
  "preserves (fileStands i name q creator) (setContent j c)" "preserves (fileStands i name q creator) (insertFile j nm c pos)"
  "preserves (fileStands i name q creator) (touchWSProject j)"
  unfolding setContent_def insertFile_def touchWSProject_def setProject_def
  by (intro preserves_exec preserves_update ignores_fileStands;
    auto simp: fileStands_def Let_def find_alter find_append simp del: map_option_eq_Some split: option.split)+

lemma fileStands_upsert: "preserves (fileStands i name q creator) (UpsertWSFile pid nm code)"
  unfolding UpsertWSFile_def nextPosition_def fileReads
  by (intro inv_intros fileStands_statements preserves_query ignores_fileStands)

lemma clean_statements:
  "(\<And>s. faults s = [] \<Longrightarrow> faults (snd (f s)) = []) \<Longrightarrow> preserves (\<lambda>s. faults s = []) (exec f)"
  "(\<And>s. faults s = [] \<Longrightarrow> faults (g s) = []) \<Longrightarrow> preserves (\<lambda>s. faults s = []) (update g)"
  "preserves (\<lambda>s. faults s = []) (query h)"
  by (simp_all add: preserves_def clean_runs)

lemma clean_upsert: "preserves (\<lambda>s. faults s = []) (UpsertWSFile pid nm code)"
  unfolding UpsertWSFile_def touchWSProject_def setProject_def setContent_def insertFile_def nextPosition_def fileReads
  by (intro inv_intros clean_statements; simp add: Let_def)

lemma pinned_write:
  assumes "ready s" and "published s slug = Some (src, a)" and "pinned s slug"
    and "run_state (UpsertWSFile pid name code) s = (res, s')"
  shows "ready s' \<and> published s' slug = Some (src, a) \<and> pinned s' slug"
proof -
  obtain d v where d: "List.find (\<lambda>d. dSlug d = slug) (deployments s) = Some d" "dVersion d = Some v"
    using assms(3) by (auto simp: pinned_def)
  obtain f p where fp: "List.find (\<lambda>f. fId f = dFile d) (files s) = Some f" "List.find (\<lambda>p. pId p = fProject f) (projects s) = Some p"
    using assms(2) d by (auto simp: published_def split: option.splits if_splits)
  have "fileStands (dFile d) (fName f) (fProject f) (pCreatedBy p) s" using fp by (simp add: fileStands_def)
  then have "fileStands (dFile d) (fName f) (fProject f) (pCreatedBy p) s'"
    using preservesD_eq [OF fileStands_upsert _ assms(4)] by blast
  then obtain f' p' where fp': "List.find (\<lambda>f. fId f = dFile d) (files s') = Some f'" "fName f' = fName f" "fProject f' = fProject f"
    "List.find (\<lambda>p. pId p = fProject f) (projects s') = Some p'" "pCreatedBy p' = pCreatedBy p"
    unfolding fileStands_def by blast
  have view: "deployments s' = deployments s" "versionFiles s' = versionFiles s" "users s' = users s"
    using keepsD_eq [OF keeps_pinView assms(4)] by (simp_all add: pinView_def)
  have "pId p' = pId p" using find_SomeD [OF fp(2)] find_SomeD [OF fp'(4)] by simp
  then have "ownerOf s' p' = ownerOf s p" by (auto simp: ownerOf_def view fp'(5) split: option.split)
  then have "published s' slug = published s slug" using d fp fp' by (simp add: published_def view)
  moreover have "faults s' = []" "wfdb s'"
    using assms(1,4) preservesD_eq [OF wf_UpsertWSFile _ assms(4)] preservesD_eq [OF clean_upsert _ assms(4)] by (auto simp: ready_def)
  ultimately show ?thesis using assms(2,3) by (simp add: ready_def pinned_def view)
qed

text \<open>
  C9: What a public address runs. A request to a slug that no enabled deployment has, or whose text is
  missing, gets an error and changes nothing. For any other slug the engine is asked to run the published text on
  behalf of the creator of the project, whatever the request carries, and its result is the reply; a busy
  or failing engine changes nothing. While a deployment is pinned to a version, no writes to any files of any projects
  change what its address runs.
\<close>

theorem deploy_runs_published:
  assumes "ready s"
  shows "(published s (pathValue req ''slug'') = None \<longrightarrow>
      (\<exists>code msg. run_state (handleDeploy w req) s = (JSON code (ErrorBody msg), s) \<and> 400 \<le> code)) \<and>
    (published s (pathValue req ''slug'') = Some (src, a) \<longrightarrow>
      (case engineRun w src a of
         Inl e \<Rightarrow> \<exists>reply. run_state (handleDeploy w req) s = (reply, s)
       | Inr res \<Rightarrow> \<exists>dep entry s'. run_state (handleDeploy w req) s = (deployReply req dep res entry, s') \<and>
           depSlug dep = pathValue req ''slug'')) \<and>
    (published s slug = Some (src, a) \<and> pinned s slug \<longrightarrow>
      ready (edited es s) \<and> published (edited es s) slug = Some (src, a))"
proof -
  have "ready (edited es s) \<and> published (edited es s) slug = Some (src, a) \<and> pinned (edited es s) slug"
    if "published s slug = Some (src, a)" "pinned s slug"
    using assms that
  proof (induction es arbitrary: s)
    case (Cons e es)
    obtain pid name code where e: "e = (pid, name, code)" by (cases e)
    obtain r s1 where u: "run_state (UpsertWSFile pid name code) s = (r, s1)" by (cases "run_state (UpsertWSFile pid name code) s")
    have "edited (e # es) s = edited es s1" by (simp add: edited_def e u)
    then show ?case using Cons.IH pinned_write [OF Cons.prems u] by simp
  qed (simp add: edited_def)
  with deploy_unpublished [OF assms] deploy_published [OF assms] show ?thesis by blast
qed

text \<open>
  Project 2 of the sample database with the file of its deployment pinned; the draft is then overwritten,
  and the address still runs the text of the version.
\<close>

definition pinnedDB :: db where
  "pinnedDB = teamDB\<lparr>versions := [\<lparr>vId = 1, vProject = 2, vNumber = 1, vLabel = [], vCreatedAt = []\<rparr>],
     versionFiles := [\<lparr>vfVersion = 1, vfName = ''a.fc'', vfContent = ''old''\<rparr>],
     deployments := [\<lparr>dId = 9, dProject = 2, dFile = 5, dSlug = ''slug'', dVersion = Some 1, dEnabled = True, dCreatedAt = [],
       dUpdatedAt = []\<rparr>],
     seqs := (seqs teamDB)\<lparr>seqVersion := 1\<rparr>\<rparr>"

theorem deploy_runs_published_witness:
  "\<exists>a. ActorUserID a = 2 \<and> published pinnedDB ''slug'' = Some (''old'', a) \<and>
     published (edited [(2, ''a.fc'', ''new''), (2, ''b.fc'', ''x'')] pinnedDB) ''slug'' = Some (''old'', a)"
proof -
  have "ready pinnedDB" by (simp add: ready_def wfdb_def pinnedDB_def teamDB_def emptyDB_def keyed_def uniq_def hasId_def)
  moreover obtain a where "published pinnedDB ''slug'' = Some (''old'', a)" "ActorUserID a = 2"
    by (simp add: published_def pinnedDB_def teamDB_def emptyDB_def ownerOf_def noActor_def)
  moreover have "pinned pinnedDB ''slug''" by (simp add: pinned_def pinnedDB_def)
  ultimately show ?thesis using deploy_runs_published by blast
qed

end
