(* ===== verification/Spec2Isabelle.thy ===== *)
theory Spec2Isabelle
  imports Disasm Schedule RateLimit Quota AppLogs Config Apps Pages Scheduler AdminSite Migrate Startup Isolation System
    Lifecycle Columns Runner Overrides Slugs Sandbox References Deploys
begin

text \<open>
  FlowCode Playground: users write programs in the flowcode language in saved projects; the server
  compiles and runs them in a sandbox, answers the app calls they make, and keeps files, versions,
  deployments, triggers, executions and a key/value log in PostgreSQL. An administration server beside
  it edits the settings, the quotas and the allowlist of administrators. This development models the
  Go code of both servers (src/server) and the C runner's side of the formats they share
  (src/runner/fcplay.c), and proves what makes them correct.

  \<^bold>\<open>How the parts interact.\<close> A request reaches a table of routes (theories Api, Pages, AdminSite), which
  identifies the caller (Access), resolves the project with the caller's role (Gate) and runs a handler.
  A handler is a state transformer on the database (Schema, StoreUsers, StoreFiles, StoreRuns,
  StoreSettings). A run of a program, requested by a page, a JSON call, a public deployment or the scheduler
  (Scheduler, Schedule), takes a slot of the engine (Engine), compiles and executes the program as two
  child processes (StageExec, Sandbox), decodes the diagnostics and the bytecode (Diagnostics, Disasm)
  and serves the calls the program makes over a unix socket (Bridge, Runner) through the app service
  (Apps), which checks switches, allowlists and quotas (Config, Settings, Quota, Overrides) and keeps a log
  file (AppLogs). When it is over, the execution, its app calls and what the program stored
  (KVLog, RunRecords) are recorded. System joins the servers, the background work and restarts over one
  database; Startup, Migrate and Lifecycle are how a process comes up and goes down.

  \<^bold>\<open>Conventions.\<close> A struct is a record with the source's field names, prefixed where Isabelle's names
  are global; a Go string or byte slice is a list of characters, one per byte; an integer is an \<open>int\<close> with
  its width checked where the code reads or stores it (\<open>strconv\<close>, the columns of the schema), and a
  \<open>32 word\<close> or \<open>64 word\<close> where the code computes at that width (Disasm, Bridge, Runner); a nil pointer is
  None. A Go error is a value of type \<open>goerr\<close> in the left part of a sum, with the text it is
  formatted to; a run-time panic (an index out of range, a nil dereference) is a value of its own
  (None, \<open>Panicked\<close>, \<open>AdminPanic\<close>). A statement of the store is \<open>exec\<close> of a function on the tables;
  the list \<open>faults\<close> of the database scripts, statement by statement, which of them fail for a reason outside the program, so that
  a theorem over all \<open>faults\<close> covers every error path, and \<open>faults s = []\<close> is a working database. A
  transaction that does not commit leaves the tables as they were, and the sequences advanced.

  \<^bold>\<open>Theories and code.\<close>

  \<^item> Prelude, GoText, Codec, KeyedStore, Limiter, Retry: what the components share; checked slices, the rules
    by which frame conditions (\<open>keeps\<close>) and invariants (\<open>preserves\<close>) follow the shape of monadic code, the
    functions of \<open>strconv\<close>, \<open>unicode/utf8\<close> and \<open>strings\<close>, and the interfaces: \<open>codec\<close>, \<open>keyed_store\<close>,
    \<open>keyed_limiter\<close>, \<open>retry_insert\<close>. Each is interpreted where the code's model of it stands.
  \<^item> Disasm, Diagnostics, StageExec, Sandbox, Bridge, Engine: internal/engine (disasm.go, diagnostics.go, exec.go,
    sandbox_unix.go, sandbox_other.go, bridge.go, engine.go, summary.go).
  \<^item> Runner, KVLog: runner/fcplay.c (\<open>bridge_call\<close>, \<open>dump_stores\<close>, \<open>limit\<close>) and internal/store/kv.go.
  \<^item> Schedule, Scheduler: internal/scheduler (schedule.go, scheduler.go).
  \<^item> RateLimit, Quota, Apps, AppLogs: ratelimit.go, internal/apps/apps.go, internal/applogs/applogs.go.
  \<^item> Config, Settings: internal/settings/settings.go.
  \<^item> Schema, StoreUsers, StoreFiles, StoreRuns, StoreSettings, Columns, Slugs: the SQL files under internal/db/migrations
    and internal/store, with the statements of each function one by one.
  \<^item> Migrate: internal/db (db.go, migrate.go).
  \<^item> Web, Access, Gate, Api, RunRecords, Deploys, Pages: package main of the server (auth.go, projects.go, files.go,
    versions.go, deployments.go, triggers.go, executions.go, kv.go, internalapi.go, web.go and the routes of main.go).
  \<^item> AdminSite, Overrides: cmd/admin (auth.go, pages.go, applog.go, the routes of main.go).
  \<^item> Startup, Lifecycle: newServerFromEnv, main, the health probes, the background loops and the shutdown of
    both binaries.
  \<^item> Isolation, System, References and this theory: statements that span the components.

  \<^bold>\<open>What is shown.\<close>

  \<^item> The data: every operation of the store keeps the constraints of the schema (\<open>wfdb\<close>: keys and unique columns;
    \<open>refdb\<close>: every foreign key points to a row, whatever a delete cascades along),
    and so does every state that requests, ticks, reloads and restarts can reach (\<open>reachable_integrity\<close>); the project files, the key/value log and the settings are maps under
    write and delete; restoring a version brings its files back; slugs are never given twice.
  \<^item> Access: a change of the database implies a role that allows it, over every route of the JSON API and
    of the pages and whatever statements fail; a request to one project leaves the others alone;
    the role is the documented one; a session is only set for verified claims whose state and nonce match the
    browser, and a cookie vouches for thirty days and cannot be altered without the key; the administration area is
    closed to everyone who is not on the allowlist, which no sequence of requests empties.
  \<^item> Runs: the pipeline always returns and its verdict is that of the stages; no more runs than slots;
    an overrunning stage is killed with everything it started; the decoder never reads out of
    bounds and inverts the image format; both ends of the bridge agree on every call and verdict; no app is called that is
    switched off, no host outside the allowlist is fetched, no quota is exceeded; what a program stores is in the log of
    its project and in no other; a public address runs what was published for it, and when it is pinned to a version no
    edit changes that.
  \<^item> Time: the next run of a trigger is ahead and at its time of day, missed runs are skipped by a loop
    that ends, a tick leaves no trigger due and loses none.
  \<^item> Operation: migrations resume after any interruption and are applied once; a restart keeps the secrets; a rotated
    token, saved settings and saved quotas are in force from the next call on; loading settings is all or nothing;
    a clean shutdown has answered every request.
  \<^item> Where the code does not do what it means to, a theorem shows that too: two administrators can remove each
    other at the same time, a shutdown kills a scheduled run, a daily trigger posted from the form
    panics, a deployment can be deleted without a right on its project, a long status breaks the
    framing of the bridge.

  \<^bold>\<open>Loops, bounds and fuel.\<close> No definition takes fuel. Loops are structural recursion, or recursion with a measure;
    the loop that advances a trigger past the present may run for ever when the interval is so
    long that its duration wraps to zero, so it is a \<open>partial_function\<close> whose value None is not returning, and \<open>AdvancePastNow_interval\<close> shows that it returns for every
    interval the column of the schema can hold. The retries of slugs are bounded by the code (100 and 10). The loops of the
    background goroutines are steps of a relation (Lifecycle, System) or run over a list of ticks
    (Scheduler, Startup). Properties of reachable states are by rule induction, with no bound on the number of steps.

  \<^bold>\<open>Arguments of the model.\<close> Code that is not in the repository appears as arguments with no laws but those a
  theorem names: the identity provider and HMAC-SHA256, \<open>encoding/json\<close>, the tables of package \<open>unicode\<close>, the
  network (mail relay, HTTP, Loki, URL parsing), the file system, random bytes, clocks, the order in which Go ranges over
  a map, the compiler and the virtual machine, and what the SQL of a migration file does.

  \<^bold>\<open>Not modelled.\<close> The HTML templates and the style sheet: a page is the data its template is given. The
  HTTP server of \<open>net/http\<close>: a request is a record and a reply a value; header limits and timeouts of connections are left
  out, and one request is one transition of System (the races the code has between its statements are shown where
  two handlers are interleaved explicitly, as in \<open>removals_race\<close>). Time zones: times are UTC, as the code
  asks for. \<open>float64\<close> in the rate limiter is exact arithmetic on rationals. The flowcode library the runner links and
  the compiler are not in the repository. The administration server has its own copies of some helpers of the
  playground (\<open>queryEscape\<close>, \<open>randomToken\<close>, \<open>newAuth\<close>, \<open>logRequests\<close>); they are the same
  text and are modelled once. The package that opens a scratch database for the Go tests is left out.
\<close>

section \<open>A rotated token is in force\<close>

lemma bearer_header: "tok \<noteq> [] \<Longrightarrow> (7 < length h \<and> take 7 h = ''Bearer '' \<and> drop 7 h = tok) \<longleftrightarrow> h = ''Bearer '' @ tok"
proof (intro iffI)
  assume h: "7 < length h \<and> take 7 h = ''Bearer '' \<and> drop 7 h = tok"
  then have "take 7 h @ drop 7 h = ''Bearer '' @ tok" by (simp only:)
  then show "h = ''Bearer '' @ tok" by (simp only: append_take_drop_id)
qed simp

lemma refreshSettings_clean:
  assumes "faults s = []" and "storedSnapshot D (settingOf s) = Some snap"
  shows "run_state (refreshSettings D cached) (cur, s) =
    ((None, case settingOf s KeyServiceToken of Some tok \<Rightarrow> if tok \<noteq> [] then Some tok else cached | None \<Rightarrow> cached), (snap, s))"
  using assms by (auto simp: refreshSettings_def Load_clean onStore_def GetSetting_clean split: option.split)

text \<open>
  C13: a rotated service token replaces the old one everywhere. After the administrator's rotation the
  database holds the new token and no other setting has changed; the reload endpoint of the app
  refuses every request that does not carry exactly the new token, and one that does installs the
  stored settings and swaps the cached token; from then on the JSON API takes the new token for a
  service call and no other.
\<close>

theorem rotation_in_force:
  assumes "faults s = []" and "storedSnapshot D (settingOf s) = Some snap" and "tokenBytes W = Inr raw" and "raw \<noteq> []"
    and "headerOf req ''Authorization'' = ''Bearer '' @ hex_encode raw"
    and "headerOf stale ''Authorization'' \<noteq> ''Bearer '' @ hex_encode raw"
  shows "\<exists>reply s'. run_state (handleAdminRotateServiceToken W) (asnap, s) = (reply, (asnap, s')) \<and>
    settingOf s' = (settingOf s)(KeyServiceToken \<mapsto> hex_encode raw) \<and>
    run_state (handleInternalReload D U stale cached) (cur, s') =
      ((JSON 403 (ErrorBody ''invalid service token''), cached), (cur, s')) \<and>
    run_state (handleInternalReload D U req cached) (cur, s') =
      ((JSON 200 (StatusBody ''reloaded''), Some (hex_encode raw)), (snap, s')) \<and>
    bearerOK (w\<lparr>serviceToken := Some (hex_encode raw)\<rparr>) req \<and> \<not> bearerOK (w\<lparr>serviceToken := Some (hex_encode raw)\<rparr>) stale"
proof -
  let ?tok = "hex_encode raw"
  have tok: "?tok \<noteq> []" using assms(4) length_hex_encode [of raw] by (metis length_0_conv mult_eq_0_iff zero_neq_numeral)
  have "hasRef uId (users s) (if 0 < (0 :: int) then Some 0 else None)" by (simp add: hasRef_def)
  from PutSetting_clean [OF assms(1) this, of KeyServiceToken ?tok] obtain s'
    where p: "run_state (PutSetting KeyServiceToken ?tok 0) s = (Inr (), s')" "faults s' = []"
      "settingOf s' = (settingOf s)(KeyServiceToken \<mapsto> ?tok)" by metis
  have "run_state (RotateInternal KeyServiceToken (tokenBytes W)) s = (Inr ?tok, s')"
    using p(1) by (simp add: RotateInternal_def assms(3) run_andThen)
  then have rot: "\<exists>reply. run_state (handleAdminRotateServiceToken W) (asnap, s) = (reply, (asnap, s'))"
    by (simp add: handleAdminRotateServiceToken_def onStore_def adminOk_def Let_def)
  have snap: "storedSnapshot D (settingOf s') = Some snap"
    using assms(2) by (simp add: storedSnapshot_def p(3) groupOf_other key_defs)
  have token: "settingOf s' KeyServiceToken = Some ?tok" by (simp add: p(3))
  have no: "run_state (handleInternalReload D U stale cached) (cur, s') = ((JSON 403 (ErrorBody ''invalid service token''), cached), (cur, s'))"
    using bearer_header [OF tok, of "headerOf stale ''Authorization''"] assms(6)
    by (auto simp: handleInternalReload_def onStore_def GetSetting_clean p(2) token Let_def)
  have yes: "run_state (handleInternalReload D U req cached) (cur, s') = ((JSON 200 (StatusBody ''reloaded''), Some ?tok), (snap, s'))"
    using bearer_header [OF tok, of "headerOf req ''Authorization''"] assms(5) tok
    by (simp add: handleInternalReload_def onStore_def GetSetting_clean p(2) token refreshSettings_clean [OF p(2) snap])
  have "bearerOK (w\<lparr>serviceToken := Some ?tok\<rparr>) req" "\<not> bearerOK (w\<lparr>serviceToken := Some ?tok\<rparr>) stale"
    using tok bearer_header [OF tok, of "headerOf req ''Authorization''"] bearer_header [OF tok, of "headerOf stale ''Authorization''"] assms(5,6)
    by (auto simp: bearerOK_def Let_def)
  with rot no yes p(3) show ?thesis by blast
qed

section \<open>Saved settings bind the calls of the programs\<close>

text \<open>The HTTP settings a posted form stands for.\<close>

definition postedHTTP :: "HTTP \<Rightarrow> request \<Rightarrow> HTTP" where
  "postedHTTP old req = old\<lparr>HTTPEnabled := (formValue req ''enabled'' = ''on''),
     AllowedDomains := splitLines (formValue req ''allowedDomains''),
     TimeoutSeconds := formInt req ''timeoutSeconds'' (TimeoutSeconds old),
     ResponseCapBytes := formInt req ''responseCapBytes'' (ResponseCapBytes old)\<rparr>"

text \<open>What the saved form says of the requests of one call, in the order they leave.\<close>

definition boundBy :: "request \<Rightarrow> unicode \<Rightarrow> outside \<Rightarrow> http_request list \<Rightarrow> bool" where
  "boundBy req U out rs \<longleftrightarrow>
     (case rs of
        [] \<Rightarrow> True
      | first # others \<Rightarrow>
          formValue req ''enabled'' = ''on'' \<and> length others \<le> 9 \<and> successively (redirects out) rs \<and>
          (\<exists>scheme host. parseURL out (URL first) = Some (scheme, host) \<and> (scheme = ''http'' \<or> scheme = ''https'') \<and>
             (splitLines (formValue req ''allowedDomains'') = [] \<or>
              domainAllowed U host (splitLines (formValue req ''allowedDomains'')))))"

lemma fetch_posted:
  assumes "Call U cenv snap actor name ps token st = ((out, err, es), st')" and "HTTPCfg snap = postedHTTP old req"
  shows "boundBy req U (net cenv) (requestsIn es)"
proof -
  have es: "es = fst (fst (snd (snd (dispatch U (net cenv) snap actor name ps token (wins st)))))"
    using assms(1) by (auto simp: Call_eq Let_def split: sum.splits)
  have on: "HTTPEnabled (HTTPCfg snap)" if "Fetch r \<in> set es" for r
    using dispatch_effects [of "Fetch r" U "net cenv" snap actor name ps token "wins st", folded es] that by blast
  show ?thesis
  proof (cases "requestsIn es")
    case (Cons first others)
    then have "Fetch first \<in> set es" using requestsIn_iff [of first es] by simp
    with on Cons dispatch_requests [of U "net cenv" snap actor name ps token "wins st", folded es] show ?thesis
      by (auto simp: boundBy_def gatedRequests_def mayFetch_def assms(2) postedHTTP_def)
  qed (simp add: boundBy_def)
qed

text \<open>
  C14: what an administrator saves binds the programs. When the posted HTTP settings encode to a text
  that decodes back to them, the save stores them and leaves every other group alone; the next
  refresh of the app installs exactly the stored groups with the new one; and from then on a program's
  call makes a request only if the form had the app enabled, and the first one goes, over http or
  https, only to a host on the list of domains the form named, when it named any. The list does not
  bind the requests that follow it: each goes where the answer to the one before redirected, and
  there are at most nine of them.
\<close>

theorem saved_http_binds:
  assumes "faults s = []" and "storedSnapshot (codec W) (settingOf s) = Some stored"
    and "encHTTP W (postedHTTP (HTTPCfg asnap) req) = Inr raw" and "raw \<noteq> []"
    and "decHTTP (codec W) raw (HTTPCfg defaults) = (None, postedHTTP (HTTPCfg asnap) req)"
    and "new = stored\<lparr>HTTPCfg := postedHTTP (HTTPCfg asnap) req\<rparr>"
  shows "\<exists>reply s'. run_state (handleAdminHTTPSave W req) (asnap, s) = (reply, (new, s')) \<and>
    settingOf s' = (settingOf s)(KeyHTTP \<mapsto> raw) \<and>
    (\<forall>cached cur. \<exists>cached'. run_state (refreshSettings (codec W) cached) (cur, s') = ((None, cached'), (new, s'))) \<and>
    (\<forall>U cenv actor name ps token st out err es st'.
       Call U cenv new actor name ps token st = ((out, err, es), st') \<longrightarrow> boundBy req U (net cenv) (requestsIn es))"
proof -
  let ?h = "postedHTTP (HTTPCfg asnap) req"
  have snap: "storedSnapshot (codec W) ((settingOf s)(KeyHTTP \<mapsto> raw)) = Some new"
    using assms(2,4,5) unfolding assms(6)
    by (auto simp: storedSnapshot_def groupOf_other key_defs bind_eq_Some_conv) (simp add: groupOf_def)
  have ref: "hasRef uId (users s) (if 0 < (0 :: int) then Some 0 else None)" by (simp add: hasRef_def)
  obtain s' where s': "run_state (SaveGroup (codec W) (encHTTP W) KeyHTTP ?h 0) (asnap, s) = (None, (new, s'))" "faults s' = []"
    "settingOf s' = (settingOf s)(KeyHTTP \<mapsto> raw)"
    by (rule SaveGroup_clean [where key = KeyHTTP and v = ?h and enc = "encHTTP W" and cur = asnap, OF assms(1) ref assms(3) snap])
  have told: "\<exists>n. run_state (notifyAppReload W) (new, s') = (n, (new, s'))"
    by (auto simp: notifyAppReload_def onStore_def GetSetting_clean s'(2))
  have save: "\<exists>reply. run_state (handleAdminHTTPSave W req) (asnap, s) = (reply, (new, s'))"
    using s'(1) told unfolding postedHTTP_def
    by (auto simp: handleAdminHTTPSave_def saveGroup_def Current_def adminOk_def Let_def)
  have "\<exists>cached'. run_state (refreshSettings (codec W) cached) (cur, s') = ((None, cached'), (new, s'))" for cached cur
    using refreshSettings_clean [OF s'(2), of "codec W" new] snap by (simp add: s'(3))
  moreover have "boundBy req U (net cenv) (requestsIn es)"
    if "Call U cenv new actor name ps token st = ((out, err, es), st')" for U cenv actor name ps token st out err es st'
    using fetch_posted [OF that, of "HTTPCfg asnap" req] assms(6) by simp
  ultimately show ?thesis using save s'(3) by meson
qed

text \<open>The token is rotated to the bytes of \<open>k\<close>; the old one is \<open>token\<close>.\<close>

definition carrying :: "string \<Rightarrow> request" where
  "carrying tok = (requestBy 1 [])\<lparr>headerOf := (\<lambda>_. ''Bearer '' @ tok)\<rparr>"

theorem rotation_in_force_witness:
  "\<exists>reply s'. run_state (handleAdminRotateServiceToken (sampleAdmin\<lparr>tokenBytes := Inr ''k''\<rparr>)) (defaults, emptyDB) = (reply, (defaults, s')) \<and>
     settingOf s' KeyServiceToken = Some ''6b'' \<and>
     run_state (handleInternalReload mailDecoders plainTables (carrying ''token'') (Some ''token'')) (defaults, s') =
       ((JSON 403 (ErrorBody ''invalid service token''), Some ''token''), (defaults, s')) \<and>
     run_state (handleInternalReload mailDecoders plainTables (carrying ''6b'') (Some ''token'')) (defaults, s') =
       ((JSON 200 (StatusBody ''reloaded''), Some ''6b''), (defaults, s')) \<and>
     bearerOK (sampleWorld\<lparr>serviceToken := Some ''6b''\<rparr>) (carrying ''6b'')"
proof -
  have h: "hex_encode ''k'' = ''6b''" by (simp add: hex_encode_def hex_byte_def hex_digit_def)
  have "storedSnapshot mailDecoders (settingOf emptyDB) = Some defaults" "faults emptyDB = []"
    by (simp_all add: storedSnapshot_def groupOf_def settingOf_def emptyDB_def)
  moreover have "headerOf (carrying ''6b'') ''Authorization'' = ''Bearer '' @ hex_encode ''k''"
    "headerOf (carrying ''token'') ''Authorization'' \<noteq> ''Bearer '' @ hex_encode ''k''"
    by (simp_all add: carrying_def h)
  ultimately show ?thesis
    using rotation_in_force [of emptyDB mailDecoders defaults "sampleAdmin\<lparr>tokenBytes := Inr ''k''\<rparr>" "''k''" "carrying ''6b''"
        "carrying ''token''" defaults plainTables "Some ''token''" defaults sampleWorld]
    unfolding h by fastforce
qed

text \<open>The form leaves the HTTP app disabled; a program's fetch goes nowhere after the refresh.\<close>

definition switchOff :: adminWorld where
  "switchOff = sampleAdmin\<lparr>encHTTP := (\<lambda>_. Inr ''off''),
     codec := mailDecoders\<lparr>decHTTP := (\<lambda>raw h. (None, postedHTTP (HTTPCfg defaults) (requestBy 1 [])))\<rparr>\<rparr>"

theorem saved_http_binds_witness:
  "\<exists>reply s' new. run_state (handleAdminHTTPSave switchOff (requestBy 1 [])) (defaults, emptyDB) = (reply, (new, s')) \<and>
     settingOf s' KeyHTTP = Some ''off'' \<and>
     (\<forall>cached. \<exists>cached'. run_state (refreshSettings (codec switchOff) cached) (defaults, s') = ((None, cached'), (new, s'))) \<and>
     (\<exists>out err es st'. Call plainTables sampleEnv new sampleActor ''UrlFetchApp.fetch'' [] ''http://a/'' freshService = ((out, err, es), st') \<and>
        (\<forall>r. Fetch r \<notin> set es))"
proof -
  let ?new = "defaults\<lparr>HTTPCfg := postedHTTP (HTTPCfg defaults) (requestBy 1 [])\<rparr>"
  have a: "storedSnapshot (codec switchOff) (settingOf emptyDB) = Some defaults" "faults emptyDB = []"
    by (simp_all add: storedSnapshot_def groupOf_def settingOf_def emptyDB_def switchOff_def mailDecoders_def)
  have b: "encHTTP switchOff (postedHTTP (HTTPCfg defaults) (requestBy 1 [])) = Inr ''off''"
    "decHTTP (codec switchOff) ''off'' (HTTPCfg defaults) = (None, postedHTTP (HTTPCfg defaults) (requestBy 1 []))"
    by (simp_all add: switchOff_def)
  have off: "formValue (requestBy 1 []) ''enabled'' \<noteq> ''on''" by (simp add: requestBy_def)
  obtain out err es st' where c:
    "Call plainTables sampleEnv ?new sampleActor ''UrlFetchApp.fetch'' [] ''http://a/'' freshService = ((out, err, es), st')"
    by (cases "Call plainTables sampleEnv ?new sampleActor ''UrlFetchApp.fetch'' [] ''http://a/'' freshService") auto
  have ne: "''off'' \<noteq> []" by simp
  from saved_http_binds [OF a(2,1) b(1) ne b(2) refl] obtain reply s'
    where s': "run_state (handleAdminHTTPSave switchOff (requestBy 1 [])) (defaults, emptyDB) = (reply, (?new, s'))"
      "settingOf s' = (settingOf emptyDB)(KeyHTTP \<mapsto> ''off'')"
      "\<forall>cached cur. \<exists>cached'. run_state (refreshSettings (codec switchOff) cached) (cur, s') = ((None, cached'), (?new, s'))"
      and bound: "\<forall>U cenv actor name ps token st out err es st'. Call U cenv ?new actor name ps token st = ((out, err, es), st') \<longrightarrow>
        boundBy (requestBy 1 []) U (net cenv) (requestsIn es)"
    by (elim exE conjE) (rule that; assumption)
  have "requestsIn es = []" using bound [rule_format, OF c] off by (auto simp: boundBy_def split: list.splits)
  then have quiet: "Fetch r \<notin> set es" for r using requestsIn_iff [of r es] by simp
  have key: "settingOf s' KeyHTTP = Some ''off''" by (simp only: s'(2) fun_upd_same)
  from c quiet have "\<exists>out err es st'. Call plainTables sampleEnv ?new sampleActor ''UrlFetchApp.fetch'' [] ''http://a/'' freshService =
      ((out, err, es), st') \<and> (\<forall>r. Fetch r \<notin> set es)" by blast
  moreover have "\<forall>cached. \<exists>cached'. run_state (refreshSettings (codec switchOff) cached) (defaults, s') = ((None, cached'), (?new, s'))"
    using s'(3) by simp
  ultimately show ?thesis using s'(1) key by (iprover intro: exI [of _ reply] exI [of _ s'] exI [of _ ?new] conjI)
qed

section \<open>What a program stores is in its project's log\<close>

text \<open>
  C7: what a program stores reaches the log of its project and no other. Assume that no key the program
  stored contains a quote, that the trace it wrote before the runner's dump of its store has no line with the word
  \<open>store\<close>, nor has the prefix of the runner's lines, and that the run has ended with the dump of the whole
  store. Once the run is recorded, the log of the project has for every key the program stored what the
  dump shows of the final value (\<open>shown\<close>: its first 512 bytes, dots where it was longer, apostrophes for the
  quotes and blanks for the control characters); each other key keeps the value it had, and so does every
  other project.
\<close>

theorem run_stores_recorded:
  assumes "ready s" and "\<And>xs. mset (rangeOrder w xs) = mset xs" and "resRun res = Some run"
    and "Stderr run = traceOf before pre (dump_stores state [] args)"
    and "\<And>key. key \<in> storeKeys args \<Longrightarrow> quote \<notin> set key" and "quiet pre" and "calm before"
    and "run_state (recordExecution w p f v src d t actor (Some res) e) s = (Inr x, s')"
  shows "kvOf s' (wpId p) key =
      (case (if key \<in> storeKeys args then state key else None) of Some val \<Rightarrow> Some (shown val) | None \<Rightarrow> kvOf s (wpId p) key) \<and>
    (q \<noteq> wpId p \<longrightarrow> kvOf s' q = kvOf s q)"
  using recordExecution_kv [OF assms(1,2,8)] trace_extracted [OF assms(5-7), where state = state]
  by (auto simp: assms(3,4) map_add_def split: option.split)

definition storedRun :: Result where
  "storedRun = dumpRun\<lparr>resRun := Some \<lparr>ExitCode = 0, Stdout = [],
     Stderr = traceOf (''vm starting'' @ [CHR 0x0A]) ''[flowcode:INFO] '' (dump_stores [''k'' \<mapsto> ''v''] [] [''k'', ''j'']),
     TimedOut = False, DurationMs = 1, Truncated = False, Error = []\<rparr>\<rparr>"

definition sampleProject :: WSProject where
  "sampleProject = \<lparr>wpId = 1, wpWorkspace = 1, wpCreatedBy = 2, wpSlug = ''p'', wpName = ''P'',
     wpDescription = [], wpCreatedAt = [], wpUpdatedAt = []\<rparr>"

theorem run_stores_recorded_witness:
  "\<exists>x s'. run_state (recordExecution sampleWorld sampleProject None None ''project-run'' None None None (Some storedRun) None) teamDB
     = (Inr x, s') \<and> kvOf s' 1 ''k'' = Some ''v'' \<and> kvOf s' 1 ''j'' = kvOf teamDB 1 ''j'' \<and> kvOf s' 2 = kvOf teamDB 2"
proof -
  obtain r s' where run: "run_state (recordExecution sampleWorld sampleProject None None ''project-run'' None None None (Some storedRun) None) teamDB
      = (r, s')"
    by (cases "run_state (recordExecution sampleWorld sampleProject None None ''project-run'' None None None (Some storedRun) None) teamDB")
  have o: "mset (rangeOrder sampleWorld xs) = mset xs" for xs by (simp add: sampleWorld_def)
  have "\<exists>x. r = Inr x"
    using run by (auto simp: recordExecution_def Let_def run_andThen RecordWSSExecution_def run_orWrap insertExecution_def exec_clean
        GetWSExecution_def query_clean row_def wrap_def executionFields_def Summary_def dumpRun_def storedRun_def teamDB_def emptyDB_def
        hasId_def hasRef_def fits_def int4_def sampleProject_def callRows_def upsertKVs_fold split: prod.splits)
  then obtain x where x: "r = Inr x" ..
  obtain st where st: "resRun storedRun = Some st"
    "Stderr st = traceOf (''vm starting'' @ [CHR 0x0A]) ''[flowcode:INFO] '' (dump_stores [''k'' \<mapsto> ''v''] [] [''k'', ''j''])"
    by (simp add: storedRun_def)
  have k: "storeKeys [''k'', ''j''] = {''k'', ''j''}"
    by (simp add: storeKeys_Nil storeKeys_Cons storeKey_def cstr_def is_synthetic_store_key_def)
  have q: "quote \<notin> set key" if "key \<in> storeKeys [''k'', ''j'']" for key using that unfolding k by (auto simp: quote_def)
  have l: "quiet ''[flowcode:INFO] ''" "calm (''vm starting'' @ [CHR 0x0A])"
    by (simp_all add: quiet_def calm_def letter_ci_def upt_rec)
  note stored = run_stores_recorded [OF ready_teamDB o st q l run [unfolded x]]
  have "shown ''v'' = ''v''" by (simp add: shown_def sanitized_def valueDisplay_def quote_def)
  with stored [of "''k''" 2] stored [of "''j''" 2] run x show ?thesis by (auto simp: k sampleProject_def)
qed

end
